(* ===== verification/Prelude.thy ===== *)
theory Prelude
  imports Main "HOL-Library.Char_ord" "HOL-Library.List_Lexorder" "HOL-Library.Word"
    "HOL-Library.Code_Target_Nat"
begin

section \<open>Shared library of the wgmesh development\<close>

text \<open>
  The types, combinators and lemmas every component shares: the result type of Go
  functions that return an error, the SQL statements the store issues (rows inserted
  under the next rowid, updated or deleted by a WHERE predicate), and the facts on
  lists that carry uniqueness and ordering through those statements. Go strings are
  byte strings, so a Go \<open>string\<close> is an Isabelle \<^typ>\<open>string\<close> (a list of 8-bit
  characters) and \<open><\<close> on them is the byte-wise lexicographic order of Go and of
  SQLite's BINARY collation.
\<close>

named_theorems go_simps \<open>equations and iff-rules for results and SQL statements\<close>
named_theorems sql_intros \<open>introduction rules that carry table invariants through statements\<close>

subsection \<open>Results: a value or an error\<close>

text \<open>
  A Go function returning \<open>(T, error)\<close> is modelled by \<open>'e + 'a\<close>: \<open>Inl\<close> is the
  error. \<open>bindE\<close> is the \<open>if err != nil { return err }\<close> idiom, \<open>ensureE\<close> a
  guard with an early error return.
\<close>

definition bindE :: "'e + 'a \<Rightarrow> ('a \<Rightarrow> 'e + 'b) \<Rightarrow> 'e + 'b" where
  "bindE m f = (case m of Inl e \<Rightarrow> Inl e | Inr x \<Rightarrow> f x)"

definition ensureE :: "bool \<Rightarrow> 'e \<Rightarrow> 'e + 'b \<Rightarrow> 'e + 'b" where
  "ensureE c e k = (if c then k else Inl e)"

lemma bindE_Inl [simp]: "bindE (Inl e) f = Inl e"
  by (simp add: bindE_def)

lemma bindE_Inr [simp]: "bindE (Inr x) f = f x"
  by (simp add: bindE_def)

lemma bindE_eq_Inr [go_simps]: "bindE m f = Inr y \<longleftrightarrow> (\<exists>x. m = Inr x \<and> f x = Inr y)"
  by (cases m) auto

lemma bindE_eq_Inl [go_simps]:
  "bindE m f = Inl e \<longleftrightarrow> m = Inl e \<or> (\<exists>x. m = Inr x \<and> f x = Inl e)"
  by (cases m) auto

lemma ensureE_True [simp]: "ensureE True e k = k"
  by (simp add: ensureE_def)

lemma ensureE_False [simp]: "ensureE False e k = Inl e"
  by (simp add: ensureE_def)

lemma ensureE_eq_Inr [go_simps]: "ensureE c e k = Inr y \<longleftrightarrow> c \<and> k = Inr y"
  by (simp add: ensureE_def)

lemma ensureE_eq_Inl [go_simps]: "ensureE c e k = Inl d \<longleftrightarrow> (\<not> c \<and> d = e) \<or> (c \<and> k = Inl d)"
  by (auto simp: ensureE_def)

text \<open>
  \<open>foldE\<close> is a \<open>for range\<close> loop whose body may fail: it stops at the first error.
\<close>

fun foldE :: "('a \<Rightarrow> 's \<Rightarrow> 'e + 's) \<Rightarrow> 'a list \<Rightarrow> 's \<Rightarrow> 'e + 's" where
  "foldE f [] s = Inr s"
| "foldE f (x # xs) s = bindE (f x s) (foldE f xs)"

lemma foldE_append: "foldE f (xs @ ys) s = bindE (foldE f xs s) (foldE f ys)"
  by (induction xs arbitrary: s) (auto simp: bindE_def split: sum.split)

lemma foldE_invariant:
  assumes "foldE f xs s = Inr s'" and "P s"
    and "\<And>x s s'. x \<in> set xs \<Longrightarrow> P s \<Longrightarrow> f x s = Inr s' \<Longrightarrow> P s'"
  shows "P s'"
  using assms
proof (induction xs arbitrary: s)
  case Nil
  then show ?case by simp
next
  case (Cons x xs)
  from Cons.prems(1) obtain t where "f x s = Inr t" and t: "foldE f xs t = Inr s'"
    by (auto simp: go_simps)
  with Cons.prems(2,3) have "P t" by (meson list.set_intros(1))
  with t Cons.prems(3) show ?case by (intro Cons.IH) auto
qed

lemma foldE_total:
  assumes "P s" and "\<And>x s. x \<in> set xs \<Longrightarrow> P s \<Longrightarrow> \<exists>s'. f x s = Inr s' \<and> P s'"
  shows "\<exists>s'. foldE f xs s = Inr s' \<and> P s'"
  using assms
proof (induction xs arbitrary: s)
  case (Cons x xs)
  from Cons.prems(2) [of x s] Cons.prems(1) obtain t where t: "f x s = Inr t" "P t" by auto
  from Cons.IH [OF t(2)] Cons.prems(2) obtain u where "foldE f xs t = Inr u" "P u" by auto
  with t show ?case by simp
qed simp

text \<open>A quantity to which every iteration adds its own share.\<close>

lemma foldE_sum:
  fixes m :: "'s \<Rightarrow> 'n::comm_monoid_add"
  assumes "foldE f xs s = Inr s'" and "P s"
    and "\<And>x s s'. x \<in> set xs \<Longrightarrow> P s \<Longrightarrow> f x s = Inr s' \<Longrightarrow> P s' \<and> m s' = m s + g x"
  shows "m s' = m s + sum_list (map g xs)"
  using assms
proof (induction xs arbitrary: s)
  case (Cons x xs)
  from Cons.prems(1) obtain t where t: "f x s = Inr t" "foldE f xs t = Inr s'"
    by (auto simp: go_simps)
  from Cons.prems(3) [OF _ Cons.prems(2) t(1)] have p: "P t" "m t = m s + g x" by auto
  have "m s' = m t + sum_list (map g xs)"
    by (rule Cons.IH [OF t(2) p(1)]) (rule Cons.prems(3), auto)
  with p(2) show ?case by (simp add: add.assoc)
qed simp

subsection \<open>Statements on tables\<close>

text \<open>
  A table is the list of its rows in rowid order. \<open>update_where\<close> is
  \<open>UPDATE t SET f WHERE P\<close>, \<open>rows_affected\<close> its \<open>RowsAffected()\<close>. An
  \<open>INTEGER PRIMARY KEY\<close> column without AUTOINCREMENT gets one more than the largest
  rowid in the table, 1 in an empty table (\<open>next_rowid\<close>).
\<close>

definition update_where :: "('r \<Rightarrow> bool) \<Rightarrow> ('r \<Rightarrow> 'r) \<Rightarrow> 'r list \<Rightarrow> 'r list" where
  "update_where P f rows = map (\<lambda>r. if P r then f r else r) rows"

definition delete_where :: "('r \<Rightarrow> bool) \<Rightarrow> 'r list \<Rightarrow> 'r list" where
  "delete_where P rows = filter (\<lambda>r. \<not> P r) rows"

definition rows_affected :: "('r \<Rightarrow> bool) \<Rightarrow> 'r list \<Rightarrow> nat" where
  "rows_affected P rows = length (filter P rows)"

definition next_rowid :: "int list \<Rightarrow> int" where
  "next_rowid ids = foldr max ids 0 + 1"

lemma foldr_max_ge: "x \<in> set xs \<Longrightarrow> (x::int) \<le> foldr max xs b"
  by (induction xs) auto

lemma foldr_max_base: "(b::int) \<le> foldr max xs b"
  by (induction xs) auto

lemma next_rowid_fresh: "next_rowid ids \<notin> set ids"
proof
  assume "next_rowid ids \<in> set ids"
  then have "next_rowid ids \<le> foldr max ids 0" by (rule foldr_max_ge)
  then show False by (simp add: next_rowid_def)
qed

lemma next_rowid_pos: "0 < next_rowid ids"
  using foldr_max_base [of 0 ids] by (simp add: next_rowid_def)

lemma next_rowid_greater: "i \<in> set ids \<Longrightarrow> i < next_rowid ids"
  using foldr_max_ge [of i ids 0] by (simp add: next_rowid_def)

lemma set_update_where [go_simps]:
  "set (update_where P f rows) = {r \<in> set rows. \<not> P r} \<union> f ` {r \<in> set rows. P r}"
  by (auto simp: update_where_def)

lemma map_update_where:
  "(\<And>r. r \<in> set rows \<Longrightarrow> P r \<Longrightarrow> k (f r) = k r) \<Longrightarrow> map k (update_where P f rows) = map k rows"
  by (auto simp: update_where_def)

lemma length_update_where [simp]: "length (update_where P f rows) = length rows"
  by (simp add: update_where_def)

lemma update_where_none: "rows_affected P rows = 0 \<Longrightarrow> update_where P f rows = rows"
  by (auto simp: update_where_def rows_affected_def filter_empty_conv intro: map_idI)

lemma rows_affected_zero_iff [go_simps]: "rows_affected P rows = 0 \<longleftrightarrow> (\<forall>r \<in> set rows. \<not> P r)"
  by (auto simp: rows_affected_def filter_empty_conv)

lemma rows_affected_pos_iff [go_simps]: "0 < rows_affected P rows \<longleftrightarrow> (\<exists>r \<in> set rows. P r)"
  by (auto simp: rows_affected_def filter_empty_conv)

lemma set_delete_where [go_simps]: "set (delete_where P rows) = {r \<in> set rows. \<not> P r}"
  by (auto simp: delete_where_def)

lemma distinct_delete_where: "distinct (map k rows) \<Longrightarrow> distinct (map k (delete_where P rows))"
  by (simp add: delete_where_def distinct_map_filter)

subsection \<open>Unique columns\<close>

lemma distinct_map_eqD:
  "distinct (map k xs) \<Longrightarrow> x \<in> set xs \<Longrightarrow> y \<in> set xs \<Longrightarrow> k x = k y \<Longrightarrow> x = y"
  by (metis distinct_map inj_on_def)

lemma find_conj: "List.find P xs = Some x \<Longrightarrow> Q x \<Longrightarrow> List.find (\<lambda>y. P y \<and> Q y) xs = Some x"
  by (induction xs) (auto split: if_splits)

lemma find_app: "List.find P xs = Some x \<Longrightarrow> List.find P (xs @ ys) = Some x"
  by (induction xs) (auto split: if_splits)

lemma find_unique:
  assumes "distinct (map k xs)" and "x \<in> set xs"
  shows "List.find (\<lambda>y. k y = k x) xs = Some x"
  using assms by (induction xs) auto

lemma find_Some_mem: "List.find P xs = Some x \<Longrightarrow> x \<in> set xs \<and> P x"
  by (metis find_Some_iff nth_mem)

lemma find_None_all: "List.find P xs = None \<longleftrightarrow> (\<forall>x \<in> set xs. \<not> P x)"
  by (auto simp: find_None_iff)

text \<open>
  The values of a nullable column that are present: a SQLite UNIQUE index does not
  constrain NULLs, so uniqueness of such a column is \<open>distinct (col k rows)\<close>.
\<close>

definition col :: "('r \<Rightarrow> 'v option) \<Rightarrow> 'r list \<Rightarrow> 'v list" where
  "col k rows = List.map_filter k rows"

lemma set_col [go_simps]: "v \<in> set (col k rows) \<longleftrightarrow> (\<exists>r \<in> set rows. k r = Some v)"
  by (force simp: col_def map_filter_def image_iff)

lemma col_Nil [simp]: "col k [] = []"
  by (simp add: col_def)

lemma col_Cons: "col k (r # rows) = (case k r of None \<Rightarrow> col k rows | Some v \<Rightarrow> v # col k rows)"
  by (simp add: col_def map_filter_def split: option.split)

lemma col_append [simp]: "col k (xs @ ys) = col k xs @ col k ys"
  by (induction xs) (auto simp: col_Cons split: option.split)

lemma col_conv: "col k rows = concat (map (\<lambda>v. case v of None \<Rightarrow> [] | Some x \<Rightarrow> [x]) (map k rows))"
  by (induction rows) (auto simp: col_Cons split: option.split)

lemma col_cong: "map k xs = map h ys \<Longrightarrow> col k xs = col h ys"
  by (simp only: col_conv)

lemma distinct_col_delete: "distinct (col k rows) \<Longrightarrow> distinct (col k (delete_where P rows))"
proof (induction rows)
  case Nil
  then show ?case by (simp add: delete_where_def)
next
  case (Cons r rows)
  then show ?case
    by (cases "k r") (auto simp: col_Cons delete_where_def set_col split: if_splits)
qed

text \<open>A present value of a unique nullable column identifies its row.\<close>

lemma distinct_col_eqD:
  assumes "distinct (col k rows)" and "distinct (map j rows)"
    and "x \<in> set rows" and "y \<in> set rows" and "k x = Some v" and "k y = Some v"
  shows "x = y"
  using assms
proof (induction rows)
  case Nil
  then show ?case by simp
next
  case (Cons r rows)
  have no: "\<And>z. z \<in> set rows \<Longrightarrow> k z = Some v \<Longrightarrow> k r \<noteq> Some v"
    using Cons.prems(1) by (auto simp: col_Cons set_col split: option.splits)
  from Cons.prems(1) have "distinct (col k rows)"
    by (auto simp: col_Cons split: option.splits)
  with Cons no show ?case by auto
qed

subsection \<open>Sorted keys\<close>

lemma strict_sorted_snoc:
  "sorted_wrt (<) (xs @ [x]) \<longleftrightarrow> sorted_wrt (<) xs \<and> (\<forall>y \<in> set xs. (y::'a::linorder) < x)"
  by (auto simp: sorted_wrt_append)

lemma sort_key_id:
  assumes "sorted_wrt (<) (map (k :: 'a \<Rightarrow> 'b::linorder) xs)"
  shows "sort_key k xs = xs"
  using assms
proof (induction xs)
  case Nil
  then show ?case by simp
next
  case (Cons x xs)
  then show ?case by (cases xs) auto
qed

end
