(* ===== verification/GoStrings.thy ===== *)
theory GoStrings
  imports Prelude
begin

section \<open>The parts of Go's string library the program uses\<close>

text \<open>
  Byte-level models of \<open>strings.TrimSpace\<close>, \<open>ToLower\<close>, \<open>Split\<close>, \<open>Join\<close>,
  \<open>TrimSuffix\<close>, of decimal and hexadecimal printing and of unpadded base64url. White
  space is Unicode white space in its UTF-8 encoding, as \<open>TrimSpace\<close> has it.

\<close>

abbreviation byte :: "nat \<Rightarrow> char" where
  "byte n \<equiv> char_of n"

abbreviation code :: "char \<Rightarrow> nat" where
  "code c \<equiv> of_char c"

subsection \<open>TrimSpace, ToLower, TrimSuffix\<close>

definition space_codes :: "string list" where
  "space_codes =
     map (\<lambda>n. [byte n]) [9, 10, 11, 12, 13, 32] @
     map (map byte) [[194, 133], [194, 160], [225, 154, 128]] @
     map (\<lambda>n. map byte [226, 128, n]) ([128..<139] @ [168, 169, 175]) @
     map (map byte) [[226, 129, 159], [227, 128, 128]]"

function trim_left :: "string \<Rightarrow> string" where
  "trim_left s =
     (case List.find (\<lambda>w. w \<noteq> [] \<and> take (length w) s = w) space_codes of
        None \<Rightarrow> s | Some w \<Rightarrow> trim_left (drop (length w) s))"
  by pat_completeness auto
termination
proof (relation "measure length", goal_cases)
  case 1
  show ?case by simp
next
  case (2 s w)
  then have "w \<noteq> []" and "take (length w) s = w"
    by (auto dest: find_Some_mem)
  then show ?case by (cases s; cases w) auto
qed

declare trim_left.simps [simp del]

text \<open>A trailing encoding of a space is a leading one of the reversed string.\<close>

function trim_right :: "string \<Rightarrow> string" where
  "trim_right s =
     (case List.find (\<lambda>w. w \<noteq> [] \<and> drop (length s - length w) s = w) space_codes of
        None \<Rightarrow> s | Some w \<Rightarrow> trim_right (take (length s - length w) s))"
  by pat_completeness auto
termination
proof (relation "measure length", goal_cases)
  case 1
  show ?case by simp
next
  case (2 s w)
  then have w: "w \<noteq> []" and d: "drop (length s - length w) s = w"
    by (auto dest: find_Some_mem)
  have "s \<noteq> []" using w d by auto
  with w show ?case by (cases s; cases w) auto
qed

declare trim_right.simps [simp del]

definition TrimSpace :: "string \<Rightarrow> string" where
  "TrimSpace s = trim_right (trim_left s)"

definition lower_char :: "char \<Rightarrow> char" where
  "lower_char c = (if 65 \<le> code c \<and> code c \<le> 90 then byte (code c + 32) else c)"

text \<open>
  \<open>strings.ToLower\<close>: the two code points outside ASCII whose lower case is an ASCII
  letter (U+0130 and U+212A) are mapped as well; every other non-ASCII sequence stays
  outside ASCII and is left as it is.
\<close>

fun ToLower :: "string \<Rightarrow> string" where
  "ToLower [] = []"
| "ToLower (c # s) =
     (if code c = 196 \<and> s \<noteq> [] \<and> code (hd s) = 176 then CHR ''i'' # ToLower (tl s)
      else if code c = 226 \<and> 2 \<le> length s \<and> code (hd s) = 132 \<and> code (hd (tl s)) = 170
      then CHR ''k'' # ToLower (tl (tl s))
      else lower_char c # ToLower s)"

text \<open>Text of visible ASCII characters has nothing to trim.\<close>

definition visible_char :: "char \<Rightarrow> bool" where
  "visible_char c \<longleftrightarrow> 32 < code c \<and> code c < 128"

lemma space_codes_edges:
  "w \<in> set space_codes \<Longrightarrow> w \<noteq> [] \<and> \<not> visible_char (hd w) \<and> \<not> visible_char (last w)"
proof -
  have "list_all (\<lambda>w. w \<noteq> [] \<and> \<not> visible_char (hd w) \<and> \<not> visible_char (last w)) space_codes" by code_simp
  then show "w \<in> set space_codes \<Longrightarrow> w \<noteq> [] \<and> \<not> visible_char (hd w) \<and> \<not> visible_char (last w)"
    unfolding list_all_iff by blast
qed

lemma TrimSpace_visible:
  assumes "list_all visible_char s"
  shows "TrimSpace s = s"
proof -
  have v: "visible_char c" if "c \<in> set s" for c using assms that by (simp add: list_all_iff)
  have "w \<notin> set space_codes" if w: "w \<noteq> []" "take (length w) s = w" for w
  proof -
    have "hd w \<in> set s" using w by (metis hd_in_set in_set_takeD)
    with v space_codes_edges show ?thesis by blast
  qed
  then have l: "trim_left s = s"
    by (subst trim_left.simps) (auto split: option.split dest: find_Some_mem)
  have "w \<notin> set space_codes" if w: "w \<noteq> []" "drop (length s - length w) s = w" for w
  proof -
    have "last w \<in> set s" using w by (metis in_set_dropD last_in_set)
    with v space_codes_edges show ?thesis by blast
  qed
  then have "trim_right s = s"
    by (subst trim_right.simps) (auto split: option.split dest: find_Some_mem)
  with l show ?thesis by (simp add: TrimSpace_def)
qed

text \<open>Trimming twice is trimming once.\<close>

lemma trim_left_fix: "trim_left s = s \<longleftrightarrow> (\<forall>w \<in> set space_codes. w \<noteq> [] \<longrightarrow> take (length w) s \<noteq> w)"
proof (cases "List.find (\<lambda>w. w \<noteq> [] \<and> take (length w) s = w) space_codes")
  case None
  then have "trim_left s = s" by (subst trim_left.simps) simp
  with None show ?thesis by (auto simp: find_None_all)
next
  case (Some w)
  then have w: "w \<in> set space_codes" "w \<noteq> []" "take (length w) s = w" by (auto dest: find_Some_mem)
  have "length (trim_left t) \<le> length t" for t
    by (induction t rule: trim_left.induct) (subst trim_left.simps, auto split: option.split intro: le_trans)
  from this [of "drop (length w) s"] have "length (trim_left s) \<le> length s - length w"
    by (subst trim_left.simps) (simp add: Some)
  moreover have "length w \<le> length s" using w(3) by (metis length_take min.cobounded1)
  ultimately have "trim_left s \<noteq> s" using w(2) by (cases w) auto
  with w show ?thesis by auto
qed

lemma trim_left_trimmed: "trim_left (trim_left s) = trim_left s"
proof (induction s rule: trim_left.induct)
  case (1 s)
  show ?case
  proof (cases "List.find (\<lambda>w. w \<noteq> [] \<and> take (length w) s = w) space_codes")
    case None
    then have "trim_left s = s" by (subst trim_left.simps) simp
    then show ?thesis by simp
  next
    case (Some w)
    then have "trim_left s = trim_left (drop (length w) s)" by (subst trim_left.simps) simp
    then show ?thesis using 1 [OF Some] by simp
  qed
qed

lemma trim_right_trimmed: "trim_right (trim_right s) = trim_right s"
proof (induction s rule: trim_right.induct)
  case (1 s)
  show ?case
  proof (cases "List.find (\<lambda>w. w \<noteq> [] \<and> drop (length s - length w) s = w) space_codes")
    case None
    then have "trim_right s = s" by (subst trim_right.simps) simp
    then show ?thesis by simp
  next
    case (Some w)
    then have "trim_right s = trim_right (take (length s - length w) s)" by (subst trim_right.simps) simp
    then show ?thesis using 1 [OF Some] by simp
  qed
qed

lemma trim_right_prefix: "\<exists>n. trim_right s = take n s"
proof (induction s rule: trim_right.induct)
  case (1 s)
  show ?case
  proof (cases "List.find (\<lambda>w. w \<noteq> [] \<and> drop (length s - length w) s = w) space_codes")
    case None
    then have "trim_right s = take (length s) s" by (subst trim_right.simps) simp
    then show ?thesis by blast
  next
    case (Some w)
    then have "trim_right s = trim_right (take (length s - length w) s)" by (subst trim_right.simps) simp
    then show ?thesis using 1 [OF Some] by (metis take_take)
  qed
qed

lemma TrimSpace_trimmed [simp]: "TrimSpace (TrimSpace s) = TrimSpace s"
proof -
  obtain n where n: "trim_right (trim_left s) = take n (trim_left s)" using trim_right_prefix by blast
  have "take (length w) (take n (trim_left s)) \<noteq> w" if "w \<in> set space_codes" "w \<noteq> []" for w
    using trim_left_trimmed [of s] that unfolding trim_left_fix
    by (metis length_take min.absorb_iff1 min.cobounded1 take_take nle_le)
  then have "trim_left (TrimSpace s) = TrimSpace s" unfolding TrimSpace_def n trim_left_fix by blast
  then show ?thesis by (simp add: TrimSpace_def trim_right_trimmed)
qed

lemma ToLower_id:
  assumes "list_all (\<lambda>c. code c < 128 \<and> \<not> (65 \<le> code c \<and> code c \<le> 90)) s"
  shows "ToLower s = s"
  using assms by (induction s) (auto simp: lower_char_def)

definition TrimSuffix :: "string \<Rightarrow> string \<Rightarrow> string" where
  "TrimSuffix s suf =
     (if length suf \<le> length s \<and> drop (length s - length suf) s = suf
      then take (length s - length suf) s else s)"

subsection \<open>Split and Join\<close>

text \<open>\<open>strings.Split(s, sep)\<close> for a one-byte separator; the result is never empty.\<close>

fun split_on :: "char \<Rightarrow> string \<Rightarrow> string list" where
  "split_on c [] = [[]]"
| "split_on c (x # xs) =
     (if x = c then [] # split_on c xs
      else (case split_on c xs of [] \<Rightarrow> [[x]] | w # ws \<Rightarrow> (x # w) # ws))"

fun join_with :: "string \<Rightarrow> string list \<Rightarrow> string" where
  "join_with sep [] = []"
| "join_with sep [w] = w"
| "join_with sep (w # ws) = w @ sep @ join_with sep ws"

lemma split_on_ne [simp]: "split_on c s \<noteq> []"
  by (induction s) (auto split: list.split)

lemma split_on_no_sep: "c \<notin> set w \<Longrightarrow> split_on c w = [w]"
  by (induction w) auto

lemma split_on_word: "c \<notin> set w \<Longrightarrow> split_on c (w @ c # s) = w # split_on c s"
  by (induction w) auto

lemma split_join:
  "ws \<noteq> [] \<Longrightarrow> (\<forall>w \<in> set ws. c \<notin> set w) \<Longrightarrow> split_on c (join_with [c] ws) = ws"
proof (induction ws)
  case Nil
  then show ?case by simp
next
  case (Cons w ws)
  then show ?case by (cases ws) (auto simp: split_on_no_sep split_on_word)
qed

lemma join_with_Cons: "ws \<noteq> [] \<Longrightarrow> join_with sep (w # ws) = w @ sep @ join_with sep ws"
  by (cases ws) auto

subsection \<open>Decimal\<close>

definition digit :: "nat \<Rightarrow> char" where
  "digit d = byte (48 + d)"

definition is_digit :: "char \<Rightarrow> bool" where
  "is_digit c \<longleftrightarrow> 48 \<le> code c \<and> code c \<le> 57"

fun dec :: "nat \<Rightarrow> string" where
  "dec n = (if n < 10 then [digit n] else dec (n div 10) @ [digit (n mod 10)])"

declare dec.simps [simp del]

definition dec_val :: "string \<Rightarrow> nat" where
  "dec_val s = foldl (\<lambda>a c. 10 * a + (code c - 48)) 0 s"

text \<open>\<open>%d\<close>, \<open>strconv.Itoa\<close> and \<open>strconv.FormatInt(_, 10)\<close>.\<close>

definition Itoa :: "int \<Rightarrow> string" where
  "Itoa i = (if i < 0 then ''-'' @ dec (nat (- i)) else dec (nat i))"

lemma code_digit [simp]: "d < 10 \<Longrightarrow> code (digit d) = 48 + d"
  by (simp add: digit_def)

lemma digit_inject: "d < 10 \<Longrightarrow> e < 10 \<Longrightarrow> digit d = digit e \<longleftrightarrow> d = e"
  by (metis code_digit add_left_cancel)

lemma is_digit_digit [simp]: "d < 10 \<Longrightarrow> is_digit (digit d)"
  by (simp add: is_digit_def)

lemma dec_val_append: "dec_val (s @ [c]) = 10 * dec_val s + (code c - 48)"
  by (simp add: dec_val_def)

lemma dec_val_single: "dec_val [c] = code c - 48"
  by (simp add: dec_val_def)

lemma dec_val_dec [simp]: "dec_val (dec n) = n"
proof (induction n rule: dec.induct)
  case (1 n)
  show ?case
  proof (cases "n < 10")
    case True
    then show ?thesis by (subst dec.simps) (simp add: dec_val_single)
  next
    case False
    with 1 show ?thesis by (subst dec.simps) (simp add: dec_val_append)
  qed
qed

lemma dec_inject [simp]: "dec m = dec n \<longleftrightarrow> m = n"
  by (metis dec_val_dec)

lemma dec_digits: "c \<in> set (dec n) \<Longrightarrow> is_digit c"
proof (induction n rule: dec.induct)
  case (1 n)
  then show ?case
    by (cases "n < 10") (auto simp: dec.simps [of n])
qed

lemma dec_ne [simp]: "dec n \<noteq> []"
  by (subst dec.simps) simp

lemma dec_hd_zero: "n \<noteq> 0 \<Longrightarrow> hd (dec n) \<noteq> digit 0"
proof (induction n rule: dec.induct)
  case (1 n)
  show ?case
  proof (cases "n < 10")
    case True
    with 1(2) show ?thesis by (auto simp: dec.simps [of n] digit_inject)
  next
    case False
    then have "hd (dec (n div 10)) \<noteq> digit 0" using 1 by simp
    with False show ?thesis by (simp add: dec.simps [of n])
  qed
qed

lemma dec_0 [simp]: "dec 0 = [digit 0]"
  by (simp add: dec.simps)

lemma minus_not_digit: "\<not> is_digit CHR ''-''"
  by (simp add: is_digit_def)

lemma Itoa_inject [simp]: "Itoa i = Itoa j \<longleftrightarrow> i = j"
proof
  assume eq: "Itoa i = Itoa j"
  have hd_dec: "hd (dec n) \<noteq> CHR ''-''" for n
    using dec_digits [of "hd (dec n)" n] minus_not_digit by (metis dec_ne list.set_sel(1))
  have cross: "dec m \<noteq> CHR ''-'' # s" for m s
    using hd_dec [of m] by (metis list.sel(1))
  from eq cross show "i = j"
    by (auto simp: Itoa_def nat_eq_iff split: if_splits dest: sym)
qed simp

subsection \<open>Big-endian digits of fixed width\<close>

fun be_digits :: "nat \<Rightarrow> nat \<Rightarrow> nat \<Rightarrow> nat list" where
  "be_digits B 0 n = []"
| "be_digits B (Suc k) n = be_digits B k (n div B) @ [n mod B]"

definition be_val :: "nat \<Rightarrow> nat list \<Rightarrow> nat" where
  "be_val B ds = foldl (\<lambda>a d. a * B + d) 0 ds"

lemma length_be_digits [simp]: "length (be_digits B k n) = k"
  by (induction k arbitrary: n) auto

lemma be_digits_less: "0 < B \<Longrightarrow> d \<in> set (be_digits B k n) \<Longrightarrow> d < B"
  by (induction k arbitrary: n) auto

lemma be_val_digits: "n < B ^ k \<Longrightarrow> be_val B (be_digits B k n) = n"
proof (induction k arbitrary: n)
  case 0
  then show ?case by (simp add: be_val_def)
next
  case (Suc k)
  then have "n div B < B ^ k" by (simp add: less_mult_imp_div_less mult.commute)
  with Suc.IH show ?case by (simp add: be_val_def)
qed

lemma be_digits_inject: "m < B ^ k \<Longrightarrow> n < B ^ k \<Longrightarrow> be_digits B k m = be_digits B k n \<longleftrightarrow> m = n"
  by (metis be_val_digits)

text \<open>Decimal padded with zeros to a fixed width, as in \<open>%04d\<close>.\<close>

definition pad :: "nat \<Rightarrow> nat \<Rightarrow> string" where
  "pad w n = map digit (be_digits 10 w n)"

lemma length_pad [simp]: "length (pad w n) = w"
  by (simp add: pad_def)

lemma pad_digits: "c \<in> set (pad w n) \<Longrightarrow> is_digit c"
  using be_digits_less [of 10] by (auto simp: pad_def)

lemma pad_Suc: "pad (Suc w) n = pad w (n div 10) @ [digit (n mod 10)]"
  by (simp add: pad_def)

lemma dec_val_pad: "n < 10 ^ w \<Longrightarrow> dec_val (pad w n) = n"
proof (induction w arbitrary: n)
  case 0
  then show ?case by (simp add: pad_def dec_val_def)
next
  case (Suc w)
  then have "n div 10 < 10 ^ w" by (simp add: less_mult_imp_div_less mult.commute)
  with Suc.IH show ?case by (simp add: pad_Suc dec_val_append)
qed

subsection \<open>Byte order\<close>

text \<open>Comparing strings whose first parts have the same length.\<close>

lemma append_less_iff:
  fixes a b x y :: string
  assumes "length a = length b"
  shows "a @ x < b @ y \<longleftrightarrow> a < b \<or> a = b \<and> x < y"
  using assms by (induction a b rule: list_induct2) auto

lemma digit_less: "m < 10 \<Longrightarrow> n < 10 \<Longrightarrow> digit m < digit n \<longleftrightarrow> m < n"
  by (simp add: less_char_def)

lemma div_mod_less_iff:
  fixes m n k :: nat
  shows "m < n \<longleftrightarrow> m div k < n div k \<or> m div k = n div k \<and> m mod k < n mod k"
proof -
  have "m div k * k + m mod k = m" "n div k * k + n mod k = n"
    by (rule div_mult_mod_eq)+
  moreover have "m div k \<le> n div k" if "m < n" using that by (simp add: div_le_mono)
  moreover have "m < n" if "m div k < n div k" using that by (metis div_le_mono leD leI)
  ultimately show ?thesis
    by (metis add_less_cancel_left nat_less_le)
qed

lemma pad_less:
  "m < 10 ^ w \<Longrightarrow> n < 10 ^ w \<Longrightarrow> pad w m < pad w n \<longleftrightarrow> m < n"
proof (induction w arbitrary: m n)
  case 0
  then show ?case by (simp add: pad_def)
next
  case (Suc w)
  then have lt: "m div 10 < 10 ^ w" "n div 10 < 10 ^ w"
    by (simp_all add: less_mult_imp_div_less mult.commute)
  then have eq: "pad w (m div 10) = pad w (n div 10) \<longleftrightarrow> m div 10 = n div 10"
    by (metis dec_val_pad)
  have "pad (Suc w) m < pad (Suc w) n \<longleftrightarrow>
      m div 10 < n div 10 \<or> m div 10 = n div 10 \<and> m mod 10 < n mod 10"
    unfolding pad_Suc using lt eq Suc.IH by (subst append_less_iff) (auto simp: digit_less)
  also have "\<dots> \<longleftrightarrow> m < n" using div_mod_less_iff [of m n 10] by blast
  finally show ?case .
qed

end
