(* ===== verification/Netip.thy ===== *)
theory Netip
  imports GoStrings
begin

section \<open>IP addresses and prefixes (Go's net/netip)\<close>

text \<open>
  The model of \<open>netip.Addr\<close> and \<open>netip.Prefix\<close> the store allocates overlay
  addresses with: successor, containment, masking, and the text form in which SQLite
  holds every address. The text form is the canonical one of \<open>Addr.String\<close>
  (RFC 5952 for IPv6), and \<open>ParseAddr\<close> reads it back; the round trip is what makes
  uniqueness of the text columns uniqueness of the addresses.
\<close>

unbundle bit_operations_syntax

subsection \<open>Addresses\<close>

text \<open>
  The zero \<open>Addr{}\<close>, an IPv4 address, an IPv6 address with its zone (empty: none).
\<close>

datatype addr = AddrZero | V4 "32 word" | V6 "128 word" string

fun Is4 :: "addr \<Rightarrow> bool" where
  "Is4 (V4 _) = True"
| "Is4 _ = False"

fun Is6 :: "addr \<Rightarrow> bool" where
  "Is6 (V6 _ _) = True"
| "Is6 _ = False"

fun addr_IsValid :: "addr \<Rightarrow> bool" where
  "addr_IsValid AddrZero = False"
| "addr_IsValid _ = True"

fun BitLen :: "addr \<Rightarrow> nat" where
  "BitLen AddrZero = 0"
| "BitLen (V4 _) = 32"
| "BitLen (V6 _ _) = 128"

text \<open>\<open>Next\<close> is the successor, and the zero address past the last one of a family.\<close>

fun addr_Next :: "addr \<Rightarrow> addr" where
  "addr_Next AddrZero = AddrZero"
| "addr_Next (V4 w) = (if w + 1 = 0 then AddrZero else V4 (w + 1))"
| "addr_Next (V6 w z) = (if w + 1 = 0 then AddrZero else V6 (w + 1) z)"

text \<open>Numeric value of an address inside its family.\<close>

fun addr_val :: "addr \<Rightarrow> nat" where
  "addr_val AddrZero = 0"
| "addr_val (V4 w) = unat w"
| "addr_val (V6 w _) = unat w"

fun Unmap :: "addr \<Rightarrow> addr" where
  "Unmap (V6 w z) = (if drop_bit 32 w = 65535 then V4 (ucast w) else V6 w z)"
| "Unmap a = a"

subsection \<open>Prefixes\<close>

datatype prefix = PrefixZero | Prefix addr nat

fun prefix_Addr :: "prefix \<Rightarrow> addr" where
  "prefix_Addr PrefixZero = AddrZero"
| "prefix_Addr (Prefix a _) = a"

fun prefix_IsValid :: "prefix \<Rightarrow> bool" where
  "prefix_IsValid PrefixZero = False"
| "prefix_IsValid (Prefix a b) = (addr_IsValid a \<and> b \<le> BitLen a)"

text \<open>Two words agree above their lowest \<open>n\<close> bits.\<close>

definition same_block :: "nat \<Rightarrow> 'a::len word \<Rightarrow> 'a word \<Rightarrow> bool" where
  "same_block n x y \<longleftrightarrow> drop_bit n (x XOR y) = 0"

fun Contains :: "prefix \<Rightarrow> addr \<Rightarrow> bool" where
  "Contains (Prefix (V4 m) b) (V4 w) = (b \<le> 32 \<and> same_block (32 - b) w m)"
| "Contains (Prefix (V6 m _) b) (V6 w z) = (b \<le> 128 \<and> z = [] \<and> same_block (128 - b) w m)"
| "Contains _ _ = False"

definition clear_low :: "nat \<Rightarrow> 'a::len word \<Rightarrow> 'a word" where
  "clear_low n w = push_bit n (drop_bit n w)"

fun Masked :: "prefix \<Rightarrow> prefix" where
  "Masked (Prefix (V4 w) b) = (if b \<le> 32 then Prefix (V4 (clear_low (32 - b) w)) b else PrefixZero)"
| "Masked (Prefix (V6 w _) b) =
     (if b \<le> 128 then Prefix (V6 (clear_low (128 - b) w) []) b else PrefixZero)"
| "Masked _ = PrefixZero"

lemma unat_drop_bit: "unat (drop_bit n w) = unat w div 2 ^ n" for w :: "'a::len word"
  by (metis unat_drop_bit_eq drop_bit_eq_div)

lemma xor_eq_0_iff: "x XOR y = 0 \<longleftrightarrow> x = y" for x y :: "'a::len word"
  by (auto simp: bit_eq_iff bit_simps)

lemma same_block_iff: "same_block n x y \<longleftrightarrow> unat x div 2 ^ n = unat y div 2 ^ n"
proof -
  have "same_block n x y \<longleftrightarrow> drop_bit n x = drop_bit n y"
    by (simp add: same_block_def drop_bit_xor xor_eq_0_iff)
  then show ?thesis by (simp add: word_unat_eq_iff unat_drop_bit)
qed

lemma unat_clear_low: "unat (clear_low n w) = unat w div 2 ^ n * 2 ^ n" for w :: "'a::len word"
proof -
  have "unat w < 2 ^ LENGTH('a)" by simp
  then have "unat w div 2 ^ n * 2 ^ n < 2 ^ LENGTH('a)"
    using div_times_less_eq_dividend [of "unat w" "2 ^ n"] by linarith
  moreover have "unat (clear_low n w) = take_bit LENGTH('a) (unat w div 2 ^ n * 2 ^ n)"
    by (metis clear_low_def unsigned_push_bit_eq push_bit_eq_mult unat_drop_bit)
  ultimately show ?thesis by (simp add: take_bit_nat_eq_self)
qed

subsection \<open>The hosts of a prefix\<close>

text \<open>
  A usable overlay network: a valid prefix without host bits, as every configured
  network is after \<open>Masked()\<close>. Its addresses are the interval of
  \<open>prefix_size\<close> values from the network address on.
\<close>

definition overlay_net :: "prefix \<Rightarrow> bool" where
  "overlay_net p \<longleftrightarrow> prefix_IsValid p \<and> Masked p = p"

fun prefix_size :: "prefix \<Rightarrow> nat" where
  "prefix_size PrefixZero = 0"
| "prefix_size (Prefix a b) = 2 ^ (BitLen a - b)"

lemma interval_of_block:
  fixes w m n :: nat
  assumes "m div 2 ^ n * 2 ^ n = m"
  shows "w div 2 ^ n = m div 2 ^ n \<longleftrightarrow> m \<le> w \<and> w < m + 2 ^ n"
proof -
  have pos: "(0::nat) < 2 ^ n" by simp
  have wm: "w div 2 ^ n * 2 ^ n + w mod 2 ^ n = w" "w mod 2 ^ n < 2 ^ n"
    by (rule div_mult_mod_eq) simp
  show ?thesis
  proof
    assume "w div 2 ^ n = m div 2 ^ n"
    with wm(1) assms have "w = m + w mod 2 ^ n" by metis
    with wm(2) show "m \<le> w \<and> w < m + 2 ^ n" by linarith
  next
    assume "m \<le> w \<and> w < m + 2 ^ n"
    then obtain d where "w = m + d" and "d < 2 ^ n"
      by (metis add_less_cancel_left le_add_diff_inverse)
    with assms pos show "w div 2 ^ n = m div 2 ^ n"
      by (metis add.commute add.right_neutral div_less div_mult_self1_is_m div_plus_div_distrib_dvd_right
          dvd_triv_right nonzero_mult_div_cancel_right less_not_refl2)
  qed
qed

lemma overlay_netE:
  assumes "overlay_net p"
  obtains m b where "p = Prefix (V4 m) b" "b \<le> 32" "unat m div 2 ^ (32 - b) * 2 ^ (32 - b) = unat m"
  | m b where "p = Prefix (V6 m []) b" "b \<le> 128"
      "unat m div 2 ^ (128 - b) * 2 ^ (128 - b) = unat m"
proof (cases p)
  case PrefixZero
  with assms show ?thesis by (simp add: overlay_net_def)
next
  case (Prefix a b)
  show ?thesis
  proof (cases a)
    case AddrZero
    with Prefix assms show ?thesis by (simp add: overlay_net_def)
  next
    case (V4 m)
    with Prefix assms have "b \<le> 32" "clear_low (32 - b) m = m"
      by (auto simp: overlay_net_def split: if_splits)
    with Prefix V4 that(1) show ?thesis by (metis unat_clear_low)
  next
    case (V6 m z)
    with Prefix assms have "b \<le> 128" "z = []" "clear_low (128 - b) m = m"
      by (auto simp: overlay_net_def split: if_splits)
    with Prefix V6 that(2) show ?thesis by (metis unat_clear_low)
  qed
qed

lemma Masked_overlay_net:
  assumes "prefix_IsValid p"
  shows "overlay_net (Masked p)"
proof -
  have idem: "clear_low n (clear_low n w) = clear_low n w" for n and w :: "'a::len word"
    by (simp add: word_unat_eq_iff unat_clear_low)
  from assms show ?thesis
    by (cases p rule: Masked.cases) (auto simp: overlay_net_def idem)
qed

text \<open>Family and zone of an address; the addresses of a network share it.\<close>

fun same_family :: "addr \<Rightarrow> addr \<Rightarrow> bool" where
  "same_family (V4 _) (V4 _) = True"
| "same_family (V6 _ y) (V6 _ z) = (y = z)"
| "same_family _ _ = False"

lemma addr_eq_iff: "same_family a b \<Longrightarrow> a = b \<longleftrightarrow> addr_val a = addr_val b"
  by (cases a; cases b) (auto simp: word_unat_eq_iff)

lemma Contains_iff:
  assumes "overlay_net p"
  shows "Contains p a \<longleftrightarrow> same_family (prefix_Addr p) a \<and>
    addr_val (prefix_Addr p) \<le> addr_val a \<and> addr_val a < addr_val (prefix_Addr p) + prefix_size p"
  using assms
proof (cases p rule: overlay_netE)
  case (1 m b)
  then show ?thesis by (cases a) (auto simp: same_block_iff interval_of_block)
next
  case (2 m b)
  then show ?thesis by (cases a) (auto simp: same_block_iff interval_of_block)
qed

lemma Contains_valid: "Contains p a \<Longrightarrow> addr_IsValid a"
  by (cases "(p, a)" rule: Contains.cases) auto

lemma Contains_prefix_Addr: "overlay_net p \<Longrightarrow> Contains p (prefix_Addr p)"
  by (cases p rule: overlay_netE) (auto simp: same_block_iff)

text \<open>Distance to the end of the family: what the allocation loops decrease.\<close>

fun addr_room :: "addr \<Rightarrow> nat" where
  "addr_room AddrZero = 0"
| "addr_room (V4 w) = 2 ^ 32 - unat w"
| "addr_room (V6 w _) = 2 ^ 128 - unat w"

lemma unat_Suc: "w + 1 \<noteq> 0 \<Longrightarrow> unat (w + 1) = Suc (unat w)" for w :: "'a::len word"
  by (metis Suc_eq_plus1 add.commute unatSuc)

lemma word_room_pos: "unat w < 2 ^ LENGTH('a)" for w :: "'a::len word"
  by simp

lemma addr_room_Next:
  assumes "addr_IsValid a"
  shows "addr_room (addr_Next a) < addr_room a"
proof (cases a)
  case (V4 w)
  then show ?thesis using word_room_pos [of w] by (auto simp: unat_Suc)
next
  case (V6 w z)
  then show ?thesis using word_room_pos [of w] by (auto simp: unat_Suc)
qed (use assms in simp)

lemma addr_Next_val: "addr_Next a \<noteq> AddrZero \<Longrightarrow> addr_val (addr_Next a) = Suc (addr_val a)"
  by (cases a) (auto simp: unat_Suc split: if_splits)

lemma addr_Next_family: "addr_Next a \<noteq> AddrZero \<Longrightarrow> same_family a (addr_Next a)"
  by (cases a) (auto split: if_splits)

end
