(* ===== verification/NetipText.thy ===== *)
theory NetipText
  imports Netip
begin

section \<open>Text form of addresses and prefixes\<close>

text \<open>
  \<open>Addr.String\<close>, \<open>ParseAddr\<close>, \<open>Prefix.String\<close> and \<open>ParsePrefix\<close> of
  net/netip, with the round trips \<open>ParseAddr (addr_String a) = Some a\<close> and
  \<open>ParsePrefix (prefix_String p) = Some p\<close>. The locale \<open>text_codec\<close> is the
  interface the store relies on: a printer whose output the parser reads back.
\<close>

subsection \<open>Hexadecimal\<close>

definition hex_digit :: "nat \<Rightarrow> char" where
  "hex_digit d = (if d < 10 then byte (48 + d) else byte (87 + d))"

fun hex :: "nat \<Rightarrow> string" where
  "hex n = (if n < 16 then [hex_digit n] else hex (n div 16) @ [hex_digit (n mod 16)])"

declare hex.simps [simp del]

definition hex_val1 :: "char \<Rightarrow> nat option" where
  "hex_val1 c =
     (if 48 \<le> code c \<and> code c \<le> 57 then Some (code c - 48)
      else if 97 \<le> code c \<and> code c \<le> 102 then Some (code c - 97 + 10)
      else if 65 \<le> code c \<and> code c \<le> 70 then Some (code c - 65 + 10) else None)"

definition is_hex :: "char \<Rightarrow> bool" where
  "is_hex c \<longleftrightarrow> hex_val1 c \<noteq> None"

definition hex_val :: "string \<Rightarrow> nat" where
  "hex_val s = foldl (\<lambda>a c. 16 * a + the (hex_val1 c)) 0 s"

lemma hex_val1_digit: "d < 16 \<Longrightarrow> hex_val1 (hex_digit d) = Some d"
  by (auto simp: hex_val1_def hex_digit_def)

lemma hex_is_hex: "c \<in> set (hex n) \<Longrightarrow> is_hex c"
proof (induction n rule: hex.induct)
  case (1 n)
  then show ?case
    by (cases "n < 16") (auto simp: hex.simps [of n] is_hex_def hex_val1_digit)
qed

lemma hex_val_hex [simp]: "hex_val (hex n) = n"
proof (induction n rule: hex.induct)
  case (1 n)
  then show ?case
    by (cases "n < 16") (simp_all add: hex.simps [of n] hex_val_def hex_val1_digit)
qed

lemma hex_ne [simp]: "hex n \<noteq> []"
  by (subst hex.simps) simp

lemma length_hex: "n < 16 ^ k \<Longrightarrow> 0 < k \<Longrightarrow> length (hex n) \<le> k"
proof (induction k arbitrary: n)
  case 0
  then show ?case by simp
next
  case (Suc k)
  show ?case
  proof (cases "n < 16")
    case True
    then show ?thesis by (simp add: hex.simps [of n])
  next
    case False
    with Suc.prems have "k \<noteq> 0" by (auto intro: ccontr)
    moreover from Suc.prems have "n div 16 < 16 ^ k" by (simp add: less_mult_imp_div_less mult.commute)
    ultimately show ?thesis using False Suc.IH by (simp add: hex.simps [of n])
  qed
qed

lemma colon_not_hex [simp]: "\<not> is_hex CHR '':''"
  by (simp add: is_hex_def hex_val1_def)

lemma special_not_hex [simp]: "\<not> is_hex CHR ''.''" "\<not> is_hex CHR ''%''"
  by (simp_all add: is_hex_def hex_val1_def)

subsection \<open>IPv4 text\<close>

definition octets :: "32 word \<Rightarrow> nat list" where
  "octets w = be_digits 256 4 (unat w)"

definition print4 :: "32 word \<Rightarrow> string" where
  "print4 w = join_with ''.'' (map dec (octets w))"

definition parse_octet :: "string \<Rightarrow> nat option" where
  "parse_octet s =
     (if s \<noteq> [] \<and> list_all is_digit s \<and> (1 < length s \<longrightarrow> hd s \<noteq> CHR ''0'') \<and> dec_val s \<le> 255
      then Some (dec_val s) else None)"

text \<open>\<open>parseIPv4Fields\<close>: four dot-separated octets, no leading zeros.\<close>

definition parse4_fields :: "string \<Rightarrow> nat list option" where
  "parse4_fields s =
     (let fs = map parse_octet (split_on CHR ''.'' s)
      in if length fs = 4 \<and> None \<notin> set fs then Some (map the fs) else None)"

lemma parse_octet_dec:
  assumes "n < 256"
  shows "parse_octet (dec n) = Some n"
proof -
  have "hd (dec n) \<noteq> CHR ''0''" if "1 < length (dec n)"
  proof -
    have "n \<noteq> 0" using that by (auto simp: dec_0 intro!: gr0I)
    moreover have "digit 0 = CHR ''0''" by code_simp
    ultimately show ?thesis using dec_hd_zero by metis
  qed
  with assms show ?thesis
    by (auto simp: parse_octet_def list_all_iff dest: dec_digits)
qed

lemma dot_not_in_dec: "CHR ''.'' \<notin> set (dec n)"
  using dec_digits by (force simp: is_digit_def)

lemma parse4_print4: "parse4_fields (print4 w) = Some (octets w)"
proof -
  let ?os = "octets w"
  have len: "length ?os = 4" by (simp add: octets_def)
  have bnd: "\<forall>d \<in> set ?os. d < 256"
    using be_digits_less [of 256] by (auto simp: octets_def)
  have "split_on CHR ''.'' (print4 w) = map dec ?os"
    unfolding print4_def using len dot_not_in_dec by (intro split_join) auto
  moreover have "map parse_octet (map dec ?os) = map Some ?os"
    using bnd by (auto simp: parse_octet_dec)
  ultimately show ?thesis
    using len by (auto simp: parse4_fields_def comp_def intro: map_idI)
qed

lemma be_val_octets: "of_nat (be_val 256 (octets w)) = w"
proof -
  have "unat w < 256 ^ 4" using word_room_pos [of w] by simp
  then show ?thesis by (simp add: octets_def be_val_digits)
qed

subsection \<open>IPv6 text\<close>

text \<open>The eight 16-bit groups of an address, most significant first.\<close>

definition groups :: "128 word \<Rightarrow> nat list" where
  "groups w = be_digits 65536 8 (unat w)"

definition zeros_from :: "nat list \<Rightarrow> nat \<Rightarrow> nat" where
  "zeros_from gs i = length (takeWhile (\<lambda>g. g = 0) (drop i gs))"

text \<open>\<open>appendTo6\<close>: the first longest run of at least two zero groups is elided.\<close>

definition zero_run :: "nat list \<Rightarrow> nat \<times> nat" where
  "zero_run gs =
     foldl (\<lambda>(s, l) i. let n = zeros_from gs i in if 2 \<le> n \<and> l < n then (i, n) else (s, l))
       (0, 0) [0..<8]"

definition print6_groups :: "nat list \<Rightarrow> string" where
  "print6_groups gs =
     (case zero_run gs of (s, l) \<Rightarrow>
        if l = 0 then join_with '':'' (map hex gs)
        else join_with '':'' (map hex (take s gs)) @ ''::'' @
             join_with '':'' (map hex (drop (s + l) gs)))"

definition Is4In6 :: "128 word \<Rightarrow> bool" where
  "Is4In6 w \<longleftrightarrow> take 6 (groups w) = [0, 0, 0, 0, 0, 65535]"

definition print4in6 :: "128 word \<Rightarrow> string" where
  "print4in6 w = ''::ffff:'' @ print4 (ucast w)"

fun addr_String :: "addr \<Rightarrow> string" where
  "addr_String AddrZero = ''invalid IP''"
| "addr_String (V4 w) = print4 w"
| "addr_String (V6 w z) =
     (if Is4In6 w then print4in6 w else print6_groups (groups w)) @
     (if z = [] then [] else ''%'' @ z)"

text \<open>
  The loop of \<open>parseIPv6\<close>: hexadecimal fields followed by colons, at most one
  ellipsis, possibly a trailing embedded IPv4 address. \<open>ell\<close> is the number of groups
  before the ellipsis.
\<close>

function parse6_loop :: "nat list \<Rightarrow> nat option \<Rightarrow> string \<Rightarrow> (nat list \<times> nat option) option" where
  "parse6_loop acc ell s =
     (if 8 \<le> length acc then (if s = [] then Some (acc, ell) else None)
      else
        let h = takeWhile is_hex s; r = dropWhile is_hex s
        in if h = [] \<or> 4 < length h then None
           else if r \<noteq> [] \<and> hd r = CHR ''.'' then
             (if ell = None \<and> length acc \<noteq> 6 then None
              else if 8 < length acc + 2 then None
              else (case parse4_fields s of
                      None \<Rightarrow> None
                    | Some os \<Rightarrow>
                        Some (acc @ [be_val 256 (take 2 os), be_val 256 (drop 2 os)], ell)))
           else
             let acc' = acc @ [hex_val h]
             in (case r of
                   [] \<Rightarrow> Some (acc', ell)
                 | c # r1 \<Rightarrow>
                     if c \<noteq> CHR '':'' \<or> r1 = [] then None
                     else if hd r1 = CHR '':'' then
                       (if ell \<noteq> None then None
                        else if tl r1 = [] then Some (acc', Some (length acc'))
                        else parse6_loop acc' (Some (length acc')) (tl r1))
                     else parse6_loop acc' ell r1))"
  by pat_completeness auto
termination
proof (relation "measure (\<lambda>(acc, ell, s). length s)", goal_cases)
  case 1
  show ?case by simp
next
  case (2 acc ell s h r acc' c r1)
  have "length r \<le> length s" using 2 by (simp add: length_dropWhile_le)
  moreover have "r = c # r1" using 2 by simp
  ultimately show ?case by simp
next
  case (3 acc ell s h r acc' c r1)
  have "length r \<le> length s" using 3 by (simp add: length_dropWhile_le)
  moreover have "r = c # r1" using 3 by simp
  ultimately show ?case by simp
qed

declare parse6_loop.simps [simp del]

definition expand_ellipsis :: "nat list \<times> nat option \<Rightarrow> nat list option" where
  "expand_ellipsis r =
     (case r of (acc, ell) \<Rightarrow>
        if length acc < 8 then
          (case ell of None \<Rightarrow> None
           | Some e \<Rightarrow> Some (take e acc @ replicate (8 - length acc) 0 @ drop e acc))
        else if ell \<noteq> None then None else Some acc)"

definition parse6_groups :: "string \<Rightarrow> nat list option" where
  "parse6_groups s =
     (if take 2 s = ''::'' then
        (if drop 2 s = [] then Some (replicate 8 0)
         else Option.bind (parse6_loop [] (Some 0) (drop 2 s)) expand_ellipsis)
      else Option.bind (parse6_loop [] None s) expand_ellipsis)"

definition parse6 :: "string \<Rightarrow> addr option" where
  "parse6 s =
     (let a = takeWhile (\<lambda>c. c \<noteq> CHR ''%'') s; r = dropWhile (\<lambda>c. c \<noteq> CHR ''%'') s
      in if r \<noteq> [] \<and> tl r = [] then None
         else map_option (\<lambda>gs. V6 (of_nat (be_val 65536 gs)) (tl r)) (parse6_groups a))"

definition addr_special :: "char \<Rightarrow> bool" where
  "addr_special c \<longleftrightarrow> c = CHR ''.'' \<or> c = CHR '':'' \<or> c = CHR ''%''"

definition ParseAddr :: "string \<Rightarrow> addr option" where
  "ParseAddr s =
     (case List.find addr_special s of
        None \<Rightarrow> None
      | Some c \<Rightarrow>
          if c = CHR ''.'' then map_option (\<lambda>os. V4 (of_nat (be_val 256 os))) (parse4_fields s)
          else if c = CHR '':'' then parse6 s else None)"

subsection \<open>Reading back the IPv6 form\<close>

lemma hex_le4: "g < 65536 \<Longrightarrow> length (hex g) \<le> 4"
  using length_hex [of g 4] by simp

lemma takeWhile_hex: "takeWhile is_hex (hex g @ r) = hex g @ takeWhile is_hex r"
  "dropWhile is_hex (hex g @ r) = dropWhile is_hex r"
  using hex_is_hex by (auto simp: takeWhile_append2 dropWhile_append2)

lemma takeWhile_hex_Nil: "takeWhile is_hex (hex g) = hex g" "dropWhile is_hex (hex g) = []"
  using takeWhile_hex [of g "[]"] by simp_all

lemma parse6_loop_last:
  assumes "length acc < 8" "g < 65536"
  shows "parse6_loop acc ell (hex g) = Some (acc @ [g], ell)"
  using assms hex_le4 [of g]
  by (subst parse6_loop.simps) (simp add: takeWhile_hex_Nil Let_def)

lemma parse6_loop_colon:
  assumes "length acc < 8" "g < 65536" "r \<noteq> []" "hd r \<noteq> CHR '':''"
  shows "parse6_loop acc ell (hex g @ CHR '':'' # r) = parse6_loop (acc @ [g]) ell r"
  using assms hex_le4 [of g]
  by (subst parse6_loop.simps) (simp add: takeWhile_hex Let_def)

lemma parse6_loop_ellipsis:
  assumes "length acc < 8" "g < 65536"
  shows "parse6_loop acc None (hex g @ CHR '':'' # CHR '':'' # r) =
    (if r = [] then Some (acc @ [g], Some (Suc (length acc)))
     else parse6_loop (acc @ [g]) (Some (Suc (length acc))) r)"
  using assms hex_le4 [of g]
  by (subst parse6_loop.simps) (simp add: takeWhile_hex Let_def)

definition group_ok :: "nat \<Rightarrow> bool" where
  "group_ok g \<longleftrightarrow> g < 65536"

abbreviation hexes :: "nat list \<Rightarrow> string" where
  "hexes gs \<equiv> join_with '':'' (map hex gs)"

lemma hexes_Cons2: "hexes (g # g' # gs) = hex g @ CHR '':'' # hexes (g' # gs)"
  by (simp add: join_with_Cons)

lemma hexes_hd: "gs \<noteq> [] \<Longrightarrow> hexes gs \<noteq> [] \<and> is_hex (hd (hexes gs))"
proof (cases gs)
  case (Cons g gs')
  have "is_hex (hd (hex g))" by (rule hex_is_hex [of _ g]) simp
  with Cons show ?thesis by (cases gs') (auto simp: join_with_Cons)
qed simp

lemma parse6_loop_hexes:
  assumes "gs \<noteq> []" "length acc + length gs \<le> 8" "list_all group_ok gs"
  shows "parse6_loop acc ell (hexes gs) = Some (acc @ gs, ell)"
  using assms
proof (induction gs arbitrary: acc rule: induct_list012)
  case 1
  then show ?case by simp
next
  case (2 g)
  then show ?case by (simp add: parse6_loop_last group_ok_def)
next
  case (3 g g' gs)
  have "hd (hexes (g' # gs)) \<noteq> CHR '':''" "hexes (g' # gs) \<noteq> []"
    using hexes_hd [of "g' # gs"] by (auto dest: arg_cong [where f = is_hex])
  with 3 show ?case
    unfolding hexes_Cons2 by (subst parse6_loop_colon) (auto simp: group_ok_def)
qed

lemma parse6_loop_prefix:
  assumes "gs \<noteq> []" "length acc + length gs \<le> 8" "list_all group_ok gs"
  shows "parse6_loop acc None (hexes gs @ CHR '':'' # CHR '':'' # r) =
    (if r = [] then Some (acc @ gs, Some (length acc + length gs))
     else parse6_loop (acc @ gs) (Some (length acc + length gs)) r)"
  using assms
proof (induction gs arbitrary: acc rule: induct_list012)
  case 1
  then show ?case by simp
next
  case (2 g)
  then show ?case by (simp add: parse6_loop_ellipsis group_ok_def)
next
  case (3 g g' gs)
  have "hd (hexes (g' # gs) @ CHR '':'' # CHR '':'' # r) \<noteq> CHR '':''"
    using hexes_hd [of "g' # gs"] by (auto simp: hd_append dest: arg_cong [where f = is_hex])
  moreover have "(hex g @ CHR '':'' # hexes (g' # gs)) @ CHR '':'' # CHR '':'' # r =
      hex g @ CHR '':'' # (hexes (g' # gs) @ CHR '':'' # CHR '':'' # r)" by simp
  ultimately show ?case
    using 3 unfolding hexes_Cons2
    by (simp only:) (subst parse6_loop_colon, auto simp: group_ok_def)
qed

lemma zero_run_inv:
  assumes "length gs = 8" "zero_run gs = (s, l)"
  shows "l = 0 \<or> s + l \<le> 8 \<and> take l (drop s gs) = replicate l 0"
proof -
  define f where "f = (\<lambda>(s :: nat, l) i.
    let n = zeros_from gs i in if 2 \<le> n \<and> l < n then (i, n) else (s, l))"
  let ?ok = "\<lambda>(s, l). l = 0 \<or> s + l \<le> 8 \<and> take l (drop s gs) = replicate l (0 :: nat)"
  have zf: "take (zeros_from gs i) (drop i gs) = replicate (zeros_from gs i) 0" for i
    unfolding zeros_from_def
    by (metis (mono_tags, lifting) replicate_length_same set_takeWhileD takeWhile_eq_take)
  have len: "i + zeros_from gs i \<le> 8" if "i < 8" for i
    using length_takeWhile_le [of "\<lambda>g. g = 0" "drop i gs"] assms(1) that
    by (simp add: zeros_from_def)
  have step: "?ok (f p i)" if "?ok p" "i < 8" for p i
    using that zf [of i] len [of i] by (auto simp: f_def Let_def split: prod.splits)
  have "?ok (foldl f p is)" if "?ok p" "\<forall>i \<in> set is. i < 8" for p "is"
    using that step by (induction "is" arbitrary: p) (auto simp del: split_paired_All)
  then have "?ok (foldl f (0, 0) [0..<8])" by auto
  with assms(2) show ?thesis by (simp add: zero_run_def f_def)
qed

lemma parse6_print6_groups:
  assumes "length gs = 8" "list_all group_ok gs"
  shows "parse6_groups (print6_groups gs) = Some gs"
proof (cases "zero_run gs")
  case (Pair s l)
  let ?pre = "take s gs" and ?post = "drop (s + l) gs"
  have nocolon: "take 2 (hexes xs @ r) \<noteq> ''::''" if "xs \<noteq> []" for xs r
    using hexes_hd [OF that] by (cases "hexes xs") auto
  show ?thesis
  proof (cases "l = 0")
    case True
    have ne: "gs \<noteq> []" using assms(1) by auto
    have "parse6_loop [] None (hexes gs) = Some (gs, None)"
      using parse6_loop_hexes [of gs "[]" None] assms ne by simp
    then show ?thesis
      using Pair True nocolon [OF ne, of "[]"] assms(1)
      by (simp add: print6_groups_def parse6_groups_def expand_ellipsis_def)
  next
    case False
    with zero_run_inv [OF assms(1) Pair] have sl: "s + l \<le> 8" "take l (drop s gs) = replicate l 0"
      by auto
    have gs: "gs = ?pre @ replicate l 0 @ ?post"
      by (metis append_take_drop_id drop_drop sl(2) add.commute)
    have ok: "list_all group_ok ?pre" "list_all group_ok ?post"
      using assms(2) by (auto simp: list_all_iff dest: in_set_takeD in_set_dropD)
    have ex: "expand_ellipsis (?pre @ ?post, Some s) = Some gs"
      using sl False assms(1) gs by (simp add: expand_ellipsis_def)
    have pr: "print6_groups gs = hexes ?pre @ CHR '':'' # CHR '':'' # hexes ?post"
      using Pair False by (simp add: print6_groups_def)
    have post: "hexes ?post = [] \<longleftrightarrow> ?post = []" using hexes_hd [of ?post] by auto
    have lpost: "parse6_loop ?pre (Some s) (hexes ?post) = Some (?pre @ ?post, Some s)" if "?post \<noteq> []"
      using parse6_loop_hexes [OF that _ ok(2), of ?pre "Some s"] assms(1) sl by simp
    show ?thesis
    proof (cases "s = 0")
      case True
      then show ?thesis
        using pr post lpost ex gs sl assms(1)
        by (cases "?post = []") (auto simp: parse6_groups_def)
    next
      case False
      then have pre: "?pre \<noteq> []" using assms(1) by auto
      have lpre: "length ?pre = s" using sl assms(1) by simp
      have "parse6_loop [] None (print6_groups gs) = Some (?pre @ ?post, Some s)"
        unfolding pr using parse6_loop_prefix [OF pre _ ok(1), of "[]" "hexes ?post"] lpre sl lpost post
        by (cases "?post = []") auto
      then show ?thesis
        using nocolon [OF pre] pr ex by (simp add: parse6_groups_def)
    qed
  qed
qed

subsection \<open>Addresses\<close>

lemma be_val_groups: "of_nat (be_val 65536 (groups w)) = w"
proof -
  have "unat w < 65536 ^ 8" using word_room_pos [of w] by simp
  then show ?thesis by (simp add: groups_def be_val_digits)
qed

lemma length_groups [simp]: "length (groups w) = 8"
  by (simp add: groups_def)

lemma groups_ok: "list_all group_ok (groups w)"
  using be_digits_less [of 65536] by (auto simp: groups_def list_all_iff group_ok_def)

lemma be_digits_add2:
  "be_digits B (k + 2) n = be_digits B k (n div B div B) @ [n div B mod B, n mod B]"
  by (simp add: numeral_2_eq_2)

lemma two_octets: "(x div 256) mod 256 * 256 + x mod 256 = x mod (65536 :: nat)"
  using mod_mult2_eq [of x 256 256] by simp

lemma low_groups_32:
  fixes n :: nat
  shows "(n mod 4294967296) div 65536 mod 65536 = n div 65536 mod 65536"
    and "(n mod 4294967296) mod 65536 = n mod 65536"
  using mod_mult2_eq [of n 65536 65536] by (simp_all add: div_mult1_eq)

lemma octets_explicit:
  fixes m :: nat
  defines "x \<equiv> m div 65536"
  shows "be_digits 256 4 m = [x div 256 mod 256, x mod 256, m div 256 mod 256, m mod 256]"
    and "be_val 256 (take 2 (be_digits 256 4 m)) = x mod 65536"
    and "be_val 256 (drop 2 (be_digits 256 4 m)) = m mod 65536"
proof -
  have x: "m div 256 div 256 = x" by (simp add: x_def div_mult2_eq [symmetric])
  have "be_digits 256 4 m = be_digits 256 2 x @ [m div 256 mod 256, m mod 256]"
    using be_digits_add2 [of 256 2 m] unfolding x by simp
  moreover have "be_digits 256 2 x = [x div 256 mod 256, x mod 256]"
    using be_digits_add2 [of 256 0 x] by (simp add: numeral_2_eq_2)
  ultimately show *: "be_digits 256 4 m = [x div 256 mod 256, x mod 256, m div 256 mod 256, m mod 256]"
    by simp
  show "be_val 256 (take 2 (be_digits 256 4 m)) = x mod 65536"
    "be_val 256 (drop 2 (be_digits 256 4 m)) = m mod 65536"
    unfolding * using two_octets [of x] two_octets [of m] by (simp_all add: be_val_def)
qed

lemma groups_4in6:
  assumes "Is4In6 w"
  shows "groups w = [0, 0, 0, 0, 0, 65535,
    be_val 256 (take 2 (octets (ucast w))), be_val 256 (drop 2 (octets (ucast w)))]"
proof -
  let ?n = "unat w" and ?m = "unat w mod 4294967296"
  have u: "unat (ucast w :: 32 word) = ?m"
    by (simp add: unsigned_ucast_eq take_bit_eq_mod)
  have g: "groups w = take 6 (groups w) @ [?n div 65536 mod 65536, ?n mod 65536]"
    unfolding groups_def using be_digits_add2 [of 65536 6 ?n] by (simp del: be_digits.simps)
  have "be_val 256 (take 2 (octets (ucast w))) = ?n div 65536 mod 65536"
    unfolding octets_def u octets_explicit(2) low_groups_32(1) ..
  moreover have "be_val 256 (drop 2 (octets (ucast w))) = ?n mod 65536"
    unfolding octets_def u octets_explicit(3) low_groups_32(2) ..
  ultimately show ?thesis using g assms by (simp add: Is4In6_def)
qed

lemma is_digit_hex: "is_digit c \<Longrightarrow> is_hex c"
  by (auto simp: is_digit_def is_hex_def hex_val1_def)

lemma print4_hd:
  obtains d r where "print4 w = dec d @ CHR ''.'' # r" "d < 256"
proof -
  have "length (octets w) = 4" by (simp add: octets_def)
  then obtain d e ds where o: "octets w = d # e # ds"
    by (cases "octets w"; cases "tl (octets w)") auto
  moreover have "d < 256" using be_digits_less [of 256 d 4 "unat w"] o by (simp add: octets_def)
  ultimately show thesis using that by (auto simp: print4_def join_with_Cons)
qed

lemma dec_le3: "d < 256 \<Longrightarrow> length (dec d) \<le> 3"
  by (subst dec.simps, subst dec.simps, subst dec.simps) auto

lemma parse6_print4in6:
  assumes "Is4In6 w"
  shows "parse6_groups (print4in6 w) = Some (groups w)"
proof -
  let ?v = "ucast w :: 32 word"
  obtain d r where v: "print4 ?v = dec d @ CHR ''.'' # r" "d < 256" by (rule print4_hd)
  have dig: "takeWhile is_hex (dec d @ CHR ''.'' # r) = dec d"
      "dropWhile is_hex (dec d @ CHR ''.'' # r) = CHR ''.'' # r"
    using dec_digits is_digit_hex by (auto simp: takeWhile_append2 dropWhile_append2)
  have "hex_digit 15 = CHR ''f''" by code_simp
  then have h: "hex 65535 = ''ffff''" by (simp add: hex.simps)
  have hd: "hd (print4 ?v) \<noteq> CHR '':''"
    using v dec_digits [of "hd (dec d)" d] by (auto simp: is_digit_def)
  have "parse6_loop [] (Some 0) (''ffff:'' @ print4 ?v) = parse6_loop [65535] (Some 0) (print4 ?v)"
    using parse6_loop_colon [of "[]" 65535 "print4 ?v" "Some 0"] h hd v(1) by simp
  also have "\<dots> = Some ([65535, be_val 256 (take 2 (octets ?v)), be_val 256 (drop 2 (octets ?v))], Some 0)"
  proof -
    have "takeWhile is_hex (print4 ?v) = dec d" "dropWhile is_hex (print4 ?v) = CHR ''.'' # r"
      unfolding v(1) by (rule dig)+
    then show ?thesis
      unfolding parse6_loop.simps [of "[65535]" "Some 0" "print4 ?v"] Let_def parse4_print4
      using dec_le3 [OF v(2)] by simp
  qed
  finally have "parse6_groups (print4in6 w) = expand_ellipsis
      ([65535, be_val 256 (take 2 (octets ?v)), be_val 256 (drop 2 (octets ?v))], Some 0)"
    by (simp add: print4in6_def parse6_groups_def)
  moreover have "replicate 5 0 = [0, 0, 0, 0, 0 :: nat]" by (simp add: numeral_eq_Suc)
  ultimately show ?thesis
    unfolding groups_4in6 [OF assms] by (simp add: expand_ellipsis_def)
qed

lemma percent_not_in_hexes: "CHR ''%'' \<notin> set (hexes gs)"
proof (induction gs rule: induct_list012)
  case (2 g)
  then show ?case using hex_is_hex [of "CHR ''%''"] by auto
next
  case (3 g g' gs)
  then show ?case using hex_is_hex [of "CHR ''%''" g] by (auto simp: hexes_Cons2)
qed simp

lemma percent_not_in_print4: "CHR ''%'' \<notin> set (print4 w)"
proof -
  have "CHR ''%'' \<notin> set (join_with ''.'' (map dec ds))" for ds
  proof (induction ds rule: induct_list012)
    case (2 g)
    then show ?case using dec_digits [of "CHR ''%''" g] by (auto simp: is_digit_def)
  next
    case (3 g g' gs)
    then show ?case using dec_digits [of "CHR ''%''" g] by (auto simp: is_digit_def join_with_Cons)
  qed simp
  then show ?thesis by (simp add: print4_def)
qed

definition print6 :: "128 word \<Rightarrow> string" where
  "print6 w = (if Is4In6 w then print4in6 w else print6_groups (groups w))"

lemma percent_not_in_print6: "CHR ''%'' \<notin> set (print6 w)"
  using percent_not_in_hexes percent_not_in_print4
  by (auto simp: print6_def print4in6_def print6_groups_def split: prod.splits)

text \<open>The characters of an address without a zone.\<close>

definition addr_char :: "char \<Rightarrow> bool" where
  "addr_char c \<longleftrightarrow> is_hex c \<or> c = CHR ''.'' \<or> c = CHR '':''"

lemma addr_char_join:
  assumes "\<forall>w \<in> set ws. list_all addr_char w" "list_all addr_char sep"
  shows "list_all addr_char (join_with sep ws)"
  using assms by (induction ws rule: induct_list012) auto

lemma addr_char_hexes: "list_all addr_char (hexes gs)"
  by (rule addr_char_join) (auto simp: list_all_iff addr_char_def dest: hex_is_hex)

lemma addr_char_print4: "list_all addr_char (print4 w)"
proof -
  have "is_hex c" if "is_digit c" for c using that by (simp add: is_hex_def hex_val1_def is_digit_def)
  then show ?thesis
    unfolding print4_def by (intro addr_char_join) (auto simp: list_all_iff addr_char_def dest: dec_digits)
qed

lemma addr_char_print6: "list_all addr_char (print6 w)"
proof -
  have "list_all addr_char ''::''" "list_all addr_char ''::ffff:''" by code_simp+
  then show ?thesis
    using addr_char_hexes addr_char_print4
    by (auto simp: print6_def print4in6_def print6_groups_def split: prod.splits)
qed

lemma parse6_print6: "parse6_groups (print6 w) = Some (groups w)"
  using parse6_print4in6 parse6_print6_groups groups_ok by (simp add: print6_def)

lemma find_addr_special_hexes:
  assumes "gs \<noteq> []" "2 \<le> length gs \<or> r \<noteq> [] \<and> hd r = CHR '':''"
  shows "List.find addr_special (hexes gs @ r) = Some CHR '':''"
proof -
  have find_app: "List.find P (xs @ c # ys) = Some c" if "\<forall>x \<in> set xs. \<not> P x" "P c" for P c xs and ys :: string
    using that by (induction xs) auto
  obtain g gs' where gs: "gs = g # gs'" using assms(1) by (cases gs) auto
  have "\<exists>ys. hexes gs @ r = hex g @ CHR '':'' # ys"
    using assms(2) gs by (cases gs'; cases r) (auto simp: join_with_Cons)
  then obtain ys where ys: "hexes gs @ r = hex g @ CHR '':'' # ys" by blast
  have "\<forall>x \<in> set (hex g). \<not> addr_special x"
    by (auto simp: addr_special_def dest: hex_is_hex)
  then show ?thesis
    unfolding ys by (intro find_app) (auto simp: addr_special_def)
qed

lemma find_addr_special_print6: "List.find addr_special (print6 w @ r) = Some CHR '':''"
proof (cases "Is4In6 w")
  case True
  then show ?thesis by (simp add: print6_def print4in6_def addr_special_def)
next
  case False
  obtain s l where z: "zero_run (groups w) = (s, l)" by (cases "zero_run (groups w)")
  have ne: "groups w \<noteq> []" using length_groups [of w] by (metis list.size(3) zero_neq_numeral)
  show ?thesis
  proof (cases "l = 0")
    case True
    then show ?thesis using z False ne find_addr_special_hexes [of "groups w"]
      by (simp add: print6_def print6_groups_def)
  next
    case l: False
    show ?thesis
    proof (cases "take s (groups w) = []")
      case True
      then have "hexes (take s (groups w)) = []" by (simp only: list.map join_with.simps)
      then show ?thesis using z False l
        by (simp add: print6_def print6_groups_def addr_special_def)
    next
      case pre: False
      then show ?thesis using z False l find_addr_special_hexes [OF pre]
        by (simp add: print6_def print6_groups_def)
    qed
  qed
qed

lemma addr_String_V6: "addr_String (V6 w z) = print6 w @ (if z = [] then [] else ''%'' @ z)"
  by (simp add: print6_def)

lemma parse6_String: "parse6 (print6 w @ (if z = [] then [] else ''%'' @ z)) = Some (V6 w z)"
proof -
  have t: "takeWhile (\<lambda>c. c \<noteq> CHR ''%'') (print6 w @ r) = print6 w @ takeWhile (\<lambda>c. c \<noteq> CHR ''%'') r"
    "dropWhile (\<lambda>c. c \<noteq> CHR ''%'') (print6 w @ r) = dropWhile (\<lambda>c. c \<noteq> CHR ''%'') r" for r
    using percent_not_in_print6 [of w] by (auto intro!: takeWhile_append2 dropWhile_append2)
  show ?thesis
    unfolding parse6_def Let_def t by (cases z) (simp_all add: parse6_print6 be_val_groups)
qed

lemma ParseAddr_print4: "ParseAddr (print4 w) = Some (V4 w)"
proof -
  obtain d r where v: "print4 w = dec d @ CHR ''.'' # r" by (rule print4_hd)
  have "List.find addr_special (xs @ CHR ''.'' # r) = Some CHR ''.''" if "\<forall>x \<in> set xs. is_digit x" for xs
    using that by (induction xs) (auto simp: addr_special_def is_digit_def)
  then have "List.find addr_special (print4 w) = Some CHR ''.''"
    using v dec_digits by simp
  then show ?thesis unfolding ParseAddr_def parse4_print4 by (simp add: be_val_octets)
qed

lemma ParseAddr_print6: "ParseAddr (addr_String (V6 w z)) = Some (V6 w z)"
  unfolding addr_String_V6 ParseAddr_def find_addr_special_print6 parse6_String
  by simp

lemma ParseAddr_String: "addr_IsValid a \<Longrightarrow> ParseAddr (addr_String a) = Some a"
  by (cases a) (simp_all add: ParseAddr_print4 ParseAddr_print6 del: addr_String.simps(3))

subsection \<open>Prefixes\<close>

fun prefix_String :: "prefix \<Rightarrow> string" where
  "prefix_String PrefixZero = ''invalid Prefix''"
| "prefix_String (Prefix a b) =
     (if prefix_IsValid (Prefix a b) then addr_String a @ ''/'' @ dec b else ''invalid Prefix'')"

text \<open>Everything before and after the last occurrence of a byte.\<close>

definition cut_last :: "char \<Rightarrow> string \<Rightarrow> (string \<times> string) option" where
  "cut_last c s =
     (let after = rev (takeWhile (\<lambda>x. x \<noteq> c) (rev s))
      in if length after = length s then None
         else Some (take (length s - length after - 1) s, after))"

fun addr_Zone :: "addr \<Rightarrow> string" where
  "addr_Zone (V6 _ z) = z"
| "addr_Zone _ = []"

definition ParsePrefix :: "string \<Rightarrow> prefix option" where
  "ParsePrefix s =
     (case cut_last CHR ''/'' s of
        None \<Rightarrow> None
      | Some (ipStr, bitsStr) \<Rightarrow>
          (case ParseAddr ipStr of
             None \<Rightarrow> None
           | Some ip \<Rightarrow>
               if addr_Zone ip \<noteq> [] then None
               else if bitsStr = [] \<or> \<not> list_all is_digit bitsStr then None
               else if 1 < length bitsStr \<and> hd bitsStr = CHR ''0'' then None
               else if BitLen ip < dec_val bitsStr then None
               else Some (Prefix ip (dec_val bitsStr))))"

lemma cut_last_append:
  assumes "c \<notin> set t"
  shows "cut_last c (s @ c # t) = Some (s, t)"
proof -
  have "takeWhile (\<lambda>x. x \<noteq> c) (rev t @ c # rev s) = rev t @ takeWhile (\<lambda>x. x \<noteq> c) (c # rev s)"
    using assms by (intro takeWhile_append2) auto
  then have "rev (takeWhile (\<lambda>x. x \<noteq> c) (rev (s @ c # t))) = t" by simp
  then show ?thesis by (simp add: cut_last_def Let_def)
qed

lemma slash_not_in_dec: "CHR ''/'' \<notin> set (dec n)"
  using dec_digits [of "CHR ''/''" n] by (auto simp: is_digit_def)

lemma dec_no_leading_zero: "1 < length (dec n) \<Longrightarrow> hd (dec n) \<noteq> CHR ''0''"
proof -
  assume l: "1 < length (dec n)"
  have "n \<noteq> 0" using l by (auto simp: dec_0 intro!: gr0I)
  moreover have "digit 0 = CHR ''0''" by code_simp
  ultimately show "hd (dec n) \<noteq> CHR ''0''" using dec_hd_zero by metis
qed

definition plain_prefix :: "prefix \<Rightarrow> bool" where
  "plain_prefix p \<longleftrightarrow> prefix_IsValid p \<and> addr_Zone (prefix_Addr p) = []"

lemma overlay_net_plain: "overlay_net p \<Longrightarrow> plain_prefix p"
  by (cases p rule: overlay_netE) (auto simp: plain_prefix_def)

lemma ParsePrefix_String:
  assumes "plain_prefix p"
  shows "ParsePrefix (prefix_String p) = Some p"
proof -
  obtain a b where p: "p = Prefix a b" using assms by (cases p) (auto simp: plain_prefix_def)
  with assms have v: "addr_IsValid a" "b \<le> BitLen a" "addr_Zone a = []" "prefix_IsValid p"
    by (auto simp: plain_prefix_def)
  have s: "prefix_String p = addr_String a @ CHR ''/'' # dec b"
    using v p by simp
  have d: "list_all is_digit (dec b)" using dec_digits by (auto simp: list_all_iff)
  show ?thesis
    unfolding ParsePrefix_def s cut_last_append [OF slash_not_in_dec]
    using v ParseAddr_String [OF v(1)] d dec_no_leading_zero [of b] p by simp
qed

lemma ParsePrefix_plain:
  assumes "ParsePrefix s = Some p"
  shows "plain_prefix p"
proof -
  have valid: "addr_IsValid a" if "ParseAddr t = Some a" for t a
    using that by (auto simp: ParseAddr_def parse6_def Let_def split: option.splits if_splits)
  from assms show ?thesis
    by (auto simp: ParsePrefix_def plain_prefix_def not_less dest: valid split: option.splits if_splits prod.splits)
qed

subsection \<open>The interface: a printer and its parser\<close>

text \<open>
  What the store relies on when it keeps an address or a network as text: on the
  values it writes, parsing returns what was printed. Equality of the text is then
  equality of the values, so a UNIQUE index on the text column makes the values unique.
\<close>

locale text_codec =
  fixes print :: "'a \<Rightarrow> string"
    and parse :: "string \<Rightarrow> 'a option"
    and ok :: "'a \<Rightarrow> bool"
  assumes parse_print: "ok x \<Longrightarrow> parse (print x) = Some x"
begin

lemma print_inject: "ok x \<Longrightarrow> ok y \<Longrightarrow> print x = print y \<longleftrightarrow> x = y"
  by (metis option.inject parse_print)

lemma print_mem: "ok x \<Longrightarrow> (\<forall>y \<in> set ys. ok y) \<Longrightarrow> print x \<in> print ` set ys \<longleftrightarrow> x \<in> set ys"
  using print_inject by blast

lemma distinct_print: "(\<forall>y \<in> set ys. ok y) \<Longrightarrow> distinct (map print ys) \<longleftrightarrow> distinct ys"
  by (metis (no_types, lifting) distinct_map inj_on_def print_inject)

lemma parse_all: "(\<forall>y \<in> set ys. ok y) \<Longrightarrow> map parse (map print ys) = map Some ys"
  by (simp add: parse_print)

end

interpretation addr_text: text_codec addr_String ParseAddr addr_IsValid
  by unfold_locales (rule ParseAddr_String)

interpretation prefix_text: text_codec prefix_String ParsePrefix plain_prefix
  by unfold_locales (rule ParsePrefix_String)

end
