(* ===== verification/GoTime.thy ===== *)
theory GoTime
  imports GoStrings
begin

section \<open>Timestamps\<close>

text \<open>
  The clock values the program handles: instants (nanoseconds since the Unix epoch),
  the text form in which every timestamp column of the database is stored
  (\<open>timeFormat\<close>, store.go), its parser, and differences of instants. The comment on
  \<open>timeFormat\<close> promises that comparing the stored strings compares the instants; this
  is \<open>format_time_less\<close>. \<open>time.Format\<close>, \<open>time.Parse\<close>, \<open>Time.Sub\<close> and
  \<open>Time.Add\<close> are modelled for the years 0 to 9999, in UTC as everywhere in the code.
\<close>

type_synonym time = int
type_synonym duration = int

subsection \<open>Calendar\<close>

definition leap :: "nat \<Rightarrow> bool" where
  "leap y \<longleftrightarrow> 4 dvd y \<and> (\<not> 100 dvd y \<or> 400 dvd y)"

text \<open>Days from 0000-01-01 to the first of January of a year.\<close>

definition days_before_year :: "nat \<Rightarrow> nat" where
  "days_before_year y = 365 * y + (y + 3) div 4 + (y + 399) div 400 - (y + 99) div 100"

function find_year :: "nat \<Rightarrow> nat \<Rightarrow> nat" where
  "find_year d y = (if y < d \<and> days_before_year (Suc y) \<le> d then find_year d (Suc y) else y)"
  by pat_completeness auto
termination by (relation "measure (\<lambda>(d, y). d - y)") auto

declare find_year.simps [simp del]

definition year_of :: "nat \<Rightarrow> nat" where
  "year_of d = find_year d (d div 366)"

definition month_lens :: "bool \<Rightarrow> nat list" where
  "month_lens l = [31, if l then 29 else 28, 31, 30, 31, 30, 31, 31, 30, 31, 30, 31]"

fun split_month :: "nat list \<Rightarrow> nat \<Rightarrow> nat \<Rightarrow> nat \<times> nat" where
  "split_month [] m d = (m, d)"
| "split_month (l # ls) m d = (if d < l then (m, d) else split_month ls (Suc m) (d - l))"

text \<open>Year, month (from 1) and day of the month (from 1) of a day number.\<close>

definition civil :: "nat \<Rightarrow> nat \<times> nat \<times> nat" where
  "civil d =
     (let y = year_of d; (m, k) = split_month (month_lens (leap y)) 1 (d - days_before_year y)
      in (y, m, k + 1))"

definition day_number :: "nat \<Rightarrow> nat \<Rightarrow> nat \<Rightarrow> nat" where
  "day_number y m k = days_before_year y + sum_list (take (m - 1) (month_lens (leap y))) + (k - 1)"

lemma div_Suc_dvd:
  assumes "0 < k"
  shows "Suc (y + (k - 1)) div k = (y + (k - 1)) div k + (if k dvd y then 1 else 0)"
proof -
  have "Suc (y + (k - 1)) = y + k" using assms by simp
  then have "Suc (y + (k - 1)) mod k = 0 \<longleftrightarrow> k dvd y" by (simp add: mod_eq_0_iff_dvd)
  then show ?thesis by (simp add: div_Suc)
qed

lemma days_before_year_Suc:
  "days_before_year (Suc y) = days_before_year y + (if leap y then 366 else 365)"
proof -
  have s: "Suc (y + 3) div 4 = (y + 3) div 4 + (if 4 dvd y then 1 else 0)"
    "Suc (y + 399) div 400 = (y + 399) div 400 + (if 400 dvd y then 1 else 0)"
    "Suc (y + 99) div 100 = (y + 99) div 100 + (if 100 dvd y then 1 else 0)"
    using div_Suc_dvd [of 4 y] div_Suc_dvd [of 400 y] div_Suc_dvd [of 100 y] by simp_all
  have le: "(y + 99) div 100 \<le> 365 * y + (y + 3) div 4 + (y + 399) div 400"
  proof (cases y)
    case (Suc x)
    then have "(y + 99) div 100 \<le> (100 * y) div 100" by (intro div_le_mono) simp
    then show ?thesis by simp
  qed simp
  have dv: "(100::nat) dvd y \<Longrightarrow> 4 dvd y" "(400::nat) dvd y \<Longrightarrow> 100 dvd y"
    by (rule dvd_trans [of _ 100], simp_all) (rule dvd_trans [of _ 400], simp_all)
  have gen: "c \<le> 365 * y + a + b \<Longrightarrow> (q \<Longrightarrow> p) \<Longrightarrow> (r \<Longrightarrow> q) \<Longrightarrow>
      365 + 365 * y + (a + (if p then 1 else 0)) + (b + (if r then 1 else 0)) - (c + (if q then 1 else 0))
      = (365 * y + a + b - c) + (if p \<and> (\<not> q \<or> r) then 366 else 365)" for a b c p q r
    by (cases p; cases q; cases r) simp_all
  show ?thesis
    unfolding days_before_year_def leap_def add_Suc s mult_Suc_right by (rule gen [OF le dv])
qed

lemma month_lens_sum: "sum_list (month_lens l) = (if l then 366 else 365)"
  by (simp add: month_lens_def)

lemma days_before_year_mono: "y \<le> z \<Longrightarrow> days_before_year y \<le> days_before_year z"
  by (rule lift_Suc_mono_le) (auto simp: days_before_year_Suc)

lemma days_before_year_ge: "y \<le> days_before_year y"
  by (induction y) (auto simp: days_before_year_Suc days_before_year_def)

lemma days_before_year_le: "days_before_year y \<le> 366 * y"
  by (induction y) (auto simp: days_before_year_Suc days_before_year_def)

lemma find_year_bounds:
  assumes "days_before_year y \<le> d"
  shows "days_before_year (find_year d y) \<le> d \<and> d < days_before_year (Suc (find_year d y))"
  using assms
proof (induction d y rule: find_year.induct)
  case (1 d y)
  show ?case
  proof (cases "y < d \<and> days_before_year (Suc y) \<le> d")
    case True
    with 1 show ?thesis by (simp add: find_year.simps [of d y])
  next
    case False
    have "d < days_before_year (Suc y)"
    proof (cases "y < d")
      case False
      then show ?thesis using days_before_year_ge [of "Suc y"] by linarith
    qed (use False in auto)
    with 1 False show ?thesis by (subst (1 2) find_year.simps) auto
  qed
qed

lemma year_of_bounds: "days_before_year (year_of d) \<le> d" "d < days_before_year (Suc (year_of d))"
proof -
  have "days_before_year (d div 366) \<le> d"
    using days_before_year_le [of "d div 366"] by (meson mult_div_mod_eq le_trans times_div_less_eq_dividend)
  from find_year_bounds [OF this] show "days_before_year (year_of d) \<le> d" "d < days_before_year (Suc (year_of d))"
    by (simp_all add: year_of_def)
qed

lemma year_of_eqI: "days_before_year y \<le> d \<Longrightarrow> d < days_before_year (Suc y) \<Longrightarrow> year_of d = y"
  using year_of_bounds [of d] days_before_year_mono [of "Suc y" "year_of d"]
    days_before_year_mono [of "Suc (year_of d)" y]
  by (metis leD le_less_trans not_less_eq_eq nle_le order.trans Suc_leI linorder_neqE_nat)

lemma year_of_less:
  assumes "d < e" shows "year_of d \<le> year_of e"
proof (rule ccontr)
  assume "\<not> year_of d \<le> year_of e"
  then have "days_before_year (Suc (year_of e)) \<le> days_before_year (year_of d)"
    by (intro days_before_year_mono) simp
  with year_of_bounds [of d] year_of_bounds [of e] assms show False by linarith
qed

lemma split_month_ge: "split_month ls m d = (m', k) \<Longrightarrow> m \<le> m'"
  by (induction ls m d rule: split_month.induct) (auto split: if_splits)

lemma split_month_bounds:
  assumes "split_month ls m d = (m', k)" and "d < sum_list ls"
  shows "m' < m + length ls \<and> k < ls ! (m' - m) \<and> sum_list (take (m' - m) ls) + k = d"
  using assms
proof (induction ls m d rule: split_month.induct)
  case (1 m d)
  then show ?case by simp
next
  case (2 l ls m d)
  show ?case
  proof (cases "d < l")
    case False
    with 2 have "m' < Suc m + length ls \<and> k < ls ! (m' - Suc m) \<and> sum_list (take (m' - Suc m) ls) + k = d - l"
      by auto
    moreover have "Suc m \<le> m'" using 2 False by (auto dest: split_month_ge)
    ultimately show ?thesis using False by (auto simp: nth_Cons' take_Cons' Suc_diff_Suc)
  qed (use 2 in auto)
qed

lemma split_month_less:
  assumes "d < e" "split_month ls m d = (m1, k1)" "split_month ls m e = (m2, k2)"
  shows "m1 < m2 \<or> m1 = m2 \<and> k1 < k2"
  using assms
proof (induction ls arbitrary: m d e)
  case (Cons l ls)
  show ?case
  proof (cases "d < l")
    case True
    then show ?thesis using Cons.prems by (cases "e < l") (auto dest: split_month_ge)
  next
    case False
    then show ?thesis using Cons.prems Cons.IH [of "d - l" "e - l" "Suc m"] by auto
  qed
qed auto

lemma civil_bounds:
  assumes "civil d = (y, m, k)"
  shows "year_of d = y" "1 \<le> m" "m \<le> 12" "1 \<le> k" "k \<le> month_lens (leap y) ! (m - 1)" "day_number y m k = d"
proof -
  let ?doy = "d - days_before_year (year_of d)"
  obtain k' where y: "year_of d = y" and s: "split_month (month_lens (leap y)) 1 ?doy = (m, k')" and k: "k = k' + 1"
    using assms by (auto simp: civil_def Let_def split: prod.splits)
  have "?doy < sum_list (month_lens (leap y))"
    using year_of_bounds [of d] y by (auto simp: month_lens_sum days_before_year_Suc)
  from split_month_bounds [OF s this]
  have b: "m < 1 + 12" "k' < month_lens (leap y) ! (m - 1)"
      "sum_list (take (m - 1) (month_lens (leap y))) + k' = ?doy"
    by (auto simp: month_lens_def)
  show "year_of d = y" by (rule y)
  show "1 \<le> m" using s by (rule split_month_ge)
  show "m \<le> 12" "1 \<le> k" "k \<le> month_lens (leap y) ! (m - 1)" using b k by auto
  show "day_number y m k = d" using b(3) k y year_of_bounds(1) [of d] by (simp add: day_number_def)
qed

lemma month_lens_le: "m < 12 \<Longrightarrow> month_lens l ! m \<le> 31"
  using nth_mem [of m "month_lens l"] by (auto simp: month_lens_def split: if_splits)

lemma civil_day_le: "civil d = (y, m, k) \<Longrightarrow> k \<le> 31"
  using civil_bounds(2,3,5) [of d y m k] month_lens_le [of "m - 1" "leap y"] by linarith

lemma civil_less:
  assumes "d < e" "civil d = (y1, m1, k1)" "civil e = (y2, m2, k2)"
  shows "y1 < y2 \<or> y1 = y2 \<and> (m1 < m2 \<or> m1 = m2 \<and> k1 < k2)"
proof (cases "y1 = y2")
  case True
  have y: "year_of d = y1" "year_of e = y1" using civil_bounds assms True by auto
  then have lt: "d - days_before_year y1 < e - days_before_year y1"
    using year_of_bounds [of d] assms(1) by auto
  from y assms(2,3) True obtain j1 j2 where
    "split_month (month_lens (leap y1)) 1 (d - days_before_year y1) = (m1, j1)" "k1 = j1 + 1"
    "split_month (month_lens (leap y1)) 1 (e - days_before_year y1) = (m2, j2)" "k2 = j2 + 1"
    by (auto simp: civil_def Let_def split: prod.splits)
  with split_month_less [OF lt] True show ?thesis by force
next
  case False
  then show ?thesis using year_of_less [OF assms(1)] civil_bounds(1) assms by force
qed

subsection \<open>Text form\<close>

text \<open>
  \<open>Format("2006-01-02T15:04:05.000Z")\<close> of the instant \<open>n\<close> milliseconds after
  0000-01-01: the fraction is truncated to milliseconds.
\<close>

definition pad4 :: "nat \<Rightarrow> string" where
  "pad4 y = (if y < 10000 then pad 4 y else dec y)"

definition layout :: "nat \<Rightarrow> nat \<Rightarrow> nat \<Rightarrow> nat \<Rightarrow> nat \<Rightarrow> nat \<Rightarrow> nat \<Rightarrow> string" where
  "layout y m k hh mi ss ms =
     pad4 y @ ''-'' @ pad 2 m @ ''-'' @ pad 2 k @ ''T'' @ pad 2 hh @ '':'' @ pad 2 mi @ '':'' @
     pad 2 ss @ ''.'' @ pad 3 ms @ ''Z''"

definition format_ms :: "nat \<Rightarrow> string" where
  "format_ms n =
     (let (y, m, k) = civil (n div 86400000); r = n mod 86400000
      in layout y m k (r div 3600000) (r mod 3600000 div 60000) (r mod 60000 div 1000) (r mod 1000))"

text \<open>1970-01-01 is day 719528.\<close>

definition abs_ms :: "time \<Rightarrow> int" where
  "abs_ms t = t div 1000000 + 719528 * 86400000"

definition format_time :: "time \<Rightarrow> string" where
  "format_time t = format_ms (nat (abs_ms t))"

definition ms_limit :: nat where
  "ms_limit = days_before_year 10000 * 86400000"

definition valid_time :: "time \<Rightarrow> bool" where
  "valid_time t \<longleftrightarrow> 0 \<le> abs_ms t \<and> nat (abs_ms t) < ms_limit"

lemma year_limit:
  assumes "n < ms_limit"
  shows "year_of (n div 86400000) < 10000"
proof (rule ccontr)
  assume "\<not> ?thesis"
  then have "days_before_year 10000 \<le> days_before_year (year_of (n div 86400000))"
    by (intro days_before_year_mono) simp
  also have "\<dots> \<le> n div 86400000" by (rule year_of_bounds)
  finally have "days_before_year 10000 * 86400000 \<le> n div 86400000 * 86400000" by (rule mult_le_mono1)
  also have "\<dots> \<le> n" by simp
  finally show False using assms unfolding ms_limit_def by simp
qed

lemma tod_bounds:
  fixes r :: nat
  shows "r < 86400000 \<Longrightarrow> r div 3600000 < 24" "r mod 3600000 div 60000 < 60" "r mod 60000 div 1000 < 60"
    "r mod 1000 < 1000"
  by (simp_all add: less_mult_imp_div_less)

lemma tod_less:
  fixes r s :: nat
  assumes "r < s"
  shows "r div 3600000 < s div 3600000 \<or> r div 3600000 = s div 3600000 \<and>
    (r mod 3600000 div 60000 < s mod 3600000 div 60000 \<or>
     r mod 3600000 div 60000 = s mod 3600000 div 60000 \<and>
      (r mod 60000 div 1000 < s mod 60000 div 1000 \<or> r mod 60000 div 1000 = s mod 60000 div 1000 \<and>
        r mod 1000 < s mod 1000))"
proof -
  have mm: "r mod 3600000 mod 60000 = r mod 60000" "r mod 60000 mod 1000 = r mod 1000" for r :: nat
    by (simp_all add: mod_mod_cancel)
  show ?thesis
    using assms div_mod_less_iff [of r s 3600000]
      div_mod_less_iff [of "r mod 3600000" "s mod 3600000" 60000]
      div_mod_less_iff [of "r mod 60000" "s mod 60000" 1000]
    unfolding mm by blast
qed

lemma pad_cmp:
  fixes x y :: string
  assumes "m < 10 ^ w" "n < 10 ^ w"
  shows "pad w m @ x < pad w n @ y \<longleftrightarrow> m < n \<or> m = n \<and> x < y"
  using assms pad_less [OF assms] dec_val_pad [of m w] dec_val_pad [of n w]
  by (subst append_less_iff) (simp, metis)

lemma layout_less:
  assumes "y < 10000" "y' < 10000" "m < 100" "m' < 100" "k < 100" "k' < 100" "h < 100" "h' < 100"
    "i < 100" "i' < 100" "s < 100" "s' < 100" "f < 1000" "f' < 1000"
    and "y < y' \<or> y = y' \<and> (m < m' \<or> m = m' \<and> (k < k' \<or> k = k' \<and>
      (h < h' \<or> h = h' \<and> (i < i' \<or> i = i' \<and> (s < s' \<or> s = s' \<and> f < f')))))"
  shows "layout y m k h i s f < layout y' m' k' h' i' s' f'"
  using assms unfolding layout_def pad4_def by (simp add: pad_cmp)

lemma format_ms_less:
  assumes "n < n'" "n' < ms_limit"
  shows "format_ms n < format_ms n'"
proof -
  let ?d = "n div 86400000" and ?e = "n' div 86400000" and ?r = "n mod 86400000" and ?s = "n' mod 86400000"
  obtain y m k where c: "civil ?d = (y, m, k)" by (cases "civil ?d")
  obtain y' m' k' where c': "civil ?e = (y', m', k')" by (cases "civil ?e")
  have cb: "y < 10000" "m < 100" "k < 100" "y' < 10000" "m' < 100" "k' < 100"
    using civil_bounds [OF c] civil_bounds [OF c'] year_limit [of n] year_limit [of n'] assms
      civil_day_le [OF c] civil_day_le [OF c'] by auto
  have tb: "r div 3600000 < 100" "r mod 3600000 div 60000 < 100" "r mod 60000 div 1000 < 100"
    "r mod 1000 < 1000" if "r < 86400000" for r :: nat
    using tod_bounds [of r] that by (auto intro: less_trans)
  have rs: "?r < 86400000" "?s < 86400000" by simp_all
  have dl: "?d < ?e \<or> ?d = ?e \<and> ?r < ?s" using assms(1) div_mod_less_iff by blast
  have lex: "y < y' \<or> y = y' \<and> (m < m' \<or> m = m' \<and> (k < k' \<or> k = k' \<and> ?r < ?s))"
    using dl civil_less [OF _ c c'] c c' by auto
  show ?thesis
    unfolding format_ms_def Let_def c c' prod.case
    by (rule layout_less) (use cb tb [OF rs(1)] tb [OF rs(2)] lex tod_less [of ?r ?s] in blast)+
qed

lemma format_ms_less_iff:
  assumes "n < ms_limit" "n' < ms_limit"
  shows "format_ms n < format_ms n' \<longleftrightarrow> n < n'"
  using assms format_ms_less [of n n'] format_ms_less [of n' n]
  by (metis linorder_neqE_nat order_less_asym order_less_irrefl)

text \<open>
  Comparing two stored timestamps as strings compares the instants, to the millisecond.
\<close>

lemma format_time_less:
  assumes "valid_time t" "valid_time u"
  shows "format_time t < format_time u \<longleftrightarrow> t div 1000000 < u div 1000000"
proof -
  have "format_time t < format_time u \<longleftrightarrow> nat (abs_ms t) < nat (abs_ms u)"
    using assms format_ms_less_iff by (simp add: format_time_def valid_time_def)
  also have "\<dots> \<longleftrightarrow> t div 1000000 < u div 1000000"
    using assms by (auto simp: valid_time_def abs_ms_def)
  finally show ?thesis .
qed

lemma format_time_le:
  assumes "valid_time t" "valid_time u"
  shows "format_time t \<le> format_time u \<longleftrightarrow> t div 1000000 \<le> u div 1000000"
  using format_time_less [OF assms(2,1)] by (metis linorder_not_less)

subsection \<open>Parsing\<close>

definition lit :: "char \<Rightarrow> string \<Rightarrow> string option" where
  "lit c s = (case s of [] \<Rightarrow> None | x # r \<Rightarrow> if x = c then Some r else None)"

text \<open>\<open>getnum\<close>: two digits; one digit is enough when the field is not fixed.\<close>

definition getnum :: "bool \<Rightarrow> string \<Rightarrow> (nat \<times> string) option" where
  "getnum fixed s =
     (case s of
        [] \<Rightarrow> None
      | c # r \<Rightarrow>
          if \<not> is_digit c then None
          else if r = [] \<or> \<not> is_digit (hd r) then (if fixed then None else Some (dec_val [c], r))
          else Some (dec_val [c, hd r], tl r))"

definition digits_n :: "nat \<Rightarrow> string \<Rightarrow> (nat \<times> string) option" where
  "digits_n w s =
     (if length s < w \<or> \<not> list_all is_digit (take w s) then None
      else Some (dec_val (take w s), drop w s))"

definition obind :: "('a \<times> string) option \<Rightarrow> ('a \<Rightarrow> string \<Rightarrow> 'b option) \<Rightarrow> 'b option" where
  "obind m f = (case m of None \<Rightarrow> None | Some (x, r) \<Rightarrow> f x r)"

definition date_time :: "nat \<Rightarrow> nat \<Rightarrow> nat \<Rightarrow> nat \<Rightarrow> nat \<Rightarrow> nat \<Rightarrow> nat \<Rightarrow> time option" where
  "date_time y m k hh mi ss ms =
     (if m < 1 \<or> 12 < m \<or> k < 1 \<or> month_lens (leap y) ! (m - 1) < k \<or> 24 \<le> hh \<or> 60 \<le> mi \<or> 60 \<le> ss
      then None
      else Some ((int (((day_number y m k * 24 + hh) * 60 + mi) * 60 + ss) * 1000 + int ms
                  - 719528 * 86400000) * 1000000))"

definition parse_time :: "string \<Rightarrow> time option" where
  "parse_time s =
     obind (digits_n 4 s) (\<lambda>y s. Option.bind (lit CHR ''-'' s) (\<lambda>s.
     obind (getnum True s) (\<lambda>m s. Option.bind (lit CHR ''-'' s) (\<lambda>s.
     obind (getnum True s) (\<lambda>k s. Option.bind (lit CHR ''T'' s) (\<lambda>s.
     obind (getnum False s) (\<lambda>hh s. Option.bind (lit CHR '':'' s) (\<lambda>s.
     obind (getnum True s) (\<lambda>mi s. Option.bind (lit CHR '':'' s) (\<lambda>s.
     obind (getnum True s) (\<lambda>ss s. 
     Option.bind (if s \<noteq> [] \<and> (hd s = CHR ''.'' \<or> hd s = CHR '','') then Some (tl s) else None) (\<lambda>s.
     obind (digits_n 3 s) (\<lambda>ms s. Option.bind (lit CHR ''Z'' s) (\<lambda>s.
     if s = [] then date_time y m k hh mi ss ms else None))))))))))))))"

lemma lit_Cons [simp]: "lit c (c # s) = Some s"
  by (simp add: lit_def)

lemma obind_Some [simp]: "obind (Some (x, r)) f = f x r"
  by (simp add: obind_def)

lemma digits_n_pad [simp]: "n < 10 ^ w \<Longrightarrow> digits_n w (pad w n @ r) = Some (n, r)"
  using pad_digits by (auto simp: digits_n_def list_all_iff dec_val_pad)

lemma getnum_pad [simp]:
  assumes "n < 100"
  shows "getnum b (pad 2 n @ r) = Some (n, r)"
proof -
  have p: "pad 2 n = [digit (n div 10), digit (n mod 10)]"
    using assms by (simp add: pad_def numeral_2_eq_2)
  moreover have "dec_val (pad 2 n) = n" using assms by (intro dec_val_pad) simp
  moreover have "n div 10 < 10" using assms by (simp add: less_mult_imp_div_less)
  ultimately show ?thesis by (simp add: getnum_def)
qed

lemma tod_sum_eq:
  fixes r :: nat
  shows "h * 3600000 + u = r \<Longrightarrow> i * 60000 + v = u \<Longrightarrow> s * 1000 + f = v \<Longrightarrow>
    ((h * 60 + i) * 60 + s) * 1000 + f = r"
  by simp

lemma tod_sum:
  fixes r :: nat
  obtains h i s f where "h = r div 3600000" "i = r mod 3600000 div 60000" "s = r mod 60000 div 1000"
    "f = r mod 1000" "((h * 60 + i) * 60 + s) * 1000 + f = r"
proof -
  have mm: "r mod 3600000 mod 60000 = r mod 60000" "r mod 60000 mod 1000 = r mod 1000"
    by (simp_all add: mod_mod_cancel)
  define h i s f where d: "h = r div 3600000" "i = r mod 3600000 div 60000" "s = r mod 60000 div 1000"
    "f = r mod 1000"
  have e1: "h * 3600000 + r mod 3600000 = r" unfolding d by (rule div_mult_mod_eq)
  have e2: "i * 60000 + r mod 60000 = r mod 3600000"
    using div_mult_mod_eq [of "r mod 3600000" 60000] unfolding d mm .
  have e3: "s * 1000 + f = r mod 60000"
    using div_mult_mod_eq [of "r mod 60000" 1000] unfolding d mm .
  from e1 e2 e3 have "((h * 60 + i) * 60 + s) * 1000 + f = r" by (rule tod_sum_eq)
  with d that show thesis by blast
qed

lemma parse_layout:
  assumes "y < 10000" "m < 100" "k < 100" "h < 100" "i < 100" "s < 100" "f < 1000"
  shows "parse_time (layout y m k h i s f) = date_time y m k h i s f"
  using assms unfolding parse_time_def layout_def pad4_def by simp

lemma parse_format_ms:
  assumes "n < ms_limit"
  shows "parse_time (format_ms n) = Some ((int n - 719528 * 86400000) * 1000000)"
proof -
  define d r where dr: "d = n div 86400000" "r = n mod 86400000"
  obtain y m k where c: "civil d = (y, m, k)" by (cases "civil d")
  have b: "1 \<le> m" "m \<le> 12" "1 \<le> k" "k \<le> month_lens (leap y) ! (m - 1)" "day_number y m k = d" "k \<le> 31" "y < 10000"
    using civil_bounds [OF c] civil_day_le [OF c] year_limit [OF assms] dr by auto
  obtain h i s f where t: "h = r div 3600000" "i = r mod 3600000 div 60000" "s = r mod 60000 div 1000"
      "f = r mod 1000" "((h * 60 + i) * 60 + s) * 1000 + f = r"
    by (rule tod_sum)
  have r: "r < 86400000" by (simp add: dr)
  have tb: "h < 24" "i < 60" "s < 60" "f < 1000"
    unfolding t(1-4) by (rule tod_bounds(1) [OF r] tod_bounds(2-4))+
  have n: "n = d * 86400000 + r" unfolding dr by (simp add: div_mult_mod_eq)
  have sum: "int (((d * 24 + h) * 60 + i) * 60 + s) * 1000 + int f = int n"
    unfolding n t(5) [symmetric] by (simp add: algebra_simps)
  have "format_ms n = layout y m k h i s f"
    unfolding format_ms_def Let_def dr [symmetric] c prod.case t ..
  moreover have "date_time y m k h i s f = Some ((int n - 719528 * 86400000) * 1000000)"
    unfolding date_time_def b(5) sum using b tb by auto
  ultimately show ?thesis using parse_layout [of y m k h i s f] b tb by simp
qed

lemma parse_format_time:
  assumes "valid_time t"
  shows "parse_time (format_time t) = Some (t div 1000000 * 1000000)"
  using assms parse_format_ms [of "nat (abs_ms t)"]
  by (simp add: valid_time_def format_time_def abs_ms_def)

text \<open>\<open>UTC().Format(time.RFC3339)\<close>: the store's layout without the fraction.\<close>

definition format_rfc3339 :: "time \<Rightarrow> string" where
  "format_rfc3339 t = take 19 (format_time t) @ ''Z''"

lemma epoch_text: "format_time 0 = ''1970-01-01T00:00:00.000Z''"
  by code_simp

subsection \<open>Differences\<close>

text \<open>\<open>Time.Sub\<close> saturates at the bounds of an int64 duration.\<close>

definition time_sub :: "time \<Rightarrow> time \<Rightarrow> duration" where
  "time_sub t u = max (- (2 ^ 63)) (min (2 ^ 63 - 1) (t - u))"

end
