(* ===== verification/Schema.thy ===== *)
theory Schema
  imports NetipText GoTime
begin

section \<open>The database schema\<close>

text \<open>
  The SQLite database of the control plane at schema version 18 (schema.sql and the
  migrations of store.go): one record per row, a table as the list of its rows in rowid
  order, and the constraints SQLite enforces on the three tables that carry them
  (setup_keys, peers, users) as executable predicates. A statement computes the new
  table and is refused with \<open>ErrConstraint\<close> when the table breaks a constraint. A
  nullable column is an option; \<open>nullable\<close> maps the empty Go string to NULL and
  \<open>coalesce\<close> is SQL's COALESCE.
\<close>

subsection \<open>Rows\<close>

record setup_key =
  sk_id :: int
  sk_key :: string
  sk_name :: "string option"
  sk_created_at :: string
  sk_expires_at :: "string option"
  sk_revoked_at :: "string option"
  sk_max_uses :: "int option"
  sk_uses_consumed :: int

record peer =
  p_id :: int
  p_public_key :: string
  p_assigned_ip :: string
  p_assigned_ip6 :: "string option"
  p_hostname :: "string option"
  p_listen_port :: "int option"
  p_last_seen_at :: "string option"
  p_created_at :: string
  p_revoked_at :: "string option"
  p_setup_key_id :: int
  p_auth_token_hash :: "string option"
  p_auth_token_issued_at :: "string option"
  p_observed_ip :: "string option"
  p_public_endpoint :: "string option"
  p_peer_type :: string
  p_gateway_peer_id :: "int option"
  p_private_key_enc :: "string option"
  p_gateway_endpoint :: "string option"
  p_candidates :: "string option"
  p_nat_type :: "string option"
  p_advertise_exit_node :: bool
  p_exit_node_peer_id :: "int option"
  p_agent_version :: "string option"

record acl_rule =
  r_id :: int
  r_name :: "string option"
  r_src_peer_id :: "int option"
  r_dst_peer_id :: "int option"
  r_protocol :: string
  r_port_min :: "int option"
  r_port_max :: "int option"
  r_created_at :: string

record link_stat =
  l_peer_id :: int
  l_remote_peer_id :: int
  l_rx_bytes :: int
  l_tx_bytes :: int
  l_last_handshake_at :: "string option"
  l_updated_at :: string

record flow =
  f_id :: int
  f_peer_id :: int
  f_protocol :: int
  f_src_ip :: string
  f_src_port :: int
  f_dst_ip :: string
  f_dst_port :: int
  f_tx_bytes :: int
  f_rx_bytes :: int
  f_tx_packets :: int
  f_rx_packets :: int
  f_reported_at :: string

record peer_path =
  pp_peer_id :: int
  pp_remote_peer_id :: int
  pp_state :: string
  pp_endpoint :: "string option"
  pp_updated_at :: string

record connection_event =
  c_id :: int
  c_at :: string
  c_reporter_peer_id :: int
  c_remote_peer_id :: int
  c_kind :: string
  c_from_state :: "string option"
  c_to_state :: string

record audit_row =
  a_id :: int
  a_at :: string
  a_event :: string
  a_peer_id :: "int option"
  a_overlay_ip :: "string option"
  a_remote_ip :: "string option"
  a_forwarded_for :: "string option"
  a_user_agent :: "string option"
  a_method :: "string option"
  a_path :: "string option"
  a_status :: int
  a_detail :: "string option"

record proxy_row =
  x_id :: int
  x_peer_id :: "int option"
  x_at :: string
  x_method :: "string option"
  x_host :: "string option"
  x_path :: "string option"
  x_status :: int
  x_duration_ms :: int
  x_req_bytes :: int
  x_resp_bytes :: int
  x_client_ip :: "string option"
  x_service :: "string option"

record user =
  u_id :: int
  u_username :: string
  u_password_hash :: string
  u_auth_source :: string
  u_session_epoch :: int
  u_created_at :: string
  u_updated_at :: string

record db =
  setup_keys :: "setup_key list"
  peers :: "peer list"
  acl_rules :: "acl_rule list"
  settings :: "string \<Rightarrow> string option"
  link_stats :: "link_stat list"
  flows :: "flow list"
  peer_paths :: "peer_path list"
  connection_events :: "connection_event list"
  audit_log :: "audit_row list"
  proxy_events :: "proxy_row list"
  users :: "user list"

text \<open>The \<open>Store\<close> struct: the database and the configuration set at startup.\<close>

record store =
  st_db :: db
  st_network :: prefix
  DefaultAllow :: bool
  TokenTTL :: duration
  Network6 :: prefix

subsection \<open>Errors\<close>

text \<open>
  The sentinel errors of the package, with the wrapped detail where the code attaches
  one; \<open>ErrConstraint\<close> is an error SQLite raises for a violated constraint,
  \<open>ErrMsg\<close> an error with no sentinel.
\<close>

datatype store_error =
    ErrUnauthorized string
  | ErrNotFound
  | ErrAddressInUse
  | ErrPeerExists
  | ErrInvalid string
  | ErrNoStoredConfig
  | ErrUserExists
  | ErrAuth
  | ErrConstraint
  | ErrMsg string

subsection \<open>NULLs\<close>

definition nullable :: "string \<Rightarrow> string option" where
  "nullable s = (if s = [] then None else Some s)"

definition nullable_int :: "int \<Rightarrow> int option" where
  "nullable_int i = (if 0 < i then Some i else None)"

fun coalesce :: "'a option \<Rightarrow> 'a \<Rightarrow> 'a" where
  "coalesce None d = d"
| "coalesce (Some x) _ = x"

fun or_else :: "'a option \<Rightarrow> 'a option \<Rightarrow> 'a option" where
  "or_else None d = d"
| "or_else (Some x) _ = Some x"

lemma nullable_coalesce [simp]: "coalesce (nullable s) [] = s"
  by (simp add: nullable_def)

lemma nullable_None [simp]: "nullable s = None \<longleftrightarrow> s = []"
  by (simp add: nullable_def)

lemma nullable_Some: "nullable s = Some t \<longleftrightarrow> s = t \<and> s \<noteq> []"
  by (auto simp: nullable_def)

lemma nullable_nonempty [simp]: "s \<noteq> [] \<Longrightarrow> nullable s = Some s"
  by (simp add: nullable_def)

lemma nullable_Nil [simp]: "nullable [] = None"
  by (simp add: nullable_def)

subsection \<open>Constraints\<close>

definition port_ok :: "int option \<Rightarrow> bool" where
  "port_ok v = (case v of None \<Rightarrow> True | Some n \<Rightarrow> 1 \<le> n \<and> n \<le> 65535)"

definition uses_ok :: "setup_key \<Rightarrow> bool" where
  "uses_ok k \<longleftrightarrow> 0 \<le> sk_uses_consumed k \<and>
     (case sk_max_uses k of None \<Rightarrow> True | Some m \<Rightarrow> 0 \<le> m \<and> sk_uses_consumed k \<le> m)"

definition ref_ok :: "int list \<Rightarrow> int option \<Rightarrow> bool" where
  "ref_ok ids v = (case v of None \<Rightarrow> True | Some i \<Rightarrow> i \<in> set ids)"

definition setup_keys_ok :: "setup_key list \<Rightarrow> bool" where
  "setup_keys_ok rows \<longleftrightarrow>
     distinct (map sk_id rows) \<and> distinct (map sk_key rows) \<and> list_all uses_ok rows"

definition peer_row_ok :: "int list \<Rightarrow> int list \<Rightarrow> peer \<Rightarrow> bool" where
  "peer_row_ok keys ids p \<longleftrightarrow>
     port_ok (p_listen_port p) \<and> p_setup_key_id p \<in> set keys \<and>
     ref_ok ids (p_gateway_peer_id p) \<and> ref_ok ids (p_exit_node_peer_id p)"

definition peers_ok :: "int list \<Rightarrow> peer list \<Rightarrow> bool" where
  "peers_ok keys rows \<longleftrightarrow>
     distinct (map p_id rows) \<and> distinct (map p_public_key rows) \<and>
     distinct (map p_assigned_ip rows) \<and> distinct (col p_assigned_ip6 rows) \<and>
     list_all (peer_row_ok keys (map p_id rows)) rows"

definition users_ok :: "user list \<Rightarrow> bool" where
  "users_ok rows \<longleftrightarrow> distinct (map u_id rows) \<and> distinct (map u_username rows)"

text \<open>
  Statements on the constrained tables. Every UPDATE of the program on these tables
  changes at most one row or the same unconstrained column of many, so checking the
  resulting table is checking the statement.
\<close>

definition write_setup_keys :: "setup_key list \<Rightarrow> db \<Rightarrow> store_error + db" where
  "write_setup_keys rows d =
     ensureE (setup_keys_ok rows) ErrConstraint (Inr (d\<lparr>setup_keys := rows\<rparr>))"

definition write_peers :: "peer list \<Rightarrow> db \<Rightarrow> store_error + db" where
  "write_peers rows d =
     ensureE (peers_ok (map sk_id (setup_keys d)) rows) ErrConstraint (Inr (d\<lparr>peers := rows\<rparr>))"

definition write_users :: "user list \<Rightarrow> db \<Rightarrow> store_error + db" where
  "write_users rows d = ensureE (users_ok rows) ErrConstraint (Inr (d\<lparr>users := rows\<rparr>))"

text \<open>Lookup of a row by its primary key.\<close>

definition peer_by_id :: "int \<Rightarrow> db \<Rightarrow> peer option" where
  "peer_by_id i d = List.find (\<lambda>p. p_id p = i) (peers d)"

definition empty_db :: db where
  "empty_db = \<lparr>setup_keys = [], peers = [], acl_rules = [], settings = (\<lambda>_. None),
     link_stats = [], flows = [], peer_paths = [], connection_events = [],
     audit_log = [], proxy_events = [], users = []\<rparr>"

subsection \<open>Transporting uniqueness through statements\<close>

lemma write_setup_keys_Inr [go_simps]:
  "write_setup_keys rows d = Inr d' \<longleftrightarrow> setup_keys_ok rows \<and> d' = d\<lparr>setup_keys := rows\<rparr>"
  by (auto simp: write_setup_keys_def go_simps)

lemma write_peers_Inr [go_simps]:
  "write_peers rows d = Inr d' \<longleftrightarrow>
     peers_ok (map sk_id (setup_keys d)) rows \<and> d' = d\<lparr>peers := rows\<rparr>"
  by (auto simp: write_peers_def go_simps)

lemma write_users_Inr [go_simps]:
  "write_users rows d = Inr d' \<longleftrightarrow> users_ok rows \<and> d' = d\<lparr>users := rows\<rparr>"
  by (auto simp: write_users_def go_simps)

lemma write_Inl [go_simps]:
  "write_setup_keys rows d = Inl e \<longleftrightarrow> \<not> setup_keys_ok rows \<and> e = ErrConstraint"
  "write_peers prows d = Inl e \<longleftrightarrow> \<not> peers_ok (map sk_id (setup_keys d)) prows \<and> e = ErrConstraint"
  "write_users urows d = Inl e \<longleftrightarrow> \<not> users_ok urows \<and> e = ErrConstraint"
  by (auto simp: write_setup_keys_def write_peers_def write_users_def go_simps)

lemma peer_by_id_Some:
  assumes "distinct (map p_id (peers d))"
  shows "peer_by_id i d = Some p \<longleftrightarrow> p \<in> set (peers d) \<and> p_id p = i"
  using assms find_unique [of p_id "peers d" p]
  unfolding peer_by_id_def by (auto dest: find_Some_mem)

lemma peer_by_id_None: "peer_by_id i d = None \<longleftrightarrow> i \<notin> p_id ` set (peers d)"
  by (auto simp: peer_by_id_def find_None_all)

text \<open>An update that keeps the key columns keeps the table's constraints.\<close>

lemma peers_ok_update:
  assumes "peers_ok keys rows"
    and "\<And>p. p \<in> set rows \<Longrightarrow> P p \<Longrightarrow> p_id (f p) = p_id p \<and> p_public_key (f p) = p_public_key p \<and>
      p_assigned_ip (f p) = p_assigned_ip p \<and> p_assigned_ip6 (f p) = p_assigned_ip6 p"
    and "\<And>p. p \<in> set rows \<Longrightarrow> P p \<Longrightarrow> peer_row_ok keys (map p_id rows) p \<Longrightarrow>
      peer_row_ok keys (map p_id rows) (f p)"
  shows "peers_ok keys (update_where P f rows)"
proof -
  have m: "map p_id (update_where P f rows) = map p_id rows"
    "map p_public_key (update_where P f rows) = map p_public_key rows"
    "map p_assigned_ip (update_where P f rows) = map p_assigned_ip rows"
    "map p_assigned_ip6 (update_where P f rows) = map p_assigned_ip6 rows"
    using assms(2) by (auto intro!: map_update_where)
  have c: "col p_assigned_ip6 (update_where P f rows) = col p_assigned_ip6 rows"
    using m(4) by (rule col_cong)
  show ?thesis
    using assms(1,3) unfolding peers_ok_def m c by (auto simp: list_all_iff set_update_where)
qed

lemma peer_row_ok_mono: "peer_row_ok keys ids p \<Longrightarrow> set ids \<subseteq> set ids' \<Longrightarrow> peer_row_ok keys ids' p"
  by (auto simp: peer_row_ok_def ref_ok_def split: option.splits)

lemma peers_ok_append:
  assumes "peers_ok keys rows"
    and "p_id p \<notin> p_id ` set rows" "p_public_key p \<notin> p_public_key ` set rows"
    and "p_assigned_ip p \<notin> p_assigned_ip ` set rows"
    and "\<And>v q. p_assigned_ip6 p = Some v \<Longrightarrow> q \<in> set rows \<Longrightarrow> p_assigned_ip6 q \<noteq> Some v"
    and "peer_row_ok keys (map p_id rows) p"
  shows "peers_ok keys (rows @ [p])"
proof -
  have "distinct (col p_assigned_ip6 (rows @ [p]))"
    using assms(1,5) by (auto simp: peers_ok_def col_Cons set_col split: option.split)
  moreover have "list_all (peer_row_ok keys (map p_id (rows @ [p]))) (rows @ [p])"
    using assms(1,6) by (auto simp: peers_ok_def list_all_iff intro: peer_row_ok_mono)
  ultimately show ?thesis using assms(1-4) by (auto simp: peers_ok_def)
qed

lemma setup_keys_ok_update:
  assumes "setup_keys_ok rows"
    and "\<And>k. k \<in> set rows \<Longrightarrow> P k \<Longrightarrow> sk_id (f k) = sk_id k \<and> sk_key (f k) = sk_key k"
    and "\<And>k. k \<in> set rows \<Longrightarrow> P k \<Longrightarrow> uses_ok k \<Longrightarrow> uses_ok (f k)"
  shows "setup_keys_ok (update_where P f rows)"
proof -
  have "map sk_id (update_where P f rows) = map sk_id rows"
    "map sk_key (update_where P f rows) = map sk_key rows"
    using assms(2) by (auto intro!: map_update_where)
  with assms(1,3) show ?thesis
    unfolding setup_keys_ok_def by (auto simp: list_all_iff set_update_where)
qed

end
