(* ===== verification/Alloc.thy ===== *)
theory Alloc
  imports Schema
begin

section \<open>Overlay address allocation\<close>

text \<open>
  \<open>allocateAddr\<close> (store.go) and \<open>firstOverlayHosts\<close> (network.go): both walk the
  host addresses of an overlay network upwards from the one after the network address.
  \<open>nth_host p n\<close> is the \<open>n\<close>-th address of a network; the walks are characterised by
  it: the allocator returns the lowest host that is not taken and fails only when all are,
  the migration planner the first \<open>n\<close> hosts and fails only when there are fewer.
\<close>

definition nth_host :: "prefix \<Rightarrow> nat \<Rightarrow> addr" where
  "nth_host p n = (addr_Next ^^ n) (prefix_Addr p)"

function alloc_scan :: "prefix \<Rightarrow> addr list \<Rightarrow> addr \<Rightarrow> addr option" where
  "alloc_scan p used ip =
     (if \<not> Contains p ip then None
      else if ip \<notin> set used then Some ip else alloc_scan p used (addr_Next ip))"
  by pat_completeness auto
termination
  by (relation "measure (\<lambda>(p, used, ip). addr_room ip)") (auto dest: Contains_valid intro: addr_room_Next)

declare alloc_scan.simps [simp del]

definition parse_column :: "string list \<Rightarrow> store_error + addr list" where
  "parse_column raws =
     foldE (\<lambda>raw used. case ParseAddr raw of
               None \<Rightarrow> Inl (ErrMsg ''parse address from database'')
             | Some a \<Rightarrow> Inr (used @ [a])) raws []"

definition allocateAddr :: "prefix \<Rightarrow> string list \<Rightarrow> store_error + string" where
  "allocateAddr p column =
     bindE (parse_column column) (\<lambda>used.
       case alloc_scan p used (addr_Next (prefix_Addr p)) of
         Some ip \<Rightarrow> Inr (addr_String ip)
       | None \<Rightarrow> Inl (ErrMsg (''overlay network '' @ prefix_String p @ '' has no free addresses'')))"

text \<open>
  \<open>firstOverlayHosts\<close>: \<open>out\<close> is the list built so far; the loop returns it when it
  reaches \<open>n\<close> entries and reports how many there were otherwise.
\<close>

function hosts_loop :: "prefix \<Rightarrow> nat \<Rightarrow> string list \<Rightarrow> addr \<Rightarrow> nat + string list" where
  "hosts_loop p n out ip =
     (if \<not> Contains p ip then Inl (length out)
      else let out' = out @ [addr_String ip]
           in if length out' = n then Inr out' else hosts_loop p n out' (addr_Next ip))"
  by pat_completeness auto
termination
  by (relation "measure (\<lambda>(p, n, out, ip). addr_room ip)") (auto dest: Contains_valid intro: addr_room_Next)

declare hosts_loop.simps [simp del]

definition firstOverlayHosts :: "prefix \<Rightarrow> nat \<Rightarrow> store_error + string list" where
  "firstOverlayHosts p n =
     (if n = 0 then Inr []
      else case hosts_loop p n [] (addr_Next (prefix_Addr p)) of
             Inr out \<Rightarrow> Inr out
           | Inl k \<Rightarrow> Inl (ErrMsg (''overlay network '' @ prefix_String p @ '' has room for '' @ dec k @
               '' peer(s), need '' @ dec n)))"

subsection \<open>The hosts of a network\<close>

lemma nth_host_0: "nth_host p 0 = prefix_Addr p"
  by (simp add: nth_host_def)

lemma nth_host_Suc: "nth_host p (Suc n) = addr_Next (nth_host p n)"
  by (simp add: nth_host_def)

lemma overlay_net_fits:
  assumes "overlay_net p"
  shows "addr_val (prefix_Addr p) + prefix_size p \<le> 2 ^ BitLen (prefix_Addr p)"
proof -
  have *: "m + 2 ^ (L - b) \<le> 2 ^ L"
    if "m < 2 ^ L" "b \<le> L" "m div 2 ^ (L - b) * 2 ^ (L - b) = m" for m b L :: nat
  proof -
    have L: "(2::nat) ^ L = 2 ^ b * 2 ^ (L - b)"
      using that(2) by (simp add: power_add [symmetric])
    have "m div 2 ^ (L - b) < 2 ^ b"
      using that(1) unfolding L by (simp add: less_mult_imp_div_less)
    then have "(m div 2 ^ (L - b) + 1) * 2 ^ (L - b) \<le> 2 ^ b * 2 ^ (L - b)"
      by (intro mult_le_mono1) simp
    with that(3) show ?thesis unfolding L by (simp add: add_mult_distrib)
  qed
  from assms show ?thesis
  proof (cases p rule: overlay_netE)
    case (1 m b)
    then show ?thesis using * [of "unat m" 32 b] word_room_pos [of m] by simp
  next
    case (2 m b)
    then show ?thesis using * [of "unat m" 128 b] word_room_pos [of m] by simp
  qed
qed

lemma addr_val_less: "addr_IsValid a \<Longrightarrow> addr_val a < 2 ^ BitLen a"
  using word_room_pos [where ?'a = 32] word_room_pos [where ?'a = 128] by (cases a) auto

lemma word_wrap:
  fixes w :: "'a::len word"
  assumes "w + 1 = 0"
  shows "Suc (unat w) = 2 ^ LENGTH('a)"
proof -
  have "(unat w + unat (1 :: 'a word)) mod 2 ^ LENGTH('a) = 0"
    using assms by (metis unat_word_ariths(1) unsigned_0)
  then have "Suc (unat w) mod 2 ^ LENGTH('a) = 0" by simp
  moreover have "Suc (unat w) \<le> 2 ^ LENGTH('a)" unfolding Suc_le_eq by (rule word_room_pos)
  ultimately show ?thesis by (metis Suc_neq_Zero le_neq_implies_less mod_less)
qed

lemma addr_Next_ZeroD: "addr_IsValid a \<Longrightarrow> addr_Next a = AddrZero \<Longrightarrow> Suc (addr_val a) = 2 ^ BitLen a"
  by (cases a) (auto dest: word_wrap split: if_splits)

lemma same_family_BitLen: "same_family a b \<Longrightarrow> BitLen a = BitLen b"
  by (cases a; cases b) auto

lemma same_family_trans: "same_family a b \<Longrightarrow> same_family b c \<Longrightarrow> same_family a c"
  by (cases a; cases b; cases c) auto

lemma nth_host_val:
  assumes "overlay_net p" "n < prefix_size p"
  shows "same_family (prefix_Addr p) (nth_host p n) \<and> addr_val (nth_host p n) = addr_val (prefix_Addr p) + n"
  using assms(2)
proof (induction n)
  case 0
  then show ?case using Contains_prefix_Addr [OF assms(1)] Contains_iff [OF assms(1)] by (simp add: nth_host_0)
next
  case (Suc n)
  then have IH: "same_family (prefix_Addr p) (nth_host p n)"
      "addr_val (nth_host p n) = addr_val (prefix_Addr p) + n"
    by auto
  have v: "addr_IsValid (nth_host p n)" using IH(1) by (cases "nth_host p n"; cases "prefix_Addr p") auto
  have "addr_Next (nth_host p n) \<noteq> AddrZero"
    using addr_Next_ZeroD [OF v] overlay_net_fits [OF assms(1)] Suc.prems IH(2) same_family_BitLen [OF IH(1)]
    by auto
  then show ?case
    using addr_Next_val addr_Next_family IH same_family_trans by (auto simp: nth_host_Suc)
qed

lemma Contains_nth_host:
  assumes "overlay_net p" "n < prefix_size p"
  shows "Contains p (nth_host p n)"
  using nth_host_val [OF assms] Contains_iff [OF assms(1)] assms(2) by simp

lemma nth_host_end:
  assumes "overlay_net p"
  shows "\<not> Contains p (nth_host p (prefix_size p))"
proof -
  have pos: "0 < prefix_size p" using assms by (cases p rule: overlay_netE) auto
  then obtain n where n: "prefix_size p = Suc n" by (cases "prefix_size p") auto
  have v: "addr_val (nth_host p n) = addr_val (prefix_Addr p) + n"
    using nth_host_val [OF assms, of n] n by simp
  show ?thesis
  proof (cases "addr_Next (nth_host p n) = AddrZero")
    case True
    then show ?thesis unfolding n nth_host_Suc by (auto dest: Contains_valid)
  next
    case False
    then have "addr_val (nth_host p (prefix_size p)) = addr_val (prefix_Addr p) + prefix_size p"
      unfolding n nth_host_Suc using addr_Next_val v by simp
    then show ?thesis using Contains_iff [OF assms] by simp
  qed
qed

lemma Contains_host_exists:
  assumes "overlay_net p" "Contains p a"
  shows "\<exists>n < prefix_size p. a = nth_host p n"
proof -
  let ?n = "addr_val a - addr_val (prefix_Addr p)"
  have c: "same_family (prefix_Addr p) a" "addr_val (prefix_Addr p) \<le> addr_val a" "?n < prefix_size p"
    using assms Contains_iff [OF assms(1)] by auto
  have f: "same_family a b" if "same_family (prefix_Addr p) b" for b
    using c(1) that by (cases "prefix_Addr p"; cases a; cases b) auto
  have nv: "same_family (prefix_Addr p) (nth_host p ?n)"
      "addr_val (nth_host p ?n) = addr_val (prefix_Addr p) + ?n"
    using nth_host_val [OF assms(1) c(3)] by blast+
  then have "addr_val a = addr_val (nth_host p ?n)" using c(2) by linarith
  then have "a = nth_host p ?n" using addr_eq_iff [OF f [OF nv(1)]] by blast
  with c(3) show ?thesis by blast
qed

lemma nth_host_inject:
  assumes "overlay_net p" "m < prefix_size p" "n < prefix_size p"
  shows "nth_host p m = nth_host p n \<longleftrightarrow> m = n"
  by (metis add_left_cancel assms nth_host_val)

lemma nth_host_valid: "overlay_net p \<Longrightarrow> n < prefix_size p \<Longrightarrow> addr_IsValid (nth_host p n)"
  by (rule Contains_valid [OF Contains_nth_host])

subsection \<open>The allocator\<close>

lemma alloc_scan_find:
  assumes "overlay_net p" "n \<le> prefix_size p"
  shows "alloc_scan p used (nth_host p n) =
    map_option (nth_host p) (List.find (\<lambda>i. nth_host p i \<notin> set used) [n..<prefix_size p])"
  using assms(2)
proof (induction n rule: inc_induct)
  case base
  then show ?case using nth_host_end [OF assms(1)] by (simp add: alloc_scan.simps)
next
  case (step n)
  then have "[n..<prefix_size p] = n # [Suc n..<prefix_size p]" by (simp add: upt_conv_Cons)
  with step show ?case
    using Contains_nth_host [OF assms(1), of n] by (subst alloc_scan.simps) (simp add: nth_host_Suc)
qed

lemma parse_column_append:
  assumes "\<forall>a \<in> set as. addr_IsValid a"
  shows "parse_column (map addr_String as) = Inr as"
proof -
  have "foldE (\<lambda>raw used. case ParseAddr raw of
      None \<Rightarrow> Inl (ErrMsg ''parse address from database'') | Some a \<Rightarrow> Inr (used @ [a]))
      (map addr_String as) us = Inr (us @ as)" for us
    using assms by (induction as arbitrary: us) (auto simp: addr_text.parse_print)
  from this [of "[]"] show ?thesis by (simp add: parse_column_def)
qed

lemma find_Some_least:
  "List.find P [m..<k] = Some i \<longleftrightarrow> m \<le> i \<and> i < k \<and> P i \<and> (\<forall>j. m \<le> j \<and> j < i \<longrightarrow> \<not> P j)"
  (is "?l \<longleftrightarrow> ?r")
proof
  assume ?l
  then obtain n where n: "n < k - m" "P (m + n)" "i = m + n" "\<And>j. j < n \<Longrightarrow> \<not> P (m + j)"
    unfolding find_Some_iff by auto
  have "\<not> P j" if "m \<le> j" "j < i" for j
    using n(4) [of "j - m"] that n(3) by simp
  with n show ?r by auto
next
  assume ?r
  then show ?l
    unfolding find_Some_iff by (intro exI [of _ "i - m"]) auto
qed

text \<open>
  The addresses a column holds, when all of its values were written by the store.
\<close>

definition column_of :: "addr list \<Rightarrow> string list \<Rightarrow> bool" where
  "column_of as vs \<longleftrightarrow> vs = map addr_String as \<and> (\<forall>a \<in> set as. addr_IsValid a)"

lemma allocateAddr_eq:
  assumes "overlay_net p" "column_of as column" "1 \<le> prefix_size p"
  shows "allocateAddr p column =
    (case List.find (\<lambda>i. nth_host p i \<notin> set as) [1..<prefix_size p] of
       Some i \<Rightarrow> Inr (addr_String (nth_host p i))
     | None \<Rightarrow> Inl (ErrMsg (''overlay network '' @ prefix_String p @ '' has no free addresses'')))"
proof -
  have "parse_column column = Inr as"
    using assms(2) parse_column_append by (simp add: column_of_def)
  moreover have "alloc_scan p as (addr_Next (prefix_Addr p)) =
      map_option (nth_host p) (List.find (\<lambda>i. nth_host p i \<notin> set as) [1..<prefix_size p])"
    using alloc_scan_find [OF assms(1,3), of as] by (simp add: nth_host_def)
  ultimately show ?thesis by (simp add: allocateAddr_def split: option.split)
qed

lemma prefix_size_pos: "overlay_net p \<Longrightarrow> 1 \<le> prefix_size p"
  by (cases p rule: overlay_netE) auto

lemma allocateAddr_Inr:
  assumes "overlay_net p" "column_of as column" "allocateAddr p column = Inr s"
  obtains i where "1 \<le> i" "i < prefix_size p" "s = addr_String (nth_host p i)" "nth_host p i \<notin> set as"
    "\<And>j. 1 \<le> j \<Longrightarrow> j < i \<Longrightarrow> nth_host p j \<in> set as"
  using assms(3) that
  unfolding allocateAddr_eq [OF assms(1,2) prefix_size_pos [OF assms(1)]]
  by (auto simp: find_Some_least split: option.splits)

lemma allocateAddr_fresh:
  assumes "overlay_net p" "column_of as column" "allocateAddr p column = Inr s"
  shows "s \<notin> set column"
proof -
  obtain i where i: "i < prefix_size p" "s = addr_String (nth_host p i)" "nth_host p i \<notin> set as"
    using allocateAddr_Inr [OF assms] by metis
  then show ?thesis
    using assms(2) addr_text.print_mem [of "nth_host p i" as] nth_host_valid [OF assms(1) i(1)]
    by (auto simp: column_of_def)
qed

subsection \<open>The first hosts\<close>

lemma hosts_loop_eq:
  assumes "overlay_net p" "m \<le> prefix_size p" "length out < n"
  shows "hosts_loop p n out (nth_host p m) =
    (if m + (n - length out) \<le> prefix_size p
     then Inr (out @ map (\<lambda>i. addr_String (nth_host p i)) [m..<m + (n - length out)])
     else Inl (length out + (prefix_size p - m)))"
  using assms(2,3)
proof (induction m arbitrary: out rule: inc_induct)
  case base
  then show ?case using nth_host_end [OF assms(1)] by (simp add: hosts_loop.simps)
next
  case (step m)
  have c: "Contains p (nth_host p m)" using Contains_nth_host [OF assms(1)] step by simp
  let ?out = "out @ [addr_String (nth_host p m)]"
  show ?case
  proof (cases "length ?out = n")
    case True
    then show ?thesis using c step by (subst hosts_loop.simps) (auto simp: Let_def)
  next
    case False
    then have "length ?out < n" using step by simp
    from step.IH [OF this] False c step.prems step.hyps show ?thesis
      by (subst hosts_loop.simps) (auto simp: Let_def nth_host_Suc upt_conv_Cons Suc_diff_Suc)
  qed
qed

lemma firstOverlayHosts_eq:
  assumes "overlay_net p" "n < prefix_size p"
  shows "firstOverlayHosts p n = Inr (map (\<lambda>i. addr_String (nth_host p i)) [1..<Suc n])"
  using assms prefix_size_pos [OF assms(1)] hosts_loop_eq [OF assms(1), of 1 "[]" n]
  by (auto simp: firstOverlayHosts_def nth_host_def)

lemma firstOverlayHosts_Inl:
  assumes "overlay_net p"
  shows "(\<exists>e. firstOverlayHosts p n = Inl e) \<longleftrightarrow> prefix_size p \<le> n \<and> 0 < n"
  using assms prefix_size_pos [OF assms(1)] hosts_loop_eq [OF assms(1), of 1 "[]" n]
  by (auto simp: firstOverlayHosts_def nth_host_def)

end
