(* ===== verification/Encoding.thy ===== *)
theory Encoding
  imports NetipText
begin

section \<open>Binary-to-text encodings\<close>

text \<open>
  The encodings of tokens, hashes, session cookies and sealed keys: hexadecimal
  (encoding/hex) and the three base64 variants the code uses (encoding/base64:
  RawURLEncoding, RawStdEncoding, StdEncoding). Each is an instance of the interface
  \<open>text_codec\<close>: decoding returns the encoded bytes.
\<close>

subsection \<open>Sextets\<close>

fun b64_quads :: "nat list \<Rightarrow> nat list" where
  "b64_quads [] = []"
| "b64_quads [a] = [a div 4, a mod 4 * 16]"
| "b64_quads [a, b] = [a div 4, a mod 4 * 16 + b div 16, b mod 16 * 4]"
| "b64_quads (a # b # c # r) =
     [a div 4, a mod 4 * 16 + b div 16, b mod 16 * 4 + c div 64, c mod 64] @ b64_quads r"

fun b64_unquads :: "nat list \<Rightarrow> nat list option" where
  "b64_unquads [] = Some []"
| "b64_unquads [p] = None"
| "b64_unquads [p, q] = Some [p * 4 + q div 16]"
| "b64_unquads [p, q, r] = Some [p * 4 + q div 16, q mod 16 * 16 + r div 4]"
| "b64_unquads (p # q # r # s # t) =
     map_option (\<lambda>bs. [p * 4 + q div 16, q mod 16 * 16 + r div 4, r mod 4 * 64 + s] @ bs) (b64_unquads t)"

lemma b64_unquads_quads:
  assumes "\<forall>a \<in> set bs. a < 256"
  shows "b64_unquads (b64_quads bs) = Some bs"
proof -
  have d: "a div 4 * 4 + a mod 4 = a" "b div 16 * 16 + b mod 16 = b" "c div 64 * 64 + c mod 64 = c" for a b c :: nat
    by (rule div_mult_mod_eq)+
  from assms show ?thesis
  proof (induction bs rule: b64_quads.induct)
    case (2 a)
    then show ?case using d(1) [of a] by simp
  next
    case (3 a b)
    then have "b div 16 < 16" by (simp add: less_mult_imp_div_less)
    then show ?case using d(1) [of a] d(2) [of b] by (simp add: mult.commute)
  next
    case (4 a b c r)
    then have "b div 16 < 16" "c div 64 < 4" by (simp_all add: less_mult_imp_div_less)
    then show ?case using 4 d(1) [of a] d(2) [of b] d(3) [of c] by (simp add: mult.commute)
  qed simp
qed

lemma b64_quads_less:
  assumes "\<forall>a \<in> set bs. a < 256"
  shows "\<forall>q \<in> set (b64_quads bs). q < 64"
  using assms
proof (induction bs rule: b64_quads.induct)
  case (2 a)
  then show ?case using mod_less_divisor [of 4 a] by (auto simp: less_mult_imp_div_less)
next
  case (3 a b)
  then have "b div 16 < 16" "a div 4 < 64" by (simp_all add: less_mult_imp_div_less)
  then show ?case using mod_less_divisor [of 4 a] mod_less_divisor [of 16 b] by auto
next
  case (4 a b c r)
  then have "b div 16 < 16" "c div 64 < 4" "a div 4 < 64" by (simp_all add: less_mult_imp_div_less)
  then show ?case
    using 4 mod_less_divisor [of 4 a] mod_less_divisor [of 16 b] mod_less_divisor [of 64 c] by auto
qed simp

subsection \<open>Alphabets\<close>

definition url_alphabet :: string where
  "url_alphabet = ''ABCDEFGHIJKLMNOPQRSTUVWXYZabcdefghijklmnopqrstuvwxyz0123456789-_''"

definition std_alphabet :: string where
  "std_alphabet = ''ABCDEFGHIJKLMNOPQRSTUVWXYZabcdefghijklmnopqrstuvwxyz0123456789+/''"

fun index_of :: "char \<Rightarrow> string \<Rightarrow> nat option" where
  "index_of c [] = None"
| "index_of c (x # xs) = (if x = c then Some 0 else map_option Suc (index_of c xs))"

definition raw_encode :: "string \<Rightarrow> string \<Rightarrow> string" where
  "raw_encode alpha s = map (\<lambda>q. alpha ! q) (b64_quads (map code s))"

fun sequence :: "'a option list \<Rightarrow> 'a list option" where
  "sequence [] = Some []"
| "sequence (None # _) = None"
| "sequence (Some x # r) = map_option ((#) x) (sequence r)"

text \<open>The decoder skips line breaks and refuses any other byte outside the alphabet.\<close>

definition raw_decode :: "string \<Rightarrow> string \<Rightarrow> string option" where
  "raw_decode alpha s =
     Option.bind (sequence (map (\<lambda>c. index_of c alpha) (filter (\<lambda>c. code c \<noteq> 10 \<and> code c \<noteq> 13) s)))
       (\<lambda>qs. map_option (map byte) (b64_unquads qs))"

lemma index_of_nth: "distinct xs \<Longrightarrow> i < length xs \<Longrightarrow> index_of (xs ! i) xs = Some i"
proof (induction xs arbitrary: i)
  case (Cons x xs)
  then show ?case by (cases i) (auto dest: nth_mem)
qed simp

lemma sequence_Some [simp]: "sequence (map Some xs) = Some xs"
  by (induction xs) auto

definition alphabet_ok :: "string \<Rightarrow> bool" where
  "alphabet_ok alpha \<longleftrightarrow>
     distinct alpha \<and> length alpha = 64 \<and> list_all (\<lambda>c. code c \<noteq> 10 \<and> code c \<noteq> 13 \<and> c \<noteq> CHR ''='') alpha"

lemma alphabets_ok: "alphabet_ok url_alphabet" "alphabet_ok std_alphabet"
  by code_simp+

lemma raw_encode_set:
  assumes "alphabet_ok alpha"
  shows "set (raw_encode alpha s) \<subseteq> set alpha"
  using assms b64_quads_less [of "map code s"] by (auto simp: raw_encode_def alphabet_ok_def)

lemma raw_decode_encode:
  assumes "alphabet_ok alpha"
  shows "raw_decode alpha (raw_encode alpha s) = Some s"
proof -
  let ?qs = "b64_quads (map code s)"
  have q: "\<forall>q \<in> set ?qs. q < 64" by (rule b64_quads_less) simp
  have "filter (\<lambda>c. code c \<noteq> 10 \<and> code c \<noteq> 13) (raw_encode alpha s) = raw_encode alpha s"
    using raw_encode_set [OF assms, of s] assms by (auto simp: filter_id_conv alphabet_ok_def list_all_iff)
  moreover have "map (\<lambda>c. index_of c alpha) (raw_encode alpha s) = map Some ?qs"
    using q assms by (auto simp: raw_encode_def alphabet_ok_def index_of_nth)
  moreover have "b64_unquads ?qs = Some (map code s)" by (rule b64_unquads_quads) simp
  ultimately show ?thesis by (simp add: raw_decode_def comp_def)
qed

subsection \<open>The variants\<close>

abbreviation RawURLEncode :: "string \<Rightarrow> string" where
  "RawURLEncode \<equiv> raw_encode url_alphabet"

abbreviation RawURLDecode :: "string \<Rightarrow> string option" where
  "RawURLDecode \<equiv> raw_decode url_alphabet"

abbreviation RawStdEncode :: "string \<Rightarrow> string" where
  "RawStdEncode \<equiv> raw_encode std_alphabet"

abbreviation RawStdDecode :: "string \<Rightarrow> string option" where
  "RawStdDecode \<equiv> raw_decode std_alphabet"

text \<open>\<open>StdEncoding\<close> pads with \<open>=\<close> to a multiple of four.\<close>

definition StdEncode :: "string \<Rightarrow> string" where
  "StdEncode s = (let r = RawStdEncode s in r @ replicate ((4 - length r mod 4) mod 4) CHR ''='')"

definition StdDecode :: "string \<Rightarrow> string option" where
  "StdDecode s =
     (let t = filter (\<lambda>c. code c \<noteq> 10 \<and> code c \<noteq> 13) s;
          body = takeWhile (\<lambda>c. c \<noteq> CHR ''='') t; padding = dropWhile (\<lambda>c. c \<noteq> CHR ''='') t
      in if length t mod 4 \<noteq> 0 \<or> 2 < length padding \<or> \<not> list_all (\<lambda>c. c = CHR ''='') padding then None
         else RawStdDecode body)"

lemma length_b64_quads: "length (b64_quads bs) mod 4 \<noteq> 1"
  by (induction bs rule: b64_quads.induct) auto

lemma StdDecode_Encode: "StdDecode (StdEncode s) = Some s"
proof -
  let ?r = "RawStdEncode s"
  define k where "k = (4 - length ?r mod 4) mod 4"
  have al: "\<forall>c \<in> set ?r. code c \<noteq> 10 \<and> code c \<noteq> 13 \<and> c \<noteq> CHR ''=''"
    using raw_encode_set [OF alphabets_ok(2), of s] alphabets_ok(2)
    by (auto simp: alphabet_ok_def list_all_iff)
  have f: "filter (\<lambda>c. code c \<noteq> 10 \<and> code c \<noteq> 13) (?r @ replicate k CHR ''='') = ?r @ replicate k CHR ''=''"
    using al by (auto simp: filter_id_conv)
  have "length ?r mod 4 \<noteq> 1" using length_b64_quads by (simp add: raw_encode_def)
  moreover have "length ?r mod 4 < 4" by simp
  ultimately have "length ?r mod 4 \<in> {0, 2, 3}" by auto
  then have k: "k \<le> 2" "(length ?r mod 4 + k) mod 4 = 0" by (auto simp: k_def)
  have l: "(length ?r + k) mod 4 = 0" using k(2) by (simp add: mod_add_left_eq)
  have t: "takeWhile (\<lambda>c. c \<noteq> CHR ''='') (?r @ replicate k CHR ''='') = ?r"
    "dropWhile (\<lambda>c. c \<noteq> CHR ''='') (?r @ replicate k CHR ''='') = replicate k CHR ''=''"
    using al by (cases k; auto simp: takeWhile_append2 dropWhile_append2)+
  have e: "StdEncode s = ?r @ replicate k CHR ''=''" by (simp add: StdEncode_def Let_def k_def)
  show ?thesis
    unfolding e StdDecode_def Let_def f t
    using l k(1) raw_decode_encode [OF alphabets_ok(2)] by (simp add: list_all_iff)
qed

subsection \<open>Hexadecimal\<close>

definition hex_encode :: "string \<Rightarrow> string" where
  "hex_encode s = concat (map (\<lambda>c. [hex_digit (code c div 16), hex_digit (code c mod 16)]) s)"

fun hex_decode :: "string \<Rightarrow> string option" where
  "hex_decode [] = Some []"
| "hex_decode [_] = None"
| "hex_decode (h # l # r) =
     (case (hex_val1 h, hex_val1 l) of
        (Some x, Some y) \<Rightarrow> map_option ((#) (byte (16 * x + y))) (hex_decode r)
      | _ \<Rightarrow> None)"

lemma hex_decode_encode: "hex_decode (hex_encode s) = Some s"
proof (induction s)
  case (Cons c s)
  have "code c div 16 < 16" by (simp add: less_mult_imp_div_less)
  with Cons show ?case by (simp add: hex_encode_def hex_val1_digit)
qed (simp add: hex_encode_def)

lemma length_hex_encode: "length (hex_encode s) = 2 * length s"
  by (induction s) (auto simp: hex_encode_def)

interpretation b64url: text_codec RawURLEncode RawURLDecode "\<lambda>_. True"
  by unfold_locales (rule raw_decode_encode [OF alphabets_ok(1)])

interpretation b64rawstd: text_codec RawStdEncode RawStdDecode "\<lambda>_. True"
  by unfold_locales (rule raw_decode_encode [OF alphabets_ok(2)])

interpretation b64std: text_codec StdEncode StdDecode "\<lambda>_. True"
  by unfold_locales (rule StdDecode_Encode)

interpretation hexenc: text_codec hex_encode hex_decode "\<lambda>_. True"
  by unfold_locales (rule hex_decode_encode)

lemma StdEncode_visible: "list_all visible_char (StdEncode s)"
proof -
  have "list_all visible_char std_alphabet" "visible_char CHR ''=''" by code_simp+
  then show ?thesis
    using raw_encode_set [OF alphabets_ok(2), of s] by (auto simp: StdEncode_def Let_def list_all_iff)
qed

lemma StdEncode_ne: "s \<noteq> [] \<Longrightarrow> StdEncode s \<noteq> []"
  using StdDecode_Encode [of s] StdDecode_Encode [of "[]"] by (auto simp: StdEncode_def raw_encode_def)

end
