(* ===== verification/StoreInv.thy ===== *)
theory StoreInv
  imports Alloc Encoding
begin

section \<open>The store invariant\<close>

text \<open>
  What holds of the store between operations, beyond what SQLite enforces: rowids
  ascend in table order, a setup key has been consumed at least once per peer enrolled with
  it, only static peers have a gateway, exit assignments of active peers do not chain,
  the referencing tables mention existing peers only, and every overlay address is the
  canonical text of a host of the configured network. Each operation's theory proves that
  it keeps \<open>store_inv\<close>, with the rules of this theory for the three kinds of change: the
  peers table rewritten with the same rows' identities, a peer appended, a peer deleted.
\<close>

subsection \<open>Definitions\<close>

definition rowids :: "int list \<Rightarrow> bool" where
  "rowids ids \<longleftrightarrow> sorted_wrt (<) ids \<and> list_all (\<lambda>i. 0 < i) ids"

definition peers_of_key :: "int \<Rightarrow> peer list \<Rightarrow> nat" where
  "peers_of_key k rows = length (filter (\<lambda>p. p_setup_key_id p = k) rows)"

definition uses_inv :: "setup_key list \<Rightarrow> peer list \<Rightarrow> bool" where
  "uses_inv keys rows \<longleftrightarrow> list_all (\<lambda>k. int (peers_of_key (sk_id k) rows) \<le> sk_uses_consumed k) keys"

definition kind_ok :: "peer \<Rightarrow> bool" where
  "kind_ok p \<longleftrightarrow> p_peer_type p = ''agent'' \<and> p_gateway_peer_id p = None \<or>
     p_peer_type p = ''static'' \<and> p_exit_node_peer_id p = None"

text \<open>
  An active peer's exit node is another agent which has no exit node itself.
\<close>

definition exit_ok :: "peer list \<Rightarrow> peer \<Rightarrow> bool" where
  "exit_ok rows p \<longleftrightarrow>
     (case p_exit_node_peer_id p of
        None \<Rightarrow> True
      | Some e \<Rightarrow> p_revoked_at p = None \<longrightarrow>
          e \<noteq> p_id p \<and> list_all (\<lambda>q. p_id q = e \<longrightarrow> p_peer_type q = ''agent'' \<and> p_exit_node_peer_id q = None) rows)"

text \<open>
  A stored ACL rule: it references existing peers, never one peer twice, and its service is
  in the form \<open>normalizeACLService\<close> gives it.
\<close>

definition service_ok :: "string \<Rightarrow> int option \<Rightarrow> int option \<Rightarrow> bool" where
  "service_ok proto lo hi \<longleftrightarrow>
     proto \<in> set [''any'', ''tcp'', ''udp'', ''icmp'', ''icmpv6''] \<and>
     (case (lo, hi) of
        (None, None) \<Rightarrow> True
      | (Some a, Some b) \<Rightarrow> proto \<notin> set [''icmp'', ''icmpv6''] \<and> 1 \<le> a \<and> a \<le> b \<and> b \<le> 65535
      | _ \<Rightarrow> False)"

definition acl_rule_ok :: "int list \<Rightarrow> acl_rule \<Rightarrow> bool" where
  "acl_rule_ok ids r \<longleftrightarrow>
     ref_ok ids (r_src_peer_id r) \<and> ref_ok ids (r_dst_peer_id r) \<and>
     (r_src_peer_id r = None \<or> r_src_peer_id r \<noteq> r_dst_peer_id r) \<and>
     service_ok (r_protocol r) (r_port_min r) (r_port_max r)"

definition link_key :: "link_stat \<Rightarrow> int \<times> int" where
  "link_key l = (l_peer_id l, l_remote_peer_id l)"

definition path_key :: "peer_path \<Rightarrow> int \<times> int" where
  "path_key x = (pp_peer_id x, pp_remote_peer_id x)"

definition refs_inv :: "db \<Rightarrow> bool" where
  "refs_inv d \<longleftrightarrow>
     (let ids = map p_id (peers d)
      in rowids (map r_id (acl_rules d)) \<and> list_all (acl_rule_ok ids) (acl_rules d) \<and>
         distinct (map link_key (link_stats d)) \<and>
         list_all (\<lambda>l. l_peer_id l \<in> set ids \<and> l_remote_peer_id l \<in> set ids) (link_stats d) \<and>
         rowids (map f_id (flows d)) \<and> list_all (\<lambda>f. f_peer_id f \<in> set ids) (flows d) \<and>
         distinct (map path_key (peer_paths d)) \<and>
         list_all (\<lambda>x. pp_peer_id x \<in> set ids \<and> pp_remote_peer_id x \<in> set ids) (peer_paths d) \<and>
         rowids (map c_id (connection_events d)) \<and>
         list_all (\<lambda>c. c_reporter_peer_id c \<in> set ids \<and> c_remote_peer_id c \<in> set ids) (connection_events d) \<and>
         rowids (map a_id (audit_log d)) \<and> list_all (\<lambda>a. ref_ok ids (a_peer_id a)) (audit_log d) \<and>
         rowids (map x_id (proxy_events d)) \<and> list_all (\<lambda>x. ref_ok ids (x_peer_id x)) (proxy_events d))"

definition db_inv :: "db \<Rightarrow> bool" where
  "db_inv d \<longleftrightarrow>
     rowids (map sk_id (setup_keys d)) \<and> setup_keys_ok (setup_keys d) \<and>
     rowids (map p_id (peers d)) \<and> peers_ok (map sk_id (setup_keys d)) (peers d) \<and>
     uses_inv (setup_keys d) (peers d) \<and> list_all kind_ok (peers d) \<and>
     list_all (exit_ok (peers d)) (peers d) \<and> refs_inv d \<and>
     rowids (map u_id (users d)) \<and> users_ok (users d)"

text \<open>A text that is the canonical form of a host of the network.\<close>

definition host_text :: "prefix \<Rightarrow> string \<Rightarrow> bool" where
  "host_text p t \<longleftrightarrow>
     (case ParseAddr t of
        None \<Rightarrow> False
      | Some a \<Rightarrow> addr_String a = t \<and> Contains p a \<and> a \<noteq> prefix_Addr p)"

definition addrs_inv :: "prefix \<Rightarrow> prefix \<Rightarrow> peer list \<Rightarrow> bool" where
  "addrs_inv n4 n6 rows \<longleftrightarrow>
     list_all (\<lambda>p. host_text n4 (p_assigned_ip p) \<and>
       (case p_assigned_ip6 p of None \<Rightarrow> True | Some t \<Rightarrow> host_text n6 t)) rows"

definition nets_ok :: "store \<Rightarrow> bool" where
  "nets_ok s \<longleftrightarrow> overlay_net (st_network s) \<and> Is4 (prefix_Addr (st_network s)) \<and>
     (Network6 s = PrefixZero \<or> overlay_net (Network6 s) \<and> Is6 (prefix_Addr (Network6 s)))"

definition store_inv :: "store \<Rightarrow> bool" where
  "store_inv s \<longleftrightarrow> db_inv (st_db s) \<and> nets_ok s \<and> addrs_inv (st_network s) (Network6 s) (peers (st_db s))"

lemma exit_ok_iff:
  "exit_ok rows p \<longleftrightarrow> (\<forall>e. p_exit_node_peer_id p = Some e \<longrightarrow> p_revoked_at p = None \<longrightarrow>
     e \<noteq> p_id p \<and> (\<forall>q \<in> set rows. p_id q = e \<longrightarrow> p_peer_type q = ''agent'' \<and> p_exit_node_peer_id q = None))"
  by (auto simp: exit_ok_def list_all_iff split: option.splits)

subsection \<open>Rowids\<close>

lemma rowids_distinct: "rowids ids \<Longrightarrow> distinct ids"
  unfolding rowids_def by (metis strict_sorted_iff)

lemma rowids_snoc: "rowids ids \<Longrightarrow> rowids (ids @ [next_rowid ids])"
  by (auto simp: rowids_def strict_sorted_snoc next_rowid_greater next_rowid_pos)

lemma rowids_delete: "rowids (map k rows) \<Longrightarrow> rowids (map k (delete_where P rows))"
  by (auto simp: rowids_def delete_where_def sorted_wrt_map list_all_iff intro: sorted_wrt_filter)

subsection \<open>Addresses\<close>

lemma host_text_iff:
  assumes "overlay_net p"
  shows "host_text p t \<longleftrightarrow> (\<exists>i. 1 \<le> i \<and> i < prefix_size p \<and> t = addr_String (nth_host p i))"
proof
  assume "host_text p t"
  then obtain a where a: "addr_String a = t" "Contains p a" "a \<noteq> prefix_Addr p"
    by (auto simp: host_text_def split: option.splits)
  from Contains_host_exists [OF assms a(2)] obtain i where i: "i < prefix_size p" "a = nth_host p i" by auto
  moreover have "i \<noteq> 0" using a(3) i(2) nth_host_0 by metis
  ultimately show "\<exists>i. 1 \<le> i \<and> i < prefix_size p \<and> t = addr_String (nth_host p i)"
    using a(1) by (intro exI [of _ i]) auto
next
  assume "\<exists>i. 1 \<le> i \<and> i < prefix_size p \<and> t = addr_String (nth_host p i)"
  then obtain i where i: "1 \<le> i" "i < prefix_size p" "t = addr_String (nth_host p i)" by auto
  have "nth_host p i \<noteq> prefix_Addr p"
    using nth_host_inject [OF assms i(2), of 0] i(1,2) by (simp add: nth_host_0)
  with i show "host_text p t"
    using Contains_nth_host [OF assms i(2)] nth_host_valid [OF assms i(2)]
    by (simp add: host_text_def addr_text.parse_print)
qed

lemma host_text_parse:
  assumes "host_text p t"
  obtains a where "ParseAddr t = Some a" "addr_IsValid a" "addr_String a = t" "Contains p a"
  using assms by (auto simp: host_text_def dest: Contains_valid split: option.splits)

lemma column_of_hosts:
  assumes "\<forall>t \<in> set ts. host_text p t"
  shows "\<exists>as. column_of as ts"
  using assms
proof (induction ts)
  case Nil
  show ?case by (simp add: column_of_def)
next
  case (Cons t ts)
  then obtain as where "column_of as ts" by auto
  moreover obtain a where "addr_IsValid a" "addr_String a = t"
    using Cons.prems by (auto elim: host_text_parse)
  ultimately have "column_of (a # as) (t # ts)" by (auto simp: column_of_def)
  then show ?case ..
qed

lemma host_text_ne:
  assumes "host_text p t"
  shows "t \<noteq> []"
proof -
  have "ParseAddr [] = None" by (simp add: ParseAddr_def)
  with assms show ?thesis by (auto simp: host_text_def)
qed

lemma allocateAddr_host:
  assumes "overlay_net p" "\<forall>t \<in> set ts. host_text p t" "allocateAddr p ts = Inr ip"
  shows "host_text p ip \<and> ip \<notin> set ts"
proof -
  obtain as where as: "column_of as ts" using column_of_hosts [OF assms(2)] by auto
  show ?thesis
    using allocateAddr_Inr [OF assms(1) as assms(3)] allocateAddr_fresh [OF assms(1) as assms(3)]
    unfolding host_text_iff [OF assms(1)] by metis
qed

subsection \<open>Rewriting rows\<close>

text \<open>
  The columns an update must keep for the invariant to survive without further argument;
  revocation may only be set, never cleared.
\<close>

definition same_identity :: "peer \<Rightarrow> peer \<Rightarrow> bool" where
  "same_identity p q \<longleftrightarrow> p_id q = p_id p \<and> p_setup_key_id q = p_setup_key_id p \<and>
     p_peer_type q = p_peer_type p \<and> p_gateway_peer_id q = p_gateway_peer_id p \<and>
     p_exit_node_peer_id q = p_exit_node_peer_id p \<and> (p_revoked_at p \<noteq> None \<longrightarrow> p_revoked_at q \<noteq> None)"

lemma same_identity_refl [simp]: "same_identity p p"
  by (simp add: same_identity_def)

definition same_rows :: "peer list \<Rightarrow> peer list \<Rightarrow> bool" where
  "same_rows rows rows' \<longleftrightarrow> list_all2 same_identity rows rows'"

lemma same_rows_update:
  "(\<And>p. p \<in> set rows \<Longrightarrow> P p \<Longrightarrow> same_identity p (f p)) \<Longrightarrow> same_rows rows (update_where P f rows)"
  by (auto simp: same_rows_def update_where_def list_all2_map2 list_all2_same)

lemma same_rows_trans: "same_rows a b \<Longrightarrow> same_rows b c \<Longrightarrow> same_rows a c"
  unfolding same_rows_def
  by (rule list_all2_trans [of same_identity same_identity same_identity a b c])
    (auto simp: same_identity_def)

lemma same_rows_map:
  assumes "same_rows rows rows'" "\<And>p q. same_identity p q \<Longrightarrow> k q = k p"
  shows "map k rows' = map k rows"
  using assms unfolding same_rows_def by (induction rule: list_all2_induct) auto

lemma same_rows_mem:
  assumes "same_rows rows rows'" "q \<in> set rows'"
  obtains p where "p \<in> set rows" "same_identity p q"
  using assms unfolding same_rows_def by (metis in_set_conv_nth list_all2_conv_all_nth)

lemma same_rows_ids: "same_rows rows rows' \<Longrightarrow> map p_id rows' = map p_id rows"
  by (rule same_rows_map) (auto simp: same_identity_def)

lemma same_rows_count: "same_rows rows rows' \<Longrightarrow> peers_of_key k rows' = peers_of_key k rows"
  unfolding same_rows_def peers_of_key_def
  by (induction rule: list_all2_induct) (auto simp: same_identity_def)

lemma refs_inv_peers:
  "refs_inv d \<Longrightarrow> map p_id rows = map p_id (peers d) \<Longrightarrow> refs_inv (d\<lparr>peers := rows\<rparr>)"
  by (simp add: refs_inv_def Let_def)

lemma exit_ok_same_rows:
  assumes "same_rows rows rows'" "list_all (exit_ok rows) rows"
  shows "list_all (exit_ok rows') rows'"
  unfolding list_all_iff
proof
  fix q assume "q \<in> set rows'"
  with assms(1) obtain p where p: "p \<in> set rows" "same_identity p q" by (rule same_rows_mem)
  have ok: "exit_ok rows p" using assms(2) p(1) by (simp add: list_all_iff)
  have t: "p_peer_type r = ''agent'' \<and> p_exit_node_peer_id r = None"
    if e: "p_exit_node_peer_id q = Some e" and r: "r \<in> set rows'" "p_id r = e" and act: "p_revoked_at q = None" for e r
  proof -
    obtain r0 where "r0 \<in> set rows" "same_identity r0 r" using assms(1) r(1) by (rule same_rows_mem)
    with ok e r act p(2) show ?thesis
      unfolding exit_ok_iff same_identity_def by metis
  qed
  show "exit_ok rows' q"
    using ok p(2) t unfolding exit_ok_iff same_identity_def by metis
qed

lemma db_inv_rewrite [sql_intros]:
  assumes "db_inv d" "peers_ok (map sk_id (setup_keys d)) rows'" "same_rows (peers d) rows'"
  shows "db_inv (d\<lparr>peers := rows'\<rparr>)"
proof -
  have "list_all kind_ok rows'"
    using assms by (auto simp: db_inv_def list_all_iff kind_ok_def same_identity_def elim!: same_rows_mem)
  then show ?thesis
    using assms exit_ok_same_rows [OF assms(3)] same_rows_ids [OF assms(3)] same_rows_count [OF assms(3)]
      refs_inv_peers [of d rows']
    by (simp add: db_inv_def uses_inv_def)
qed

lemma addrs_inv_rewrite:
  assumes "addrs_inv n4 n6 rows"
    and "\<And>p. p \<in> set rows \<Longrightarrow> P p \<Longrightarrow> host_text n4 (p_assigned_ip (f p)) \<and>
      (case p_assigned_ip6 (f p) of None \<Rightarrow> True | Some t \<Rightarrow> host_text n6 t)"
  shows "addrs_inv n4 n6 (update_where P f rows)"
  using assms by (auto simp: addrs_inv_def list_all_iff set_update_where)

text \<open>
  The common case: an update through \<open>write_peers\<close> that keeps identities and addresses.
\<close>

lemma store_inv_update:
  assumes "store_inv s" "write_peers (update_where P f (peers (st_db s))) (st_db s) = Inr d'"
    and "\<And>p. same_identity p (f p)"
    and "\<And>p. p_assigned_ip (f p) = p_assigned_ip p \<and> p_assigned_ip6 (f p) = p_assigned_ip6 p"
  shows "store_inv (s\<lparr>st_db := d'\<rparr>)"
proof -
  have "db_inv d'"
    using assms same_rows_update [of "peers (st_db s)" P f] db_inv_rewrite
    by (auto simp: store_inv_def write_peers_Inr)
  moreover have "addrs_inv (st_network s) (Network6 s) (update_where P f (peers (st_db s)))"
    using assms(1,4) by (intro addrs_inv_rewrite) (auto simp: store_inv_def addrs_inv_def list_all_iff)
  ultimately show ?thesis
    using assms(1,2) by (auto simp: store_inv_def nets_ok_def write_peers_Inr)
qed

lemma write_peers_update_ok:
  assumes "db_inv d"
    and "\<And>p. p_id (f p) = p_id p \<and> p_public_key (f p) = p_public_key p \<and>
      p_assigned_ip (f p) = p_assigned_ip p \<and> p_assigned_ip6 (f p) = p_assigned_ip6 p"
    and "\<And>p ids. peer_row_ok (map sk_id (setup_keys d)) ids p \<Longrightarrow> peer_row_ok (map sk_id (setup_keys d)) ids (f p)"
  shows "write_peers (update_where P f (peers d)) d = Inr (d\<lparr>peers := update_where P f (peers d)\<rparr>)"
proof -
  have "peers_ok (map sk_id (setup_keys d)) (update_where P f (peers d))"
    using assms by (intro peers_ok_update) (auto simp: db_inv_def)
  then show ?thesis by (simp add: write_peers_def)
qed

subsection \<open>Appending a peer\<close>

lemma peers_of_key_append:
  "peers_of_key k (rows @ [p]) = peers_of_key k rows + (if p_setup_key_id p = k then 1 else 0)"
  by (simp add: peers_of_key_def)

lemma db_inv_append:
  assumes "db_inv d" "peers_ok (map sk_id (setup_keys d)) (peers d @ [p])"
    and "p_id p = next_rowid (map p_id (peers d))"
    and "kind_ok p" "p_exit_node_peer_id p = None"
    and "uses_inv (setup_keys d) (peers d @ [p])"
  shows "db_inv (d\<lparr>peers := peers d @ [p]\<rparr>)"
proof -
  have ids: "map p_id (peers d @ [p]) = map p_id (peers d) @ [next_rowid (map p_id (peers d))]"
    using assms(3) by simp
  have fresh: "p_id p \<notin> p_id ` set (peers d)"
    using next_rowid_fresh [of "map p_id (peers d)"] assms(3) by simp
  have "exit_ok (peers d @ [p]) q" if q: "q \<in> set (peers d)" for q
    unfolding exit_ok_iff
  proof (intro allI impI)
    fix e assume e: "p_exit_node_peer_id q = Some e" "p_revoked_at q = None"
    have "e \<in> p_id ` set (peers d)"
      using assms(1) q e(1) by (auto simp: db_inv_def peers_ok_def list_all_iff peer_row_ok_def ref_ok_def)
    then have "e \<noteq> p_id p" using fresh by blast
    moreover have "exit_ok (peers d) q" using assms(1) q by (auto simp: db_inv_def list_all_iff)
    ultimately show "e \<noteq> p_id q \<and> (\<forall>r \<in> set (peers d @ [p]). p_id r = e \<longrightarrow>
        p_peer_type r = ''agent'' \<and> p_exit_node_peer_id r = None)"
      using e unfolding exit_ok_iff by auto
  qed
  then have "list_all (exit_ok (peers d @ [p])) (peers d @ [p])"
    using assms(5) by (auto simp: list_all_iff exit_ok_iff)
  moreover have "refs_inv (d\<lparr>peers := peers d @ [p]\<rparr>)"
    using assms(1)
    by (auto simp: db_inv_def refs_inv_def Let_def list_all_iff ref_ok_def acl_rule_ok_def split: option.splits)
  moreover have "rowids (map p_id (peers d @ [p]))"
    unfolding ids using assms(1) by (intro rowids_snoc) (simp add: db_inv_def)
  ultimately show ?thesis using assms(1,2,4,6) by (simp add: db_inv_def)
qed

subsection \<open>Changing one row's addresses\<close>

lemma update_by_id:
  assumes "distinct (map p_id rows)" "p \<in> set rows"
  obtains A B where "rows = A @ p # B" "\<And>f. update_where (\<lambda>x. p_id x = p_id p) f rows = A @ f p # B"
    "\<forall>x \<in> set (A @ B). p_id x \<noteq> p_id p"
proof -
  from assms(2) obtain A B where r: "rows = A @ p # B" by (auto simp: in_set_conv_decomp)
  with assms(1) have n: "\<forall>x \<in> set (A @ B). p_id x \<noteq> p_id p" by (auto simp: image_iff)
  then have "update_where (\<lambda>x. p_id x = p_id p) f rows = A @ f p # B" for f
    unfolding r update_where_def by (auto intro!: map_idI)
  with r n that show thesis by blast
qed

lemma peers_ok_readdress:
  assumes "peers_ok keys rows" "p \<in> set rows"
    and "p_id (f p) = p_id p" "p_public_key (f p) = p_public_key p"
    and "\<And>x. x \<in> set rows \<Longrightarrow> p_id x \<noteq> p_id p \<Longrightarrow> p_assigned_ip x \<noteq> p_assigned_ip (f p)"
    and "\<And>x v. x \<in> set rows \<Longrightarrow> p_id x \<noteq> p_id p \<Longrightarrow> p_assigned_ip6 (f p) = Some v \<Longrightarrow> p_assigned_ip6 x \<noteq> Some v"
    and "peer_row_ok keys (map p_id rows) (f p)"
  shows "peers_ok keys (update_where (\<lambda>x. p_id x = p_id p) f rows)"
proof -
  have d: "distinct (map p_id rows)" using assms(1) by (simp add: peers_ok_def)
  from update_by_id [OF this assms(2)] obtain A B where
    r: "rows = A @ p # B" and u: "update_where (\<lambda>x. p_id x = p_id p) f rows = A @ f p # B"
    and n: "\<forall>x \<in> set (A @ B). p_id x \<noteq> p_id p" by metis
  have ids: "map p_id (A @ f p # B) = map p_id rows" using assms(3) r by simp
  have o: "p_assigned_ip x \<noteq> p_assigned_ip (f p)"
    "\<And>v. p_assigned_ip6 (f p) = Some v \<Longrightarrow> p_assigned_ip6 x \<noteq> Some v"
    if x: "x \<in> set (A @ B)" for x
  proof -
    have "x \<in> set rows" "p_id x \<noteq> p_id p" using x n r by auto
    then show "p_assigned_ip x \<noteq> p_assigned_ip (f p)"
      "\<And>v. p_assigned_ip6 (f p) = Some v \<Longrightarrow> p_assigned_ip6 x \<noteq> Some v"
      by (rule assms(5), rule assms(6))
  qed
  have "distinct (col p_assigned_ip6 (A @ f p # B))"
    using assms(1) o(2) by (auto simp: peers_ok_def r col_Cons set_col split: option.splits)
  moreover have "distinct (map p_assigned_ip (A @ f p # B))"
    using assms(1) o(1) by (force simp: peers_ok_def r)
  moreover have "distinct (map p_public_key (A @ f p # B))"
    using assms(1,4) by (auto simp: peers_ok_def r)
  moreover have "list_all (peer_row_ok keys (map p_id rows)) (A @ f p # B)"
    using assms(1,7) by (auto simp: peers_ok_def r)
  ultimately show ?thesis unfolding u peers_ok_def ids using d by blast
qed

end
