(* ===== verification/Enrollment.thy ===== *)
theory Enrollment
  imports StoreInv
begin

section \<open>Setup keys and enrollment\<close>

text \<open>
  store.go: setup keys, \<open>Enroll\<close> with its idempotent path \<open>reEnroll\<close>, the peer list
  an agent may see (\<open>listVisible\<close>), \<open>PeersForID\<close>. Each operation is a function from
  the store, the clock reading \<open>now\<close> and, where it draws randomness, the bytes drawn; it
  returns an error or the new store with the result. A transaction that returns an error
  is rolled back, so an error carries no store. SHA-256 is the parameter \<open>sha256\<close>.
\<close>

subsection \<open>The rows handed out\<close>

record PeerRow =
  ID :: int
  PublicKey :: string
  Hostname :: string
  AssignedIP :: string
  AssignedIP6 :: string
  PeerType :: string
  GatewayPeerID :: int
  AdvertiseExitNode :: bool
  ExitNodePeerID :: int
  PublicEndpoint :: string
  ObservedIP :: string
  ListenPort :: int
  CandidatesJSON :: string
  NATType :: string
  Version :: string

record EnrollResult =
  er_Peer :: PeerRow
  Others :: "PeerRow list"
  Created :: bool
  AuthToken :: string

text \<open>The zero value of the struct.\<close>

definition PeerRow_zero :: PeerRow where
  "PeerRow_zero = \<lparr>ID = 0, PublicKey = [], Hostname = [], AssignedIP = [], AssignedIP6 = [],
     PeerType = [], GatewayPeerID = 0, AdvertiseExitNode = False, ExitNodePeerID = 0,
     PublicEndpoint = [], ObservedIP = [], ListenPort = 0, CandidatesJSON = [], NATType = [], Version = []\<rparr>"

text \<open>The SELECT list of \<open>listVisible\<close>; \<open>agent_version\<close> is not among its columns.\<close>

definition scan_peer :: "peer \<Rightarrow> PeerRow" where
  "scan_peer p = \<lparr>ID = p_id p, PublicKey = p_public_key p, Hostname = coalesce (p_hostname p) [],
     AssignedIP = p_assigned_ip p, AssignedIP6 = coalesce (p_assigned_ip6 p) [],
     PeerType = p_peer_type p, GatewayPeerID = coalesce (p_gateway_peer_id p) 0,
     AdvertiseExitNode = p_advertise_exit_node p, ExitNodePeerID = coalesce (p_exit_node_peer_id p) 0,
     PublicEndpoint = coalesce (p_public_endpoint p) [], ObservedIP = coalesce (p_observed_ip p) [],
     ListenPort = coalesce (p_listen_port p) 0, CandidatesJSON = coalesce (p_candidates p) [],
     NATType = coalesce (p_nat_type p) [], Version = []\<rparr>"

subsection \<open>Networks and tokens\<close>

definition network4 :: "store \<Rightarrow> prefix" where
  "network4 s = st_network s"

definition network6 :: "store \<Rightarrow> prefix" where
  "network6 s = Network6 s"

definition v6Enabled :: "store \<Rightarrow> bool" where
  "v6Enabled s = prefix_IsValid (network6 s)"

definition setNetworks :: "prefix \<Rightarrow> prefix \<Rightarrow> store \<Rightarrow> store" where
  "setNetworks n4 n6 s = s\<lparr>st_network := Masked n4, Network6 := Masked n6\<rparr>"

definition HashToken :: "(string \<Rightarrow> string) \<Rightarrow> string \<Rightarrow> string" where
  "HashToken sha256 token = hex_encode (sha256 token)"

definition newAuthToken :: "(string \<Rightarrow> string) \<Rightarrow> string \<Rightarrow> string \<times> string" where
  "newAuthToken sha256 raw = (let token = RawURLEncode raw in (token, HashToken sha256 token))"

subsection \<open>Setup keys\<close>

definition CreateNamedSetupKey ::
    "time \<Rightarrow> string \<Rightarrow> string \<Rightarrow> int \<Rightarrow> duration \<Rightarrow> store \<Rightarrow> store_error + store \<times> string" where
  "CreateNamedSetupKey now raw name maxUses expiresIn s =
     (let d = st_db s; key = RawURLEncode raw;
          row = \<lparr>sk_id = next_rowid (map sk_id (setup_keys d)), sk_key = key, sk_name = nullable name,
                 sk_created_at = format_time now,
                 sk_expires_at = (if expiresIn \<noteq> 0 then Some (format_time (now + expiresIn)) else None),
                 sk_revoked_at = None, sk_max_uses = nullable_int maxUses, sk_uses_consumed = 0\<rparr>
      in bindE (write_setup_keys (setup_keys d @ [row]) d) (\<lambda>d'. Inr (s\<lparr>st_db := d'\<rparr>, key)))"

definition key_usable :: "string \<Rightarrow> setup_key \<Rightarrow> bool" where
  "key_usable now k \<longleftrightarrow> sk_revoked_at k = None \<and>
     (case sk_expires_at k of None \<Rightarrow> True | Some e \<Rightarrow> now < e) \<and>
     (case sk_max_uses k of None \<Rightarrow> True | Some m \<Rightarrow> sk_uses_consumed k < m)"

definition diagnoseKey :: "string \<Rightarrow> string \<Rightarrow> db \<Rightarrow> string" where
  "diagnoseKey setupKey now d =
     (case List.find (\<lambda>k. sk_key k = setupKey) (setup_keys d) of
        None \<Rightarrow> ''unknown setup key''
      | Some k \<Rightarrow>
          (case sk_revoked_at k of
             Some t \<Rightarrow> ''setup key revoked at '' @ t
           | None \<Rightarrow>
               (case sk_expires_at k of
                  Some e \<Rightarrow> if e \<le> now then ''setup key expired at '' @ e
                            else if (case sk_max_uses k of Some m \<Rightarrow> m \<le> sk_uses_consumed k | None \<Rightarrow> False)
                            then ''setup key exhausted ('' @ Itoa (sk_uses_consumed k) @ ''/'' @
                                 Itoa (coalesce (sk_max_uses k) 0) @ '' uses)''
                            else ''setup key rejected for unknown reason''
                | None \<Rightarrow> if (case sk_max_uses k of Some m \<Rightarrow> m \<le> sk_uses_consumed k | None \<Rightarrow> False)
                          then ''setup key exhausted ('' @ Itoa (sk_uses_consumed k) @ ''/'' @
                               Itoa (coalesce (sk_max_uses k) 0) @ '' uses)''
                          else ''setup key rejected for unknown reason'')))"

text \<open>The WHERE clause of the consumption UPDATE.\<close>

definition consumes :: "string \<Rightarrow> string \<Rightarrow> setup_key \<Rightarrow> bool" where
  "consumes setupKey now k \<longleftrightarrow> sk_key k = setupKey \<and> key_usable now k"

text \<open>The consumption UPDATE, and the id of the key it consumed.\<close>

definition consume_key :: "string \<Rightarrow> string \<Rightarrow> db \<Rightarrow> store_error + db \<times> int" where
  "consume_key setupKey now d =
     bindE (write_setup_keys
             (update_where (consumes setupKey now)
               (\<lambda>k. k\<lparr>sk_uses_consumed := sk_uses_consumed k + 1\<rparr>) (setup_keys d)) d)
       (\<lambda>d'. if rows_affected (consumes setupKey now) (setup_keys d) = 0
             then Inl (ErrUnauthorized (diagnoseKey setupKey now d'))
             else case List.find (\<lambda>k. sk_key k = setupKey) (setup_keys d') of
                    None \<Rightarrow> Inl (ErrMsg ''look up setup key id'')
                  | Some k \<Rightarrow> Inr (d', sk_id k))"

subsection \<open>Visibility\<close>

text \<open>
  \<open>listVisible\<close>: who peer \<open>self\<close> may see. A NULL comparison is not true, so an absent
  gateway, exit assignment or own row never makes a peer visible.
\<close>

definition acl_connects :: "int \<Rightarrow> int \<Rightarrow> acl_rule \<Rightarrow> bool" where
  "acl_connects self other r \<longleftrightarrow>
     (case r_src_peer_id r of None \<Rightarrow> True | Some i \<Rightarrow> i = self \<or> i = other) \<and>
     (case r_dst_peer_id r of None \<Rightarrow> True | Some i \<Rightarrow> i = self \<or> i = other)"

definition exit_of :: "int \<Rightarrow> db \<Rightarrow> int option" where
  "exit_of self d = map_option (\<lambda>p. coalesce (p_exit_node_peer_id p) 0) (peer_by_id self d)"

definition visible :: "db \<Rightarrow> bool \<Rightarrow> int \<Rightarrow> peer \<Rightarrow> bool" where
  "visible d defaultAllow self p \<longleftrightarrow>
     p_revoked_at p = None \<and> p_id p \<noteq> self \<and>
     (defaultAllow \<or> p_gateway_peer_id p = Some self \<or> p_exit_node_peer_id p = Some self \<or>
      exit_of self d = Some (p_id p) \<or> list_ex (acl_connects self (p_id p)) (acl_rules d))"

definition listVisible :: "db \<Rightarrow> int \<Rightarrow> bool \<Rightarrow> PeerRow list" where
  "listVisible d self defaultAllow =
     map scan_peer (sort_key p_id (filter (visible d defaultAllow self) (peers d)))"

definition PeersForID :: "int \<Rightarrow> store \<Rightarrow> store_error + PeerRow \<times> PeerRow list" where
  "PeersForID i s =
     (case peer_by_id i (st_db s) of
        None \<Rightarrow> Inl (ErrMsg ''look up peer'')
      | Some p \<Rightarrow> Inr ((scan_peer p)\<lparr>Hostname := []\<rparr>, listVisible (st_db s) i (DefaultAllow s)))"

subsection \<open>Enrollment\<close>

definition allocateIP :: "store \<Rightarrow> db \<Rightarrow> store_error + string" where
  "allocateIP s d = allocateAddr (network4 s) (map p_assigned_ip (peers d))"

definition allocateIP6 :: "store \<Rightarrow> db \<Rightarrow> store_error + string" where
  "allocateIP6 s d = allocateAddr (network6 s) (col p_assigned_ip6 (peers d))"

record enroll_args =
  ea_setupKey :: string
  ea_publicKey :: string
  ea_hostname :: string
  ea_listenPort :: int
  ea_observedIP :: string
  ea_publicEndpoint :: string

text \<open>The row of a fresh agent; the columns the INSERT omits take their defaults.\<close>

definition new_peer ::
    "time \<Rightarrow> enroll_args \<Rightarrow> int \<Rightarrow> int \<Rightarrow> string \<Rightarrow> string \<Rightarrow> string \<Rightarrow> peer" where
  "new_peer now a peerID keyID ip ip6 tokenHash =
     \<lparr>p_id = peerID, p_public_key = ea_publicKey a, p_assigned_ip = ip, p_assigned_ip6 = nullable ip6,
      p_hostname = nullable (ea_hostname a), p_listen_port = nullable_int (ea_listenPort a),
      p_last_seen_at = None, p_created_at = format_time now, p_revoked_at = None,
      p_setup_key_id = keyID, p_auth_token_hash = Some tokenHash,
      p_auth_token_issued_at = Some (format_time now), p_observed_ip = nullable (ea_observedIP a),
      p_public_endpoint = nullable (ea_publicEndpoint a), p_peer_type = ''agent'',
      p_gateway_peer_id = None, p_private_key_enc = None, p_gateway_endpoint = None,
      p_candidates = None, p_nat_type = None, p_advertise_exit_node = False,
      p_exit_node_peer_id = None, p_agent_version = None\<rparr>"

definition enroll_new ::
    "(string \<Rightarrow> string) \<Rightarrow> time \<Rightarrow> string \<Rightarrow> enroll_args \<Rightarrow> store \<Rightarrow> store_error + store \<times> EnrollResult" where
  "enroll_new sha256 now raw a s =
     bindE (consume_key (ea_setupKey a) (format_time now) (st_db s)) (\<lambda>(d, keyID).
     bindE (allocateIP s d) (\<lambda>ip.
     bindE (if v6Enabled s then allocateIP6 s d else Inr []) (\<lambda>ip6.
       let (token, tokenHash) = newAuthToken sha256 raw;
           peerID = next_rowid (map p_id (peers d));
           row = new_peer now a peerID keyID ip ip6 tokenHash
       in bindE (write_peers (peers d @ [row]) d) (\<lambda>d'.
            Inr (s\<lparr>st_db := d'\<rparr>,
                 \<lparr>er_Peer = PeerRow_zero\<lparr>ID := peerID, PublicKey := ea_publicKey a, AssignedIP := ip,
                    AssignedIP6 := ip6, PublicEndpoint := ea_publicEndpoint a,
                    ObservedIP := ea_observedIP a, ListenPort := ea_listenPort a\<rparr>,
                  Others = listVisible d' peerID (DefaultAllow s), Created = True, AuthToken = token\<rparr>)))))"

text \<open>The columns of the re-enrolled peer that its UPDATE refreshes.\<close>

definition refresh_peer :: "time \<Rightarrow> enroll_args \<Rightarrow> string \<Rightarrow> string \<Rightarrow> peer \<Rightarrow> peer" where
  "refresh_peer now a ip6 tokenHash p =
     p\<lparr>p_auth_token_hash := Some tokenHash, p_auth_token_issued_at := Some (format_time now),
       p_assigned_ip6 := or_else (nullable ip6) (p_assigned_ip6 p),
       p_hostname := or_else (nullable (ea_hostname a)) (p_hostname p),
       p_observed_ip := or_else (nullable (ea_observedIP a)) (p_observed_ip p),
       p_public_endpoint := or_else (nullable (ea_publicEndpoint a)) (p_public_endpoint p),
       p_listen_port := or_else (nullable_int (ea_listenPort a)) (p_listen_port p)\<rparr>"

text \<open>The existing row as \<open>Enroll\<close> scans it.\<close>

definition scan_existing :: "peer \<Rightarrow> PeerRow" where
  "scan_existing p = PeerRow_zero\<lparr>ID := p_id p, AssignedIP := p_assigned_ip p,
     AssignedIP6 := coalesce (p_assigned_ip6 p) [], PublicEndpoint := coalesce (p_public_endpoint p) [],
     ObservedIP := coalesce (p_observed_ip p) [], ListenPort := coalesce (p_listen_port p) 0\<rparr>"

text \<open>The result mirrors the COALESCE of the UPDATE.\<close>

definition mirror_existing :: "enroll_args \<Rightarrow> string \<Rightarrow> PeerRow \<Rightarrow> PeerRow" where
  "mirror_existing a ip6 e =
     (let e = e\<lparr>PublicKey := ea_publicKey a\<rparr>;
          e = (if ea_observedIP a \<noteq> [] then e\<lparr>ObservedIP := ea_observedIP a\<rparr> else e);
          e = (if ea_publicEndpoint a \<noteq> [] then e\<lparr>PublicEndpoint := ea_publicEndpoint a\<rparr> else e);
          e = (if 0 < ea_listenPort a then e\<lparr>ListenPort := ea_listenPort a\<rparr> else e)
      in if ip6 \<noteq> [] then e\<lparr>AssignedIP6 := ip6\<rparr> else e)"

definition reEnroll ::
    "(string \<Rightarrow> string) \<Rightarrow> time \<Rightarrow> string \<Rightarrow> enroll_args \<Rightarrow> PeerRow \<Rightarrow> int \<Rightarrow> store \<Rightarrow>
     store_error + store \<times> EnrollResult" where
  "reEnroll sha256 now raw a existing enrolledKeyID s =
     (let d = st_db s
      in case List.find (\<lambda>k. sk_key k = ea_setupKey a) (setup_keys d) of
           None \<Rightarrow> Inl (ErrUnauthorized ''re-enroll with unknown setup key'')
         | Some k \<Rightarrow>
             if sk_revoked_at k \<noteq> None then Inl (ErrUnauthorized ''re-enroll with revoked setup key'')
             else if sk_id k \<noteq> enrolledKeyID
             then Inl (ErrUnauthorized ''re-enroll setup key does not match original enrollment'')
             else
               let (token, tokenHash) = newAuthToken sha256 raw
               in bindE (if v6Enabled s \<and> AssignedIP6 existing = [] then allocateIP6 s d else Inr []) (\<lambda>ip6.
                  bindE (write_peers (update_where (\<lambda>p. p_id p = ID existing)
                                       (refresh_peer now a ip6 tokenHash) (peers d)) d) (\<lambda>d'.
                    Inr (s\<lparr>st_db := d'\<rparr>,
                         \<lparr>er_Peer = mirror_existing a ip6 existing,
                          Others = listVisible d' (ID existing) (DefaultAllow s),
                          Created = False, AuthToken = token\<rparr>))))"

definition Enroll ::
    "(string \<Rightarrow> string) \<Rightarrow> time \<Rightarrow> string \<Rightarrow> enroll_args \<Rightarrow> store \<Rightarrow> store_error + store \<times> EnrollResult" where
  "Enroll sha256 now raw a s =
     (case List.find (\<lambda>p. p_public_key p = ea_publicKey a) (peers (st_db s)) of
        Some p \<Rightarrow> reEnroll sha256 now raw a (scan_existing p) (p_setup_key_id p) s
      | None \<Rightarrow> enroll_new sha256 now raw a s)"

definition UpdatePeerCandidates :: "int \<Rightarrow> string \<Rightarrow> store \<Rightarrow> store_error + store" where
  "UpdatePeerCandidates peerID candidatesJSON s =
     (if candidatesJSON = [] then Inr s
      else bindE (write_peers (update_where (\<lambda>p. p_id p = peerID)
                                 (\<lambda>p. p\<lparr>p_candidates := Some candidatesJSON\<rparr>) (peers (st_db s))) (st_db s))
           (\<lambda>d. Inr (s\<lparr>st_db := d\<rparr>)))"

subsection \<open>Consuming a key\<close>

abbreviation bump :: "setup_key \<Rightarrow> setup_key" where
  "bump k \<equiv> k\<lparr>sk_uses_consumed := sk_uses_consumed k + 1\<rparr>"

lemma bump_uses_ok: "key_usable now k \<Longrightarrow> uses_ok k \<Longrightarrow> uses_ok (bump k)"
  by (auto simp: key_usable_def uses_ok_def split: option.splits)

lemma consumed_keys_ok:
  "setup_keys_ok keys \<Longrightarrow> setup_keys_ok (update_where (consumes setupKey now) bump keys)"
  by (rule setup_keys_ok_update) (auto simp: consumes_def intro: bump_uses_ok)

lemma bumped_ids [simp]: "map sk_id (update_where P bump keys) = map sk_id keys"
  by (rule map_update_where) simp

text \<open>
  Consumption succeeds exactly for a usable key, increments that key alone and returns its
  id; every other presented key is refused as unauthorized.
\<close>

lemma consume_key_ok:
  assumes "setup_keys_ok (setup_keys d)" "k \<in> set (setup_keys d)" "consumes setupKey now k"
  shows "consume_key setupKey now d =
    Inr (d\<lparr>setup_keys := update_where (consumes setupKey now) bump (setup_keys d)\<rparr>, sk_id k)"
proof -
  let ?rows = "update_where (consumes setupKey now) bump (setup_keys d)"
  have ok: "setup_keys_ok ?rows" by (rule consumed_keys_ok [OF assms(1)])
  have "bump k \<in> set ?rows" using assms(2,3) by (auto simp: set_update_where)
  then have "List.find (\<lambda>x. sk_key x = setupKey) ?rows = Some (bump k)"
    using find_unique [of sk_key ?rows "bump k"] ok assms(3) by (simp add: setup_keys_ok_def consumes_def)
  then show ?thesis
    using ok assms(2,3) by (auto simp: consume_key_def write_setup_keys_def rows_affected_zero_iff)
qed

lemma consume_key_refused:
  assumes "setup_keys_ok (setup_keys d)" "\<And>k. k \<in> set (setup_keys d) \<Longrightarrow> \<not> consumes setupKey now k"
  shows "consume_key setupKey now d = Inl (ErrUnauthorized (diagnoseKey setupKey now d))"
proof -
  have n: "rows_affected (consumes setupKey now) (setup_keys d) = 0"
    using assms(2) by (simp add: rows_affected_zero_iff)
  then show ?thesis
    using assms(1) update_where_none [OF n]
    by (simp add: consume_key_def write_setup_keys_def n)
qed

lemma consume_key_Inr:
  assumes "setup_keys_ok (setup_keys d)" "consume_key setupKey now d = Inr (d', keyID)"
  obtains k where "k \<in> set (setup_keys d)" "consumes setupKey now k" "keyID = sk_id k"
    "d' = d\<lparr>setup_keys := update_where (consumes setupKey now) bump (setup_keys d)\<rparr>"
proof (cases "\<exists>k \<in> set (setup_keys d). consumes setupKey now k")
  case True
  then obtain k where k: "k \<in> set (setup_keys d)" "consumes setupKey now k" by auto
  with that assms(2) consume_key_ok [OF assms(1) k] show ?thesis by simp
next
  case False
  with assms consume_key_refused [OF assms(1)] show ?thesis by auto
qed

lemma uses_inv_consumed:
  assumes "uses_inv keys rows" "distinct (map sk_key keys)" "distinct (map sk_id keys)"
    and "k \<in> set keys" "consumes setupKey now k" "p_setup_key_id p = sk_id k"
  shows "uses_inv (update_where (consumes setupKey now) bump keys) (rows @ [p])"
proof -
  have "int (peers_of_key (sk_id x) (rows @ [p])) \<le> sk_uses_consumed x"
    if "x \<in> set keys" "\<not> consumes setupKey now x" for x
  proof -
    have "sk_id x \<noteq> sk_id k"
      using distinct_map_eqD [OF assms(3) that(1) assms(4)] that(2) assms(5) by auto
    then show ?thesis
      using assms(1,6) that(1) by (auto simp: uses_inv_def list_all_iff peers_of_key_append)
  qed
  moreover have "int (peers_of_key (sk_id x) (rows @ [p])) \<le> sk_uses_consumed x + 1" if "x \<in> set keys" for x
    using assms(1) that by (fastforce simp: uses_inv_def list_all_iff peers_of_key_append)
  ultimately show ?thesis
    by (auto simp: uses_inv_def list_all_iff set_update_where)
qed

lemma uses_inv_bumped:
  "uses_inv keys rows \<Longrightarrow> uses_inv (update_where (consumes setupKey now) bump keys) rows"
  by (fastforce simp: uses_inv_def list_all_iff set_update_where)

lemma db_inv_consumed:
  assumes "db_inv d"
  shows "db_inv (d\<lparr>setup_keys := update_where (consumes setupKey now) bump (setup_keys d)\<rparr>)"
  using assms uses_inv_bumped consumed_keys_ok by (simp add: db_inv_def refs_inv_def)

subsection \<open>Fresh enrollment\<close>

text \<open>The lowest host of a network that no row holds.\<close>

definition least_free :: "prefix \<Rightarrow> string list \<Rightarrow> nat \<Rightarrow> bool" where
  "least_free p column i \<longleftrightarrow> 1 \<le> i \<and> i < prefix_size p \<and> addr_String (nth_host p i) \<notin> set column \<and>
     list_all (\<lambda>j. addr_String (nth_host p j) \<in> set column) [1..<i]"

lemma column_mem:
  assumes "overlay_net p" "column_of as column" "j < prefix_size p"
  shows "addr_String (nth_host p j) \<in> set column \<longleftrightarrow> nth_host p j \<in> set as"
  using assms(2) addr_text.print_mem [of "nth_host p j" as] nth_host_valid [OF assms(1,3)]
  by (auto simp: column_of_def)

lemma allocateAddr_iff:
  assumes "overlay_net p" "\<forall>t \<in> set column. host_text p t"
  shows "allocateAddr p column = Inr ip \<longleftrightarrow> (\<exists>i. least_free p column i \<and> ip = addr_String (nth_host p i))"
proof -
  obtain as where as: "column_of as column" using column_of_hosts [OF assms(2)] by auto
  note m = column_mem [OF assms(1) as]
  have "allocateAddr p column = Inr ip \<longleftrightarrow>
      (\<exists>i. List.find (\<lambda>i. nth_host p i \<notin> set as) [1..<prefix_size p] = Some i \<and> ip = addr_String (nth_host p i))"
    unfolding allocateAddr_eq [OF assms(1) as prefix_size_pos [OF assms(1)]] by (auto split: option.splits)
  also have "\<dots> \<longleftrightarrow> (\<exists>i. least_free p column i \<and> ip = addr_String (nth_host p i))"
  proof -
    have "1 \<le> i \<and> i < prefix_size p \<and> nth_host p i \<notin> set as \<and>
        (\<forall>j. 1 \<le> j \<and> j < i \<longrightarrow> \<not> nth_host p j \<notin> set as) \<longleftrightarrow> least_free p column i" for i
      by (cases "i < prefix_size p") (auto simp: least_free_def m list_all_iff)
    then show ?thesis unfolding find_Some_least by blast
  qed
  finally show ?thesis .
qed

text \<open>The allocator fails only when every host is taken.\<close>

lemma allocateAddr_full:
  assumes "overlay_net p" "\<forall>t \<in> set column. host_text p t" "allocateAddr p column = Inl e"
    and "1 \<le> j" "j < prefix_size p"
  shows "addr_String (nth_host p j) \<in> set column"
proof -
  obtain as where as: "column_of as column" using column_of_hosts [OF assms(2)] by auto
  have "List.find (\<lambda>i. nth_host p i \<notin> set as) [1..<prefix_size p] = None"
    using assms(3) unfolding allocateAddr_eq [OF assms(1) as prefix_size_pos [OF assms(1)]]
    by (auto split: option.splits)
  then have "nth_host p j \<in> set as" using assms(4,5) by (auto simp: find_None_all)
  then show ?thesis using column_mem [OF assms(1) as assms(5)] by simp
qed

lemma store_invD:
  assumes "store_inv s"
  shows "db_inv (st_db s)" "overlay_net (st_network s)"
    "\<forall>t \<in> set (map p_assigned_ip (peers (st_db s))). host_text (st_network s) t"
    "\<forall>t \<in> set (col p_assigned_ip6 (peers (st_db s))). host_text (Network6 s) t"
    "v6Enabled s \<Longrightarrow> overlay_net (Network6 s)"
    "setup_keys_ok (setup_keys (st_db s))" "peers_ok (map sk_id (setup_keys (st_db s))) (peers (st_db s))"
proof -
  show "\<forall>t \<in> set (col p_assigned_ip6 (peers (st_db s))). host_text (Network6 s) t"
  proof
    fix t assume "t \<in> set (col p_assigned_ip6 (peers (st_db s)))"
    then obtain p where "p \<in> set (peers (st_db s))" "p_assigned_ip6 p = Some t" by (auto simp: set_col)
    with assms show "host_text (Network6 s) t" by (force simp: store_inv_def addrs_inv_def list_all_iff)
  qed
qed (use assms in \<open>auto simp: store_inv_def db_inv_def nets_ok_def addrs_inv_def list_all_iff
      v6Enabled_def network6_def\<close>)

lemma nullable_int_port_ok: "port_ok (nullable_int n) \<longleftrightarrow> n \<le> 65535"
  by (auto simp: port_ok_def nullable_int_def)

lemma new_peer_simps [simp]:
  "p_id (new_peer now a i k ip ip6 h) = i"
  "p_public_key (new_peer now a i k ip ip6 h) = ea_publicKey a"
  "p_assigned_ip (new_peer now a i k ip ip6 h) = ip"
  "p_assigned_ip6 (new_peer now a i k ip ip6 h) = nullable ip6"
  "p_setup_key_id (new_peer now a i k ip ip6 h) = k"
  "p_exit_node_peer_id (new_peer now a i k ip ip6 h) = None"
  "p_gateway_peer_id (new_peer now a i k ip ip6 h) = None"
  "p_peer_type (new_peer now a i k ip ip6 h) = ''agent''"
  "p_listen_port (new_peer now a i k ip ip6 h) = nullable_int (ea_listenPort a)"
  "p_revoked_at (new_peer now a i k ip ip6 h) = None"
  by (simp_all add: new_peer_def)

lemma new_peers_ok:
  assumes "peers_ok keys rows" "keyID \<in> set keys" "ea_listenPort a \<le> 65535"
    and "ea_publicKey a \<notin> p_public_key ` set rows"
    and "ip \<notin> set (map p_assigned_ip rows)" "ip6 = [] \<or> ip6 \<notin> set (col p_assigned_ip6 rows)"
  shows "peers_ok keys (rows @ [new_peer now a (next_rowid (map p_id rows)) keyID ip ip6 h])"
proof (rule peers_ok_append [OF assms(1)])
  show "p_id (new_peer now a (next_rowid (map p_id rows)) keyID ip ip6 h) \<notin> p_id ` set rows"
    using next_rowid_fresh [of "map p_id rows"] by simp
  show "p_assigned_ip6 q \<noteq> Some v"
    if "p_assigned_ip6 (new_peer now a (next_rowid (map p_id rows)) keyID ip ip6 h) = Some v" "q \<in> set rows" for v q
    using assms(6) that by (auto simp: nullable_Some set_col)
  show "peer_row_ok keys (map p_id rows) (new_peer now a (next_rowid (map p_id rows)) keyID ip ip6 h)"
    using assms(2,3) by (simp add: peer_row_ok_def nullable_int_port_ok ref_ok_def)
qed (use assms(4,5) in auto)

text \<open>The store and the result after a fresh enrollment.\<close>

definition enrolled ::
    "(string \<Rightarrow> string) \<Rightarrow> time \<Rightarrow> string \<Rightarrow> enroll_args \<Rightarrow> store \<Rightarrow> setup_key \<Rightarrow> string \<Rightarrow> string \<Rightarrow> store" where
  "enrolled sha256 now raw a s k ip ip6 =
     (let d = st_db s
      in s\<lparr>st_db := d\<lparr>setup_keys := update_where (\<lambda>x. x = k) bump (setup_keys d),
            peers := peers d @ [new_peer now a (next_rowid (map p_id (peers d))) (sk_id k) ip ip6
              (HashToken sha256 (RawURLEncode raw))]\<rparr>\<rparr>)"

definition enroll_response ::
    "string \<Rightarrow> enroll_args \<Rightarrow> store \<Rightarrow> store \<Rightarrow> string \<Rightarrow> string \<Rightarrow> EnrollResult" where
  "enroll_response raw a s s' ip ip6 =
     (let peerID = next_rowid (map p_id (peers (st_db s)))
      in \<lparr>er_Peer = PeerRow_zero\<lparr>ID := peerID, PublicKey := ea_publicKey a, AssignedIP := ip,
            AssignedIP6 := ip6, PublicEndpoint := ea_publicEndpoint a, ObservedIP := ea_observedIP a,
            ListenPort := ea_listenPort a\<rparr>,
          Others = listVisible (st_db s') peerID (DefaultAllow s), Created = True,
          AuthToken = RawURLEncode raw\<rparr>)"

lemma consumes_unique:
  assumes "setup_keys_ok keys" "k \<in> set keys" "consumes setupKey now k"
  shows "update_where (consumes setupKey now) bump keys = update_where (\<lambda>x. x = k) bump keys"
proof -
  have "consumes setupKey now x \<longleftrightarrow> x = k" if "x \<in> set keys" for x
    using distinct_map_eqD [of sk_key keys x k] assms that by (auto simp: setup_keys_ok_def consumes_def)
  then show ?thesis by (auto simp: update_where_def)
qed

lemma enroll_new_Inr:
  assumes "store_inv s"
  shows "enroll_new sha256 now raw a s = Inr (s', r) \<longleftrightarrow>
    (\<exists>k ip ip6. k \<in> set (setup_keys (st_db s)) \<and> consumes (ea_setupKey a) (format_time now) k \<and>
       allocateIP s (st_db s) = Inr ip \<and> (if v6Enabled s then allocateIP6 s (st_db s) else Inr []) = Inr ip6 \<and>
       peers_ok (map sk_id (setup_keys (st_db s))) (peers (st_db s) @ [new_peer now a
         (next_rowid (map p_id (peers (st_db s)))) (sk_id k) ip ip6 (HashToken sha256 (RawURLEncode raw))]) \<and>
       s' = enrolled sha256 now raw a s k ip ip6 \<and> r = enroll_response raw a s s' ip ip6)"
  (is "?l \<longleftrightarrow> ?r")
proof -
  note inv = store_invD [OF assms]
  have body: "enroll_new sha256 now raw a s =
      bindE (allocateIP s (st_db s)) (\<lambda>ip.
      bindE (if v6Enabled s then allocateIP6 s (st_db s) else Inr []) (\<lambda>ip6.
      ensureE (peers_ok (map sk_id (setup_keys (st_db s))) (peers (st_db s) @ [new_peer now a
         (next_rowid (map p_id (peers (st_db s)))) (sk_id k) ip ip6 (HashToken sha256 (RawURLEncode raw))]))
        ErrConstraint
        (Inr (enrolled sha256 now raw a s k ip ip6,
              enroll_response raw a s (enrolled sha256 now raw a s k ip ip6) ip ip6))))"
    if k: "k \<in> set (setup_keys (st_db s))" "consumes (ea_setupKey a) (format_time now) k" for k
    unfolding enroll_new_def consume_key_ok [OF inv(6) k] consumes_unique [OF inv(6) k, symmetric] bindE_Inr
    by (simp add: allocateIP_def allocateIP6_def newAuthToken_def Let_def write_peers_def bindE_def
        ensureE_def enrolled_def enroll_response_def consumes_unique [OF inv(6) k] split: sum.split)
  show ?thesis
  proof
    assume l: ?l
    then obtain d keyID where "consume_key (ea_setupKey a) (format_time now) (st_db s) = Inr (d, keyID)"
      by (auto simp: enroll_new_def bindE_eq_Inr)
    with inv(6) obtain k where k: "k \<in> set (setup_keys (st_db s))" "consumes (ea_setupKey a) (format_time now) k"
      by (rule consume_key_Inr)
    from l show ?r unfolding body [OF k] using k by (auto simp: go_simps)
  next
    assume ?r
    then show ?l using body by (auto simp: go_simps)
  qed
qed

lemma enroll_new_inv:
  assumes "store_inv s" "enroll_new sha256 now raw a s = Inr (s', r)"
  shows "store_inv s'"
proof -
  note inv = store_invD [OF assms(1)]
  from assms(2) obtain k ip ip6 where k: "k \<in> set (setup_keys (st_db s))" "consumes (ea_setupKey a) (format_time now) k"
    and ip: "allocateIP s (st_db s) = Inr ip" and ip6: "(if v6Enabled s then allocateIP6 s (st_db s) else Inr []) = Inr ip6"
    and ok: "peers_ok (map sk_id (setup_keys (st_db s))) (peers (st_db s) @ [new_peer now a
         (next_rowid (map p_id (peers (st_db s)))) (sk_id k) ip ip6 (HashToken sha256 (RawURLEncode raw))])"
    and s': "s' = enrolled sha256 now raw a s k ip ip6"
    unfolding enroll_new_Inr [OF assms(1)] by blast
  define d where "d = st_db s"
  define row where "row = new_peer now a (next_rowid (map p_id (peers d))) (sk_id k) ip ip6
    (HashToken sha256 (RawURLEncode raw))"
  let ?d1 = "d\<lparr>setup_keys := update_where (consumes (ea_setupKey a) (format_time now)) bump (setup_keys d)\<rparr>"
  have d1: "db_inv ?d1" using db_inv_consumed inv(1) by (simp add: d_def)
  have "db_inv (?d1\<lparr>peers := peers ?d1 @ [row]\<rparr>)"
  proof (rule db_inv_append [OF d1])
    show "uses_inv (setup_keys ?d1) (peers ?d1 @ [row])"
      using inv(1) k uses_inv_consumed [of "setup_keys d" "peers d" k]
      by (simp add: db_inv_def setup_keys_ok_def row_def d_def)
  qed (use ok in \<open>simp_all add: row_def d_def kind_ok_def\<close>)
  moreover have "host_text (st_network s) ip"
    using allocateAddr_host [OF inv(2,3)] ip by (simp add: allocateIP_def network4_def)
  moreover have "ip6 \<noteq> [] \<Longrightarrow> host_text (Network6 s) ip6"
    using allocateAddr_host [OF inv(5,4)] ip6 by (simp add: allocateIP6_def network6_def split: if_splits)
  ultimately show ?thesis
    using assms(1) consumes_unique [OF inv(6) k]
    unfolding s' store_inv_def enrolled_def Let_def
    by (auto simp: d_def row_def nets_ok_def addrs_inv_def nullable_Some split: option.split)
qed

subsection \<open>Re-enrollment\<close>

lemma refresh_peer_simps [simp]:
  "p_id (refresh_peer now a ip6 h p) = p_id p"
  "p_public_key (refresh_peer now a ip6 h p) = p_public_key p"
  "p_assigned_ip (refresh_peer now a ip6 h p) = p_assigned_ip p"
  "p_assigned_ip6 (refresh_peer now a ip6 h p) = or_else (nullable ip6) (p_assigned_ip6 p)"
  "p_setup_key_id (refresh_peer now a ip6 h p) = p_setup_key_id p"
  "p_peer_type (refresh_peer now a ip6 h p) = p_peer_type p"
  "p_gateway_peer_id (refresh_peer now a ip6 h p) = p_gateway_peer_id p"
  "p_exit_node_peer_id (refresh_peer now a ip6 h p) = p_exit_node_peer_id p"
  "p_revoked_at (refresh_peer now a ip6 h p) = p_revoked_at p"
  "p_listen_port (refresh_peer now a ip6 h p) = or_else (nullable_int (ea_listenPort a)) (p_listen_port p)"
  "p_auth_token_hash (refresh_peer now a ip6 h p) = Some h"
  by (simp_all add: refresh_peer_def)

lemma refresh_same_identity [simp]: "same_identity p (refresh_peer now a ip6 h p)"
  by (simp add: same_identity_def)

lemma scan_existing_simps [simp]:
  "ID (scan_existing p) = p_id p" "AssignedIP (scan_existing p) = p_assigned_ip p"
  "AssignedIP6 (scan_existing p) = coalesce (p_assigned_ip6 p) []"
  by (simp_all add: scan_existing_def)

lemma assigned_ip6_ne:
  assumes "store_inv s" "p \<in> set (peers (st_db s))"
  shows "coalesce (p_assigned_ip6 p) [] = [] \<longleftrightarrow> p_assigned_ip6 p = None"
  using assms host_text_ne
  by (cases "p_assigned_ip6 p") (force simp: store_inv_def addrs_inv_def list_all_iff)+

text \<open>The address a re-enrolling peer is given when it has none yet.\<close>

definition backfill :: "store \<Rightarrow> peer \<Rightarrow> store_error + string" where
  "backfill s p = (if v6Enabled s \<and> p_assigned_ip6 p = None then allocateIP6 s (st_db s) else Inr [])"

lemma refreshed_peers_ok:
  assumes "store_inv s" "p \<in> set (peers (st_db s))" "backfill s p = Inr ip6" "ea_listenPort a \<le> 65535"
  shows "peers_ok (map sk_id (setup_keys (st_db s)))
    (update_where (\<lambda>x. p_id x = p_id p) (refresh_peer now a ip6 h) (peers (st_db s)))"
proof -
  note inv = store_invD [OF assms(1)]
  let ?rows = "peers (st_db s)"
  have ok: "peers_ok (map sk_id (setup_keys (st_db s))) ?rows" by (rule inv(7))
  have p: "peer_row_ok (map sk_id (setup_keys (st_db s))) (map p_id ?rows) p"
    using ok assms(2) by (simp add: peers_ok_def list_all_iff)
  have fresh: "ip6 = [] \<or> ip6 \<notin> set (col p_assigned_ip6 ?rows)"
    using assms(3) allocateAddr_host [OF inv(5,4), of ip6]
    by (auto simp: backfill_def allocateIP6_def network6_def split: if_splits)
  show ?thesis
  proof (rule peers_ok_readdress [OF ok assms(2)])
    fix x v assume x: "x \<in> set ?rows" "p_id x \<noteq> p_id p"
    show "p_assigned_ip x \<noteq> p_assigned_ip (refresh_peer now a ip6 h p)"
      using ok x assms(2) distinct_map_eqD [of p_assigned_ip ?rows x p] by (auto simp: peers_ok_def)
    assume v: "p_assigned_ip6 (refresh_peer now a ip6 h p) = Some v"
    show "p_assigned_ip6 x \<noteq> Some v"
    proof (cases "ip6 = []")
      case True
      then show ?thesis
        using v x ok assms(2) distinct_col_eqD [of p_assigned_ip6 ?rows p_id x p v] by (auto simp: peers_ok_def)
    next
      case False
      then show ?thesis using v x fresh by (auto simp: set_col)
    qed
  next
    show "peer_row_ok (map sk_id (setup_keys (st_db s))) (map p_id ?rows) (refresh_peer now a ip6 h p)"
      using p assms(4) by (auto simp: peer_row_ok_def nullable_int_def port_ok_def)
  qed simp_all
qed

definition reenrolled ::
    "(string \<Rightarrow> string) \<Rightarrow> time \<Rightarrow> string \<Rightarrow> enroll_args \<Rightarrow> store \<Rightarrow> peer \<Rightarrow> string \<Rightarrow> store" where
  "reenrolled sha256 now raw a s p ip6 =
     s\<lparr>st_db := (st_db s)\<lparr>peers := update_where (\<lambda>x. p_id x = p_id p)
       (refresh_peer now a ip6 (HashToken sha256 (RawURLEncode raw))) (peers (st_db s))\<rparr>\<rparr>"

definition reenroll_response ::
    "string \<Rightarrow> enroll_args \<Rightarrow> store \<Rightarrow> store \<Rightarrow> peer \<Rightarrow> string \<Rightarrow> EnrollResult" where
  "reenroll_response raw a s s' p ip6 =
     \<lparr>er_Peer = mirror_existing a ip6 (scan_existing p),
      Others = listVisible (st_db s') (p_id p) (DefaultAllow s), Created = False,
      AuthToken = RawURLEncode raw\<rparr>"

definition retry_key :: "enroll_args \<Rightarrow> peer \<Rightarrow> setup_key \<Rightarrow> bool" where
  "retry_key a p k \<longleftrightarrow> sk_key k = ea_setupKey a \<and> sk_revoked_at k = None \<and> sk_id k = p_setup_key_id p"

lemma reEnroll_eq:
  assumes "store_inv s" "p \<in> set (peers (st_db s))" "k \<in> set (setup_keys (st_db s))" "retry_key a p k"
  shows "reEnroll sha256 now raw a (scan_existing p) (p_setup_key_id p) s =
    bindE (backfill s p) (\<lambda>ip6.
      bindE (write_peers (update_where (\<lambda>x. p_id x = p_id p)
        (refresh_peer now a ip6 (HashToken sha256 (RawURLEncode raw))) (peers (st_db s))) (st_db s)) (\<lambda>d'.
      Inr (s\<lparr>st_db := d'\<rparr>, reenroll_response raw a s (s\<lparr>st_db := d'\<rparr>) p ip6)))"
proof -
  have "List.find (\<lambda>k. sk_key k = ea_setupKey a) (setup_keys (st_db s)) = Some k"
    using store_invD(6) [OF assms(1)] assms(3,4) find_unique [of sk_key "setup_keys (st_db s)" k]
    by (simp add: setup_keys_ok_def retry_key_def)
  then show ?thesis
    using assms(4) assigned_ip6_ne [OF assms(1,2)]
    by (simp add: reEnroll_def Let_def retry_key_def newAuthToken_def backfill_def reenroll_response_def)
qed

lemma reEnroll_refused:
  assumes "store_inv s" "\<And>k. k \<in> set (setup_keys (st_db s)) \<Longrightarrow> \<not> retry_key a p k"
  shows "\<exists>m. reEnroll sha256 now raw a (scan_existing p) (p_setup_key_id p) s = Inl (ErrUnauthorized m)"
proof (cases "List.find (\<lambda>k. sk_key k = ea_setupKey a) (setup_keys (st_db s))")
  case None
  then show ?thesis by (simp add: reEnroll_def)
next
  case (Some k)
  with find_Some_mem [OF Some] assms(2) [of k] show ?thesis
    by (auto simp: reEnroll_def retry_key_def Let_def)
qed

lemma reEnroll_inv:
  assumes "store_inv s" "p \<in> set (peers (st_db s))"
    and "reEnroll sha256 now raw a (scan_existing p) (p_setup_key_id p) s = Inr (s', r)"
  shows "store_inv s'"
proof (cases "\<exists>k \<in> set (setup_keys (st_db s)). retry_key a p k")
  case True
  note inv = store_invD [OF assms(1)]
  from True obtain k where k: "k \<in> set (setup_keys (st_db s))" "retry_key a p k" by auto
  from assms(3) obtain ip6 where b: "backfill s p = Inr ip6"
    and ok: "peers_ok (map sk_id (setup_keys (st_db s))) (update_where (\<lambda>x. p_id x = p_id p)
        (refresh_peer now a ip6 (HashToken sha256 (RawURLEncode raw))) (peers (st_db s)))"
    and s': "s' = reenrolled sha256 now raw a s p ip6"
    unfolding reEnroll_eq [OF assms(1,2) k] by (auto simp: go_simps reenrolled_def)
  have h6: "ip6 \<noteq> [] \<Longrightarrow> host_text (Network6 s) ip6"
    using b allocateAddr_host [OF inv(5,4), of ip6]
    by (auto simp: backfill_def allocateIP6_def network6_def split: if_splits)
  have "addrs_inv (st_network s) (Network6 s) (update_where (\<lambda>x. p_id x = p_id p)
      (refresh_peer now a ip6 (HashToken sha256 (RawURLEncode raw))) (peers (st_db s)))"
    using assms(1) h6
    by (intro addrs_inv_rewrite) (auto simp: store_inv_def addrs_inv_def list_all_iff nullable_def split: if_splits)
  then show ?thesis
    using assms(1) db_inv_rewrite [OF inv(1) ok same_rows_update] s'
    by (simp add: store_inv_def reenrolled_def nets_ok_def)
next
  case False
  with assms reEnroll_refused [OF assms(1)] show ?thesis by (metis Inl_Inr_False)
qed

lemma Enroll_inv:
  assumes "store_inv s" "Enroll sha256 now raw a s = Inr (s', r)"
  shows "store_inv s'"
proof (cases "List.find (\<lambda>p. p_public_key p = ea_publicKey a) (peers (st_db s))")
  case None
  with assms show ?thesis by (auto simp: Enroll_def intro: enroll_new_inv)
next
  case (Some p)
  with assms find_Some_mem [OF Some] show ?thesis by (auto simp: Enroll_def intro: reEnroll_inv)
qed

lemma Enroll_existing:
  assumes "store_inv s" "p \<in> set (peers (st_db s))" "p_public_key p = ea_publicKey a"
  shows "Enroll sha256 now raw a s = reEnroll sha256 now raw a (scan_existing p) (p_setup_key_id p) s"
proof -
  have "List.find (\<lambda>x. p_public_key x = ea_publicKey a) (peers (st_db s)) = Some p"
    using store_invD(7) [OF assms(1)] assms(2,3) find_unique [of p_public_key "peers (st_db s)" p]
    by (simp add: peers_ok_def)
  then show ?thesis by (simp add: Enroll_def)
qed

lemma Enroll_new:
  assumes "ea_publicKey a \<notin> p_public_key ` set (peers (st_db s))"
  shows "Enroll sha256 now raw a s = enroll_new sha256 now raw a s"
proof -
  have "List.find (\<lambda>x. p_public_key x = ea_publicKey a) (peers (st_db s)) = None"
    using assms by (auto simp: find_None_all image_iff)
  then show ?thesis by (simp add: Enroll_def)
qed

subsection \<open>Who sees whom\<close>

lemma listVisible_mem:
  "r \<in> set (listVisible d self da) \<longleftrightarrow> (\<exists>p \<in> set (peers d). visible d da self p \<and> r = scan_peer p)"
  by (auto simp: listVisible_def)

lemma scan_peer_ID [simp]: "ID (scan_peer p) = p_id p"
  by (simp add: scan_peer_def)

lemma scan_peer_mem:
  assumes "distinct (map p_id (peers d))" "q \<in> set (peers d)"
  shows "scan_peer q \<in> set (listVisible d self da) \<longleftrightarrow> visible d da self q"
proof
  assume "scan_peer q \<in> set (listVisible d self da)"
  then obtain p where p: "p \<in> set (peers d)" "visible d da self p" "scan_peer q = scan_peer p"
    by (auto simp: listVisible_mem)
  then have "p_id q = p_id p" by (metis scan_peer_ID)
  with assms p show "visible d da self q" by (auto dest: distinct_map_eqD)
qed (use assms in \<open>auto simp: listVisible_mem\<close>)

lemma acl_connects_commute: "acl_connects i j r \<longleftrightarrow> acl_connects j i r"
  by (auto simp: acl_connects_def split: option.splits)

lemma exit_of_row:
  assumes "db_inv d" "p \<in> set (peers d)"
  shows "exit_of (p_id p) d = Some (coalesce (p_exit_node_peer_id p) 0)"
  using assms peer_by_id_Some [of d "p_id p" p] by (simp add: exit_of_def db_inv_def rowids_distinct)

lemma exit_of_iff:
  assumes "db_inv d" "p \<in> set (peers d)" "q \<in> set (peers d)"
  shows "exit_of (p_id p) d = Some (p_id q) \<longleftrightarrow> p_exit_node_peer_id p = Some (p_id q)"
proof -
  have "0 < p_id q" using assms(1,3) by (auto simp: db_inv_def rowids_def list_all_iff)
  then show ?thesis
    using exit_of_row [OF assms(1,2)] by (cases "p_exit_node_peer_id p") auto
qed

lemma visible_iff:
  assumes "db_inv d" "p \<in> set (peers d)" "q \<in> set (peers d)"
  shows "visible d da (p_id p) q \<longleftrightarrow> p_revoked_at q = None \<and> p_id q \<noteq> p_id p \<and>
    (da \<or> p_gateway_peer_id q = Some (p_id p) \<or> p_exit_node_peer_id q = Some (p_id p) \<or>
     p_exit_node_peer_id p = Some (p_id q) \<or> (\<exists>r \<in> set (acl_rules d). acl_connects (p_id p) (p_id q) r))"
  using exit_of_iff [OF assms] by (auto simp: visible_def list_ex_iff)

lemma visible_symmetric:
  assumes "db_inv d" "p \<in> set (peers d)" "q \<in> set (peers d)"
    and "p_revoked_at p = None" "p_revoked_at q = None" "p_peer_type p = ''agent''" "p_peer_type q = ''agent''"
  shows "visible d da (p_id p) q \<longleftrightarrow> visible d da (p_id q) p"
proof -
  have "p_gateway_peer_id p = None" "p_gateway_peer_id q = None"
    using assms by (auto simp: db_inv_def list_all_iff kind_ok_def)
  then show ?thesis
    unfolding visible_iff [OF assms(1-3)] visible_iff [OF assms(1,3,2)]
    using assms(4,5) acl_connects_commute by auto
qed

lemma listVisible_sorted: "sorted (map ID (listVisible d self da))"
  by (simp add: listVisible_def comp_def)

subsection \<open>A concrete store\<close>

text \<open>
  A small store used to instantiate the properties: one agent enrolled with a key of which
  one use is left, IPv4 only, default-allow.
\<close>

definition demo_key :: setup_key where
  "demo_key = \<lparr>sk_id = 1, sk_key = ''k1'', sk_name = None, sk_created_at = ''2026-01-01T00:00:00.000Z'',
     sk_expires_at = None, sk_revoked_at = None, sk_max_uses = Some 2, sk_uses_consumed = 1\<rparr>"

definition demo_args :: enroll_args where
  "demo_args = \<lparr>ea_setupKey = ''k1'', ea_publicKey = ''pkA'', ea_hostname = ''a'', ea_listenPort = 51820,
     ea_observedIP = ''192.0.2.1'', ea_publicEndpoint = []\<rparr>"

definition demo_peer :: peer where
  "demo_peer =
     \<lparr>p_id = 1, p_public_key = ''pkA'', p_assigned_ip = ''100.64.0.1'', p_assigned_ip6 = None,
      p_hostname = Some ''a'', p_listen_port = Some 51820, p_last_seen_at = None,
      p_created_at = ''2026-01-01T00:00:00.000Z'', p_revoked_at = None, p_setup_key_id = 1,
      p_auth_token_hash = Some ''68'', p_auth_token_issued_at = Some ''2026-01-01T00:00:00.000Z'',
      p_observed_ip = Some ''192.0.2.1'', p_public_endpoint = None, p_peer_type = ''agent'',
      p_gateway_peer_id = None, p_private_key_enc = None, p_gateway_endpoint = None,
      p_candidates = None, p_nat_type = None, p_advertise_exit_node = False,
      p_exit_node_peer_id = None, p_agent_version = None\<rparr>"

definition demo_store :: store where
  "demo_store = \<lparr>st_db = empty_db\<lparr>setup_keys := [demo_key], peers := [demo_peer]\<rparr>,
     st_network = Prefix (V4 1681915904) 10, DefaultAllow = True, TokenTTL = 0, Network6 = PrefixZero\<rparr>"

lemma demo_store_inv: "store_inv demo_store"
  by code_simp

text \<open>The same mesh with a second agent, default-deny and one rule between the two.\<close>

definition demo_peer2 :: peer where
  "demo_peer2 = demo_peer\<lparr>p_id := 2, p_public_key := ''pkB'', p_assigned_ip := ''100.64.0.2'',
     p_hostname := Some ''b'', p_auth_token_hash := Some ''69''\<rparr>"

definition demo_rule :: acl_rule where
  "demo_rule = \<lparr>r_id = 1, r_name = None, r_src_peer_id = Some 1, r_dst_peer_id = Some 2,
     r_protocol = ''any'', r_port_min = None, r_port_max = None, r_created_at = ''2026-01-01T00:00:00.000Z''\<rparr>"

definition demo_store2 :: store where
  "demo_store2 = demo_store\<lparr>DefaultAllow := False,
     st_db := (st_db demo_store)\<lparr>setup_keys := [demo_key\<lparr>sk_uses_consumed := 2\<rparr>],
       peers := [demo_peer, demo_peer2], acl_rules := [demo_rule]\<rparr>\<rparr>"

lemma demo_store2_inv: "store_inv demo_store2"
  by code_simp

subsection \<open>Properties\<close>

lemma allocateAddr_not_unauthorized: "allocateAddr p ts \<noteq> Inl (ErrUnauthorized m)"
proof
  assume "allocateAddr p ts = Inl (ErrUnauthorized m)"
  moreover have "foldE (\<lambda>raw used. case ParseAddr raw of None \<Rightarrow> Inl (ErrMsg ''parse address from database'')
      | Some a \<Rightarrow> Inr (used @ [a])) ts us \<noteq> Inl (ErrUnauthorized m)" for us
    by (induction ts arbitrary: us) (auto simp: bindE_eq_Inl split: option.splits)
  ultimately show False
    by (auto simp: allocateAddr_def parse_column_def bindE_eq_Inl split: option.splits)
qed

lemma enroll_new_authorized:
  assumes "store_inv s" "k \<in> set (setup_keys (st_db s))" "consumes (ea_setupKey a) (format_time now) k"
  shows "enroll_new sha256 now raw a s \<noteq> Inl (ErrUnauthorized m)"
  using consume_key_ok [OF store_invD(6) [OF assms(1)] assms(2,3)]
  by (auto simp: enroll_new_def Let_def newAuthToken_def allocateIP_def allocateIP6_def bindE_eq_Inl
      allocateAddr_not_unauthorized write_Inl split: if_splits)

lemma reEnroll_authorized:
  assumes "store_inv s" "p \<in> set (peers (st_db s))" "k \<in> set (setup_keys (st_db s))" "retry_key a p k"
  shows "reEnroll sha256 now raw a (scan_existing p) (p_setup_key_id p) s \<noteq> Inl (ErrUnauthorized m)"
  unfolding reEnroll_eq [OF assms]
  by (auto simp: bindE_eq_Inl backfill_def allocateIP6_def allocateAddr_not_unauthorized write_Inl split: if_splits)

text \<open>
  C3: A fresh enrollment. For a public key that is not registered and a setup key that is
  not revoked, not expired and not exhausted, \<open>Enroll\<close> succeeds whenever the networks
  have a free host: it consumes exactly one use of that key, appends exactly one row, whose
  addresses are the lowest free hosts and whose token hash is the hash of the returned
  token, and changes nothing else.
\<close>

theorem Enroll_fresh:
  assumes "store_inv s" "ea_publicKey a \<notin> p_public_key ` set (peers (st_db s))"
    and "k \<in> set (setup_keys (st_db s))" "sk_key k = ea_setupKey a" "key_usable (format_time now) k"
    and "ea_listenPort a \<le> 65535"
    and "least_free (st_network s) (map p_assigned_ip (peers (st_db s))) i"
    and "ip = addr_String (nth_host (st_network s) i)"
    and "if v6Enabled s
         then least_free (Network6 s) (col p_assigned_ip6 (peers (st_db s))) j \<and>
              ip6 = addr_String (nth_host (Network6 s) j)
         else ip6 = []"
  shows "Enroll sha256 now raw a s =
    Inr (enrolled sha256 now raw a s k ip ip6,
         enroll_response raw a s (enrolled sha256 now raw a s k ip ip6) ip ip6)"
proof -
  note inv = store_invD [OF assms(1)]
  let ?rows = "peers (st_db s)"
  have ip: "allocateIP s (st_db s) = Inr ip"
    using allocateAddr_iff [OF inv(2,3)] assms(7,8) by (auto simp: allocateIP_def network4_def)
  have ip6: "(if v6Enabled s then allocateIP6 s (st_db s) else Inr []) = Inr ip6"
    using allocateAddr_iff [OF inv(5,4)] assms(9) by (auto simp: allocateIP6_def network6_def)
  have "ip \<notin> set (map p_assigned_ip ?rows)" "ip6 = [] \<or> ip6 \<notin> set (col p_assigned_ip6 ?rows)"
    using assms(7-9) by (auto simp: least_free_def split: if_splits)
  then have "peers_ok (map sk_id (setup_keys (st_db s))) (?rows @ [new_peer now a
      (next_rowid (map p_id ?rows)) (sk_id k) ip ip6 (HashToken sha256 (RawURLEncode raw))])"
    using assms(2,3,6) by (intro new_peers_ok [OF inv(7)]) auto
  then show ?thesis
    unfolding Enroll_new [OF assms(2)] enroll_new_Inr [OF assms(1)]
    using assms(3-5) ip ip6 by (auto simp: consumes_def)
qed

theorem Enroll_fresh_witness:
  "Enroll (\<lambda>x. x) 0 ''r'' (demo_args\<lparr>ea_publicKey := ''pkB''\<rparr>) demo_store =
    Inr (enrolled (\<lambda>x. x) 0 ''r'' (demo_args\<lparr>ea_publicKey := ''pkB''\<rparr>) demo_store demo_key ''100.64.0.2'' [],
         enroll_response ''r'' (demo_args\<lparr>ea_publicKey := ''pkB''\<rparr>) demo_store
           (enrolled (\<lambda>x. x) 0 ''r'' (demo_args\<lparr>ea_publicKey := ''pkB''\<rparr>) demo_store demo_key ''100.64.0.2'' [])
           ''100.64.0.2'' [])"
proof (rule Enroll_fresh [where i = 2, OF demo_store_inv])
  show "ea_publicKey (demo_args\<lparr>ea_publicKey := ''pkB''\<rparr>) \<notin> p_public_key ` set (peers (st_db demo_store))"
    "demo_key \<in> set (setup_keys (st_db demo_store))"
    "sk_key demo_key = ea_setupKey (demo_args\<lparr>ea_publicKey := ''pkB''\<rparr>)"
    "ea_listenPort (demo_args\<lparr>ea_publicKey := ''pkB''\<rparr>) \<le> 65535"
    "key_usable (format_time 0) demo_key"
    by (simp_all add: demo_args_def demo_store_def demo_peer_def demo_key_def key_usable_def)
  show "least_free (st_network demo_store) (map p_assigned_ip (peers (st_db demo_store))) 2"
    "''100.64.0.2'' = addr_String (nth_host (st_network demo_store) 2)"
    by code_simp+
  show "if v6Enabled demo_store
     then least_free (Network6 demo_store) (col p_assigned_ip6 (peers (st_db demo_store))) 0 \<and>
          [] = addr_String (nth_host (Network6 demo_store) 0)
     else [] = []"
    by (simp add: v6Enabled_def network6_def demo_store_def)
qed

text \<open>
  C4: Re-enrollment is idempotent. For a registered public key presented with the unrevoked
  setup key it was enrolled with, \<open>Enroll\<close> succeeds however expired or exhausted the key
  is: no key use is consumed, no row is added, the peer keeps its id and its IPv4 address,
  its token is rotated to the returned one, and every other row is unchanged.
\<close>

theorem Enroll_retry:
  assumes "store_inv s" "p \<in> set (peers (st_db s))" "p_public_key p = ea_publicKey a"
    and "k \<in> set (setup_keys (st_db s))" "sk_key k = ea_setupKey a" "sk_revoked_at k = None"
    and "sk_id k = p_setup_key_id p" "ea_listenPort a \<le> 65535"
    and "if v6Enabled s \<and> p_assigned_ip6 p = None
         then least_free (Network6 s) (col p_assigned_ip6 (peers (st_db s))) j \<and>
              ip6 = addr_String (nth_host (Network6 s) j)
         else ip6 = []"
  shows "Enroll sha256 now raw a s =
    Inr (reenrolled sha256 now raw a s p ip6,
         reenroll_response raw a s (reenrolled sha256 now raw a s p ip6) p ip6)"
proof -
  note inv = store_invD [OF assms(1)]
  have k: "retry_key a p k" using assms(5-7) by (simp add: retry_key_def)
  have b: "backfill s p = Inr ip6"
    using assms(9) allocateAddr_iff [OF inv(5,4)]
    by (auto simp: backfill_def allocateIP6_def network6_def)
  show ?thesis
    unfolding Enroll_existing [OF assms(1-3)] reEnroll_eq [OF assms(1,2,4) k]
    using b refreshed_peers_ok [OF assms(1,2) b assms(8)] by (simp add: write_peers_def reenrolled_def)
qed

theorem Enroll_retry_witness:
  "Enroll (\<lambda>x. x) 0 ''r'' demo_args demo_store =
    Inr (reenrolled (\<lambda>x. x) 0 ''r'' demo_args demo_store demo_peer [],
         reenroll_response ''r'' demo_args demo_store
           (reenrolled (\<lambda>x. x) 0 ''r'' demo_args demo_store demo_peer []) demo_peer [])"
  by (rule Enroll_retry [where k = demo_key, OF demo_store_inv])
    (simp_all add: demo_args_def demo_store_def demo_peer_def demo_key_def v6Enabled_def network6_def)

text \<open>
  Every setup-key failure, and nothing else, is reported as unauthorized: a fresh
  enrollment is refused exactly when no unrevoked, unexpired, unexhausted key matches, a
  re-enrollment exactly when the presented key is unknown, revoked or not the original one.
\<close>

theorem Enroll_unauthorized_iff:
  assumes "store_inv s"
  shows "(\<exists>m. Enroll sha256 now raw a s = Inl (ErrUnauthorized m)) \<longleftrightarrow>
    (case List.find (\<lambda>p. p_public_key p = ea_publicKey a) (peers (st_db s)) of
       None \<Rightarrow> \<not> list_ex (\<lambda>k. sk_key k = ea_setupKey a \<and> key_usable (format_time now) k) (setup_keys (st_db s))
     | Some p \<Rightarrow> \<not> list_ex (\<lambda>k. sk_key k = ea_setupKey a \<and> sk_revoked_at k = None \<and>
         sk_id k = p_setup_key_id p) (setup_keys (st_db s)))"
proof (cases "List.find (\<lambda>p. p_public_key p = ea_publicKey a) (peers (st_db s))")
  case None
  have "enroll_new sha256 now raw a s = Inl (ErrUnauthorized (diagnoseKey (ea_setupKey a) (format_time now) (st_db s)))"
    if "\<And>k. k \<in> set (setup_keys (st_db s)) \<Longrightarrow> \<not> consumes (ea_setupKey a) (format_time now) k"
    using consume_key_refused [OF store_invD(6) [OF assms] that] by (simp add: enroll_new_def)
  moreover have "enroll_new sha256 now raw a s \<noteq> Inl (ErrUnauthorized m)"
    if "k \<in> set (setup_keys (st_db s))" "consumes (ea_setupKey a) (format_time now) k" for k m
    using enroll_new_authorized [OF assms that] .
  ultimately show ?thesis using None by (auto simp: Enroll_def list_ex_iff consumes_def)
next
  case (Some p)
  then have p: "p \<in> set (peers (st_db s))" using find_Some_mem [OF Some] by simp
  have "(\<exists>m. reEnroll sha256 now raw a (scan_existing p) (p_setup_key_id p) s = Inl (ErrUnauthorized m)) \<longleftrightarrow>
      (\<forall>k \<in> set (setup_keys (st_db s)). \<not> retry_key a p k)"
    using reEnroll_refused [OF assms] reEnroll_authorized [OF assms p] by metis
  then show ?thesis using Some by (auto simp: Enroll_def list_ex_iff retry_key_def)
qed

theorem Enroll_unauthorized_iff_witness:
  "\<exists>m. Enroll (\<lambda>x. x) 0 ''r'' (demo_args\<lparr>ea_publicKey := ''pkB'', ea_setupKey := ''nope''\<rparr>) demo_store =
    Inl (ErrUnauthorized m)"
  unfolding Enroll_unauthorized_iff [OF demo_store_inv]
  by (simp add: demo_args_def demo_store_def demo_peer_def demo_key_def)

text \<open>
  C7: Visibility is symmetric between active agents, whatever the default policy and the
  rules: each of the two is in the other's peer list or neither is. Only the
  gateway relation, which static peers have, is one-sided.
\<close>

theorem listVisible_symmetric:
  assumes "db_inv d" "p \<in> set (peers d)" "q \<in> set (peers d)"
    and "p_revoked_at p = None" "p_revoked_at q = None" "p_peer_type p = ''agent''" "p_peer_type q = ''agent''"
  shows "scan_peer q \<in> set (listVisible d (p_id p) da) \<longleftrightarrow> scan_peer p \<in> set (listVisible d (p_id q) da)"
  using visible_symmetric [OF assms] scan_peer_mem [of d] assms(1-3)
  by (simp add: db_inv_def rowids_distinct)

theorem listVisible_symmetric_witness:
  "scan_peer demo_peer2 \<in> set (listVisible (st_db demo_store2) 1 False) \<longleftrightarrow>
   scan_peer demo_peer \<in> set (listVisible (st_db demo_store2) 2 False)"
  using listVisible_symmetric [of "st_db demo_store2" demo_peer demo_peer2 False] demo_store2_inv
  by (simp add: store_inv_def demo_store2_def demo_store_def demo_peer_def demo_peer2_def)

end
