(* ===== verification/PeerAdmin.thy ===== *)
theory PeerAdmin
  imports Enrollment
begin

section \<open>Administration of peers and setup keys\<close>

text \<open>
  admin.go: listing, revocation, removal of a revoked peer with the foreign-key actions of
  the schema (CASCADE for topology, rules and telemetry, SET NULL for gateway and exit
  references), and the reassignment of a peer's overlay addresses.
\<close>

subsection \<open>Listing\<close>

record PeerInfo =
  pi_ID :: int
  pi_PublicKey :: string
  pi_AssignedIP :: string
  pi_AssignedIP6 :: string
  pi_PeerType :: string
  pi_GatewayPeerID :: int
  pi_GatewayEndpoint :: string
  pi_HasStoredConfig :: bool
  pi_AdvertiseExitNode :: bool
  pi_ExitNodePeerID :: int
  pi_Hostname :: string
  pi_ListenPort :: int
  pi_ObservedIP :: string
  pi_PublicEndpoint :: string
  pi_NATType :: string
  pi_AgentVersion :: string
  pi_CreatedAt :: string
  pi_LastSeenAt :: string
  pi_RevokedAt :: string

definition scan_info :: "peer \<Rightarrow> PeerInfo" where
  "scan_info p = \<lparr>pi_ID = p_id p, pi_PublicKey = p_public_key p, pi_AssignedIP = p_assigned_ip p,
     pi_AssignedIP6 = coalesce (p_assigned_ip6 p) [], pi_PeerType = p_peer_type p,
     pi_GatewayPeerID = coalesce (p_gateway_peer_id p) 0,
     pi_GatewayEndpoint = coalesce (p_gateway_endpoint p) [],
     pi_HasStoredConfig = (p_private_key_enc p \<noteq> None),
     pi_AdvertiseExitNode = p_advertise_exit_node p,
     pi_ExitNodePeerID = coalesce (p_exit_node_peer_id p) 0,
     pi_Hostname = coalesce (p_hostname p) [], pi_ListenPort = coalesce (p_listen_port p) 0,
     pi_ObservedIP = coalesce (p_observed_ip p) [], pi_PublicEndpoint = coalesce (p_public_endpoint p) [],
     pi_NATType = coalesce (p_nat_type p) [], pi_AgentVersion = coalesce (p_agent_version p) [],
     pi_CreatedAt = p_created_at p, pi_LastSeenAt = coalesce (p_last_seen_at p) [],
     pi_RevokedAt = coalesce (p_revoked_at p) []\<rparr>"

definition ListPeers :: "store \<Rightarrow> PeerInfo list" where
  "ListPeers s = map scan_info (sort_key p_id (peers (st_db s)))"

text \<open>
  \<open>getPeerInfo\<close> selects fewer columns: the exit-node columns and the agent version keep
  the zero value.
\<close>

definition getPeerInfo :: "int \<Rightarrow> db \<Rightarrow> store_error + PeerInfo" where
  "getPeerInfo i d =
     (case peer_by_id i d of
        None \<Rightarrow> Inl ErrNotFound
      | Some p \<Rightarrow> Inr ((scan_info p)\<lparr>pi_AdvertiseExitNode := False, pi_ExitNodePeerID := 0,
          pi_AgentVersion := []\<rparr>))"

definition Peer :: "int \<Rightarrow> store \<Rightarrow> store_error + PeerInfo" where
  "Peer i s = getPeerInfo i (st_db s)"

record SetupKeyInfo =
  ki_ID :: int
  ki_Key :: string
  ki_Name :: string
  ki_CreatedAt :: string
  ki_ExpiresAt :: string
  ki_RevokedAt :: string
  ki_MaxUses :: int
  ki_UsesConsumed :: int

definition scan_key :: "setup_key \<Rightarrow> SetupKeyInfo" where
  "scan_key k = \<lparr>ki_ID = sk_id k, ki_Key = sk_key k, ki_Name = coalesce (sk_name k) [],
     ki_CreatedAt = sk_created_at k, ki_ExpiresAt = coalesce (sk_expires_at k) [],
     ki_RevokedAt = coalesce (sk_revoked_at k) [], ki_MaxUses = coalesce (sk_max_uses k) 0,
     ki_UsesConsumed = sk_uses_consumed k\<rparr>"

definition ListSetupKeys :: "store \<Rightarrow> SetupKeyInfo list" where
  "ListSetupKeys s = map scan_key (sort_key sk_id (setup_keys (st_db s)))"

subsection \<open>Revocation\<close>

definition active_peer :: "int \<Rightarrow> peer \<Rightarrow> bool" where
  "active_peer i p \<longleftrightarrow> p_id p = i \<and> p_revoked_at p = None"

definition RevokePeer :: "time \<Rightarrow> int \<Rightarrow> store \<Rightarrow> store_error + store" where
  "RevokePeer now i s =
     (let d = st_db s
      in bindE (write_peers (update_where (active_peer i)
                  (\<lambda>p. p\<lparr>p_revoked_at := Some (format_time now)\<rparr>) (peers d)) d) (\<lambda>d'.
         if rows_affected (active_peer i) (peers d) = 0 then Inl ErrNotFound else Inr (s\<lparr>st_db := d'\<rparr>)))"

definition active_key :: "int \<Rightarrow> setup_key \<Rightarrow> bool" where
  "active_key i k \<longleftrightarrow> sk_id k = i \<and> sk_revoked_at k = None"

definition RevokeSetupKey :: "time \<Rightarrow> int \<Rightarrow> store \<Rightarrow> store_error + store" where
  "RevokeSetupKey now i s =
     (let d = st_db s
      in bindE (write_setup_keys (update_where (active_key i)
                  (\<lambda>k. k\<lparr>sk_revoked_at := Some (format_time now)\<rparr>) (setup_keys d)) d) (\<lambda>d'.
         if rows_affected (active_key i) (setup_keys d) = 0 then Inl ErrNotFound else Inr (s\<lparr>st_db := d'\<rparr>)))"

subsection \<open>Removal\<close>

definition unset_ref :: "int \<Rightarrow> int option \<Rightarrow> int option" where
  "unset_ref i v = (if v = Some i then None else v)"

definition detach :: "int \<Rightarrow> peer \<Rightarrow> peer" where
  "detach i p = p\<lparr>p_gateway_peer_id := unset_ref i (p_gateway_peer_id p),
     p_exit_node_peer_id := unset_ref i (p_exit_node_peer_id p)\<rparr>"

text \<open>
  The foreign-key actions of deleting peer \<open>i\<close>: rows of acl_rules, link_stats, flows,
  peer_paths and connection_events that mention it go, references from other peers, from
  the audit log and from the proxy log become NULL.
\<close>

definition cascade_peer :: "int \<Rightarrow> db \<Rightarrow> db" where
  "cascade_peer i d = d\<lparr>
     peers := map (detach i) (delete_where (\<lambda>p. p_id p = i) (peers d)),
     acl_rules := delete_where (\<lambda>r. r_src_peer_id r = Some i \<or> r_dst_peer_id r = Some i) (acl_rules d),
     link_stats := delete_where (\<lambda>l. l_peer_id l = i \<or> l_remote_peer_id l = i) (link_stats d),
     flows := delete_where (\<lambda>f. f_peer_id f = i) (flows d),
     peer_paths := delete_where (\<lambda>x. pp_peer_id x = i \<or> pp_remote_peer_id x = i) (peer_paths d),
     connection_events :=
       delete_where (\<lambda>c. c_reporter_peer_id c = i \<or> c_remote_peer_id c = i) (connection_events d),
     audit_log := map (\<lambda>a. a\<lparr>a_peer_id := unset_ref i (a_peer_id a)\<rparr>) (audit_log d),
     proxy_events := map (\<lambda>x. x\<lparr>x_peer_id := unset_ref i (x_peer_id x)\<rparr>) (proxy_events d)\<rparr>"

definition RemovePeer :: "int \<Rightarrow> store \<Rightarrow> store_error + store" where
  "RemovePeer i s =
     (if rows_affected (\<lambda>p. p_id p = i \<and> p_revoked_at p \<noteq> None) (peers (st_db s)) = 0 then Inl ErrNotFound
      else Inr (s\<lparr>st_db := cascade_peer i (st_db s)\<rparr>))"

subsection \<open>Address reassignment\<close>

definition validateOverlayAddr :: "string \<Rightarrow> string \<Rightarrow> prefix \<Rightarrow> bool \<Rightarrow> store_error + addr" where
  "validateOverlayAddr field raw p required =
     (let raw = TrimSpace raw
      in if raw = [] then (if required then Inl (ErrMsg (field @ '' is required'')) else Inr AddrZero)
         else case ParseAddr raw of
                None \<Rightarrow> Inl (ErrMsg (field @ '' must be an IP address''))
              | Some a \<Rightarrow>
                  if \<not> Contains p a then Inl (ErrMsg (field @ '' is outside overlay network''))
                  else if a = prefix_Addr p then Inl (ErrMsg (field @ '' cannot be the overlay network address''))
                  else if Is4 (prefix_Addr p) \<noteq> Is4 a then Inl (ErrMsg (field @ '' has wrong IP family''))
                  else Inr a)"

definition ensurePeerAddressFree :: "(peer \<Rightarrow> string option) \<Rightarrow> int \<Rightarrow> string \<Rightarrow> db \<Rightarrow> store_error + unit" where
  "ensurePeerAddressFree column selfID ip d =
     (if list_ex (\<lambda>p. column p = Some ip \<and> p_id p \<noteq> selfID) (peers d) then Inl ErrAddressInUse else Inr ())"

definition UpdatePeerAddress ::
    "int \<Rightarrow> string \<Rightarrow> string \<Rightarrow> store \<Rightarrow> store_error + store \<times> PeerInfo" where
  "UpdatePeerAddress i assignedIP assignedIP6 s =
     bindE (validateOverlayAddr ''assigned_ip'' assignedIP (network4 s) True) (\<lambda>addr4.
     bindE (if v6Enabled s then validateOverlayAddr ''assigned_ip6'' assignedIP6 (network6 s) True
            else if TrimSpace assignedIP6 \<noteq> []
            then Inl (ErrMsg ''assigned_ip6 cannot be set when IPv6 overlay is disabled'')
            else Inr AddrZero) (\<lambda>addr6.
       let d = st_db s; ip = addr_String addr4;
           nextIP6 = (if addr_IsValid addr6 then Some (addr_String addr6) else None)
       in bindE (ensurePeerAddressFree (\<lambda>p. Some (p_assigned_ip p)) i ip d) (\<lambda>_.
          bindE (if addr_IsValid addr6 then ensurePeerAddressFree p_assigned_ip6 i (addr_String addr6) d
                 else Inr ()) (\<lambda>_.
          bindE (write_peers (update_where (active_peer i)
                   (\<lambda>p. p\<lparr>p_assigned_ip := ip, p_assigned_ip6 := nextIP6\<rparr>) (peers d)) d) (\<lambda>d'.
          if rows_affected (active_peer i) (peers d) = 0 then Inl ErrNotFound
          else bindE (getPeerInfo i d') (\<lambda>peer. Inr (s\<lparr>st_db := d'\<rparr>, peer)))))))"

subsection \<open>Preservation\<close>

lemma revoke_simps [simp]:
  "same_identity p (p\<lparr>p_revoked_at := Some t\<rparr>)"
  by (simp add: same_identity_def)

lemma RevokePeer_inv:
  assumes "store_inv s" "RevokePeer now i s = Inr s'"
  shows "store_inv s'"
  using assms by (auto simp: RevokePeer_def Let_def bindE_eq_Inr intro: store_inv_update split: if_splits)

lemma RevokePeer_eq:
  assumes "store_inv s"
  shows "RevokePeer now i s =
    (if \<exists>p \<in> set (peers (st_db s)). active_peer i p
     then Inr (s\<lparr>st_db := (st_db s)\<lparr>peers := update_where (active_peer i)
       (\<lambda>p. p\<lparr>p_revoked_at := Some (format_time now)\<rparr>) (peers (st_db s))\<rparr>\<rparr>)
     else Inl ErrNotFound)"
proof -
  have "write_peers (update_where (active_peer i) (\<lambda>p. p\<lparr>p_revoked_at := Some (format_time now)\<rparr>)
      (peers (st_db s))) (st_db s) = Inr ((st_db s)\<lparr>peers := update_where (active_peer i)
       (\<lambda>p. p\<lparr>p_revoked_at := Some (format_time now)\<rparr>) (peers (st_db s))\<rparr>)"
    using store_invD(1) [OF assms] by (rule write_peers_update_ok) (simp_all add: peer_row_ok_def)
  then show ?thesis by (auto simp: RevokePeer_def Let_def rows_affected_zero_iff)
qed

lemma RevokeSetupKey_inv:
  assumes "store_inv s" "RevokeSetupKey now i s = Inr s'"
  shows "store_inv s'"
proof -
  let ?rows = "update_where (active_key i) (\<lambda>k. k\<lparr>sk_revoked_at := Some (format_time now)\<rparr>) (setup_keys (st_db s))"
  have s': "s' = s\<lparr>st_db := (st_db s)\<lparr>setup_keys := ?rows\<rparr>\<rparr>" and ok: "setup_keys_ok ?rows"
    using assms(2) by (auto simp: RevokeSetupKey_def Let_def go_simps split: if_splits)
  have ids: "map sk_id ?rows = map sk_id (setup_keys (st_db s))" by (rule map_update_where) simp
  have "uses_inv ?rows (peers (st_db s))"
    using assms(1) by (auto simp: store_inv_def db_inv_def uses_inv_def list_all_iff set_update_where)
  then show ?thesis
    using assms(1) ok unfolding s' by (simp add: store_inv_def db_inv_def ids refs_inv_def nets_ok_def)
qed

lemma detach_simps [simp]:
  "p_id (detach i p) = p_id p" "p_public_key (detach i p) = p_public_key p"
  "p_assigned_ip (detach i p) = p_assigned_ip p" "p_assigned_ip6 (detach i p) = p_assigned_ip6 p"
  "p_setup_key_id (detach i p) = p_setup_key_id p" "p_peer_type (detach i p) = p_peer_type p"
  "p_revoked_at (detach i p) = p_revoked_at p" "p_listen_port (detach i p) = p_listen_port p"
  "p_gateway_peer_id (detach i p) = unset_ref i (p_gateway_peer_id p)"
  "p_exit_node_peer_id (detach i p) = unset_ref i (p_exit_node_peer_id p)"
  by (simp_all add: detach_def)

lemma unset_ref_Some: "unset_ref i v = Some e \<longleftrightarrow> v = Some e \<and> e \<noteq> i"
  by (auto simp: unset_ref_def)

lemma unset_ref_ok: "ref_ok ids v \<Longrightarrow> set ids' = set ids - {i} \<Longrightarrow> ref_ok ids' (unset_ref i v)"
  by (auto simp: ref_ok_def unset_ref_def split: option.splits)

lemma cascade_peers_ok:
  assumes "peers_ok keys rows"
  shows "peers_ok keys (map (detach i) (delete_where (\<lambda>p. p_id p = i) rows))"
proof -
  let ?rows = "delete_where (\<lambda>p. p_id p = i) rows"
  have m: "map k (map (detach i) ?rows) = map k ?rows" if "\<And>p. k (detach i p) = k p" for k :: "peer \<Rightarrow> 'x"
    using that by simp
  have c: "col p_assigned_ip6 (map (detach i) ?rows) = col p_assigned_ip6 ?rows"
    by (rule col_cong) simp
  have ids: "set (map p_id ?rows) = set (map p_id rows) - {i}" by (auto simp: delete_where_def)
  have "list_all (peer_row_ok keys (map p_id ?rows)) (map (detach i) ?rows)"
    using assms unset_ref_ok [OF _ ids]
    by (auto simp: peers_ok_def list_all_iff peer_row_ok_def set_delete_where)
  then show ?thesis
    using assms unfolding peers_ok_def c m [of p_id, OF detach_simps(1)] m [of p_public_key, OF detach_simps(2)]
      m [of p_assigned_ip, OF detach_simps(3)]
    by (simp add: distinct_delete_where distinct_col_delete)
qed

lemma peers_of_key_cascade: "peers_of_key k (map (detach i) (delete_where P rows)) \<le> peers_of_key k rows"
  by (induction rows) (auto simp: peers_of_key_def delete_where_def)

lemma cascade_exit_ok:
  assumes "list_all (exit_ok rows) rows"
  shows "list_all (exit_ok (map (detach i) (delete_where P rows))) (map (detach i) (delete_where P rows))"
proof -
  have "exit_ok (map (detach i) (delete_where P rows)) (detach i p)" if "p \<in> set rows" for p
  proof -
    have ok: "exit_ok rows p" using assms that by (simp add: list_all_iff)
    show ?thesis
      unfolding exit_ok_iff
    proof (intro allI impI)
      fix e assume e: "p_exit_node_peer_id (detach i p) = Some e" "p_revoked_at (detach i p) = None"
      then have "e \<noteq> p_id p \<and> (\<forall>q \<in> set rows. p_id q = e \<longrightarrow> p_peer_type q = ''agent'' \<and> p_exit_node_peer_id q = None)"
        using ok unfolding exit_ok_iff by (simp add: unset_ref_Some)
      then show "e \<noteq> p_id (detach i p) \<and> (\<forall>q \<in> set (map (detach i) (delete_where P rows)).
          p_id q = e \<longrightarrow> p_peer_type q = ''agent'' \<and> p_exit_node_peer_id q = None)"
        by (simp add: set_delete_where unset_ref_def)
    qed
  qed
  then show ?thesis by (simp add: list_all_iff set_delete_where)
qed

lemma cascade_simps:
  "peers (cascade_peer i d) = map (detach i) (delete_where (\<lambda>p. p_id p = i) (peers d))"
  "setup_keys (cascade_peer i d) = setup_keys d" "users (cascade_peer i d) = users d"
  "acl_rules (cascade_peer i d) =
     delete_where (\<lambda>r. r_src_peer_id r = Some i \<or> r_dst_peer_id r = Some i) (acl_rules d)"
  "link_stats (cascade_peer i d) = delete_where (\<lambda>l. l_peer_id l = i \<or> l_remote_peer_id l = i) (link_stats d)"
  "flows (cascade_peer i d) = delete_where (\<lambda>f. f_peer_id f = i) (flows d)"
  "peer_paths (cascade_peer i d) = delete_where (\<lambda>x. pp_peer_id x = i \<or> pp_remote_peer_id x = i) (peer_paths d)"
  "connection_events (cascade_peer i d) =
     delete_where (\<lambda>c. c_reporter_peer_id c = i \<or> c_remote_peer_id c = i) (connection_events d)"
  "audit_log (cascade_peer i d) = map (\<lambda>a. a\<lparr>a_peer_id := unset_ref i (a_peer_id a)\<rparr>) (audit_log d)"
  "proxy_events (cascade_peer i d) = map (\<lambda>x. x\<lparr>x_peer_id := unset_ref i (x_peer_id x)\<rparr>) (proxy_events d)"
  by (simp_all add: cascade_peer_def)

lemma cascade_refs:
  assumes "refs_inv d"
  shows "refs_inv (cascade_peer i d)"
proof -
  define ids where "ids = map p_id (peers d)"
  define ids' where "ids' = map p_id (peers (cascade_peer i d))"
  have ids: "set ids' = set ids - {i}"
    by (auto simp: ids_def ids'_def cascade_simps delete_where_def)
  have r: "ref_ok ids v \<Longrightarrow> v \<noteq> Some i \<Longrightarrow> ref_ok ids' v" for v
    unfolding ref_ok_def ids by (auto split: option.splits)
  have u: "ref_ok ids v \<Longrightarrow> ref_ok ids' (unset_ref i v)" for v
    by (rule unset_ref_ok [OF _ ids])
  show ?thesis
    unfolding refs_inv_def Let_def ids'_def [symmetric] list_all_iff ids
  proof (intro conjI)
    show "\<forall>a \<in> set (acl_rules (cascade_peer i d)). acl_rule_ok ids' a"
      using assms r
      by (auto simp: refs_inv_def Let_def ids_def list_all_iff cascade_simps set_delete_where acl_rule_ok_def)
    show "rowids (map r_id (acl_rules (cascade_peer i d)))"
      using assms by (simp add: refs_inv_def Let_def cascade_simps rowids_delete)
  qed (use assms u in \<open>auto simp: refs_inv_def Let_def ids_def list_all_iff cascade_simps set_delete_where
        rowids_delete distinct_delete_where comp_def\<close>)
qed

lemma cascade_db_inv:
  assumes "db_inv d"
  shows "db_inv (cascade_peer i d)"
proof -
  let ?rows = "map (detach i) (delete_where (\<lambda>p. p_id p = i) (peers d))"
  have "uses_inv (setup_keys d) ?rows"
    unfolding uses_inv_def list_all_iff
  proof
    fix k assume "k \<in> set (setup_keys d)"
    then have "int (peers_of_key (sk_id k) (peers d)) \<le> sk_uses_consumed k"
      using assms by (auto simp: db_inv_def uses_inv_def list_all_iff)
    moreover have "int (peers_of_key (sk_id k) ?rows) \<le> int (peers_of_key (sk_id k) (peers d))"
      using peers_of_key_cascade by simp
    ultimately show "int (peers_of_key (sk_id k) ?rows) \<le> sk_uses_consumed k" by (rule order_trans [rotated])
  qed
  moreover have "list_all kind_ok ?rows"
    using assms by (auto simp: db_inv_def list_all_iff kind_ok_def set_delete_where unset_ref_def)
  moreover have "map p_id ?rows = map p_id (delete_where (\<lambda>p. p_id p = i) (peers d))" by simp
  ultimately show ?thesis
    using assms cascade_refs [of d i] cascade_peers_ok cascade_exit_ok rowids_delete [of p_id "peers d"]
    by (simp add: db_inv_def cascade_simps comp_def)
qed

lemma addrs_inv_cascade:
  assumes "addrs_inv n4 n6 rows"
  shows "addrs_inv n4 n6 (map (detach i) (delete_where P rows))"
  using assms by (auto simp: addrs_inv_def list_all_iff set_delete_where)

lemma RemovePeer_inv:
  assumes "store_inv s" "RemovePeer i s = Inr s'"
  shows "store_inv s'"
proof -
  have s': "s' = s\<lparr>st_db := cascade_peer i (st_db s)\<rparr>"
    using assms(2) by (auto simp: RemovePeer_def split: if_splits)
  have "peers (cascade_peer i (st_db s)) = map (detach i) (delete_where (\<lambda>p. p_id p = i) (peers (st_db s)))"
    by (simp add: cascade_peer_def)
  then show ?thesis
    using assms(1) cascade_db_inv addrs_inv_cascade unfolding s' by (simp add: store_inv_def nets_ok_def)
qed

subsection \<open>Address reassignment\<close>

lemma validateOverlayAddr_Inr:
  assumes "validateOverlayAddr field raw p True = Inr a"
  shows "Contains p a" "a \<noteq> prefix_Addr p" "addr_IsValid a" "host_text p (addr_String a)"
proof -
  show c: "Contains p a" "a \<noteq> prefix_Addr p"
    using assms by (auto simp: validateOverlayAddr_def Let_def split: if_splits option.splits)
  then show v: "addr_IsValid a" by (auto dest: Contains_valid)
  show "host_text p (addr_String a)"
    using c v by (simp add: host_text_def addr_text.parse_print)
qed

definition readdress :: "string \<Rightarrow> string option \<Rightarrow> peer \<Rightarrow> peer" where
  "readdress ip ip6 p = p\<lparr>p_assigned_ip := ip, p_assigned_ip6 := ip6\<rparr>"

lemma readdress_same_identity [simp]: "same_identity p (readdress ip ip6 p)"
  by (simp add: readdress_def same_identity_def)

lemma update_active_unique:
  assumes "distinct (map p_id rows)" "p \<in> set rows" "active_peer i p"
  shows "update_where (active_peer i) f rows = update_where (\<lambda>x. p_id x = p_id p) f rows"
proof -
  have "active_peer i x \<longleftrightarrow> p_id x = p_id p" if "x \<in> set rows" for x
    using distinct_map_eqD [OF assms(1) that assms(2)] assms(3) by (auto simp: active_peer_def)
  then show ?thesis by (auto simp: update_where_def)
qed

text \<open>Another row holds the address, or the IPv6 address.\<close>

definition address_taken :: "int \<Rightarrow> string \<Rightarrow> string option \<Rightarrow> peer list \<Rightarrow> bool" where
  "address_taken i ip ip6 rows \<longleftrightarrow>
     list_ex (\<lambda>q. p_id q \<noteq> i \<and> (p_assigned_ip q = ip \<or> ip6 \<noteq> None \<and> p_assigned_ip6 q = ip6)) rows"

lemma readdressed_peers_ok:
  assumes "db_inv d" "\<not> address_taken i ip ip6 (peers d)"
  shows "peers_ok (map sk_id (setup_keys d)) (update_where (active_peer i) (readdress ip ip6) (peers d))"
proof (cases "\<exists>p \<in> set (peers d). active_peer i p")
  case True
  then obtain p where p: "p \<in> set (peers d)" "active_peer i p" by auto
  have ok: "peers_ok (map sk_id (setup_keys d)) (peers d)" using assms(1) by (simp add: db_inv_def)
  have "distinct (map p_id (peers d))" using ok by (simp add: peers_ok_def)
  from update_active_unique [OF this p] have
    u: "update_where (active_peer i) (readdress ip ip6) (peers d) =
        update_where (\<lambda>x. p_id x = p_id p) (readdress ip ip6) (peers d)" .
  show ?thesis
    unfolding u
  proof (rule peers_ok_readdress [OF ok p(1)])
    fix x v assume x: "x \<in> set (peers d)" "p_id x \<noteq> p_id p"
    then show "p_assigned_ip x \<noteq> p_assigned_ip (readdress ip ip6 p)"
      using assms(2) p(2) by (auto simp: address_taken_def list_ex_iff active_peer_def readdress_def)
    assume "p_assigned_ip6 (readdress ip ip6 p) = Some v"
    then show "p_assigned_ip6 x \<noteq> Some v"
      using x assms(2) p(2) by (auto simp: address_taken_def list_ex_iff active_peer_def readdress_def)
  next
    show "peer_row_ok (map sk_id (setup_keys d)) (map p_id (peers d)) (readdress ip ip6 p)"
      using ok p(1) by (auto simp: peers_ok_def list_all_iff peer_row_ok_def readdress_def)
  qed (simp_all add: readdress_def)
next
  case False
  then have "rows_affected (active_peer i) (peers d) = 0" by (simp add: rows_affected_zero_iff)
  from update_where_none [OF this] show ?thesis using assms(1) by (simp add: db_inv_def)
qed

text \<open>The two addresses an operator asked for, validated against the networks.\<close>

definition requested :: "store \<Rightarrow> string \<Rightarrow> string \<Rightarrow> store_error + string \<times> string option" where
  "requested s raw4 raw6 =
     bindE (validateOverlayAddr ''assigned_ip'' raw4 (network4 s) True) (\<lambda>a4.
     if v6Enabled s
     then bindE (validateOverlayAddr ''assigned_ip6'' raw6 (network6 s) True) (\<lambda>a6.
            Inr (addr_String a4, Some (addr_String a6)))
     else if TrimSpace raw6 \<noteq> []
     then Inl (ErrMsg ''assigned_ip6 cannot be set when IPv6 overlay is disabled'')
     else Inr (addr_String a4, None))"

lemma UpdatePeerAddress_requested:
  "UpdatePeerAddress i raw4 raw6 s =
     bindE (requested s raw4 raw6) (\<lambda>(ip, ip6).
       if address_taken i ip ip6 (peers (st_db s)) then Inl ErrAddressInUse
       else bindE (write_peers (update_where (active_peer i) (readdress ip ip6) (peers (st_db s))) (st_db s)) (\<lambda>d'.
         if rows_affected (active_peer i) (peers (st_db s)) = 0 then Inl ErrNotFound
         else bindE (getPeerInfo i d') (\<lambda>peer. Inr (s\<lparr>st_db := d'\<rparr>, peer))))"
proof -
  have t: "address_taken i ip (Some ip6) rows \<longleftrightarrow>
      list_ex (\<lambda>p. Some (p_assigned_ip p) = Some ip \<and> p_id p \<noteq> i) rows \<or>
      list_ex (\<lambda>p. p_assigned_ip6 p = Some ip6 \<and> p_id p \<noteq> i) rows"
    "address_taken i ip None rows \<longleftrightarrow>
      list_ex (\<lambda>p. Some (p_assigned_ip p) = Some ip \<and> p_id p \<noteq> i) rows" for ip ip6 rows
    by (auto simp: address_taken_def list_ex_iff)
  have "addr_IsValid a6" if "validateOverlayAddr f raw6 p True = Inr a6" for a6 f p
    using that by (rule validateOverlayAddr_Inr)
  then show ?thesis
    by (auto simp: UpdatePeerAddress_def requested_def ensurePeerAddressFree_def bindE_def Let_def
        readdress_def [abs_def] t split: sum.split)
qed

lemma requested_hosts:
  assumes "requested s raw4 raw6 = Inr (ip, ip6)"
  shows "host_text (st_network s) ip" "case ip6 of None \<Rightarrow> True | Some t \<Rightarrow> host_text (Network6 s) t"
  using assms validateOverlayAddr_Inr(4)
  by (fastforce simp: requested_def network4_def network6_def bindE_eq_Inr split: if_splits)+

text \<open>
  Reassigning a peer's addresses. Once both addresses are validated against the overlay
  networks, the call fails with \<open>ErrAddressInUse\<close> exactly when another row, active or
  revoked, holds one of them, and with \<open>ErrNotFound\<close> exactly when there is no such
  active peer; otherwise it succeeds, changes the two address columns of that one row and
  reports the row as stored.
\<close>

theorem UpdatePeerAddress_spec:
  assumes "store_inv s" "requested s raw4 raw6 = Inr (ip, ip6)"
  shows "UpdatePeerAddress i raw4 raw6 s =
    (if address_taken i ip ip6 (peers (st_db s)) then Inl ErrAddressInUse
     else if \<not> list_ex (active_peer i) (peers (st_db s)) then Inl ErrNotFound
     else let d' = (st_db s)\<lparr>peers := update_where (active_peer i) (readdress ip ip6) (peers (st_db s))\<rparr>
          in bindE (getPeerInfo i d') (\<lambda>info. Inr (s\<lparr>st_db := d'\<rparr>, info)))"
proof -
  have "peers_ok (map sk_id (setup_keys (st_db s)))
      (update_where (active_peer i) (readdress ip ip6) (peers (st_db s)))"
    if "\<not> address_taken i ip ip6 (peers (st_db s))"
    using readdressed_peers_ok [OF store_invD(1) [OF assms(1)] that] .
  then show ?thesis
    unfolding UpdatePeerAddress_requested assms(2)
    by (auto simp: write_peers_def Let_def rows_affected_zero_iff list_ex_iff)
qed

theorem UpdatePeerAddress_spec_witness:
  "UpdatePeerAddress 1 '' 100.64.0.2 '' [] demo_store2 = Inl ErrAddressInUse"
proof -
  have r: "requested demo_store2 '' 100.64.0.2 '' [] = Inr (''100.64.0.2'', None)" by code_simp
  have t: "address_taken 1 ''100.64.0.2'' None (peers (st_db demo_store2))" by code_simp
  show ?thesis using UpdatePeerAddress_spec [OF demo_store2_inv r, of 1] t by simp
qed

lemma UpdatePeerAddress_inv:
  assumes "store_inv s" "UpdatePeerAddress i raw4 raw6 s = Inr (s', info)"
  shows "store_inv s'"
proof -
  from assms(2) obtain ip ip6 where r: "requested s raw4 raw6 = Inr (ip, ip6)"
    and ok: "peers_ok (map sk_id (setup_keys (st_db s))) (update_where (active_peer i) (readdress ip ip6) (peers (st_db s)))"
    and s': "s' = s\<lparr>st_db := (st_db s)\<lparr>peers := update_where (active_peer i) (readdress ip ip6) (peers (st_db s))\<rparr>\<rparr>"
    unfolding UpdatePeerAddress_requested by (auto simp: go_simps split: if_splits)
  have "addrs_inv (st_network s) (Network6 s) (update_where (active_peer i) (readdress ip ip6) (peers (st_db s)))"
    using assms(1) requested_hosts [OF r] by (intro addrs_inv_rewrite) (auto simp: store_inv_def readdress_def)
  then show ?thesis
    using assms(1) db_inv_rewrite [OF store_invD(1) [OF assms(1)] ok same_rows_update]
    unfolding s' by (simp add: store_inv_def nets_ok_def)
qed

subsection \<open>Revocation and removal\<close>

lemma RevokePeer_effect:
  assumes "store_inv s" "RevokePeer now i s = Inr s'"
  shows "i \<notin> ID ` set (listVisible (st_db s') self da)"
    and "map p_assigned_ip (peers (st_db s')) = map p_assigned_ip (peers (st_db s))"
    and "map p_assigned_ip6 (peers (st_db s')) = map p_assigned_ip6 (peers (st_db s))"
    and "RevokePeer later i s' = Inl ErrNotFound"
proof -
  let ?f = "\<lambda>p. p\<lparr>p_revoked_at := Some (format_time now)\<rparr>"
  have s': "peers (st_db s') = update_where (active_peer i) ?f (peers (st_db s))"
    using assms(2) unfolding RevokePeer_eq [OF assms(1)] by (auto split: if_splits)
  have rev: "p_revoked_at p \<noteq> None" if "p \<in> set (peers (st_db s'))" "p_id p = i" for p
  proof -
    from that(1) obtain q where q: "p = (if active_peer i q then ?f q else q)"
      unfolding s' update_where_def set_map by blast
    show ?thesis using that(2) unfolding q by (cases "active_peer i q") (auto simp: active_peer_def)
  qed
  show "i \<notin> ID ` set (listVisible (st_db s') self da)"
    using rev by (force simp: listVisible_mem visible_def)
  show "map p_assigned_ip (peers (st_db s')) = map p_assigned_ip (peers (st_db s))"
    "map p_assigned_ip6 (peers (st_db s')) = map p_assigned_ip6 (peers (st_db s))"
    unfolding s' by (rule map_update_where, simp)+
  show "RevokePeer later i s' = Inl ErrNotFound"
  proof -
    have "\<not> (\<exists>p \<in> set (peers (st_db s')). active_peer i p)" using rev by (auto simp: active_peer_def)
    then show ?thesis unfolding RevokePeer_eq [OF RevokePeer_inv [OF assms]] by simp
  qed
qed

text \<open>
  Revocation hides a peer and keeps its address. After a successful \<open>RevokePeer\<close>
  the peer is in nobody's peer list, under either policy, while every address column, and
  with it the reservation of the revoked peer's addresses, is unchanged. A second
  revocation fails with \<open>ErrNotFound\<close>.
\<close>

theorem RevokePeer_hides:
  assumes "store_inv s" "RevokePeer now i s = Inr s'"
  shows "i \<notin> ID ` set (listVisible (st_db s') self da) \<and>
    map p_assigned_ip (peers (st_db s')) = map p_assigned_ip (peers (st_db s)) \<and>
    map p_assigned_ip6 (peers (st_db s')) = map p_assigned_ip6 (peers (st_db s)) \<and>
    RevokePeer later i s' = Inl ErrNotFound"
  using RevokePeer_effect [OF assms] by blast

definition demo_revoked :: store where
  "demo_revoked = demo_store2\<lparr>st_db := (st_db demo_store2)\<lparr>peers := [demo_peer,
     demo_peer2\<lparr>p_revoked_at := Some ''1970-01-01T00:00:00.000Z''\<rparr>]\<rparr>\<rparr>"

lemma demo_revoke: "RevokePeer 0 2 demo_store2 = Inr demo_revoked"
  unfolding RevokePeer_eq [OF demo_store2_inv]
  by (simp add: demo_store2_def demo_store_def demo_revoked_def demo_peer_def demo_peer2_def active_peer_def
      update_where_def epoch_text)

lemma demo_revoked_inv: "store_inv demo_revoked"
  by (rule RevokePeer_inv [OF demo_store2_inv demo_revoke])

theorem RevokePeer_hides_witness:
  "2 \<notin> ID ` set (listVisible (st_db demo_revoked) 1 True) \<and> RevokePeer 5 2 demo_revoked = Inl ErrNotFound"
  using RevokePeer_hides [OF demo_store2_inv demo_revoke, of 1 True 5] by simp

lemma RemovePeer_effect:
  assumes "store_inv s"
  shows "(\<exists>s'. RemovePeer i s = Inr s') \<longleftrightarrow>
      list_ex (\<lambda>p. p_id p = i \<and> p_revoked_at p \<noteq> None) (peers (st_db s))"
    and "RemovePeer i s = Inr s' \<Longrightarrow>
      i \<notin> p_id ` set (peers (st_db s')) \<and> refs_inv (st_db s') \<and>
      (\<forall>p \<in> set (peers (st_db s')). p_gateway_peer_id p \<noteq> Some i \<and> p_exit_node_peer_id p \<noteq> Some i) \<and>
      map p_assigned_ip (peers (st_db s')) =
        map p_assigned_ip (filter (\<lambda>p. p_id p \<noteq> i) (peers (st_db s)))"
proof -
  show "(\<exists>s'. RemovePeer i s = Inr s') \<longleftrightarrow>
      list_ex (\<lambda>p. p_id p = i \<and> p_revoked_at p \<noteq> None) (peers (st_db s))"
    by (auto simp: RemovePeer_def rows_affected_zero_iff list_ex_iff)
  assume r: "RemovePeer i s = Inr s'"
  then have s': "st_db s' = cascade_peer i (st_db s)" by (auto simp: RemovePeer_def split: if_splits)
  have "refs_inv (st_db s')"
    using RemovePeer_inv [OF assms r] by (simp add: store_inv_def db_inv_def)
  then show "i \<notin> p_id ` set (peers (st_db s')) \<and> refs_inv (st_db s') \<and>
      (\<forall>p \<in> set (peers (st_db s')). p_gateway_peer_id p \<noteq> Some i \<and> p_exit_node_peer_id p \<noteq> Some i) \<and>
      map p_assigned_ip (peers (st_db s')) =
        map p_assigned_ip (filter (\<lambda>p. p_id p \<noteq> i) (peers (st_db s)))"
    unfolding s' cascade_simps delete_where_def by (auto simp: unset_ref_def image_iff comp_def)
qed

text \<open>
  Removal. \<open>RemovePeer\<close> succeeds exactly for a revoked peer. It deletes that row and
  everything that refers to it, so no rule, counter, flow, path or event mentions the id
  and no peer, audit row or proxy row points at it; the addresses of all other rows stay.
\<close>

theorem RemovePeer_spec:
  assumes "store_inv s"
  shows "((\<exists>s'. RemovePeer i s = Inr s') \<longleftrightarrow>
        list_ex (\<lambda>p. p_id p = i \<and> p_revoked_at p \<noteq> None) (peers (st_db s))) \<and>
    (\<forall>s'. RemovePeer i s = Inr s' \<longrightarrow>
      i \<notin> p_id ` set (peers (st_db s')) \<and> refs_inv (st_db s') \<and>
      (\<forall>p \<in> set (peers (st_db s')). p_gateway_peer_id p \<noteq> Some i \<and> p_exit_node_peer_id p \<noteq> Some i) \<and>
      map p_assigned_ip (peers (st_db s')) =
        map p_assigned_ip (filter (\<lambda>p. p_id p \<noteq> i) (peers (st_db s))))"
  using RemovePeer_effect [OF assms] by blast

theorem RemovePeer_spec_witness:
  "\<exists>s'. RemovePeer 2 demo_revoked = Inr s' \<and> 2 \<notin> p_id ` set (peers (st_db s'))"
proof -
  have "list_ex (\<lambda>p. p_id p = 2 \<and> p_revoked_at p \<noteq> None) (peers (st_db demo_revoked))"
    by (simp add: demo_revoked_def demo_store2_def demo_peer_def demo_peer2_def)
  then obtain s' where "RemovePeer 2 demo_revoked = Inr s'"
    using RemovePeer_spec [OF demo_revoked_inv, of 2] by blast
  with RemovePeer_spec [OF demo_revoked_inv, of 2] show ?thesis by blast
qed

end
