(* ===== verification/StaticPeers.thy ===== *)
theory StaticPeers
  imports PeerAdmin
begin

section \<open>Static peers\<close>

text \<open>
  static.go: registration of a device that runs no agent. It gets a setup key of its own,
  already exhausted, the lowest free addresses, and an active agent as its gateway.
\<close>

record StaticPeer =
  sp_PublicKey :: string
  sp_Hostname :: string
  sp_GatewayPeerID :: int
  sp_PrivateKeyEnc :: string
  sp_GatewayEndpoint :: string

definition randomStaticSetupKey :: "string \<Rightarrow> string" where
  "randomStaticSetupKey raw = ''static-'' @ RawURLEncode raw"

definition static_key :: "time \<Rightarrow> string \<Rightarrow> string \<Rightarrow> int \<Rightarrow> setup_key" where
  "static_key now key hostname i =
     \<lparr>sk_id = i, sk_key = key,
      sk_name = Some (if hostname \<noteq> [] then ''static peer: '' @ hostname else ''static peer''),
      sk_created_at = format_time now, sk_expires_at = None, sk_revoked_at = None,
      sk_max_uses = Some 1, sk_uses_consumed = 1\<rparr>"

definition static_row ::
    "time \<Rightarrow> StaticPeer \<Rightarrow> int \<Rightarrow> int \<Rightarrow> string \<Rightarrow> string \<Rightarrow> string \<Rightarrow> peer" where
  "static_row now spec peerID keyID ip ip6 tokenHash =
     \<lparr>p_id = peerID, p_public_key = TrimSpace (sp_PublicKey spec), p_assigned_ip = ip,
      p_assigned_ip6 = nullable ip6, p_hostname = nullable (TrimSpace (sp_Hostname spec)),
      p_listen_port = None, p_last_seen_at = None, p_created_at = format_time now, p_revoked_at = None,
      p_setup_key_id = keyID, p_auth_token_hash = Some tokenHash,
      p_auth_token_issued_at = Some (format_time now), p_observed_ip = None, p_public_endpoint = None,
      p_peer_type = ''static'', p_gateway_peer_id = Some (sp_GatewayPeerID spec),
      p_private_key_enc = nullable (sp_PrivateKeyEnc spec),
      p_gateway_endpoint = nullable (sp_GatewayEndpoint spec), p_candidates = None, p_nat_type = None,
      p_advertise_exit_node = False, p_exit_node_peer_id = None, p_agent_version = None\<rparr>"

definition check_gateway :: "int \<Rightarrow> db \<Rightarrow> store_error + unit" where
  "check_gateway g d =
     (case peer_by_id g d of
        None \<Rightarrow> Inl (ErrMsg ''gateway peer not found'')
      | Some p \<Rightarrow>
          if p_revoked_at p \<noteq> None then Inl (ErrMsg ''gateway peer is revoked'')
          else if p_peer_type p \<noteq> ''agent'' then Inl (ErrMsg ''gateway peer must be a wgmesh agent'')
          else Inr ())"

definition CreateStaticPeer ::
    "(string \<Rightarrow> string) \<Rightarrow> time \<Rightarrow> string \<Rightarrow> string \<Rightarrow> StaticPeer \<Rightarrow> store \<Rightarrow> store_error + store \<times> PeerInfo" where
  "CreateStaticPeer sha256 now rawKey rawToken spec s =
     (let publicKey = TrimSpace (sp_PublicKey spec); hostname = TrimSpace (sp_Hostname spec); d = st_db s
      in if publicKey = [] then Inl (ErrMsg ''public_key is required'')
         else if sp_GatewayPeerID spec \<le> 0 then Inl (ErrMsg ''gateway_peer_id is required'')
         else bindE (check_gateway (sp_GatewayPeerID spec) d) (\<lambda>_.
           if list_ex (\<lambda>p. p_public_key p = publicKey) (peers d) then Inl ErrPeerExists
           else
             let keyID = next_rowid (map sk_id (setup_keys d))
             in bindE (write_setup_keys
                  (setup_keys d @ [static_key now (randomStaticSetupKey rawKey) hostname keyID]) d) (\<lambda>d1.
                bindE (allocateIP s d1) (\<lambda>ip.
                bindE (if v6Enabled s then allocateIP6 s d1 else Inr []) (\<lambda>ip6.
                  let (token, tokenHash) = newAuthToken sha256 rawToken;
                      peerID = next_rowid (map p_id (peers d1))
                  in bindE (write_peers (peers d1 @ [static_row now spec peerID keyID ip ip6 tokenHash]) d1) (\<lambda>d2.
                     bindE (getPeerInfo peerID d2) (\<lambda>info. Inr (s\<lparr>st_db := d2\<rparr>, info))))))))"

definition SealedPrivateKey :: "int \<Rightarrow> store \<Rightarrow> store_error + string" where
  "SealedPrivateKey peerID s =
     (case List.find (\<lambda>p. p_id p = peerID \<and> p_peer_type p = ''static'') (peers (st_db s)) of
        None \<Rightarrow> Inl ErrNoStoredConfig
      | Some p \<Rightarrow> (case p_private_key_enc p of
                     None \<Rightarrow> Inl ErrNoStoredConfig
                   | Some k \<Rightarrow> if k = [] then Inl ErrNoStoredConfig else Inr k))"

subsection \<open>Correctness\<close>

lemma static_row_simps [simp]:
  "p_id (static_row now spec i k ip ip6 h) = i"
  "p_public_key (static_row now spec i k ip ip6 h) = TrimSpace (sp_PublicKey spec)"
  "p_assigned_ip (static_row now spec i k ip ip6 h) = ip"
  "p_assigned_ip6 (static_row now spec i k ip ip6 h) = nullable ip6"
  "p_setup_key_id (static_row now spec i k ip ip6 h) = k"
  "p_exit_node_peer_id (static_row now spec i k ip ip6 h) = None"
  "p_gateway_peer_id (static_row now spec i k ip ip6 h) = Some (sp_GatewayPeerID spec)"
  "p_peer_type (static_row now spec i k ip ip6 h) = ''static''"
  "p_listen_port (static_row now spec i k ip ip6 h) = None"
  "p_revoked_at (static_row now spec i k ip ip6 h) = None"
  by (simp_all add: static_row_def)

lemma check_gateway_Inr:
  assumes "db_inv d"
  shows "check_gateway g d = Inr () \<longleftrightarrow>
    (\<exists>p \<in> set (peers d). p_id p = g \<and> p_revoked_at p = None \<and> p_peer_type p = ''agent'')"
proof -
  have dist: "distinct (map p_id (peers d))" using assms by (simp add: db_inv_def rowids_distinct)
  show ?thesis
  proof (cases "peer_by_id g d")
    case None
    then show ?thesis using peer_by_id_None [of g d] by (auto simp: check_gateway_def)
  next
    case (Some a)
    then have a: "a \<in> set (peers d)" "p_id a = g" unfolding peer_by_id_Some [OF dist] by auto
    have "p = a" if "p \<in> set (peers d)" "p_id p = g" for p
      by (rule distinct_map_eqD [OF dist that(1) a(1)]) (simp add: that a)
    then have "(\<exists>p \<in> set (peers d). p_id p = g \<and> p_revoked_at p = None \<and> p_peer_type p = ''agent'') \<longleftrightarrow>
        p_revoked_at a = None \<and> p_peer_type a = ''agent''"
      using a by metis
    with Some show ?thesis by (simp add: check_gateway_def)
  qed
qed

lemma static_peers_ok:
  assumes "peers_ok keys rows" "keyID \<in> set keys" "TrimSpace (sp_PublicKey spec) \<notin> p_public_key ` set rows"
    and "ip \<notin> set (map p_assigned_ip rows)" "ip6 = [] \<or> ip6 \<notin> set (col p_assigned_ip6 rows)"
    and "sp_GatewayPeerID spec \<in> set (map p_id rows)"
  shows "peers_ok keys (rows @ [static_row now spec (next_rowid (map p_id rows)) keyID ip ip6 h])"
proof (rule peers_ok_append [OF assms(1)])
  show "p_id (static_row now spec (next_rowid (map p_id rows)) keyID ip ip6 h) \<notin> p_id ` set rows"
    using next_rowid_fresh [of "map p_id rows"] by simp
  show "p_assigned_ip6 q \<noteq> Some v"
    if "p_assigned_ip6 (static_row now spec (next_rowid (map p_id rows)) keyID ip ip6 h) = Some v" "q \<in> set rows" for v q
    using assms(5) that by (auto simp: nullable_Some set_col)
  show "peer_row_ok keys (map p_id rows) (static_row now spec (next_rowid (map p_id rows)) keyID ip ip6 h)"
    using assms(2,6) by (simp add: peer_row_ok_def port_ok_def ref_ok_def)
qed (use assms(3,4) in auto)

lemma static_keys_ok:
  assumes "setup_keys_ok keys" "key \<notin> sk_key ` set keys"
  shows "setup_keys_ok (keys @ [static_key now key h (next_rowid (map sk_id keys))])"
  using assms next_rowid_fresh [of "map sk_id keys"]
  by (auto simp: setup_keys_ok_def static_key_def uses_ok_def)

lemma peers_of_fresh_key:
  assumes "peers_ok keys rows" "i \<notin> set keys"
  shows "peers_of_key i rows = 0"
proof -
  have "p_setup_key_id p \<in> set keys" if "p \<in> set rows" for p
    using assms(1) that by (simp add: peers_ok_def list_all_iff peer_row_ok_def)
  with assms(2) show ?thesis by (force simp: peers_of_key_def filter_empty_conv)
qed

text \<open>Appending an unused key keeps the invariant.\<close>

lemma db_inv_add_key:
  assumes "db_inv d" "setup_keys_ok (setup_keys d @ [k])" "sk_id k = next_rowid (map sk_id (setup_keys d))"
  shows "db_inv (d\<lparr>setup_keys := setup_keys d @ [k]\<rparr>)"
proof -
  have fresh: "sk_id k \<notin> set (map sk_id (setup_keys d))" unfolding assms(3) by (rule next_rowid_fresh)
  then have "peers_of_key (sk_id k) (peers d) = 0"
    using assms(1) by (intro peers_of_fresh_key) (auto simp: db_inv_def)
  moreover have "0 \<le> sk_uses_consumed k" using assms(2) by (auto simp: setup_keys_ok_def uses_ok_def)
  ultimately have "uses_inv (setup_keys d @ [k]) (peers d)"
    using assms(1) by (auto simp: db_inv_def uses_inv_def)
  moreover have "peers_ok (map sk_id (setup_keys d @ [k])) (peers d)"
    using assms(1) by (auto simp: db_inv_def peers_ok_def list_all_iff peer_row_ok_def)
  moreover have "rowids (map sk_id (setup_keys d @ [k]))"
    using assms(1,3) rowids_snoc by (auto simp: db_inv_def)
  ultimately show ?thesis using assms(1,2) by (auto simp: db_inv_def refs_inv_def)
qed

lemma CreateNamedSetupKey_inv:
  assumes "store_inv s" "CreateNamedSetupKey now raw name maxUses expiresIn s = Inr (s', key)"
  shows "store_inv s'"
  using assms db_inv_add_key [of "st_db s"]
  by (auto simp: CreateNamedSetupKey_def Let_def go_simps store_inv_def nets_ok_def)

text \<open>The database after a static peer is created.\<close>

definition with_static ::
    "(string \<Rightarrow> string) \<Rightarrow> time \<Rightarrow> string \<Rightarrow> string \<Rightarrow> StaticPeer \<Rightarrow> db \<Rightarrow> string \<Rightarrow> string \<Rightarrow> db" where
  "with_static sha256 now rawKey rawToken spec d ip ip6 =
     (let keyID = next_rowid (map sk_id (setup_keys d))
      in d\<lparr>setup_keys := setup_keys d @ [static_key now (randomStaticSetupKey rawKey) (TrimSpace (sp_Hostname spec)) keyID],
           peers := peers d @ [static_row now spec (next_rowid (map p_id (peers d))) keyID ip ip6
             (HashToken sha256 (RawURLEncode rawToken))]\<rparr>)"

lemma CreateStaticPeer_Inr:
  assumes "CreateStaticPeer sha256 now rawKey rawToken spec s = Inr (s', info)"
  obtains ip ip6 where
    "check_gateway (sp_GatewayPeerID spec) (st_db s) = Inr ()"
    "setup_keys_ok (setup_keys (st_db s) @ [static_key now (randomStaticSetupKey rawKey)
       (TrimSpace (sp_Hostname spec)) (next_rowid (map sk_id (setup_keys (st_db s))))])"
    "allocateIP s (st_db s) = Inr ip" "(if v6Enabled s then allocateIP6 s (st_db s) else Inr []) = Inr ip6"
    "peers_ok (map sk_id (setup_keys (with_static sha256 now rawKey rawToken spec (st_db s) ip ip6)))
       (peers (with_static sha256 now rawKey rawToken spec (st_db s) ip ip6))"
    "s' = s\<lparr>st_db := with_static sha256 now rawKey rawToken spec (st_db s) ip ip6\<rparr>"
  using assms that
  by (auto simp: CreateStaticPeer_def Let_def go_simps with_static_def allocateIP_def allocateIP6_def newAuthToken_def
      split: if_splits)

lemma CreateStaticPeer_inv:
  assumes "store_inv s" "CreateStaticPeer sha256 now rawKey rawToken spec s = Inr (s', info)"
  shows "store_inv s'"
proof -
  note inv = store_invD [OF assms(1)]
  from assms(2) obtain ip ip6 where
    keys: "setup_keys_ok (setup_keys (st_db s) @ [static_key now (randomStaticSetupKey rawKey)
       (TrimSpace (sp_Hostname spec)) (next_rowid (map sk_id (setup_keys (st_db s))))])"
    and ip: "allocateIP s (st_db s) = Inr ip"
    and ip6: "(if v6Enabled s then allocateIP6 s (st_db s) else Inr []) = Inr ip6"
    and ok: "peers_ok (map sk_id (setup_keys (with_static sha256 now rawKey rawToken spec (st_db s) ip ip6)))
       (peers (with_static sha256 now rawKey rawToken spec (st_db s) ip ip6))"
    and s': "s' = s\<lparr>st_db := with_static sha256 now rawKey rawToken spec (st_db s) ip ip6\<rparr>"
    by (rule CreateStaticPeer_Inr)
  define d k where "d = st_db s" and "k = static_key now (randomStaticSetupKey rawKey)
       (TrimSpace (sp_Hostname spec)) (next_rowid (map sk_id (setup_keys d)))"
  let ?d1 = "d\<lparr>setup_keys := setup_keys d @ [k]\<rparr>"
  define row where "row = static_row now spec (next_rowid (map p_id (peers d))) (sk_id k) ip ip6
    (HashToken sha256 (RawURLEncode rawToken))"
  have w: "with_static sha256 now rawKey rawToken spec (st_db s) ip ip6 = ?d1\<lparr>peers := peers ?d1 @ [row]\<rparr>"
    by (simp add: with_static_def Let_def d_def k_def row_def static_key_def)
  have d1: "db_inv ?d1"
    using keys inv(1) by (intro db_inv_add_key) (simp_all add: k_def d_def static_key_def)
  have none: "peers_of_key (sk_id k) (peers d) = 0"
    using inv(7) next_rowid_fresh [of "map sk_id (setup_keys d)"]
    by (intro peers_of_fresh_key [of "map sk_id (setup_keys (st_db s))"]) (simp_all add: d_def k_def static_key_def)
  have "db_inv (?d1\<lparr>peers := peers ?d1 @ [row]\<rparr>)"
  proof (rule db_inv_append [OF d1])
    show "uses_inv (setup_keys ?d1) (peers ?d1 @ [row])"
    proof -
      have "sk_id x \<noteq> sk_id k" if "x \<in> set (setup_keys d)" for x
        using that next_rowid_fresh [of "map sk_id (setup_keys d)"] by (auto simp: k_def static_key_def image_iff)
      moreover have "sk_uses_consumed k = 1" by (simp add: k_def static_key_def)
      moreover have "int (peers_of_key (sk_id x) (peers d)) \<le> sk_uses_consumed x" if "x \<in> set (setup_keys d)" for x
        using that d1 by (auto simp: db_inv_def uses_inv_def list_all_iff)
      ultimately show ?thesis
        using none by (fastforce simp: uses_inv_def list_all_iff peers_of_key_append row_def)
    qed
    show "peers_ok (map sk_id (setup_keys ?d1)) (peers ?d1 @ [row])" using ok unfolding w by simp
  qed (simp_all add: row_def d_def kind_ok_def)
  moreover have "host_text (st_network s) ip"
    using allocateAddr_host [OF inv(2,3)] ip by (simp add: allocateIP_def network4_def)
  moreover have "ip6 \<noteq> [] \<Longrightarrow> host_text (Network6 s) ip6"
    using allocateAddr_host [OF inv(5,4)] ip6 by (simp add: allocateIP6_def network6_def split: if_splits)
  ultimately show ?thesis
    using assms(1) unfolding s' w
    by (auto simp: store_inv_def d_def row_def nets_ok_def addrs_inv_def nullable_Some split: option.split)
qed

lemma getPeerInfo_appended:
  assumes "distinct (map p_id (rows @ [p]))" "peers d = rows @ [p]"
  shows "getPeerInfo (p_id p) d =
    Inr ((scan_info p)\<lparr>pi_AdvertiseExitNode := False, pi_ExitNodePeerID := 0, pi_AgentVersion := []\<rparr>)"
  using peer_by_id_Some [of d "p_id p" p] assms by (simp add: getPeerInfo_def)

lemma CreateStaticPeer_effect:
  assumes "store_inv s" "TrimSpace (sp_PublicKey spec) \<noteq> []"
    and "g \<in> set (peers (st_db s))" "p_id g = sp_GatewayPeerID spec" "p_revoked_at g = None" "p_peer_type g = ''agent''"
    and "randomStaticSetupKey rawKey \<notin> sk_key ` set (setup_keys (st_db s))"
    and "least_free (st_network s) (map p_assigned_ip (peers (st_db s))) i"
    and "ip = addr_String (nth_host (st_network s) i)"
    and "if v6Enabled s
         then least_free (Network6 s) (col p_assigned_ip6 (peers (st_db s))) j \<and>
              ip6 = addr_String (nth_host (Network6 s) j)
         else ip6 = []"
  shows "CreateStaticPeer sha256 now rawKey rawToken spec s =
    (if TrimSpace (sp_PublicKey spec) \<in> p_public_key ` set (peers (st_db s)) then Inl ErrPeerExists
     else let d' = with_static sha256 now rawKey rawToken spec (st_db s) ip ip6
          in bindE (getPeerInfo (next_rowid (map p_id (peers (st_db s)))) d') (\<lambda>info. Inr (s\<lparr>st_db := d'\<rparr>, info)))"
    and "\<not> key_usable t (static_key now (randomStaticSetupKey rawKey) (TrimSpace (sp_Hostname spec)) n)"
proof -
  show "\<not> key_usable t (static_key now (randomStaticSetupKey rawKey) (TrimSpace (sp_Hostname spec)) n)"
    by (simp add: key_usable_def static_key_def)
  note inv = store_invD [OF assms(1)]
  let ?d = "st_db s"
  let ?keys = "setup_keys ?d @ [static_key now (randomStaticSetupKey rawKey) (TrimSpace (sp_Hostname spec))
    (next_rowid (map sk_id (setup_keys ?d)))]"
  have gw: "check_gateway (sp_GatewayPeerID spec) ?d = Inr ()"
    unfolding check_gateway_Inr [OF inv(1)] using assms(3-6) by blast
  have pos: "\<not> sp_GatewayPeerID spec \<le> 0"
    using inv(1) assms(3,4) by (auto simp: db_inv_def rowids_def list_all_iff)
  have ip: "allocateIP s (?d\<lparr>setup_keys := k\<rparr>) = Inr ip"
    "(if v6Enabled s then allocateIP6 s (?d\<lparr>setup_keys := k\<rparr>) else Inr []) = Inr ip6" for k
    using allocateAddr_iff [OF inv(2,3)] allocateAddr_iff [OF inv(5,4)] assms(8-10)
    by (auto simp: allocateIP_def allocateIP6_def network4_def network6_def)
  have keys: "setup_keys_ok ?keys" by (rule static_keys_ok [OF inv(6) assms(7)])
  have ok: "peers_ok (map sk_id ?keys) (peers ?d @ [static_row now spec (next_rowid (map p_id (peers ?d)))
      (next_rowid (map sk_id (setup_keys ?d))) ip ip6 (HashToken sha256 (RawURLEncode rawToken))])"
    if "TrimSpace (sp_PublicKey spec) \<notin> p_public_key ` set (peers ?d)"
  proof (rule static_peers_ok [OF _ _ that])
    show "peers_ok (map sk_id ?keys) (peers ?d)"
      using inv(7) by (auto simp: peers_ok_def list_all_iff peer_row_ok_def)
    show "ip \<notin> set (map p_assigned_ip (peers ?d))" "ip6 = [] \<or> ip6 \<notin> set (col p_assigned_ip6 (peers ?d))"
      using assms(8-10) by (auto simp: least_free_def split: if_splits)
    show "sp_GatewayPeerID spec \<in> set (map p_id (peers ?d))"
      using assms(3) unfolding assms(4) [symmetric] by simp
  qed (simp add: static_key_def)
  show "CreateStaticPeer sha256 now rawKey rawToken spec s =
    (if TrimSpace (sp_PublicKey spec) \<in> p_public_key ` set (peers ?d) then Inl ErrPeerExists
     else let d' = with_static sha256 now rawKey rawToken spec ?d ip ip6
          in bindE (getPeerInfo (next_rowid (map p_id (peers ?d))) d') (\<lambda>info. Inr (s\<lparr>st_db := d'\<rparr>, info)))"
  proof (cases "TrimSpace (sp_PublicKey spec) \<in> p_public_key ` set (peers ?d)")
    case True
    then show ?thesis using assms(2) pos gw by (auto simp: CreateStaticPeer_def Let_def list_ex_iff)
  next
    case False
    then have no: "\<not> list_ex (\<lambda>p. p_public_key p = TrimSpace (sp_PublicKey spec)) (peers ?d)"
      by (auto simp: list_ex_iff image_iff)
    show ?thesis
      using assms(2) pos gw no False keys ok [OF False] ip
      by (simp add: CreateStaticPeer_def Let_def write_setup_keys_def newAuthToken_def write_peers_def with_static_def)
  qed
qed

text \<open>
  Creating a static peer. For a new key and a gateway that is an active agent the call
  succeeds whenever the networks have a free host: one exhausted setup key and one row of
  type static are appended, the row routed through that gateway and holding the lowest free
  addresses; a registered public key is refused with \<open>ErrPeerExists\<close>. The setup key
  recorded for the device cannot enroll anything, at any time.
\<close>

theorem CreateStaticPeer_spec:
  assumes "store_inv s" "TrimSpace (sp_PublicKey spec) \<noteq> []"
    and "g \<in> set (peers (st_db s))" "p_id g = sp_GatewayPeerID spec" "p_revoked_at g = None" "p_peer_type g = ''agent''"
    and "randomStaticSetupKey rawKey \<notin> sk_key ` set (setup_keys (st_db s))"
    and "least_free (st_network s) (map p_assigned_ip (peers (st_db s))) i"
    and "ip = addr_String (nth_host (st_network s) i)"
    and "if v6Enabled s
         then least_free (Network6 s) (col p_assigned_ip6 (peers (st_db s))) j \<and>
              ip6 = addr_String (nth_host (Network6 s) j)
         else ip6 = []"
  shows "CreateStaticPeer sha256 now rawKey rawToken spec s =
    (if TrimSpace (sp_PublicKey spec) \<in> p_public_key ` set (peers (st_db s)) then Inl ErrPeerExists
     else let d' = with_static sha256 now rawKey rawToken spec (st_db s) ip ip6
          in bindE (getPeerInfo (next_rowid (map p_id (peers (st_db s)))) d') (\<lambda>info. Inr (s\<lparr>st_db := d'\<rparr>, info))) \<and>
    \<not> key_usable t (static_key now (randomStaticSetupKey rawKey) (TrimSpace (sp_Hostname spec)) n)"
  by (rule conjI [OF CreateStaticPeer_effect [OF assms]])

theorem CreateStaticPeer_spec_witness:
  "\<exists>s' info. CreateStaticPeer (\<lambda>x. x) 0 ''r'' ''t''
     \<lparr>sp_PublicKey = '' phone '', sp_Hostname = [], sp_GatewayPeerID = 1, sp_PrivateKeyEnc = [], sp_GatewayEndpoint = []\<rparr>
     demo_store = Inr (s', info)"
proof -
  let ?spec = "\<lparr>sp_PublicKey = '' phone '', sp_Hostname = [], sp_GatewayPeerID = 1, sp_PrivateKeyEnc = [],
    sp_GatewayEndpoint = []\<rparr>"
  have t: "TrimSpace (sp_PublicKey ?spec) = ''phone''" by code_simp
  have k: "randomStaticSetupKey ''r'' \<notin> sk_key ` set (setup_keys (st_db demo_store))"
    by (simp add: randomStaticSetupKey_def demo_store_def demo_key_def)
  have f: "least_free (st_network demo_store) (map p_assigned_ip (peers (st_db demo_store))) 2" by code_simp
  let ?ip = "addr_String (nth_host (st_network demo_store) 2)"
  let ?d = "with_static (\<lambda>x. x) 0 ''r'' ''t'' ?spec (st_db demo_store) ?ip []"
  have "CreateStaticPeer (\<lambda>x. x) 0 ''r'' ''t'' ?spec demo_store =
    (if TrimSpace (sp_PublicKey ?spec) \<in> p_public_key ` set (peers (st_db demo_store)) then Inl ErrPeerExists
     else let d' = ?d in bindE (getPeerInfo (next_rowid (map p_id (peers (st_db demo_store)))) d')
       (\<lambda>info. Inr (demo_store\<lparr>st_db := d'\<rparr>, info)))"
    by (rule CreateStaticPeer_spec [OF demo_store_inv, where g = demo_peer and i = 2 and j = 0, THEN conjunct1])
      (use t k f in \<open>simp_all add: demo_store_def demo_peer_def v6Enabled_def network6_def\<close>)
  moreover have "TrimSpace (sp_PublicKey ?spec) \<notin> p_public_key ` set (peers (st_db demo_store))"
    unfolding t by (simp add: demo_store_def demo_peer_def)
  moreover have n: "next_rowid (map p_id (peers (st_db demo_store))) = 2"
    by (simp add: demo_store_def demo_peer_def next_rowid_def)
  moreover have "\<exists>info. getPeerInfo 2 ?d = Inr info"
    by (simp add: getPeerInfo_def peer_by_id_def with_static_def n Let_def demo_store_def demo_peer_def next_rowid_def)
  ultimately show ?thesis by (auto simp: Let_def)
qed

end
