(* ===== verification/ExitNode.thy ===== *)
theory ExitNode
  imports PeerAdmin
begin

section \<open>Exit nodes\<close>

text \<open>
  exit.go: an agent's offer to be an exit node and the operator's assignment of one. The
  assignment's guards keep the exit graph of active peers free of chains, part of the store
  invariant (\<open>exit_ok\<close>).
\<close>

definition SetAdvertiseExitNode :: "int \<Rightarrow> bool \<Rightarrow> store \<Rightarrow> store_error + store" where
  "SetAdvertiseExitNode peerID advertise s =
     bindE (write_peers (update_where (\<lambda>p. p_id p = peerID)
              (\<lambda>p. p\<lparr>p_advertise_exit_node := advertise\<rparr>) (peers (st_db s))) (st_db s))
       (\<lambda>d. Inr (s\<lparr>st_db := d\<rparr>))"

record ExitAssignment =
  PeerPublicKey :: string
  PeerHostname :: string
  ExitPublicKey :: string
  ExitHostname :: string

definition check_exit_client :: "int \<Rightarrow> db \<Rightarrow> store_error + peer" where
  "check_exit_client peerID d =
     (case peer_by_id peerID d of
        None \<Rightarrow> Inl (ErrInvalid ''peer not found'')
      | Some p \<Rightarrow>
          if p_revoked_at p \<noteq> None then Inl (ErrInvalid ''peer is revoked'')
          else if p_peer_type p \<noteq> ''agent'' then Inl (ErrInvalid ''only agent peers can use an exit node'')
          else Inr p)"

definition exit_clients :: "int \<Rightarrow> db \<Rightarrow> nat" where
  "exit_clients peerID d =
     length (filter (\<lambda>p. p_exit_node_peer_id p = Some peerID \<and> p_revoked_at p = None) (peers d))"

definition check_exit_node :: "int \<Rightarrow> int \<Rightarrow> db \<Rightarrow> store_error + peer" where
  "check_exit_node peerID exitPeerID d =
     (case peer_by_id exitPeerID d of
        None \<Rightarrow> Inl (ErrInvalid ''exit node peer not found'')
      | Some e \<Rightarrow>
          if p_revoked_at e \<noteq> None then Inl (ErrInvalid ''exit node peer is revoked'')
          else if p_peer_type e \<noteq> ''agent'' then Inl (ErrInvalid ''exit node must be an agent peer'')
          else if \<not> p_advertise_exit_node e
          then Inl (ErrInvalid ''peer does not advertise itself as an exit node'')
          else if coalesce (p_exit_node_peer_id e) 0 \<noteq> 0
          then Inl (ErrInvalid ''peer routes through an exit node itself'')
          else if 0 < exit_clients peerID d
          then Inl (ErrInvalid ''peer is an exit node and cannot chain through another'')
          else Inr e)"

definition SetExitNode :: "int \<Rightarrow> int \<Rightarrow> store \<Rightarrow> store_error + store \<times> ExitAssignment" where
  "SetExitNode peerID exitPeerID s =
     (let d = st_db s
      in if peerID = exitPeerID \<and> exitPeerID \<noteq> 0
         then Inl (ErrInvalid ''a peer cannot be its own exit node'')
         else bindE (check_exit_client peerID d) (\<lambda>p.
              bindE (if exitPeerID \<noteq> 0
                     then bindE (check_exit_node peerID exitPeerID d) (\<lambda>e.
                            Inr (p_public_key e, coalesce (p_hostname e) []))
                     else Inr ([], [])) (\<lambda>(exitKey, exitHost).
              bindE (write_peers (update_where (\<lambda>x. p_id x = peerID)
                       (\<lambda>x. x\<lparr>p_exit_node_peer_id := (if exitPeerID = 0 then None else Some exitPeerID)\<rparr>)
                       (peers d)) d) (\<lambda>d'.
                Inr (s\<lparr>st_db := d'\<rparr>,
                     \<lparr>PeerPublicKey = p_public_key p, PeerHostname = coalesce (p_hostname p) [],
                      ExitPublicKey = exitKey, ExitHostname = exitHost\<rparr>)))))"

subsection \<open>Preservation\<close>

lemma SetAdvertiseExitNode_inv:
  assumes "store_inv s" "SetAdvertiseExitNode i b s = Inr s'"
  shows "store_inv s'"
  using assms
  by (auto simp: SetAdvertiseExitNode_def bindE_eq_Inr same_identity_def intro: store_inv_update)

lemma exit_clients_zero:
  "exit_clients i d = 0 \<longleftrightarrow> (\<forall>p \<in> set (peers d). p_exit_node_peer_id p = Some i \<longrightarrow> p_revoked_at p \<noteq> None)"
  by (auto simp: exit_clients_def filter_empty_conv)

lemma check_exit_client_Inr:
  assumes "db_inv d"
  shows "check_exit_client i d = Inr p \<longleftrightarrow>
    p \<in> set (peers d) \<and> p_id p = i \<and> p_revoked_at p = None \<and> p_peer_type p = ''agent''"
proof -
  have dist: "distinct (map p_id (peers d))" using assms by (simp add: db_inv_def rowids_distinct)
  show ?thesis
    unfolding check_exit_client_def using peer_by_id_Some [OF dist, of i p]
    by (auto split: option.splits if_splits)
qed

lemma check_exit_node_Inr:
  assumes "db_inv d"
  shows "check_exit_node i j d = Inr e \<longleftrightarrow>
    e \<in> set (peers d) \<and> p_id e = j \<and> p_revoked_at e = None \<and> p_peer_type e = ''agent'' \<and>
    p_advertise_exit_node e \<and> p_exit_node_peer_id e = None \<and> exit_clients i d = 0"
proof -
  have dist: "distinct (map p_id (peers d))" using assms by (simp add: db_inv_def rowids_distinct)
  have ref: "coalesce (p_exit_node_peer_id e) 0 = 0 \<longleftrightarrow> p_exit_node_peer_id e = None" if "e \<in> set (peers d)"
  proof (cases "p_exit_node_peer_id e")
    case (Some x)
    then have "x \<in> set (map p_id (peers d))"
      using assms that by (auto simp: db_inv_def peers_ok_def list_all_iff peer_row_ok_def ref_ok_def)
    then have "0 < x" using assms by (auto simp: db_inv_def rowids_def list_all_iff)
    with Some show ?thesis by simp
  qed simp
  show ?thesis
    unfolding check_exit_node_def using peer_by_id_Some [OF dist, of j e] ref
    by (auto split: option.splits if_splits)
qed

text \<open>
  Changing the exit node of one agent: the row keeps everything else, and the new target
  is an agent without an exit node while nobody active exits through the changed peer.
\<close>

lemma exit_ok_assign:
  assumes "db_inv d" "p \<in> set (peers d)" "p_revoked_at p = None" "p_peer_type p = ''agent''"
    and "v = None \<or> (\<exists>e. v = Some (p_id e) \<and> check_exit_node (p_id p) (p_id e) d = Inr e \<and> p_id e \<noteq> p_id p)"
  defines "rows' \<equiv> update_where (\<lambda>x. p_id x = p_id p) (\<lambda>x. x\<lparr>p_exit_node_peer_id := v\<rparr>) (peers d)"
  shows "list_all (exit_ok rows') rows'"
proof -
  have dist: "distinct (map p_id (peers d))" using assms(1) by (simp add: db_inv_def rowids_distinct)
  have mem: "q \<in> set rows' \<Longrightarrow> \<exists>q0 \<in> set (peers d). p_id q = p_id q0 \<and> p_peer_type q = p_peer_type q0 \<and>
      p_revoked_at q = p_revoked_at q0 \<and>
      p_exit_node_peer_id q = (if p_id q0 = p_id p then v else p_exit_node_peer_id q0)" for q
    by (auto simp: rows'_def update_where_def)
  have "exit_ok rows' q" if qmem: "q \<in> set rows'" for q
    unfolding exit_ok_iff
  proof (intro allI impI)
    fix e assume e: "p_exit_node_peer_id q = Some e" "p_revoked_at q = None"
    obtain q0 where q0: "q0 \<in> set (peers d)" "p_id q = p_id q0" "p_revoked_at q = p_revoked_at q0"
        "p_exit_node_peer_id q = (if p_id q0 = p_id p then v else p_exit_node_peer_id q0)"
      using mem [OF qmem] by auto
    have *: "e \<noteq> p_id q \<and> (\<forall>r0 \<in> set (peers d). p_id r0 = e \<longrightarrow>
        p_peer_type r0 = ''agent'' \<and> p_exit_node_peer_id r0 = None) \<and> (e = p_id p \<longrightarrow> v = None)"
    proof (cases "p_id q0 = p_id p")
      case True
      with e q0 assms(5) obtain x where x: "e = p_id x" "check_exit_node (p_id p) (p_id x) d = Inr x" "p_id x \<noteq> p_id p"
        by auto
      then have xx: "x \<in> set (peers d)" "p_peer_type x = ''agent''" "p_exit_node_peer_id x = None"
        unfolding check_exit_node_Inr [OF assms(1)] by auto
      have "r0 = x" if "r0 \<in> set (peers d)" "p_id r0 = e" for r0
        using distinct_map_eqD [OF dist that(1) xx(1)] that(2) x(1) by simp
      then show ?thesis using x xx True q0(2) by auto
    next
      case False
      then have q0e: "p_exit_node_peer_id q0 = Some e" "p_revoked_at q0 = None" using e q0 by auto
      have "exit_ok (peers d) q0" using assms(1) q0(1) by (auto simp: db_inv_def list_all_iff)
      moreover have "v = None" if "e = p_id p"
      proof (rule ccontr)
        assume "v \<noteq> None"
        then have "exit_clients (p_id p) d = 0"
          using assms(5) unfolding check_exit_node_Inr [OF assms(1)] by auto
        with q0e q0(1) that show False unfolding exit_clients_zero by auto
      qed
      ultimately show ?thesis using q0e q0(2) unfolding exit_ok_iff by auto
    qed
    show "e \<noteq> p_id q \<and> (\<forall>r \<in> set rows'. p_id r = e \<longrightarrow> p_peer_type r = ''agent'' \<and> p_exit_node_peer_id r = None)"
    proof (intro conjI ballI impI)
      show "e \<noteq> p_id q" using * by simp
      fix r assume r: "r \<in> set rows'" "p_id r = e"
      obtain r0 where r0: "r0 \<in> set (peers d)" "p_id r = p_id r0" "p_peer_type r = p_peer_type r0"
          "p_exit_node_peer_id r = (if p_id r0 = p_id p then v else p_exit_node_peer_id r0)"
        using mem [OF r(1)] by auto
      with * r(2) show "p_peer_type r = ''agent''" "p_exit_node_peer_id r = None" by auto
    qed
  qed
  then show ?thesis by (simp add: list_all_iff)
qed

lemma SetExitNode_Inr:
  assumes "store_inv s" "SetExitNode i j s = Inr (s', out)"
  obtains p v where "p \<in> set (peers (st_db s))" "p_id p = i" "p_revoked_at p = None" "p_peer_type p = ''agent''"
    "v = (if j = 0 then None else Some j)"
    "v = None \<or> (\<exists>e. v = Some (p_id e) \<and> check_exit_node (p_id p) (p_id e) (st_db s) = Inr e \<and> p_id e \<noteq> p_id p)"
    "peers_ok (map sk_id (setup_keys (st_db s)))
       (update_where (\<lambda>x. p_id x = p_id p) (\<lambda>x. x\<lparr>p_exit_node_peer_id := v\<rparr>) (peers (st_db s)))"
    "s' = s\<lparr>st_db := (st_db s)\<lparr>peers :=
       update_where (\<lambda>x. p_id x = p_id p) (\<lambda>x. x\<lparr>p_exit_node_peer_id := v\<rparr>) (peers (st_db s))\<rparr>\<rparr>"
proof -
  note inv = store_invD(1) [OF assms(1)]
  from assms(2) obtain p x where nself: "\<not> (i = j \<and> j \<noteq> 0)" and p: "check_exit_client i (st_db s) = Inr p"
    and e: "(if j \<noteq> 0 then bindE (check_exit_node i j (st_db s)) (\<lambda>e. Inr (p_public_key e, coalesce (p_hostname e) []))
             else Inr ([], [])) = Inr x"
    and w: "peers_ok (map sk_id (setup_keys (st_db s))) (update_where (\<lambda>x. p_id x = i)
        (\<lambda>x. x\<lparr>p_exit_node_peer_id := (if j = 0 then None else Some j)\<rparr>) (peers (st_db s)))"
    and s': "s' = s\<lparr>st_db := (st_db s)\<lparr>peers := update_where (\<lambda>x. p_id x = i)
        (\<lambda>x. x\<lparr>p_exit_node_peer_id := (if j = 0 then None else Some j)\<rparr>) (peers (st_db s))\<rparr>\<rparr>"
    by (auto simp: SetExitNode_def Let_def go_simps split: if_splits)
  from p have pp: "p \<in> set (peers (st_db s))" "p_id p = i" "p_revoked_at p = None" "p_peer_type p = ''agent''"
    unfolding check_exit_client_Inr [OF inv] by auto
  have "\<exists>e. Some j = Some (p_id e) \<and> check_exit_node (p_id p) (p_id e) (st_db s) = Inr e \<and> p_id e \<noteq> p_id p" if "j \<noteq> 0"
  proof -
    from that e obtain e where "check_exit_node i j (st_db s) = Inr e" by (auto simp: bindE_eq_Inr)
    moreover then have "p_id e = j" unfolding check_exit_node_Inr [OF inv] by simp
    ultimately show ?thesis using nself that pp(2) by auto
  qed
  with that [OF pp refl] w s' pp(2) show thesis by (cases "j = 0") auto
qed

lemma SetExitNode_inv:
  assumes "store_inv s" "SetExitNode i j s = Inr (s', out)"
  shows "store_inv s'"
proof -
  note inv = store_invD(1) [OF assms(1)]
  obtain p v where
    p: "p \<in> set (peers (st_db s))" and "p_id p = i" and p': "p_revoked_at p = None" "p_peer_type p = ''agent''"
    and "v = (if j = 0 then None else Some j)"
    and v: "v = None \<or> (\<exists>e. v = Some (p_id e) \<and> check_exit_node (p_id p) (p_id e) (st_db s) = Inr e \<and> p_id e \<noteq> p_id p)"
    and ok: "peers_ok (map sk_id (setup_keys (st_db s)))
       (update_where (\<lambda>x. p_id x = p_id p) (\<lambda>x. x\<lparr>p_exit_node_peer_id := v\<rparr>) (peers (st_db s)))"
    and s': "s' = s\<lparr>st_db := (st_db s)\<lparr>peers :=
       update_where (\<lambda>x. p_id x = p_id p) (\<lambda>x. x\<lparr>p_exit_node_peer_id := v\<rparr>) (peers (st_db s))\<rparr>\<rparr>"
    by (rule SetExitNode_Inr [OF assms])
  let ?f = "\<lambda>x. x\<lparr>p_exit_node_peer_id := v\<rparr>"
  let ?rows = "update_where (\<lambda>x. p_id x = p_id p) ?f (peers (st_db s))"
  have ids: "map p_id ?rows = map p_id (peers (st_db s))" by (rule map_update_where) simp
  have cnt: "peers_of_key k ?rows = peers_of_key k (peers (st_db s))" for k
  proof -
    have "map p_setup_key_id ?rows = map p_setup_key_id (peers (st_db s))" by (rule map_update_where) simp
    moreover have "peers_of_key k rows = length (filter (\<lambda>x. x = k) (map p_setup_key_id rows))" for rows
      by (induction rows) (auto simp: peers_of_key_def)
    ultimately show ?thesis by (simp only:)
  qed
  have dist: "distinct (map p_id (peers (st_db s)))" using inv by (simp add: db_inv_def rowids_distinct)
  have "kind_ok (?f x)" if "x \<in> set (peers (st_db s))" "p_id x = p_id p" for x
    using distinct_map_eqD [OF dist that(1) p] that(2) p p'(2) inv by (auto simp: db_inv_def list_all_iff kind_ok_def)
  then have "list_all kind_ok ?rows"
    using inv by (auto simp: db_inv_def list_all_iff set_update_where)
  moreover have "list_all (exit_ok ?rows) ?rows" using inv p p' v by (rule exit_ok_assign)
  moreover have "uses_inv (setup_keys (st_db s)) ?rows" using inv by (simp add: db_inv_def uses_inv_def cnt)
  moreover have "refs_inv ((st_db s)\<lparr>peers := ?rows\<rparr>)"
    using inv ids by (intro refs_inv_peers) (auto simp: db_inv_def)
  ultimately have "db_inv ((st_db s)\<lparr>peers := ?rows\<rparr>)" using inv ok ids by (simp add: db_inv_def)
  moreover have "addrs_inv (st_network s) (Network6 s) ?rows"
    using assms(1) by (intro addrs_inv_rewrite) (auto simp: store_inv_def addrs_inv_def list_all_iff)
  ultimately show ?thesis using assms(1) unfolding s' by (simp add: store_inv_def nets_ok_def)
qed

subsection \<open>Properties\<close>

definition agent_active :: "int \<Rightarrow> peer \<Rightarrow> bool" where
  "agent_active i p \<longleftrightarrow> p_id p = i \<and> p_revoked_at p = None \<and> p_peer_type p = ''agent''"

lemma SetExitNode_effect:
  assumes "store_inv s"
  shows "(\<exists>r. SetExitNode i j s = Inr r) \<longleftrightarrow>
      list_ex (agent_active i) (peers (st_db s)) \<and>
      (j = 0 \<or> i \<noteq> j \<and>
        list_ex (\<lambda>e. agent_active j e \<and> p_advertise_exit_node e \<and> p_exit_node_peer_id e = None) (peers (st_db s)) \<and>
        \<not> list_ex (\<lambda>p. p_exit_node_peer_id p = Some i \<and> p_revoked_at p = None) (peers (st_db s)))"
    (is "?ok \<longleftrightarrow> ?guards")
    and "SetExitNode i j s = Inr (s', out) \<Longrightarrow>
      s' = s\<lparr>st_db := (st_db s)\<lparr>peers := update_where (\<lambda>x. p_id x = i)
        (\<lambda>x. x\<lparr>p_exit_node_peer_id := (if j = 0 then None else Some j)\<rparr>) (peers (st_db s))\<rparr>\<rparr> \<and>
      (\<forall>p \<in> set (peers (st_db s')). \<forall>e \<in> set (peers (st_db s')).
        p_revoked_at p = None \<and> p_exit_node_peer_id p = Some (p_id e) \<longrightarrow>
        p_id e \<noteq> p_id p \<and> p_exit_node_peer_id e = None)"
proof -
  note inv = store_invD(1) [OF assms]
  let ?d = "st_db s"
  have client: "(\<exists>p. check_exit_client i ?d = Inr p) \<longleftrightarrow> list_ex (agent_active i) (peers ?d)"
    unfolding check_exit_client_Inr [OF inv] by (auto simp: list_ex_iff agent_active_def)
  have exit: "(\<exists>e. check_exit_node i j ?d = Inr e) \<longleftrightarrow>
      list_ex (\<lambda>e. agent_active j e \<and> p_advertise_exit_node e \<and> p_exit_node_peer_id e = None) (peers ?d) \<and>
      \<not> list_ex (\<lambda>p. p_exit_node_peer_id p = Some i \<and> p_revoked_at p = None) (peers ?d)"
    unfolding check_exit_node_Inr [OF inv] exit_clients_zero by (auto simp: list_ex_iff agent_active_def)
  have w: "write_peers (update_where (\<lambda>x. p_id x = i) (\<lambda>x. x\<lparr>p_exit_node_peer_id := v\<rparr>) (peers ?d)) ?d =
      Inr (?d\<lparr>peers := update_where (\<lambda>x. p_id x = i) (\<lambda>x. x\<lparr>p_exit_node_peer_id := v\<rparr>) (peers ?d)\<rparr>)"
    if "ref_ok (map p_id (peers ?d)) v" for v
  proof -
    have "peers_ok (map sk_id (setup_keys ?d)) (update_where (\<lambda>x. p_id x = i) (\<lambda>x. x\<lparr>p_exit_node_peer_id := v\<rparr>) (peers ?d))"
      using store_invD(7) [OF assms] that by (intro peers_ok_update) (auto simp: peer_row_ok_def)
    then show ?thesis by (simp add: write_peers_def)
  qed
  show "?ok \<longleftrightarrow> ?guards"
  proof
    assume ?ok
    then obtain s' out where r: "SetExitNode i j s = Inr (s', out)" by (cases) auto
    then have "(\<exists>p. check_exit_client i ?d = Inr p) \<and> (j = 0 \<or> i \<noteq> j \<and> (\<exists>e. check_exit_node i j ?d = Inr e))"
      by (auto simp: SetExitNode_def Let_def go_simps split: if_splits)
    then show ?guards unfolding client exit .
  next
    assume ?guards
    then have g: "\<exists>p. check_exit_client i ?d = Inr p" "j = 0 \<or> i \<noteq> j \<and> (\<exists>e. check_exit_node i j ?d = Inr e)"
      unfolding client exit by auto
    then obtain p where p: "check_exit_client i ?d = Inr p" by auto
    show ?ok
    proof (cases "j = 0")
      case True
      then show ?thesis using p w [of None] by (simp add: SetExitNode_def Let_def ref_ok_def)
    next
      case False
      with g(2) obtain e where e: "i \<noteq> j" "check_exit_node i j ?d = Inr e" by auto
      then have "j \<in> set (map p_id (peers ?d))" unfolding check_exit_node_Inr [OF inv] by auto
      then show ?thesis using False p e w [of "Some j"] by (simp add: SetExitNode_def Let_def ref_ok_def)
    qed
  qed
  assume r: "SetExitNode i j s = Inr (s', out)"
  have s': "s' = s\<lparr>st_db := ?d\<lparr>peers := update_where (\<lambda>x. p_id x = i)
      (\<lambda>x. x\<lparr>p_exit_node_peer_id := (if j = 0 then None else Some j)\<rparr>) (peers ?d)\<rparr>\<rparr>"
    using r by (auto simp: SetExitNode_def Let_def go_simps split: if_splits)
  have "list_all (exit_ok (peers (st_db s'))) (peers (st_db s'))"
    using SetExitNode_inv [OF assms r] by (simp add: store_inv_def db_inv_def)
  then have chain: "\<forall>p \<in> set (peers (st_db s')). \<forall>e \<in> set (peers (st_db s')).
      p_revoked_at p = None \<and> p_exit_node_peer_id p = Some (p_id e) \<longrightarrow> p_id e \<noteq> p_id p \<and> p_exit_node_peer_id e = None"
    unfolding list_all_iff exit_ok_iff by blast
  show "s' = s\<lparr>st_db := ?d\<lparr>peers := update_where (\<lambda>x. p_id x = i)
        (\<lambda>x. x\<lparr>p_exit_node_peer_id := (if j = 0 then None else Some j)\<rparr>) (peers ?d)\<rparr>\<rparr> \<and>
      (\<forall>p \<in> set (peers (st_db s')). \<forall>e \<in> set (peers (st_db s')).
        p_revoked_at p = None \<and> p_exit_node_peer_id p = Some (p_id e) \<longrightarrow>
        p_id e \<noteq> p_id p \<and> p_exit_node_peer_id e = None)"
    by (rule conjI [OF s' chain])
qed

text \<open>
  Assigning an exit node. The call succeeds exactly when the peer is an active agent
  and either the assignment is being cleared, or the exit is another active agent that
  advertises itself and has no exit node, and no active peer exits through the peer. A
  successful call changes that one column of that one row. Afterwards, as before, no active
  peer's exit node is itself or has an exit node: exits never chain.
\<close>

theorem SetExitNode_spec:
  assumes "store_inv s"
  shows "((\<exists>r. SetExitNode i j s = Inr r) \<longleftrightarrow>
      list_ex (agent_active i) (peers (st_db s)) \<and>
      (j = 0 \<or> i \<noteq> j \<and>
        list_ex (\<lambda>e. agent_active j e \<and> p_advertise_exit_node e \<and> p_exit_node_peer_id e = None) (peers (st_db s)) \<and>
        \<not> list_ex (\<lambda>p. p_exit_node_peer_id p = Some i \<and> p_revoked_at p = None) (peers (st_db s)))) \<and>
    (\<forall>s' out. SetExitNode i j s = Inr (s', out) \<longrightarrow>
      s' = s\<lparr>st_db := (st_db s)\<lparr>peers := update_where (\<lambda>x. p_id x = i)
        (\<lambda>x. x\<lparr>p_exit_node_peer_id := (if j = 0 then None else Some j)\<rparr>) (peers (st_db s))\<rparr>\<rparr> \<and>
      (\<forall>p \<in> set (peers (st_db s')). \<forall>e \<in> set (peers (st_db s')).
        p_revoked_at p = None \<and> p_exit_node_peer_id p = Some (p_id e) \<longrightarrow>
        p_id e \<noteq> p_id p \<and> p_exit_node_peer_id e = None))"
  by (intro conjI allI impI SetExitNode_effect(1) [OF assms]) (blast dest: SetExitNode_effect(2) [OF assms])+

definition demo_exit :: store where
  "demo_exit = demo_store2\<lparr>st_db := (st_db demo_store2)\<lparr>peers :=
     [demo_peer, demo_peer2\<lparr>p_advertise_exit_node := True\<rparr>]\<rparr>\<rparr>"

lemma demo_exit_inv: "store_inv demo_exit"
  by code_simp

theorem SetExitNode_spec_witness:
  "(\<exists>r. SetExitNode 1 2 demo_exit = Inr r) \<and> \<not> (\<exists>r. SetExitNode 2 1 demo_exit = Inr r)"
  using SetExitNode_spec [OF demo_exit_inv, of 1 2] SetExitNode_spec [OF demo_exit_inv, of 2 1]
  by (simp add: demo_exit_def demo_store2_def demo_store_def demo_peer_def demo_peer2_def agent_active_def)

end
