(* ===== verification/NetworkMigration.thy ===== *)
theory NetworkMigration
  imports PeerAdmin
begin

section \<open>Network configuration and migration\<close>

text \<open>
  network.go: the overlay networks kept in the settings table and the migration of every
  peer, revoked ones included, to new networks: peers in id order get the first hosts of the
  targets. The rows are rewritten in two passes, first to placeholder texts, so that no
  intermediate row can collide with another under the UNIQUE constraints; that the passes
  never fail is proved by \<open>readdress_loop\<close>, used for both.
\<close>

record NetworkConfig =
  NetworkCIDR :: string
  NetworkCIDR6 :: string

record NetworkPeerChange =
  ch_ID :: int
  ch_Hostname :: string
  ch_RevokedAt :: string
  ch_OldIP :: string
  ch_NewIP :: string
  ch_OldIP6 :: string
  ch_NewIP6 :: string

record NetworkMigrationPlan =
  pl_Current :: NetworkConfig
  pl_Target :: NetworkConfig
  pl_Changes :: "NetworkPeerChange list"

abbreviation settingNetworkCIDR :: string where "settingNetworkCIDR \<equiv> ''network_cidr''"
abbreviation settingNetworkCIDR6 :: string where "settingNetworkCIDR6 \<equiv> ''network_cidr6''"

subsection \<open>Settings\<close>

definition upsertSetting :: "string \<Rightarrow> string \<Rightarrow> db \<Rightarrow> db" where
  "upsertSetting k v d = d\<lparr>settings := (settings d)(k \<mapsto> v)\<rparr>"

definition loadNetworkConfig :: "db \<Rightarrow> NetworkConfig" where
  "loadNetworkConfig d = \<lparr>NetworkCIDR = coalesce (settings d settingNetworkCIDR) [],
     NetworkCIDR6 = coalesce (settings d settingNetworkCIDR6) []\<rparr>"

definition parseNetworkConfig :: "string \<Rightarrow> string \<Rightarrow> store_error + prefix \<times> prefix" where
  "parseNetworkConfig raw4 raw6 =
     (case ParsePrefix raw4 of
        None \<Rightarrow> Inl (ErrMsg ''parse network_cidr'')
      | Some n4 \<Rightarrow>
          if \<not> Is4 (prefix_Addr n4) then Inl (ErrMsg ''network_cidr must be IPv4'')
          else case ParsePrefix raw6 of
                 None \<Rightarrow> Inl (ErrMsg ''parse network_cidr6'')
               | Some n6 \<Rightarrow>
                   if \<not> Is6 (prefix_Addr n6) then Inl (ErrMsg ''network_cidr6 must be IPv6'')
                   else Inr (Masked n4, Masked n6))"

definition LoadOrInitNetworkConfig ::
    "prefix \<Rightarrow> prefix \<Rightarrow> store \<Rightarrow> store_error + store \<times> NetworkConfig" where
  "LoadOrInitNetworkConfig default4 default6 s =
     (let cfg = loadNetworkConfig (st_db s); d = st_db s;
          (c4, d) = (if NetworkCIDR cfg = []
                     then let c = prefix_String (Masked default4) in (c, upsertSetting settingNetworkCIDR c d)
                     else (NetworkCIDR cfg, d));
          (c6, d) = (if NetworkCIDR6 cfg = []
                     then let c = prefix_String (Masked default6) in (c, upsertSetting settingNetworkCIDR6 c d)
                     else (NetworkCIDR6 cfg, d))
      in bindE (parseNetworkConfig c4 c6) (\<lambda>(n4, n6).
           Inr (setNetworks n4 n6 (s\<lparr>st_db := d\<rparr>),
                \<lparr>NetworkCIDR = prefix_String n4, NetworkCIDR6 = prefix_String n6\<rparr>)))"

definition CurrentNetworkConfig :: "store \<Rightarrow> NetworkConfig" where
  "CurrentNetworkConfig s =
     \<lparr>NetworkCIDR = prefix_String (network4 s), NetworkCIDR6 = prefix_String (network6 s)\<rparr>"

subsection \<open>The plan\<close>

definition listNetworkPeers :: "db \<Rightarrow> NetworkPeerChange list" where
  "listNetworkPeers d =
     map (\<lambda>p. \<lparr>ch_ID = p_id p, ch_Hostname = coalesce (p_hostname p) [],
                ch_RevokedAt = coalesce (p_revoked_at p) [], ch_OldIP = p_assigned_ip p, ch_NewIP = [],
                ch_OldIP6 = coalesce (p_assigned_ip6 p) [], ch_NewIP6 = []\<rparr>)
       (sort_key p_id (peers d))"

definition buildNetworkMigrationPlan ::
    "db \<Rightarrow> prefix \<Rightarrow> prefix \<Rightarrow> prefix \<Rightarrow> prefix \<Rightarrow> store_error + NetworkMigrationPlan" where
  "buildNetworkMigrationPlan d current4 current6 target4 target6 =
     (let ps = listNetworkPeers d
      in bindE (firstOverlayHosts target4 (length ps)) (\<lambda>v4.
         bindE (firstOverlayHosts target6 (length ps)) (\<lambda>v6.
           Inr \<lparr>pl_Current = \<lparr>NetworkCIDR = prefix_String current4, NetworkCIDR6 = prefix_String current6\<rparr>,
                pl_Target = \<lparr>NetworkCIDR = prefix_String target4, NetworkCIDR6 = prefix_String target6\<rparr>,
                pl_Changes = map (\<lambda>i. (ps ! i)\<lparr>ch_NewIP := v4 ! i, ch_NewIP6 := v6 ! i\<rparr>) [0..<length ps]\<rparr>)))"

definition PreviewNetworkMigration :: "prefix \<Rightarrow> prefix \<Rightarrow> store \<Rightarrow> store_error + NetworkMigrationPlan" where
  "PreviewNetworkMigration target4 target6 s =
     buildNetworkMigrationPlan (st_db s) (network4 s) (network6 s) (Masked target4) (Masked target6)"

subsection \<open>Applying it\<close>

definition set_addresses :: "int \<Rightarrow> string \<Rightarrow> string \<Rightarrow> db \<Rightarrow> store_error + db" where
  "set_addresses i ip ip6 d =
     write_peers (update_where (\<lambda>p. p_id p = i) (readdress ip (Some ip6)) (peers d)) d"

definition stage_change :: "NetworkPeerChange \<Rightarrow> db \<Rightarrow> store_error + db" where
  "stage_change c = set_addresses (ch_ID c) (''__migrating4_'' @ Itoa (ch_ID c)) (''__migrating6_'' @ Itoa (ch_ID c))"

definition apply_change :: "NetworkPeerChange \<Rightarrow> db \<Rightarrow> store_error + db" where
  "apply_change c = set_addresses (ch_ID c) (ch_NewIP c) (ch_NewIP6 c)"

definition ApplyNetworkMigration ::
    "prefix \<Rightarrow> prefix \<Rightarrow> store \<Rightarrow> store_error + store \<times> NetworkMigrationPlan" where
  "ApplyNetworkMigration target4 target6 s =
     (let target4 = Masked target4; target6 = Masked target6
      in bindE (buildNetworkMigrationPlan (st_db s) (network4 s) (network6 s) target4 target6) (\<lambda>plan.
         bindE (foldE stage_change (pl_Changes plan) (st_db s)) (\<lambda>d.
         bindE (foldE apply_change (pl_Changes plan) d) (\<lambda>d.
           let d = upsertSetting settingNetworkCIDR (prefix_String target4) d;
               d = upsertSetting settingNetworkCIDR6 (prefix_String target6) d
           in Inr (setNetworks target4 target6 (s\<lparr>st_db := d\<rparr>), plan)))))"

subsection \<open>Rewriting all rows one by one\<close>

definition readdressed :: "peer \<times> string \<times> string \<Rightarrow> peer" where
  "readdressed x = (case x of (p, ip, ip6) \<Rightarrow> readdress ip (Some ip6) p)"

lemma readdressed_simps [simp]:
  "p_id (readdressed x) = p_id (fst x)" "p_public_key (readdressed x) = p_public_key (fst x)"
  "p_assigned_ip (readdressed x) = fst (snd x)" "p_assigned_ip6 (readdressed x) = Some (snd (snd x))"
  "p_setup_key_id (readdressed x) = p_setup_key_id (fst x)" "p_peer_type (readdressed x) = p_peer_type (fst x)"
  "same_identity (fst x) (readdressed x)"
  by (auto simp: readdressed_def readdress_def same_identity_def split: prod.split)

text \<open>The new addresses are pairwise different and different from every present one.\<close>

definition compatible :: "(peer \<times> string \<times> string) list \<Rightarrow> bool" where
  "compatible xs \<longleftrightarrow> distinct (map (\<lambda>x. fst (snd x)) xs) \<and> distinct (map (\<lambda>x. snd (snd x)) xs) \<and>
     (\<forall>x \<in> set xs. \<forall>y \<in> set xs. fst (snd x) \<noteq> p_assigned_ip (fst y) \<and> p_assigned_ip6 (fst y) \<noteq> Some (snd (snd x)))"

lemma mixed_ok:
  assumes "peers_ok keys (map fst (xs @ ys))" "compatible (xs @ ys)"
  shows "peers_ok keys (map readdressed xs @ map fst ys)"
proof -
  have ids: "map p_id (map readdressed xs @ map fst ys) = map p_id (map fst (xs @ ys))"
    by (simp add: comp_def)
  have pk: "map p_public_key (map readdressed xs @ map fst ys) = map p_public_key (map fst (xs @ ys))"
    by (simp add: comp_def)
  have ip: "distinct (map p_assigned_ip (map readdressed xs @ map fst ys))"
    using assms by (auto simp: peers_ok_def compatible_def comp_def)
  have "col p_assigned_ip6 (map readdressed xs) = map (\<lambda>x. snd (snd x)) xs"
    by (induction xs) (auto simp: col_Cons)
  moreover have "snd (snd x) \<notin> set (col p_assigned_ip6 (map fst ys))" if "x \<in> set xs" for x
    using assms(2) that by (fastforce simp: compatible_def set_col)
  ultimately have "distinct (col p_assigned_ip6 (map readdressed xs @ map fst ys))"
    using assms by (auto simp: peers_ok_def compatible_def)
  moreover have row: "peer_row_ok keys ids (fst x) \<Longrightarrow> peer_row_ok keys ids (readdressed x)" for ids x
    by (auto simp: peer_row_ok_def readdressed_def readdress_def split: prod.split)
  have "list_all (peer_row_ok keys (map p_id (map fst (xs @ ys)))) (map readdressed xs @ map fst ys)"
  proof -
    have "list_all (peer_row_ok keys (map p_id (map fst (xs @ ys)))) (map fst (xs @ ys))"
      using assms(1) by (simp add: peers_ok_def)
    then show ?thesis using row by (simp add: list_all_iff ball_Un)
  qed
  ultimately show ?thesis using assms(1) ip unfolding peers_ok_def ids pk by blast
qed

lemma readdress_loop:
  assumes "peers_ok (map sk_id (setup_keys d)) (map fst (xs @ ys))" "compatible (xs @ ys)"
    and "peers d = map readdressed xs @ map fst ys"
  shows "foldE (\<lambda>(p, ip, ip6). set_addresses (p_id p) ip ip6) ys d =
    Inr (d\<lparr>peers := map readdressed (xs @ ys)\<rparr>)"
  using assms
proof (induction ys arbitrary: xs d)
  case Nil
  then show ?case by simp
next
  case (Cons y ys)
  obtain p ip ip6 where y: "y = (p, ip, ip6)" by (cases y)
  have dist: "distinct (map p_id (peers d))"
    using Cons.prems(1) unfolding Cons.prems(3) by (simp add: peers_ok_def comp_def)
  have no: "\<forall>x \<in> set (map readdressed xs @ map fst ys). p_id x \<noteq> p_id p"
    using dist unfolding Cons.prems(3) y by (auto simp: image_iff)
  have u: "update_where (\<lambda>x. p_id x = p_id p) (readdress ip (Some ip6)) (peers d) =
      map readdressed (xs @ [y]) @ map fst ys"
    using no unfolding Cons.prems(3) y update_where_def by (auto simp: readdressed_def intro!: map_idI)
  have ok: "peers_ok (map sk_id (setup_keys d)) (map readdressed (xs @ [y]) @ map fst ys)"
    using Cons.prems(1,2) by (intro mixed_ok) simp_all
  let ?d = "d\<lparr>peers := map readdressed (xs @ [y]) @ map fst ys\<rparr>"
  have step: "set_addresses (p_id p) ip ip6 d = Inr ?d"
    unfolding set_addresses_def u using ok by (simp add: write_peers_def)
  have "foldE (\<lambda>(p, ip, ip6). set_addresses (p_id p) ip ip6) ys ?d =
      Inr (?d\<lparr>peers := map readdressed ((xs @ [y]) @ ys)\<rparr>)"
    by (rule Cons.IH) (use Cons.prems in simp_all)
  then show ?case using step by (simp add: y)
qed

subsection \<open>Placeholder texts\<close>

lemma Itoa_plain: "c \<in> set (Itoa i) \<Longrightarrow> is_digit c \<or> c = CHR ''-''"
  by (auto simp: Itoa_def dest: dec_digits split: if_splits)

lemma placeholder_not_host:
  assumes "\<forall>c \<in> set pre. \<not> addr_special c"
  shows "\<not> host_text n (pre @ Itoa i)"
proof -
  have "\<not> addr_special c" if "c \<in> set (Itoa i)" for c
    using Itoa_plain [OF that] by (auto simp: addr_special_def is_digit_def)
  with assms have "List.find addr_special (pre @ Itoa i) = None" by (auto simp: find_None_all)
  then have "ParseAddr (pre @ Itoa i) = None" by (simp add: ParseAddr_def)
  then show ?thesis by (simp add: host_text_def)
qed

abbreviation holder4 :: "int \<Rightarrow> string" where "holder4 i \<equiv> ''__migrating4_'' @ Itoa i"
abbreviation holder6 :: "int \<Rightarrow> string" where "holder6 i \<equiv> ''__migrating6_'' @ Itoa i"

lemma holders_not_hosts: "\<not> host_text n (holder4 i)" "\<not> host_text n (holder6 i)"
  by (rule placeholder_not_host, simp add: addr_special_def)+

lemma peers_in_order: "db_inv d \<Longrightarrow> sort_key p_id (peers d) = peers d"
  by (rule sort_key_id) (simp add: db_inv_def rowids_def)

lemma listNetworkPeers_ids: "db_inv d \<Longrightarrow> map ch_ID (listNetworkPeers d) = map p_id (peers d)"
  by (simp add: listNetworkPeers_def peers_in_order comp_def)

lemma length_listNetworkPeers [simp]: "length (listNetworkPeers d) = length (peers d)"
  by (simp add: listNetworkPeers_def)

abbreviation with_holders :: "peer \<Rightarrow> peer \<times> string \<times> string" where
  "with_holders p \<equiv> (p, holder4 (p_id p), holder6 (p_id p))"

lemma holders_compatible:
  assumes "store_inv s"
  shows "compatible (map with_holders (peers (st_db s)))"
proof -
  let ?rows = "peers (st_db s)"
  have "distinct (map p_id ?rows)" using store_invD(7) [OF assms] by (simp add: peers_ok_def)
  then have "distinct (map (\<lambda>p. holder4 (p_id p)) ?rows)" "distinct (map (\<lambda>p. holder6 (p_id p)) ?rows)"
    by (auto simp: distinct_map inj_on_def)
  moreover have "holder4 i \<noteq> p_assigned_ip q" "p_assigned_ip6 q \<noteq> Some (holder6 i)" if "q \<in> set ?rows" for i q
    using that assms holders_not_hosts [of "st_network s" i] holders_not_hosts [of "Network6 s" i]
    by (auto simp: store_inv_def addrs_inv_def list_all_iff simp del: append.simps)
  ultimately show ?thesis by (simp add: compatible_def comp_def)
qed

text \<open>The first pass turns every row into its placeholder.\<close>

lemma stage_all:
  assumes "store_inv s" "map ch_ID cs = map p_id (peers (st_db s))"
  shows "foldE stage_change cs (st_db s) =
    Inr ((st_db s)\<lparr>peers := map (\<lambda>p. readdressed (with_holders p)) (peers (st_db s))\<rparr>)"
proof -
  let ?rows = "peers (st_db s)" and ?f = with_holders
  note inv = store_invD [OF assms(1)] and c = holders_compatible [OF assms(1)]
  have "foldE (\<lambda>(p, ip, ip6). set_addresses (p_id p) ip ip6) (map ?f ?rows) (st_db s) =
      Inr ((st_db s)\<lparr>peers := map readdressed ([] @ map ?f ?rows)\<rparr>)"
    using inv(7) c by (intro readdress_loop) (simp_all add: comp_def)
  moreover have e: "foldE (\<lambda>(p, ip, ip6). set_addresses (p_id p) ip ip6) (map ?f rows) d = foldE stage_change cs d"
    if "map ch_ID cs = map p_id rows" for rows cs d
    using that
  proof (induction rows arbitrary: cs d)
    case (Cons p rows)
    then show ?case by (cases cs) (auto simp: stage_change_def bindE_def split: sum.split)
  qed simp
  ultimately show ?thesis unfolding e [OF assms(2)] by (simp add: comp_def)
qed

text \<open>The second pass gives every placeholder its new addresses.\<close>

lemma apply_all:
  assumes "peers_ok (map sk_id (setup_keys d)) (peers d)"
    and "length v4 = length (peers d)" "length v6 = length (peers d)" "distinct v4" "distinct v6"
    and "\<And>p t. p \<in> set (peers d) \<Longrightarrow> t \<in> set v4 \<Longrightarrow> p_assigned_ip p \<noteq> t"
    and "\<And>p t. p \<in> set (peers d) \<Longrightarrow> t \<in> set v6 \<Longrightarrow> p_assigned_ip6 p \<noteq> Some t"
    and "map (\<lambda>c. (ch_ID c, ch_NewIP c, ch_NewIP6 c)) cs = zip (map p_id (peers d)) (zip v4 v6)"
  shows "foldE apply_change cs d = Inr (d\<lparr>peers := map readdressed (zip (peers d) (zip v4 v6))\<rparr>)"
proof -
  let ?xs = "zip (peers d) (zip v4 v6)"
  have l: "map fst ?xs = peers d" "map (\<lambda>x. fst (snd x)) ?xs = v4" "map (\<lambda>x. snd (snd x)) ?xs = v6"
    using assms(2,3) by (auto intro: nth_equalityI)
  have "fst (snd x) \<in> set v4 \<and> snd (snd x) \<in> set v6 \<and> fst x \<in> set (peers d)" if "x \<in> set ?xs" for x
  proof -
    from that have "fst x \<in> set (map fst ?xs)" "fst (snd x) \<in> set (map (\<lambda>x. fst (snd x)) ?xs)"
      "snd (snd x) \<in> set (map (\<lambda>x. snd (snd x)) ?xs)" by simp_all
    then show ?thesis unfolding l by simp
  qed
  then have "fst (snd x) \<noteq> p_assigned_ip (fst y) \<and> p_assigned_ip6 (fst y) \<noteq> Some (snd (snd x))"
    if "x \<in> set ?xs" "y \<in> set ?xs" for x y
    using assms(6,7) that by metis
  then have "compatible ?xs"
    using assms(4,5) unfolding compatible_def l by simp
  then have "foldE (\<lambda>(p, ip, ip6). set_addresses (p_id p) ip ip6) ?xs d = Inr (d\<lparr>peers := map readdressed ([] @ ?xs)\<rparr>)"
    using assms(1) l by (intro readdress_loop) simp_all
  moreover have e: "foldE (\<lambda>(p, ip, ip6). set_addresses (p_id p) ip ip6) xs e = foldE apply_change cs e"
    if "map (\<lambda>c. (ch_ID c, ch_NewIP c, ch_NewIP6 c)) cs = map (\<lambda>(p, x). (p_id p, x)) xs" for xs cs e
    using that
  proof (induction xs arbitrary: cs e)
    case (Cons x xs)
    then show ?case by (cases x; cases cs) (auto simp: apply_change_def bindE_def split: sum.split)
  qed simp
  moreover have "map (\<lambda>(p, x). (p_id p, x)) ?xs = zip (map p_id (peers d)) (zip v4 v6)"
    by (simp add: zip_map1 split_def)
  ultimately show ?thesis using assms(8) e [of cs ?xs d] by simp
qed

subsection \<open>The migration\<close>

definition hosts_of :: "prefix \<Rightarrow> nat \<Rightarrow> string list" where
  "hosts_of p n = map (\<lambda>i. addr_String (nth_host p i)) [1..<Suc n]"

lemma length_hosts_of [simp]: "length (hosts_of p n) = n"
  by (simp add: hosts_of_def)

lemma hosts_of_nth: "i < n \<Longrightarrow> hosts_of p n ! i = addr_String (nth_host p (Suc i))"
  by (simp add: hosts_of_def del: upt_Suc)

lemma hosts_of_host:
  assumes "overlay_net p" "n < prefix_size p" "t \<in> set (hosts_of p n)"
  shows "host_text p t"
  using assms unfolding host_text_iff [OF assms(1)] by (auto simp: hosts_of_def simp del: upt_Suc)

lemma distinct_hosts_of:
  assumes "overlay_net p" "n < prefix_size p"
  shows "distinct (hosts_of p n)"
proof -
  have "i = j" if "1 \<le> i" "i < Suc n" "1 \<le> j" "j < Suc n" "addr_String (nth_host p i) = addr_String (nth_host p j)" for i j
    using that assms addr_text.print_inject [OF nth_host_valid nth_host_valid, of p i p j] nth_host_inject [of p i j] by simp
  then show ?thesis unfolding hosts_of_def by (auto simp: distinct_map inj_on_def simp del: upt_Suc)
qed

definition room_for :: "prefix \<Rightarrow> nat \<Rightarrow> bool" where
  "room_for p n \<longleftrightarrow> n = 0 \<or> n < prefix_size p"

lemma hosts_of_room:
  assumes "overlay_net p" "room_for p n"
  shows "t \<in> set (hosts_of p n) \<Longrightarrow> host_text p t" and "distinct (hosts_of p n)"
proof -
  have "hosts_of p 0 = []" by (simp add: hosts_of_def)
  then show "t \<in> set (hosts_of p n) \<Longrightarrow> host_text p t" "distinct (hosts_of p n)"
    using hosts_of_host [OF assms(1), of n t] distinct_hosts_of [OF assms(1), of n] assms(2)
    by (auto simp: room_for_def)
qed

lemma firstOverlayHosts_room:
  assumes "overlay_net p"
  shows "room_for p n \<Longrightarrow> firstOverlayHosts p n = Inr (hosts_of p n)"
    and "\<not> room_for p n \<Longrightarrow> \<exists>e. firstOverlayHosts p n = Inl e"
proof -
  show "firstOverlayHosts p n = Inr (hosts_of p n)" if "room_for p n"
    using that firstOverlayHosts_eq [OF assms, of n]
    by (auto simp: room_for_def hosts_of_def firstOverlayHosts_def simp del: upt_Suc)
  show "\<exists>e. firstOverlayHosts p n = Inl e" if "\<not> room_for p n"
    using that firstOverlayHosts_Inl [OF assms] by (auto simp: room_for_def)
qed

text \<open>The rows after a migration: the i-th peer gets the i-th host of each network.\<close>

definition migrated :: "prefix \<Rightarrow> prefix \<Rightarrow> peer list \<Rightarrow> peer list" where
  "migrated t4 t6 rows =
     map (\<lambda>(p, ip, ip6). readdress ip (Some ip6) p)
       (zip rows (zip (hosts_of t4 (length rows)) (hosts_of t6 (length rows))))"

lemma migrated_same_rows: "same_rows rows (migrated t4 t6 rows)"
  by (simp add: same_rows_def migrated_def list_all2_conv_all_nth)

lemma migrated_addrs:
  assumes "overlay_net t4" "overlay_net t6" "room_for t4 (length rows)" "room_for t6 (length rows)"
  shows "addrs_inv t4 t6 (migrated t4 t6 rows)"
proof -
  have "host_text t4 ip \<and> host_text t6 ip6"
    if "(p, ip, ip6) \<in> set (zip rows (zip (hosts_of t4 (length rows)) (hosts_of t6 (length rows))))" for p ip ip6
  proof -
    from that have "ip \<in> set (hosts_of t4 (length rows))" "ip6 \<in> set (hosts_of t6 (length rows))"
      by (auto dest: set_zip_leftD set_zip_rightD)
    with assms hosts_of_room(1) show ?thesis by blast
  qed
  then show ?thesis by (auto simp: addrs_inv_def list_all_iff migrated_def readdress_def)
qed

lemma plan_changes:
  assumes "store_inv s" "overlay_net t4" "overlay_net t6"
    and "room_for t4 (length (peers (st_db s)))" "room_for t6 (length (peers (st_db s)))"
  obtains plan where "buildNetworkMigrationPlan (st_db s) n4 n6 t4 t6 = Inr plan"
    "map ch_ID (pl_Changes plan) = map p_id (peers (st_db s))"
    "map (\<lambda>c. (ch_ID c, ch_NewIP c, ch_NewIP6 c)) (pl_Changes plan) =
       zip (map p_id (peers (st_db s)))
         (zip (hosts_of t4 (length (peers (st_db s)))) (hosts_of t6 (length (peers (st_db s)))))"
proof -
  let ?ps = "listNetworkPeers (st_db s)" and ?n = "length (peers (st_db s))"
  have id: "ch_ID (?ps ! i) = p_id (peers (st_db s) ! i)" if "i < ?n" for i
    using listNetworkPeers_ids [OF store_invD(1) [OF assms(1)]] that
    by (metis length_listNetworkPeers nth_map)
  show thesis
    by (rule that [of "\<lparr>pl_Current = \<lparr>NetworkCIDR = prefix_String n4, NetworkCIDR6 = prefix_String n6\<rparr>,
        pl_Target = \<lparr>NetworkCIDR = prefix_String t4, NetworkCIDR6 = prefix_String t6\<rparr>,
        pl_Changes = map (\<lambda>i. (?ps ! i)\<lparr>ch_NewIP := hosts_of t4 ?n ! i, ch_NewIP6 := hosts_of t6 ?n ! i\<rparr>) [0..<?n]\<rparr>"])
      (use firstOverlayHosts_room(1) [OF assms(2,4)] firstOverlayHosts_room(1) [OF assms(3,5)] id in
        \<open>auto simp: buildNetworkMigrationPlan_def Let_def intro!: nth_equalityI\<close>)
qed

definition migration_result :: "prefix \<Rightarrow> prefix \<Rightarrow> store \<Rightarrow> store" where
  "migration_result t4 t6 s =
     s\<lparr>st_db := upsertSetting settingNetworkCIDR6 (prefix_String t6)
         (upsertSetting settingNetworkCIDR (prefix_String t4)
           ((st_db s)\<lparr>peers := migrated t4 t6 (peers (st_db s))\<rparr>)),
       st_network := t4, Network6 := t6\<rparr>"

lemma staged_ok:
  assumes "store_inv s"
  shows "peers_ok (map sk_id (setup_keys (st_db s))) (map (\<lambda>p. readdressed (with_holders p)) (peers (st_db s)))"
  using mixed_ok [of "map sk_id (setup_keys (st_db s))" "map with_holders (peers (st_db s))" "[]"]
    holders_compatible [OF assms] store_invD(7) [OF assms] by (simp add: comp_def)

lemma readdress_twice: "readdress a b (readdressed (p, x)) = readdress a b p"
  by (cases x) (simp add: readdressed_def readdress_def)

lemma migration_passes:
  assumes "store_inv s" "overlay_net t4" "overlay_net t6"
    and "room_for t4 (length (peers (st_db s)))" "room_for t6 (length (peers (st_db s)))"
    and "map ch_ID cs = map p_id (peers (st_db s))"
    and "map (\<lambda>c. (ch_ID c, ch_NewIP c, ch_NewIP6 c)) cs = zip (map p_id (peers (st_db s)))
         (zip (hosts_of t4 (length (peers (st_db s)))) (hosts_of t6 (length (peers (st_db s)))))"
  shows "bindE (foldE stage_change cs (st_db s)) (foldE apply_change cs) =
    Inr ((st_db s)\<lparr>peers := migrated t4 t6 (peers (st_db s))\<rparr>)"
proof -
  let ?rows = "peers (st_db s)" and ?n = "length (peers (st_db s))"
  let ?staged = "map (\<lambda>p. readdressed (with_holders p)) ?rows"
  let ?d = "(st_db s)\<lparr>peers := ?staged\<rparr>"
  note h4 = hosts_of_room(1) [OF assms(2,4)] and h6 = hosts_of_room(1) [OF assms(3,5)]
  have "foldE apply_change cs ?d = Inr (?d\<lparr>peers := map readdressed (zip (peers ?d) (zip (hosts_of t4 ?n) (hosts_of t6 ?n)))\<rparr>)"
  proof (rule apply_all)
    show "distinct (hosts_of t4 ?n)" "distinct (hosts_of t6 ?n)"
      using hosts_of_room(2) assms(2-5) by blast+
    show "p_assigned_ip p \<noteq> t" if "p \<in> set (peers ?d)" "t \<in> set (hosts_of t4 ?n)" for p t
      using that(1) h4 [OF that(2)] holders_not_hosts(1) by (auto simp del: append.simps)
    show "p_assigned_ip6 p \<noteq> Some t" if "p \<in> set (peers ?d)" "t \<in> set (hosts_of t6 ?n)" for p t
      using that(1) h6 [OF that(2)] holders_not_hosts(2) by (auto simp del: append.simps)
  qed (use staged_ok [OF assms(1)] assms(7) in \<open>simp_all add: comp_def\<close>)
  moreover have "map readdressed (zip ?staged zs) = map (\<lambda>(p, ip, ip6). readdress ip (Some ip6) p) (zip ?rows zs)" for zs
    by (auto simp: zip_map1 readdressed_def readdress_def)
  ultimately show ?thesis
    using stage_all [OF assms(1,6)] by (simp add: migrated_def)
qed

lemma Masked_id: "overlay_net p \<Longrightarrow> Masked p = p"
  by (simp add: overlay_net_def)

lemma migrated_peers_ok:
  assumes "store_inv s" "overlay_net t4" "overlay_net t6"
    and "room_for t4 (length (peers (st_db s)))" "room_for t6 (length (peers (st_db s)))"
  shows "peers_ok (map sk_id (setup_keys (st_db s))) (migrated t4 t6 (peers (st_db s)))"
proof -
  let ?rows = "peers (st_db s)" and ?n = "length (peers (st_db s))"
  let ?xs = "zip (map (\<lambda>p. readdressed (with_holders p)) ?rows) (zip (hosts_of t4 ?n) (hosts_of t6 ?n))"
  obtain plan where "buildNetworkMigrationPlan (st_db s) t4 t6 t4 t6 = Inr plan"
    and ids: "map ch_ID (pl_Changes plan) = map p_id ?rows"
    and new: "map (\<lambda>c. (ch_ID c, ch_NewIP c, ch_NewIP6 c)) (pl_Changes plan) =
       zip (map p_id ?rows) (zip (hosts_of t4 ?n) (hosts_of t6 ?n))"
    by (rule plan_changes [OF assms])
  have "foldE P cs d = Inr d' \<Longrightarrow> peers_ok (map sk_id (setup_keys d)) (peers d) \<Longrightarrow>
      (\<And>c d d'. P c d = Inr d' \<Longrightarrow> setup_keys d' = setup_keys d \<and> peers_ok (map sk_id (setup_keys d)) (peers d')) \<Longrightarrow>
      setup_keys d' = setup_keys d \<and> peers_ok (map sk_id (setup_keys d')) (peers d')" for P and cs :: "NetworkPeerChange list" and d d'
    by (induction cs arbitrary: d) (fastforce simp: bindE_eq_Inr)+
  from this [of apply_change "pl_Changes plan"] show ?thesis
    using migration_passes [OF assms ids new] stage_all [OF assms(1) ids] staged_ok [OF assms(1)]
    by (fastforce simp: apply_change_def set_addresses_def write_peers_Inr)
qed

lemma migration_result_inv:
  assumes "store_inv s" "overlay_net t4" "overlay_net t6" "Is4 (prefix_Addr t4)" "Is6 (prefix_Addr t6)"
    and "room_for t4 (length (peers (st_db s)))" "room_for t6 (length (peers (st_db s)))"
  shows "store_inv (migration_result t4 t6 s)"
proof -
  have "db_inv ((st_db s)\<lparr>peers := migrated t4 t6 (peers (st_db s))\<rparr>)"
    using store_invD(1) [OF assms(1)] migrated_peers_ok [OF assms(1-3,6,7)] migrated_same_rows
    by (rule db_inv_rewrite)
  then show ?thesis
    using assms migrated_addrs [OF assms(2,3,6,7)]
    by (simp add: store_inv_def migration_result_def upsertSetting_def db_inv_def refs_inv_def nets_ok_def)
qed

lemma ApplyNetworkMigration_eq:
  assumes "store_inv s" "overlay_net t4" "overlay_net t6"
  shows "room_for t4 (length (peers (st_db s))) \<Longrightarrow> room_for t6 (length (peers (st_db s))) \<Longrightarrow>
      \<exists>plan. PreviewNetworkMigration t4 t6 s = Inr plan \<and> ApplyNetworkMigration t4 t6 s = Inr (migration_result t4 t6 s, plan)"
    and "\<not> (room_for t4 (length (peers (st_db s))) \<and> room_for t6 (length (peers (st_db s)))) \<Longrightarrow>
      \<exists>e. PreviewNetworkMigration t4 t6 s = Inl e \<and> ApplyNetworkMigration t4 t6 s = Inl e"
proof -
  assume r: "room_for t4 (length (peers (st_db s)))" "room_for t6 (length (peers (st_db s)))"
  obtain plan where p: "buildNetworkMigrationPlan (st_db s) (network4 s) (network6 s) t4 t6 = Inr plan"
    and ids: "map ch_ID (pl_Changes plan) = map p_id (peers (st_db s))"
    and new: "map (\<lambda>c. (ch_ID c, ch_NewIP c, ch_NewIP6 c)) (pl_Changes plan) =
       zip (map p_id (peers (st_db s)))
         (zip (hosts_of t4 (length (peers (st_db s)))) (hosts_of t6 (length (peers (st_db s)))))"
    by (rule plan_changes [OF assms r])
  from migration_passes [OF assms r ids new] obtain d where
    "foldE stage_change (pl_Changes plan) (st_db s) = Inr d"
    "foldE apply_change (pl_Changes plan) d = Inr ((st_db s)\<lparr>peers := migrated t4 t6 (peers (st_db s))\<rparr>)"
    by (auto simp: bindE_eq_Inr)
  then show "\<exists>plan. PreviewNetworkMigration t4 t6 s = Inr plan \<and>
      ApplyNetworkMigration t4 t6 s = Inr (migration_result t4 t6 s, plan)"
    using p assms(2,3)
    by (auto simp: ApplyNetworkMigration_def PreviewNetworkMigration_def Let_def Masked_id migration_result_def
        setNetworks_def)
next
  assume "\<not> (room_for t4 (length (peers (st_db s))) \<and> room_for t6 (length (peers (st_db s))))"
  then have "\<exists>e. buildNetworkMigrationPlan (st_db s) (network4 s) (network6 s) t4 t6 = Inl e"
    using firstOverlayHosts_room [OF assms(2)] firstOverlayHosts_room [OF assms(3)]
    by (fastforce simp: buildNetworkMigrationPlan_def Let_def bindE_eq_Inl)
  then show "\<exists>e. PreviewNetworkMigration t4 t6 s = Inl e \<and> ApplyNetworkMigration t4 t6 s = Inl e"
    using assms(2,3) by (auto simp: ApplyNetworkMigration_def PreviewNetworkMigration_def Let_def Masked_id)
qed

text \<open>
  C23: Network migration is all or nothing and never fails half way. It is refused exactly
  when a target has fewer hosts than there are peers, and then nothing changes; otherwise
  neither pass violates a constraint, the peer at position \<open>i\<close> in id order, revoked or not,
  has host \<open>i + 1\<close> of each target, no other column changes, the store uses the targets, and
  the preview had announced exactly the plan that was applied.
\<close>

theorem ApplyNetworkMigration_spec:
  assumes "store_inv s" "prefix_IsValid target4" "prefix_IsValid target6"
    and "Is4 (prefix_Addr target4)" "Is6 (prefix_Addr target6)"
  shows "if room_for (Masked target4) (length (peers (st_db s))) \<and> room_for (Masked target6) (length (peers (st_db s)))
    then \<exists>plan s'. PreviewNetworkMigration target4 target6 s = Inr plan \<and>
      ApplyNetworkMigration target4 target6 s = Inr (s', plan) \<and> store_inv s' \<and>
      st_network s' = Masked target4 \<and> Network6 s' = Masked target6 \<and>
      length (peers (st_db s')) = length (peers (st_db s)) \<and>
      (\<forall>i < length (peers (st_db s)). peers (st_db s') ! i =
        readdress (addr_String (nth_host (Masked target4) (Suc i)))
          (Some (addr_String (nth_host (Masked target6) (Suc i)))) (peers (st_db s) ! i))
    else \<exists>e. PreviewNetworkMigration target4 target6 s = Inl e \<and> ApplyNetworkMigration target4 target6 s = Inl e"
proof -
  let ?t4 = "Masked target4" and ?t6 = "Masked target6"
  have o: "overlay_net ?t4" "overlay_net ?t6" using assms(2,3) Masked_overlay_net by auto
  have f: "Is4 (prefix_Addr ?t4)" "Is6 (prefix_Addr ?t6)"
    using assms(2-5) by (cases target4 rule: Masked.cases; cases target6 rule: Masked.cases; simp)+
  have eqs: "ApplyNetworkMigration target4 target6 s = ApplyNetworkMigration ?t4 ?t6 s"
    "PreviewNetworkMigration target4 target6 s = PreviewNetworkMigration ?t4 ?t6 s"
    using o by (simp_all add: ApplyNetworkMigration_def PreviewNetworkMigration_def Masked_id)
  have rows: "migrated ?t4 ?t6 rows ! i = readdress (addr_String (nth_host ?t4 (Suc i)))
      (Some (addr_String (nth_host ?t6 (Suc i)))) (rows ! i)" if "i < length rows" for rows i
    using that by (simp add: migrated_def hosts_of_nth)
  have p: "peers (st_db (migration_result ?t4 ?t6 s)) = migrated ?t4 ?t6 (peers (st_db s))"
    "st_network (migration_result ?t4 ?t6 s) = ?t4" "Network6 (migration_result ?t4 ?t6 s) = ?t6"
    by (simp_all add: migration_result_def upsertSetting_def)
  have len: "length (migrated ?t4 ?t6 rows) = length rows" for rows by (simp add: migrated_def)
  show ?thesis
  proof (cases "room_for ?t4 (length (peers (st_db s))) \<and> room_for ?t6 (length (peers (st_db s)))")
    case True
    then show ?thesis
      unfolding eqs
      using ApplyNetworkMigration_eq(1) [OF assms(1) o] migration_result_inv [OF assms(1) o f] rows p len by auto
  next
    case False
    then show ?thesis unfolding eqs using ApplyNetworkMigration_eq(2) [OF assms(1) o False] by auto
  qed
qed

theorem ApplyNetworkMigration_spec_witness:
  "\<exists>plan s'. ApplyNetworkMigration (Prefix (V4 167772161) 24) (Prefix (V6 0xfd000000000000000000000000000000 []) 64) demo_store2 =
     Inr (s', plan) \<and> peers (st_db s') ! 1 =
       readdress (addr_String (nth_host (Prefix (V4 167772160) 24) 2))
         (Some (addr_String (nth_host (Prefix (V6 0xfd000000000000000000000000000000 []) 64) 2))) demo_peer2"
proof -
  have m: "Masked (Prefix (V4 167772161) 24) = Prefix (V4 167772160) 24"
    "Masked (Prefix (V6 0xfd000000000000000000000000000000 []) 64) = Prefix (V6 0xfd000000000000000000000000000000 []) 64"
    by (simp_all add: clear_low_def)
  have l: "length (peers (st_db demo_store2)) = 2" "peers (st_db demo_store2) ! 1 = demo_peer2"
    by (simp_all add: demo_store2_def)
  have r: "room_for (Prefix (V4 167772160) 24) 2" "room_for (Prefix (V6 0xfd000000000000000000000000000000 []) 64) 2"
    by (simp_all add: room_for_def)
  from ApplyNetworkMigration_spec [OF demo_store2_inv, of "Prefix (V4 167772161) 24" "Prefix (V6 0xfd000000000000000000000000000000 []) 64"]
  obtain plan s' where
    "ApplyNetworkMigration (Prefix (V4 167772161) 24) (Prefix (V6 0xfd000000000000000000000000000000 []) 64) demo_store2 = Inr (s', plan)"
    "\<forall>i < 2. peers (st_db s') ! i = readdress (addr_String (nth_host (Prefix (V4 167772160) 24) (Suc i)))
       (Some (addr_String (nth_host (Prefix (V6 0xfd000000000000000000000000000000 []) 64) (Suc i))))
       (peers (st_db demo_store2) ! i)"
    unfolding m l(1) using r by auto
  then show ?thesis using l(2) by (metis Suc_1 lessI)
qed

subsection \<open>Restart\<close>

lemma prefix_String_ne: "plain_prefix p \<Longrightarrow> prefix_String p \<noteq> []"
proof
  assume "plain_prefix p" "prefix_String p = []"
  then have "ParsePrefix [] = Some p" using prefix_text.parse_print by metis
  moreover have "ParsePrefix [] = None" by (simp add: ParsePrefix_def cut_last_def)
  ultimately show False by simp
qed

lemma LoadOrInit_settings:
  assumes "overlay_net t4" "overlay_net t6" "Is4 (prefix_Addr t4)" "Is6 (prefix_Addr t6)"
    and "settings (st_db s) settingNetworkCIDR = Some (prefix_String t4)"
    and "settings (st_db s) settingNetworkCIDR6 = Some (prefix_String t6)"
  shows "LoadOrInitNetworkConfig default4 default6 s =
    Inr (s\<lparr>st_network := t4, Network6 := t6\<rparr>, \<lparr>NetworkCIDR = prefix_String t4, NetworkCIDR6 = prefix_String t6\<rparr>)"
proof -
  have pl: "plain_prefix t4" "plain_prefix t6" using assms(1,2) overlay_net_plain by auto
  then have "parseNetworkConfig (prefix_String t4) (prefix_String t6) = Inr (t4, t6)"
    using assms(1-4) by (simp add: parseNetworkConfig_def prefix_text.parse_print Masked_id)
  then show ?thesis
    using assms(1,2,5,6) prefix_String_ne pl
    by (simp add: LoadOrInitNetworkConfig_def loadNetworkConfig_def setNetworks_def Masked_id)
qed

text \<open>
  The networks survive a restart. After a migration, a server that opens the same
  database under any flags and defaults loads the networks of the migration from the
  settings and ends in exactly the store it had.
\<close>

theorem migration_survives_restart:
  assumes "store_inv s" "prefix_IsValid target4" "prefix_IsValid target6"
    and "Is4 (prefix_Addr target4)" "Is6 (prefix_Addr target6)"
    and "ApplyNetworkMigration target4 target6 s = Inr (s', plan)"
  shows "LoadOrInitNetworkConfig default4 default6 (s'\<lparr>st_network := x, Network6 := y\<rparr>) = Inr (s', CurrentNetworkConfig s')"
proof -
  let ?t4 = "Masked target4" and ?t6 = "Masked target6"
  have o: "overlay_net ?t4" "overlay_net ?t6" using assms(2,3) Masked_overlay_net by auto
  have f: "Is4 (prefix_Addr ?t4)" "Is6 (prefix_Addr ?t6)"
    using assms(2-5) by (cases target4 rule: Masked.cases; cases target6 rule: Masked.cases; simp)+
  have "ApplyNetworkMigration ?t4 ?t6 s = Inr (s', plan)"
    using assms(6) o by (simp add: ApplyNetworkMigration_def Masked_id)
  then have s': "s' = migration_result ?t4 ?t6 s"
    using ApplyNetworkMigration_eq [OF assms(1) o] by (metis Inl_Inr_False Inr_inject prod.inject)
  have "LoadOrInitNetworkConfig default4 default6 (s'\<lparr>st_network := x, Network6 := y\<rparr>) =
      Inr ((s'\<lparr>st_network := x, Network6 := y\<rparr>)\<lparr>st_network := ?t4, Network6 := ?t6\<rparr>,
           \<lparr>NetworkCIDR = prefix_String ?t4, NetworkCIDR6 = prefix_String ?t6\<rparr>)"
    by (rule LoadOrInit_settings [OF o f]) (simp_all add: s' migration_result_def upsertSetting_def)
  then show ?thesis
    by (simp add: s' migration_result_def CurrentNetworkConfig_def network4_def network6_def)
qed

theorem migration_survives_restart_witness:
  "\<exists>s' plan. ApplyNetworkMigration (Prefix (V4 167772160) 24) (Prefix (V6 0xfd000000000000000000000000000000 []) 64) demo_store =
       Inr (s', plan) \<and>
     LoadOrInitNetworkConfig (Prefix (V4 0) 8) (Prefix (V6 0 []) 8) (s'\<lparr>st_network := PrefixZero, Network6 := PrefixZero\<rparr>) =
       Inr (s', CurrentNetworkConfig s')"
proof -
  let ?t4 = "Prefix (V4 167772160) 24" and ?t6 = "Prefix (V6 0xfd000000000000000000000000000000 []) 64"
  have o: "overlay_net ?t4" "overlay_net ?t6" by (simp_all add: overlay_net_def clear_low_def)
  have r: "room_for ?t4 (length (peers (st_db demo_store)))" "room_for ?t6 (length (peers (st_db demo_store)))"
    by (simp_all add: room_for_def demo_store_def)
  obtain plan where a: "ApplyNetworkMigration ?t4 ?t6 demo_store = Inr (migration_result ?t4 ?t6 demo_store, plan)"
    using ApplyNetworkMigration_eq(1) [OF demo_store_inv o r] by auto
  from migration_survives_restart [OF demo_store_inv _ _ _ _ a] a show ?thesis by auto
qed

lemma ApplyNetworkMigration_result:
  assumes "store_inv s" "prefix_IsValid target4" "prefix_IsValid target6"
    and "ApplyNetworkMigration target4 target6 s = Inr (s', plan)"
  shows "s' = migration_result (Masked target4) (Masked target6) s"
    "room_for (Masked target4) (length (peers (st_db s)))" "room_for (Masked target6) (length (peers (st_db s)))"
proof -
  let ?t4 = "Masked target4" and ?t6 = "Masked target6"
  have o: "overlay_net ?t4" "overlay_net ?t6" using assms(2,3) Masked_overlay_net by auto
  have a: "ApplyNetworkMigration ?t4 ?t6 s = Inr (s', plan)"
    using assms(4) o by (simp add: ApplyNetworkMigration_def Masked_id)
  then show r: "room_for ?t4 (length (peers (st_db s)))" "room_for ?t6 (length (peers (st_db s)))"
    using ApplyNetworkMigration_eq(2) [OF assms(1) o] by auto
  then show "s' = migration_result ?t4 ?t6 s"
    using ApplyNetworkMigration_eq(1) [OF assms(1) o] a by auto
qed

lemma ApplyNetworkMigration_inv:
  assumes "store_inv s" "prefix_IsValid target4" "prefix_IsValid target6"
    and "Is4 (prefix_Addr target4)" "Is6 (prefix_Addr target6)"
    and "ApplyNetworkMigration target4 target6 s = Inr (s', plan)"
  shows "store_inv s'"
proof -
  let ?t4 = "Masked target4" and ?t6 = "Masked target6"
  have o: "overlay_net ?t4" "overlay_net ?t6" using assms(2,3) Masked_overlay_net by auto
  have f: "Is4 (prefix_Addr ?t4)" "Is6 (prefix_Addr ?t6)"
    using assms(2-5) by (cases target4 rule: Masked.cases; cases target6 rule: Masked.cases; simp)+
  note r = ApplyNetworkMigration_result [OF assms(1-3,6)]
  show ?thesis using migration_result_inv [OF assms(1) o f r(2,3)] r(1) by simp
qed

end
