(* ===== verification/Json.thy ===== *)
theory Json
  imports Encoding
begin

section \<open>JSON text of candidate lists\<close>

text \<open>
  What the program uses of encoding/json: \<open>json.Marshal\<close> of the candidate lists that
  agents report and \<open>json.Unmarshal\<close> of the stored column. Strings are encoded with Go's
  escapes, HTML-sensitive characters, U+2028 and U+2029 included, and a byte that does not
  start a valid UTF-8 sequence becomes U+FFFD.
\<close>

record AgentCandidate =
  ac_Endpoint :: string
  ac_Type :: string

subsection \<open>UTF-8\<close>

definition cont :: "string \<Rightarrow> nat \<Rightarrow> nat \<Rightarrow> nat \<Rightarrow> bool" where
  "cont s i lo hi \<longleftrightarrow> i < length s \<and> lo \<le> code (s ! i) \<and> code (s ! i) \<le> hi"

text \<open>The length of the valid encoding at the start of the text, 0 when there is none.\<close>

definition rune_len :: "string \<Rightarrow> nat" where
  "rune_len s =
     (if s = [] then 0
      else let b = code (hd s)
      in if b < 128 then 1
         else if 194 \<le> b \<and> b \<le> 223 then (if cont s 1 128 191 then 2 else 0)
         else if 224 \<le> b \<and> b \<le> 239
         then (if cont s 1 (if b = 224 then 160 else 128) (if b = 237 then 159 else 191) \<and> cont s 2 128 191
               then 3 else 0)
         else if 240 \<le> b \<and> b \<le> 244
         then (if cont s 1 (if b = 240 then 144 else 128) (if b = 244 then 143 else 191) \<and>
                  cont s 2 128 191 \<and> cont s 3 128 191 then 4 else 0)
         else 0)"

lemma cont_less: "cont s i lo hi \<Longrightarrow> i < length s"
  by (simp add: cont_def)

lemma rune_len_le: "rune_len s \<le> length s"
proof (cases "s = []")
  case False
  then have "1 \<le> length s" by (simp add: Suc_leI)
  then show ?thesis unfolding rune_len_def Let_def by (auto dest!: cont_less)
qed (simp add: rune_len_def)

function valid_utf8 :: "string \<Rightarrow> bool" where
  "valid_utf8 s =
     (if s = [] then True else if rune_len s = 0 then False else valid_utf8 (drop (rune_len s) s))"
  by pat_completeness auto
termination
  by (relation "measure length") (auto simp: rune_len_le)

declare valid_utf8.simps [simp del]

subsection \<open>Encoding\<close>

definition u_escape :: "nat \<Rightarrow> string" where
  "u_escape n = [byte 92, CHR ''u''] @ map (\<lambda>d. ''0123456789abcdef'' ! d) (be_digits 16 4 n)"

definition json_char :: "char \<Rightarrow> string" where
  "json_char c =
     (let b = code c
      in if b = 34 \<or> b = 92 then [byte 92, c]
         else if b = 8 then [byte 92, CHR ''b'']
         else if b = 12 then [byte 92, CHR ''f'']
         else if b = 10 then [byte 92, CHR ''n'']
         else if b = 13 then [byte 92, CHR ''r'']
         else if b = 9 then [byte 92, CHR ''t'']
         else if b < 32 \<or> c = CHR ''<'' \<or> c = CHR ''>'' \<or> c = CHR ''&'' then u_escape b
         else [c])"

function json_body :: "string \<Rightarrow> string" where
  "json_body s =
     (if s = [] then []
      else if code (hd s) < 128 then json_char (hd s) @ json_body (tl s)
      else if rune_len s = 0 then u_escape 65533 @ json_body (tl s)
      else if take 3 s = [byte 226, byte 128, byte 168] then u_escape 8232 @ json_body (drop 3 s)
      else if take 3 s = [byte 226, byte 128, byte 169] then u_escape 8233 @ json_body (drop 3 s)
      else take (rune_len s) s @ json_body (drop (rune_len s) s))"
  by pat_completeness auto
termination
  by (relation "measure length") (auto simp: rune_len_le)

declare json_body.simps [simp del]

definition json_string :: "string \<Rightarrow> string" where
  "json_string s = [byte 34] @ json_body s @ [byte 34]"

definition json_candidate :: "AgentCandidate \<Rightarrow> string" where
  "json_candidate c =
     CHR ''{'' # json_string ''endpoint'' @ CHR '':'' # json_string (ac_Endpoint c) @
     CHR '','' # json_string ''type'' @ CHR '':'' # json_string (ac_Type c) @ ''}''"

definition marshal_candidates :: "AgentCandidate list \<Rightarrow> string" where
  "marshal_candidates cs = ''['' @ join_with '','' (map json_candidate cs) @ '']''"

text \<open>A slice that is empty in the program is a nil slice where it is encoded: \<open>null\<close>.\<close>

definition marshal_strings :: "string list \<Rightarrow> string" where
  "marshal_strings ws =
     (if ws = [] then ''null'' else ''['' @ join_with '','' (map json_string ws) @ '']'')"

subsection \<open>Decoding\<close>

datatype jval =
    JNull
  | JBool bool
  | JNum string
  | JStr string
  | JArr "jval list"
  | JObj "(string \<times> jval) list"

definition skip_ws :: "string \<Rightarrow> string" where
  "skip_ws s = dropWhile (\<lambda>c. code c = 32 \<or> code c = 9 \<or> code c = 10 \<or> code c = 13) s"

definition utf8_encode :: "nat \<Rightarrow> string" where
  "utf8_encode n =
     (if n < 128 then [byte n]
      else if n < 2048 then [byte (192 + n div 64), byte (128 + n mod 64)]
      else if n < 65536
      then [byte (224 + n div 4096), byte (128 + n div 64 mod 64), byte (128 + n mod 64)]
      else [byte (240 + n div 262144), byte (128 + n div 4096 mod 64), byte (128 + n div 64 mod 64),
            byte (128 + n mod 64)])"

definition hex_digit_val :: "char \<Rightarrow> nat option" where
  "hex_digit_val c =
     (let b = code c
      in if 48 \<le> b \<and> b \<le> 57 then Some (b - 48)
         else if 97 \<le> b \<and> b \<le> 102 then Some (b - 87)
         else if 65 \<le> b \<and> b \<le> 70 then Some (b - 55) else None)"

definition hex4 :: "string \<Rightarrow> (nat \<times> string) option" where
  "hex4 s =
     (if length s < 4 then None
      else map_option (\<lambda>ds. (be_val 16 ds, drop 4 s)) (those (map hex_digit_val (take 4 s))))"

text \<open>The \<open>\\u\<close> escape at the start of the text, if any, as the second half of a surrogate pair.\<close>

definition low_surrogate :: "string \<Rightarrow> (nat \<times> string) option" where
  "low_surrogate s =
     (if length s < 2 \<or> code (s ! 0) \<noteq> 92 \<or> s ! 1 \<noteq> CHR ''u'' then None
      else (case hex4 (drop 2 s) of
              None \<Rightarrow> None
            | Some (m, r) \<Rightarrow> if 56320 \<le> m \<and> m < 57344 then Some (m, r) else None))"

definition u_rune :: "nat \<Rightarrow> string \<Rightarrow> string \<times> string" where
  "u_rune n r =
     (if 55296 \<le> n \<and> n < 56320
      then (case low_surrogate r of
              Some (m, r') \<Rightarrow> (utf8_encode (65536 + (n - 55296) * 1024 + (m - 56320)), r')
            | None \<Rightarrow> (utf8_encode 65533, r))
      else if 56320 \<le> n \<and> n < 57344 then (utf8_encode 65533, r)
      else (utf8_encode n, r))"

definition simple_escape :: "char \<Rightarrow> nat option" where
  "simple_escape c =
     (if code c = 34 then Some 34 else if code c = 92 then Some 92 else if c = CHR ''/'' then Some 47
      else if c = CHR ''b'' then Some 8 else if c = CHR ''f'' then Some 12 else if c = CHR ''n'' then Some 10
      else if c = CHR ''r'' then Some 13 else if c = CHR ''t'' then Some 9 else None)"

lemma hex4_shorter: "hex4 s = Some (n, r) \<Longrightarrow> length r < length s"
  by (auto simp: hex4_def split: if_splits)

lemma low_surrogate_shorter: "low_surrogate s = Some (n, r) \<Longrightarrow> length r \<le> length s"
  by (auto simp: low_surrogate_def split: if_splits option.splits dest!: hex4_shorter)

lemma u_rune_shorter: "length (snd (u_rune n r)) \<le> length r"
  by (auto simp: u_rune_def split: option.splits dest: low_surrogate_shorter)

text \<open>The rest of a string literal after its opening quote, and what follows the closing one.\<close>

function json_str_body :: "string \<Rightarrow> (string \<times> string) option" where
  "json_str_body [] = None"
| "json_str_body (c # s) =
     (if code c = 34 then Some ([], s)
      else if code c = 92
      then (case s of
              [] \<Rightarrow> None
            | e # r \<Rightarrow>
                if e = CHR ''u''
                then (case hex4 r of
                        None \<Rightarrow> None
                      | Some (n, r') \<Rightarrow>
                          map_option (\<lambda>(t, rest). (fst (u_rune n r') @ t, rest)) (json_str_body (snd (u_rune n r'))))
                else (case simple_escape e of
                        None \<Rightarrow> None
                      | Some b \<Rightarrow> map_option (\<lambda>(t, rest). (byte b # t, rest)) (json_str_body r)))
      else if code c < 32 then None
      else if code c < 128 then map_option (\<lambda>(t, rest). (c # t, rest)) (json_str_body s)
      else if rune_len (c # s) = 0
      then map_option (\<lambda>(t, rest). (utf8_encode 65533 @ t, rest)) (json_str_body s)
      else map_option (\<lambda>(t, rest). (take (rune_len (c # s)) (c # s) @ t, rest))
             (json_str_body (drop (rune_len (c # s)) (c # s))))"
  by pat_completeness auto
termination
proof (relation "measure length", goal_cases)
  case (2 c s e r p n r')
  then show ?case using hex4_shorter [of r n r'] u_rune_shorter [of n r'] by simp
qed auto

declare json_str_body.simps [simp del]

definition digits_len :: "string \<Rightarrow> nat" where
  "digits_len s = length (takeWhile is_digit s)"

text \<open>The length of the number at the start of the text, 0 when there is none.\<close>

definition number_len :: "string \<Rightarrow> nat" where
  "number_len s =
     (let sign = (if s \<noteq> [] \<and> hd s = CHR ''-'' then 1 else 0);
          s1 = drop sign s;
          int_len = (if s1 \<noteq> [] \<and> hd s1 = CHR ''0'' then 1 else digits_len s1)
      in if int_len = 0 then 0
         else let s2 = drop int_len s1;
                  frac = (if s2 \<noteq> [] \<and> hd s2 = CHR ''.'' then Some (digits_len (tl s2)) else None);
                  frac_len = (case frac of None \<Rightarrow> 0 | Some k \<Rightarrow> Suc k);
                  s3 = drop frac_len s2;
                  e = s3 \<noteq> [] \<and> (hd s3 = CHR ''e'' \<or> hd s3 = CHR ''E'');
                  esign = (if e \<and> tl s3 \<noteq> [] \<and> (hd (tl s3) = CHR ''+'' \<or> hd (tl s3) = CHR ''-'') then 1 else 0);
                  edigits = digits_len (drop (Suc esign) s3)
              in if frac = Some 0 \<or> e \<and> edigits = 0 then 0
                 else sign + int_len + frac_len + (if e then 1 + esign + edigits else 0))"

fun json_value :: "nat \<Rightarrow> string \<Rightarrow> (jval \<times> string) option"
  and json_elems :: "nat \<Rightarrow> string \<Rightarrow> (jval list \<times> string) option"
  and json_members :: "nat \<Rightarrow> string \<Rightarrow> ((string \<times> jval) list \<times> string) option" where
  "json_value 0 s = None"
| "json_value (Suc n) s =
     (case skip_ws s of
        [] \<Rightarrow> None
      | c # r \<Rightarrow>
          if code c = 34 then map_option (\<lambda>(t, rest). (JStr t, rest)) (json_str_body r)
          else if c = CHR ''[''
          then (case skip_ws r of
                  [] \<Rightarrow> None
                | d # r' \<Rightarrow>
                    if d = CHR '']'' then Some (JArr [], r')
                    else map_option (\<lambda>(vs, rest). (JArr vs, rest)) (json_elems n r))
          else if c = CHR ''{''
          then (case skip_ws r of
                  [] \<Rightarrow> None
                | d # r' \<Rightarrow>
                    if d = CHR ''}'' then Some (JObj [], r')
                    else map_option (\<lambda>(ms, rest). (JObj ms, rest)) (json_members n r))
          else if take 4 (c # r) = ''null'' then Some (JNull, drop 4 (c # r))
          else if take 4 (c # r) = ''true'' then Some (JBool True, drop 4 (c # r))
          else if take 5 (c # r) = ''false'' then Some (JBool False, drop 5 (c # r))
          else let k = number_len (c # r)
               in if k = 0 then None else Some (JNum (take k (c # r)), drop k (c # r)))"
| "json_elems 0 s = None"
| "json_elems (Suc n) s =
     (case json_value n s of
        None \<Rightarrow> None
      | Some (v, r) \<Rightarrow>
          (case skip_ws r of
             [] \<Rightarrow> None
           | d # r' \<Rightarrow>
               if d = CHR '','' then map_option (\<lambda>(vs, rest). (v # vs, rest)) (json_elems n r')
               else if d = CHR '']'' then Some ([v], r') else None))"
| "json_members 0 s = None"
| "json_members (Suc n) s =
     (case skip_ws s of
        [] \<Rightarrow> None
      | q # r \<Rightarrow>
          if code q \<noteq> 34 then None
          else (case json_str_body r of
                  None \<Rightarrow> None
                | Some (k, r1) \<Rightarrow>
                    (case skip_ws r1 of
                       [] \<Rightarrow> None
                     | d # r2 \<Rightarrow>
                         if d \<noteq> CHR '':'' then None
                         else (case json_value n r2 of
                                 None \<Rightarrow> None
                               | Some (v, r3) \<Rightarrow>
                                   (case skip_ws r3 of
                                      [] \<Rightarrow> None
                                    | d' # r4 \<Rightarrow>
                                        if d' = CHR '',''
                                        then map_option (\<lambda>(ms, rest). ((k, v) # ms, rest)) (json_members n r4)
                                        else if d' = CHR ''}'' then Some ([(k, v)], r4) else None)))))"

text \<open>
  A document: one value and nothing else. Each step into a bracket or past a comma consumes
  a character, so twice the length of the text is enough fuel.
\<close>

definition json_document :: "string \<Rightarrow> jval option" where
  "json_document s =
     (case json_value (2 * length s + 2) s of
        None \<Rightarrow> None
      | Some (v, r) \<Rightarrow> if skip_ws r = [] then Some v else None)"

text \<open>\<open>json.Unmarshal\<close> into a nil \<open>[]string\<close> and into a nil \<open>[]AgentCandidate\<close>.\<close>

definition string_elem :: "jval \<Rightarrow> string option" where
  "string_elem v = (case v of JStr t \<Rightarrow> Some t | JNull \<Rightarrow> Some [] | _ \<Rightarrow> None)"

definition unmarshal_strings :: "string \<Rightarrow> string list option" where
  "unmarshal_strings s =
     (case json_document s of
        Some JNull \<Rightarrow> Some []
      | Some (JArr vs) \<Rightarrow> those (map string_elem vs)
      | _ \<Rightarrow> None)"

fun set_member :: "(string \<times> jval) \<Rightarrow> AgentCandidate option \<Rightarrow> AgentCandidate option" where
  "set_member m None = None"
| "set_member (k, v) (Some c) =
     (if ToLower k = ''endpoint''
      then (case v of JStr t \<Rightarrow> Some (c\<lparr>ac_Endpoint := t\<rparr>) | JNull \<Rightarrow> Some c | _ \<Rightarrow> None)
      else if ToLower k = ''type''
      then (case v of JStr t \<Rightarrow> Some (c\<lparr>ac_Type := t\<rparr>) | JNull \<Rightarrow> Some c | _ \<Rightarrow> None)
      else Some c)"

definition candidate_elem :: "jval \<Rightarrow> AgentCandidate option" where
  "candidate_elem v =
     (case v of
        JObj ms \<Rightarrow> fold set_member ms (Some \<lparr>ac_Endpoint = [], ac_Type = []\<rparr>)
      | JNull \<Rightarrow> Some \<lparr>ac_Endpoint = [], ac_Type = []\<rparr>
      | _ \<Rightarrow> None)"

definition unmarshal_candidates :: "string \<Rightarrow> AgentCandidate list option" where
  "unmarshal_candidates s =
     (case json_document s of
        Some JNull \<Rightarrow> Some []
      | Some (JArr vs) \<Rightarrow> those (map candidate_elem vs)
      | _ \<Rightarrow> None)"

subsection \<open>Round trip\<close>

text \<open>
  The texts the program stores as JSON (addresses, domains, endpoints, candidate types) are
  plain: ASCII without a character that needs escaping.
\<close>

definition json_plain :: "char \<Rightarrow> bool" where
  "json_plain c \<longleftrightarrow> 32 \<le> code c \<and> code c < 128 \<and> code c \<noteq> 34 \<and> code c \<noteq> 92 \<and>
     c \<noteq> CHR ''<'' \<and> c \<noteq> CHR ''>'' \<and> c \<noteq> CHR ''&''"

definition plain_text :: "string \<Rightarrow> bool" where
  "plain_text s \<longleftrightarrow> list_all json_plain s"

lemma json_char_plain: "json_plain c \<Longrightarrow> json_char c = [c]"
  unfolding json_plain_def json_char_def Let_def by auto

lemma json_body_plain: "plain_text s \<Longrightarrow> json_body s = s"
proof (induction s)
  case Nil
  then show ?case by (simp add: json_body.simps)
next
  case (Cons c s)
  then have c: "json_plain c" "plain_text s" by (simp_all add: plain_text_def)
  then have "code c < 128" by (simp add: json_plain_def)
  then show ?case using Cons.IH [OF c(2)] json_char_plain [OF c(1)] by (simp add: json_body.simps [of "c # s"])
qed

lemma json_str_body_plain: "plain_text s \<Longrightarrow> json_str_body (s @ byte 34 # r) = Some (s, r)"
proof (induction s)
  case Nil
  then show ?case by (simp add: json_str_body.simps)
next
  case (Cons c s)
  then have "json_plain c" "plain_text s" by (simp_all add: plain_text_def)
  then show ?case using Cons.IH by (simp add: json_str_body.simps json_plain_def)
qed

lemma skip_ws_id: "32 < code c \<Longrightarrow> skip_ws (c # s) = c # s"
  by (simp add: skip_ws_def)

lemma json_string_plain: "plain_text s \<Longrightarrow> json_string s @ r = byte 34 # s @ byte 34 # r"
  by (simp add: json_string_def json_body_plain)

lemma json_value_string:
  assumes "plain_text s"
  shows "json_value (Suc n) (json_string s @ r) = Some (JStr s, r)"
  using json_str_body_plain [OF assms] skip_ws_id [of "byte 34"]
  by (simp add: json_string_plain [OF assms])

lemma skip_ws_punct [simp]:
  "skip_ws (CHR '','' # s) = CHR '','' # s" "skip_ws (CHR '']'' # s) = CHR '']'' # s"
  "skip_ws (CHR '':'' # s) = CHR '':'' # s" "skip_ws (CHR ''}'' # s) = CHR ''}'' # s"
  "skip_ws (CHR ''['' # s) = CHR ''['' # s" "skip_ws (CHR ''{'' # s) = CHR ''{'' # s"
  "skip_ws [] = []"
  by (simp_all add: skip_ws_def)

lemma json_elems_list:
  assumes "ws \<noteq> []" "length ws < n"
    and "\<And>w k r. w \<in> set ws \<Longrightarrow> d \<le> k \<Longrightarrow> json_value k (enc w @ r) = Some (val w, r)"
    and "length ws + d \<le> n"
  shows "json_elems n (join_with '','' (map enc ws) @ CHR '']'' # r) = Some (map val ws, r)"
  using assms
proof (induction ws arbitrary: n)
  case Nil
  then show ?case by simp
next
  case (Cons w ws)
  then obtain m where n: "n = Suc m" by (cases n) auto
  have v: "json_value m (enc w @ r) = Some (val w, r)" for r
    using Cons.prems(3) [of w m] Cons.prems(4) n by simp
  show ?case
  proof (cases "ws = []")
    case True
    then show ?thesis using v by (simp add: n)
  next
    case False
    have "json_elems m (join_with '','' (map enc ws) @ CHR '']'' # r) = Some (map val ws, r)"
      by (rule Cons.IH [OF False]) (use Cons.prems n in auto)
    moreover have "join_with '','' (map enc (w # ws)) @ CHR '']'' # r =
        enc w @ CHR '','' # join_with '','' (map enc ws) @ CHR '']'' # r"
      using False by (simp add: join_with_Cons)
    ultimately show ?thesis using v by (simp add: n)
  qed
qed

lemma join_with_length: "length ws \<le> Suc (length (join_with '','' ws))"
  by (induction ws rule: induct_list012) auto

lemma those_map_Some [simp]: "those (map Some xs) = Some xs"
  by (induction xs) auto

lemma unmarshal_marshal_strings:
  assumes "list_all plain_text ws"
  shows "unmarshal_strings (marshal_strings ws) = Some ws"
proof (cases "ws = []")
  case True
  have "json_document ''null'' = Some JNull" by code_simp
  with True show ?thesis by (simp add: unmarshal_strings_def marshal_strings_def)
next
  case False
  define t where "t = join_with '','' (map json_string ws) @ '']''"
  have len: "length ws \<le> length t"
    using join_with_length [of "map json_string ws"] by (simp add: t_def)
  define m where "m = 2 * length t + 3"
  have fuel: "2 * length (CHR ''['' # t) + 2 = Suc m" by (simp add: m_def)
  have "json_elems m (join_with '','' (map json_string ws) @ CHR '']'' # []) = Some (map JStr ws, [])"
  proof (rule json_elems_list [OF False, where d = 1])
    fix w k r assume "w \<in> set ws" "1 \<le> (k::nat)"
    then show "json_value k (json_string w @ r) = Some (JStr w, r)"
      using assms json_value_string by (cases k) (auto simp: list_all_iff)
  qed (use len in \<open>auto simp: m_def\<close>)
  then have el: "json_elems m t = Some (map JStr ws, [])" unfolding t_def .
  obtain u where u: "t = byte 34 # u"
    using False by (cases ws; cases "tl ws") (auto simp: t_def json_string_def)
  then have "skip_ws t = byte 34 # u" using skip_ws_id [of "byte 34" u] by simp
  moreover have "byte 34 \<noteq> CHR '']''" by code_simp
  ultimately have "json_value (Suc m) (CHR ''['' # t) = Some (JArr (map JStr ws), [])"
    using el by simp
  then have "json_document (CHR ''['' # t) = Some (JArr (map JStr ws))"
    unfolding json_document_def fuel by simp
  moreover have "marshal_strings ws = CHR ''['' # t" using False by (simp add: marshal_strings_def t_def)
  moreover have "map string_elem (map JStr ws) = map Some ws" by (simp add: string_elem_def)
  ultimately show ?thesis by (simp add: unmarshal_strings_def del: map_map)
qed

interpretation json_strings: text_codec marshal_strings unmarshal_strings "list_all plain_text"
  by unfold_locales (rule unmarshal_marshal_strings)

definition plain_candidate :: "AgentCandidate \<Rightarrow> bool" where
  "plain_candidate c \<longleftrightarrow> plain_text (ac_Endpoint c) \<and> plain_text (ac_Type c)"

lemma plain_names: "plain_text ''endpoint''" "plain_text ''type''" "ToLower ''endpoint'' = ''endpoint''"
  "ToLower ''type'' = ''type''"
  by code_simp+

definition candidate_json :: "AgentCandidate \<Rightarrow> jval" where
  "candidate_json c = JObj [(''endpoint'', JStr (ac_Endpoint c)), (''type'', JStr (ac_Type c))]"

lemma quote_punct: "byte 34 \<noteq> CHR ''}''" "byte 34 \<noteq> CHR '']''"
  by code_simp+

lemma json_members_last:
  assumes "plain_text k" "plain_text w"
  shows "json_members (Suc (Suc n)) (json_string k @ CHR '':'' # json_string w @ CHR ''}'' # r) = Some ([(k, JStr w)], r)"
  using json_value_string [OF assms(2), of n] json_str_body_plain [OF assms(1)]
  by (simp add: json_string_plain [OF assms(1)] skip_ws_id)

lemma json_members_more:
  assumes "plain_text k" "plain_text w"
  shows "json_members (Suc (Suc n)) (json_string k @ CHR '':'' # json_string w @ CHR '','' # r) =
    map_option (\<lambda>(ms, rest). ((k, JStr w) # ms, rest)) (json_members (Suc n) r)"
  using json_value_string [OF assms(2), of n] json_str_body_plain [OF assms(1)]
  by (simp add: json_string_plain [OF assms(1)] skip_ws_id del: json_value.simps)

lemma json_value_candidate:
  assumes "plain_candidate c" "4 \<le> k"
  shows "json_value k (json_candidate c @ r) = Some (candidate_json c, r)"
proof -
  obtain n where n: "k = Suc (Suc (Suc (Suc n)))"
    using assms(2) by (metis add_2_eq_Suc le_Suc_ex numeral_Bit0 plus_nat.simps(2) add_2_eq_Suc')
  have p: "plain_text (ac_Endpoint c)" "plain_text (ac_Type c)" using assms(1) by (simp_all add: plain_candidate_def)
  let ?rest = "json_string ''type'' @ CHR '':'' # json_string (ac_Type c) @ CHR ''}'' # r"
  let ?body = "json_string ''endpoint'' @ CHR '':'' # json_string (ac_Endpoint c) @ CHR '','' # ?rest"
  have m: "json_members (Suc (Suc (Suc n))) ?body =
      Some ([(''endpoint'', JStr (ac_Endpoint c)), (''type'', JStr (ac_Type c))], r)"
    unfolding json_members_more [OF plain_names(1) p(1)] json_members_last [OF plain_names(2) p(2)] by simp
  have eq: "json_candidate c @ r = CHR ''{'' # ?body" by (simp add: json_candidate_def)
  obtain u where u: "?body = byte 34 # u" by (simp add: json_string_def)
  then have "skip_ws ?body = byte 34 # u" using skip_ws_id [of "byte 34" u] by simp
  then show ?thesis
    unfolding n eq json_value.simps using m quote_punct by (simp add: candidate_json_def del: json_members.simps)
qed

lemma candidate_elem_json: "candidate_elem (candidate_json c) = Some c"
  using plain_names by (simp add: candidate_elem_def candidate_json_def)

lemma unmarshal_marshal_candidates:
  assumes "list_all plain_candidate cs"
  shows "unmarshal_candidates (marshal_candidates cs) = Some cs"
proof (cases "cs = []")
  case True
  have "json_document ''[]'' = Some (JArr [])" by code_simp
  with True show ?thesis by (simp add: unmarshal_candidates_def marshal_candidates_def)
next
  case False
  define t where "t = join_with '','' (map json_candidate cs) @ '']''"
  have len: "length cs \<le> length t" "1 \<le> length t"
    using join_with_length [of "map json_candidate cs"] by (simp_all add: t_def)
  define m where "m = 2 * length t + 3"
  have fuel: "2 * length (CHR ''['' # t) + 2 = Suc m" by (simp add: m_def)
  have "json_elems m (join_with '','' (map json_candidate cs) @ CHR '']'' # []) = Some (map candidate_json cs, [])"
  proof (rule json_elems_list [OF False, where d = 4])
    fix w k r assume "w \<in> set cs" "4 \<le> (k::nat)"
    then show "json_value k (json_candidate w @ r) = Some (candidate_json w, r)"
      using assms json_value_candidate by (auto simp: list_all_iff)
  qed (use len in \<open>auto simp: m_def\<close>)
  then have el: "json_elems m t = Some (map candidate_json cs, [])" unfolding t_def .
  obtain u where "t = CHR ''{'' # u"
    using False by (cases cs; cases "tl cs") (auto simp: t_def json_candidate_def)
  then have "json_value (Suc m) (CHR ''['' # t) = Some (JArr (map candidate_json cs), [])"
    using el by simp
  then have "json_document (CHR ''['' # t) = Some (JArr (map candidate_json cs))"
    unfolding json_document_def fuel by simp
  moreover have "marshal_candidates cs = CHR ''['' # t" by (simp add: marshal_candidates_def t_def)
  moreover have "map candidate_elem (map candidate_json cs) = map Some cs" by (simp add: candidate_elem_json)
  ultimately show ?thesis by (simp add: unmarshal_candidates_def del: map_map)
qed

interpretation json_candidates: text_codec marshal_candidates unmarshal_candidates "list_all plain_candidate"
  by unfold_locales (rule unmarshal_marshal_candidates)

end
