(* ===== verification/Dns.thy ===== *)
theory Dns
  imports NetworkMigration Json
begin

section \<open>DNS settings\<close>

text \<open>
  dns.go: normalisation and validation of the mesh's DNS configuration and its storage in
  the settings table, the two lists as JSON. A list that is empty after normalisation is a
  nil slice.
\<close>

record DNSConfig =
  dc_Enabled :: bool
  dc_MagicDNS :: bool
  dc_Domain :: string
  dc_Nameservers :: "string list"
  dc_SearchDomains :: "string list"

definition normalizeDomain :: "string \<Rightarrow> string" where
  "normalizeDomain s = TrimSuffix (TrimSpace (ToLower s)) ''.''"

definition label_char :: "char \<Rightarrow> bool" where
  "label_char c \<longleftrightarrow> 97 \<le> code c \<and> code c \<le> 122 \<or> 48 \<le> code c \<and> code c \<le> 57 \<or> c = CHR ''-''"

definition label_ok :: "string \<Rightarrow> bool" where
  "label_ok l \<longleftrightarrow> l \<noteq> [] \<and> length l \<le> 63 \<and> hd l \<noteq> CHR ''-'' \<and> last l \<noteq> CHR ''-'' \<and> list_all label_char l"

definition validateDomain :: "string \<Rightarrow> store_error + unit" where
  "validateDomain domain =
     (if length domain > 253 then Inl (ErrMsg ''domain is too long'')
      else ensureE (list_all label_ok (split_on CHR ''.'' domain)) (ErrMsg ''domain is not a valid DNS name'') (Inr ()))"

definition add_nameserver :: "string \<Rightarrow> string list \<Rightarrow> store_error + string list" where
  "add_nameserver raw acc =
     (let ns = TrimSpace raw
      in if ns = [] then Inr acc
         else (case ParseAddr ns of
                 None \<Rightarrow> Inl (ErrMsg ''nameserver must be an IP address'')
               | Some a \<Rightarrow> Inr (if addr_String a \<in> set acc then acc else acc @ [addr_String a])))"

definition add_search :: "string \<Rightarrow> string list \<Rightarrow> store_error + string list" where
  "add_search raw acc =
     (let domain = normalizeDomain raw
      in if domain = [] then Inr acc
         else bindE (validateDomain domain) (\<lambda>_. Inr (if domain \<in> set acc then acc else acc @ [domain])))"

definition NormalizeDNSConfig :: "DNSConfig \<Rightarrow> store_error + DNSConfig" where
  "NormalizeDNSConfig cfg =
     (let trimmed = normalizeDomain (dc_Domain cfg);
          domain = (if trimmed = [] then ''vpn'' else trimmed)
      in bindE (validateDomain domain) (\<lambda>_.
         bindE (foldE add_nameserver (dc_Nameservers cfg) []) (\<lambda>nameservers.
         bindE (foldE add_search (dc_SearchDomains cfg) []) (\<lambda>search.
           let search' = (if dc_Enabled cfg \<and> dc_MagicDNS cfg \<and> domain \<noteq> [] \<and> domain \<notin> set search
                          then domain # search else search)
           in if dc_Enabled cfg \<and> nameservers = []
              then Inl (ErrMsg ''at least one nameserver is required when DNS is enabled'')
              else Inr (cfg\<lparr>dc_Domain := domain, dc_Nameservers := nameservers, dc_SearchDomains := search'\<rparr>)))))"

definition load_list :: "string option \<Rightarrow> store_error + string list" where
  "load_list v =
     (case v of
        None \<Rightarrow> Inr []
      | Some t \<Rightarrow> (case unmarshal_strings t of None \<Rightarrow> Inl (ErrMsg ''parse dns setting'') | Some ws \<Rightarrow> Inr ws))"

definition loadDNSConfig :: "db \<Rightarrow> store_error + DNSConfig" where
  "loadDNSConfig d =
     bindE (load_list (settings d ''dns_nameservers'')) (\<lambda>nameservers.
     bindE (load_list (settings d ''dns_search_domains'')) (\<lambda>search.
       NormalizeDNSConfig
         \<lparr>dc_Enabled = (settings d ''dns_enabled'' = Some ''true''),
          dc_MagicDNS = (settings d ''dns_magic'' \<noteq> Some ''false''),
          dc_Domain = coalesce (settings d ''dns_domain'') ''vpn'',
          dc_Nameservers = nameservers, dc_SearchDomains = search\<rparr>))"

definition show_bool :: "bool \<Rightarrow> string" where
  "show_bool b = (if b then ''true'' else ''false'')"

definition saveDNSConfig :: "DNSConfig \<Rightarrow> db \<Rightarrow> db" where
  "saveDNSConfig cfg d =
     upsertSetting ''dns_search_domains'' (marshal_strings (dc_SearchDomains cfg))
     (upsertSetting ''dns_nameservers'' (marshal_strings (dc_Nameservers cfg))
     (upsertSetting ''dns_domain'' (dc_Domain cfg)
     (upsertSetting ''dns_magic'' (show_bool (dc_MagicDNS cfg))
     (upsertSetting ''dns_enabled'' (show_bool (dc_Enabled cfg)) d))))"

definition settingExists :: "string \<Rightarrow> db \<Rightarrow> bool" where
  "settingExists key d \<longleftrightarrow> settings d key \<noteq> None"

definition LoadOrInitDNSConfig :: "DNSConfig \<Rightarrow> store \<Rightarrow> store_error + store \<times> DNSConfig" where
  "LoadOrInitDNSConfig defaults s =
     (let d = st_db s
      in bindE (loadDNSConfig d) (\<lambda>cfg.
         let cfg1 = (if dc_Domain cfg = [] then cfg\<lparr>dc_Domain := dc_Domain defaults\<rparr> else cfg);
             cfg2 = (if dc_Nameservers cfg1 = [] then cfg1\<lparr>dc_Nameservers := dc_Nameservers defaults\<rparr> else cfg1);
             cfg3 = (if dc_SearchDomains cfg2 = [] then cfg2\<lparr>dc_SearchDomains := dc_SearchDomains defaults\<rparr> else cfg2);
             cfg4 = (if \<not> settingExists ''dns_enabled'' d then cfg3\<lparr>dc_Enabled := dc_Enabled defaults\<rparr> else cfg3);
             cfg5 = (if \<not> settingExists ''dns_magic'' d then cfg4\<lparr>dc_MagicDNS := dc_MagicDNS defaults\<rparr> else cfg4)
         in bindE (NormalizeDNSConfig cfg5) (\<lambda>cfg6.
              Inr (s\<lparr>st_db := saveDNSConfig cfg6 d\<rparr>, cfg6))))"

definition CurrentDNSConfig :: "store \<Rightarrow> store_error + DNSConfig" where
  "CurrentDNSConfig s = loadDNSConfig (st_db s)"

definition UpdateDNSConfig :: "DNSConfig \<Rightarrow> store \<Rightarrow> store_error + store \<times> DNSConfig" where
  "UpdateDNSConfig cfg s =
     bindE (NormalizeDNSConfig cfg) (\<lambda>cfg'. Inr (s\<lparr>st_db := saveDNSConfig cfg' (st_db s)\<rparr>, cfg'))"

subsection \<open>Normal forms\<close>

definition domain_ok :: "string \<Rightarrow> bool" where
  "domain_ok domain \<longleftrightarrow> length domain \<le> 253 \<and> list_all label_ok (split_on CHR ''.'' domain)"

lemma validateDomain_iff: "validateDomain t = Inr u \<longleftrightarrow> domain_ok t"
  by (cases u) (auto simp: validateDomain_def domain_ok_def ensureE_def)

lemma validateDomain_ok [simp]: "domain_ok t \<Longrightarrow> validateDomain t = Inr ()"
  by (simp add: validateDomain_iff)

lemma split_on_join: "join_with [c] (split_on c s) = s"
proof (induction s)
  case (Cons x s)
  then show ?case by (cases "split_on c s"; cases "tl (split_on c s)") auto
qed simp

lemma join_chars: "set (join_with [c] ws) \<subseteq> insert c (\<Union> (set ` set ws))"
  by (induction ws rule: induct_list012) auto

lemma domain_chars:
  assumes "domain_ok t"
  shows "list_all (\<lambda>c. label_char c \<or> c = CHR ''.'') t"
proof -
  have "set t \<subseteq> insert CHR ''.'' (\<Union> (set ` set (split_on CHR ''.'' t)))"
    using join_chars [of "CHR ''.''" "split_on CHR ''.'' t"] by (simp add: split_on_join)
  then show ?thesis
    using assms unfolding domain_ok_def list_all_iff label_ok_def by blast
qed

lemma domain_ne: "domain_ok t \<Longrightarrow> t \<noteq> []"
  by (auto simp: domain_ok_def label_ok_def)

lemma split_on_snoc: "split_on c (s @ [c]) = split_on c s @ [[]]"
  by (induction s) (auto split: list.split)

lemma domain_no_final_dot:
  assumes "domain_ok t"
  shows "last t \<noteq> CHR ''.''"
proof
  assume l: "last t = CHR ''.''"
  then have "t = butlast t @ [CHR ''.'']" using domain_ne [OF assms] append_butlast_last_id by metis
  then have "[] \<in> set (split_on CHR ''.'' t)"
    using split_on_snoc [of "CHR ''.''" "butlast t"] by (metis in_set_conv_decomp)
  with assms show False by (auto simp: domain_ok_def list_all_iff label_ok_def)
qed

lemma normalizeDomain_fixed:
  assumes "domain_ok t"
  shows "normalizeDomain t = t"
proof -
  have c: "label_char c \<or> c = CHR ''.''" if "c \<in> set t" for c
    using domain_chars [OF assms] that by (simp add: list_all_iff)
  have low: "ToLower t = t"
  proof (rule ToLower_id)
    show "list_all (\<lambda>c. code c < 128 \<and> \<not> (65 \<le> code c \<and> code c \<le> 90)) t"
      unfolding list_all_iff by (auto simp: label_char_def dest!: c)
  qed
  have "TrimSpace t = t"
  proof (rule TrimSpace_visible)
    show "list_all visible_char t"
      unfolding list_all_iff visible_char_def by (auto simp: label_char_def dest!: c)
  qed
  moreover have "drop (length t - 1) t = [last t]"
    using domain_ne [OF assms] by (metis append_butlast_last_id append_eq_conv_conj length_butlast)
  ultimately show ?thesis
    using low domain_no_final_dot [OF assms] by (simp add: normalizeDomain_def TrimSuffix_def)
qed

definition zone_free :: "string \<Rightarrow> bool" where
  "zone_free t \<longleftrightarrow> CHR ''%'' \<notin> set t"

lemma ParseAddr_valid: "ParseAddr t = Some a \<Longrightarrow> addr_IsValid a"
  by (auto simp: ParseAddr_def parse6_def Let_def split: option.splits if_splits)

lemma zone_free_chars:
  assumes "addr_IsValid a" "zone_free (addr_String a)"
  shows "list_all addr_char (addr_String a)"
  using assms addr_char_print4 addr_char_print6
  by (cases a) (auto simp: zone_free_def addr_String_V6 simp del: addr_String.simps(3) split: if_splits)

lemma addr_char_codes: "addr_char c \<Longrightarrow> visible_char c \<and> json_plain c"
  by (auto simp: addr_char_def is_hex_def hex_val1_def visible_char_def json_plain_def split: if_splits)

text \<open>A nameserver as the normalisation stores it.\<close>

definition ns_ok :: "string \<Rightarrow> bool" where
  "ns_ok t \<longleftrightarrow> TrimSpace t = t \<and> t \<noteq> [] \<and> map_option addr_String (ParseAddr t) = Some t \<and> plain_text t"

lemma ns_ok_addr:
  assumes "addr_IsValid a" "zone_free (addr_String a)"
  shows "ns_ok (addr_String a)"
proof -
  have c: "list_all addr_char (addr_String a)" by (rule zone_free_chars [OF assms])
  have p: "ParseAddr (addr_String a) = Some a" by (rule addr_text.parse_print [OF assms(1)])
  then have "addr_String a \<noteq> []" by (auto simp: ParseAddr_def)
  with c p show ?thesis
    unfolding ns_ok_def plain_text_def
    using TrimSpace_visible addr_char_codes by (auto simp: list_all_iff)
qed

lemma foldE_dedup:
  assumes "distinct (acc @ ts)" "\<And>x acc. x \<in> set ts \<Longrightarrow> f x acc = Inr (if x \<in> set acc then acc else acc @ [x])"
  shows "foldE f ts acc = Inr (acc @ ts)"
  using assms
proof (induction ts arbitrary: acc)
  case (Cons t ts)
  from Cons.prems have "f t acc = Inr (acc @ [t])" by simp
  moreover have "foldE f ts (acc @ [t]) = Inr ((acc @ [t]) @ ts)"
    by (rule Cons.IH) (use Cons.prems in auto)
  ultimately show ?case by simp
qed simp

lemma nameservers_normal:
  assumes "foldE add_nameserver raws [] = Inr out"
  shows "distinct out \<and> (\<forall>t \<in> set out. \<exists>a. addr_IsValid a \<and> t = addr_String a)"
proof (rule foldE_invariant [OF assms])
  fix x acc acc'
  assume "distinct acc \<and> (\<forall>t \<in> set acc. \<exists>a. addr_IsValid a \<and> t = addr_String a)" "add_nameserver x acc = Inr acc'"
  then show "distinct acc' \<and> (\<forall>t \<in> set acc'. \<exists>a. addr_IsValid a \<and> t = addr_String a)"
    using ParseAddr_valid by (fastforce simp: add_nameserver_def Let_def split: if_splits option.splits)
qed simp

lemma nameservers_fixed:
  assumes "distinct ts" "list_all ns_ok ts"
  shows "foldE add_nameserver ts [] = Inr ts"
proof -
  have "foldE add_nameserver ts [] = Inr ([] @ ts)"
  proof (rule foldE_dedup)
    fix x acc assume "x \<in> set ts"
    then have "ns_ok x" using assms(2) by (simp add: list_all_iff)
    then show "add_nameserver x acc = Inr (if x \<in> set acc then acc else acc @ [x])"
      by (auto simp: ns_ok_def add_nameserver_def Let_def split: option.splits)
  qed (use assms(1) in simp)
  then show ?thesis by simp
qed

lemma search_normal:
  assumes "foldE add_search raws [] = Inr out"
  shows "distinct out \<and> list_all domain_ok out"
  by (rule foldE_invariant [OF assms])
    (auto simp: add_search_def Let_def bindE_eq_Inr validateDomain_iff split: if_splits)

lemma search_fixed:
  assumes "distinct ts" "list_all domain_ok ts"
  shows "foldE add_search ts [] = Inr ts"
proof -
  have "foldE add_search ts [] = Inr ([] @ ts)"
  proof (rule foldE_dedup)
    fix x acc assume "x \<in> set ts"
    then have x: "domain_ok x" using assms(2) by (simp add: list_all_iff)
    then show "add_search x acc = Inr (if x \<in> set acc then acc else acc @ [x])"
      using x domain_ne [OF x] by (simp add: add_search_def normalizeDomain_fixed Let_def)
  qed (use assms(1) in simp)
  then show ?thesis by simp
qed

definition dns_normal :: "DNSConfig \<Rightarrow> bool" where
  "dns_normal c \<longleftrightarrow>
     domain_ok (dc_Domain c) \<and> distinct (dc_Nameservers c) \<and> distinct (dc_SearchDomains c) \<and>
     list_all domain_ok (dc_SearchDomains c) \<and> (dc_Enabled c \<longrightarrow> dc_Nameservers c \<noteq> []) \<and>
     (dc_Enabled c \<and> dc_MagicDNS c \<longrightarrow> dc_Domain c \<in> set (dc_SearchDomains c))"

lemma Normalize_normal:
  assumes "NormalizeDNSConfig cfg = Inr c"
  shows "dns_normal c \<and> (\<forall>t \<in> set (dc_Nameservers c). \<exists>a. addr_IsValid a \<and> t = addr_String a)"
proof -
  define domain where "domain = (if normalizeDomain (dc_Domain cfg) = [] then ''vpn'' else normalizeDomain (dc_Domain cfg))"
  from assms obtain ns se where f: "validateDomain domain = Inr ()" "foldE add_nameserver (dc_Nameservers cfg) [] = Inr ns"
    "foldE add_search (dc_SearchDomains cfg) [] = Inr se" "\<not> (dc_Enabled cfg \<and> ns = [])"
    and c: "c = cfg\<lparr>dc_Domain := domain, dc_Nameservers := ns,
      dc_SearchDomains := (if dc_Enabled cfg \<and> dc_MagicDNS cfg \<and> domain \<noteq> [] \<and> domain \<notin> set se then domain # se else se)\<rparr>"
    unfolding NormalizeDNSConfig_def Let_def domain_def [symmetric] by (auto simp: bindE_eq_Inr split: if_splits)
  have d: "domain_ok domain" using f(1) by (simp add: validateDomain_iff)
  show ?thesis
    using nameservers_normal [OF f(2)] search_normal [OF f(3)] d domain_ne [OF d] f(4)
    by (auto simp: dns_normal_def c)
qed

lemma Normalize_fixed:
  assumes "dns_normal c" "list_all ns_ok (dc_Nameservers c)"
  shows "NormalizeDNSConfig c = Inr c"
proof -
  have d: "domain_ok (dc_Domain c)" using assms(1) by (simp add: dns_normal_def)
  show ?thesis
    using assms nameservers_fixed [of "dc_Nameservers c"] search_fixed [of "dc_SearchDomains c"]
    by (auto simp: NormalizeDNSConfig_def dns_normal_def Let_def normalizeDomain_fixed [OF d] domain_ne [OF d])
qed

lemma plain_domains: "list_all domain_ok ts \<Longrightarrow> list_all plain_text ts"
proof -
  have "json_plain c" if "label_char c \<or> c = CHR ''.''" for c
    using that by (auto simp: label_char_def json_plain_def)
  then have "plain_text t" if "domain_ok t" for t
    using domain_chars [OF that] unfolding plain_text_def list_all_iff by blast
  then show "list_all domain_ok ts \<Longrightarrow> list_all plain_text ts" unfolding list_all_iff by blast
qed

subsection \<open>Storage\<close>

lemma upsertSetting_settings [simp]: "settings (upsertSetting k v d) = (settings d)(k \<mapsto> v)"
  by (simp add: upsertSetting_def)

lemma load_saved:
  assumes "list_all plain_text (dc_Nameservers c)" "list_all plain_text (dc_SearchDomains c)"
  shows "loadDNSConfig (saveDNSConfig c d) = NormalizeDNSConfig c"
proof -
  have "load_list (Some (marshal_strings (dc_Nameservers c))) = Inr (dc_Nameservers c)"
    "load_list (Some (marshal_strings (dc_SearchDomains c))) = Inr (dc_SearchDomains c)"
    using assms by (simp_all add: load_list_def json_strings.parse_print)
  then show ?thesis
    by (cases c) (simp add: loadDNSConfig_def saveDNSConfig_def show_bool_def)
qed

lemma save_inv: "store_inv s \<Longrightarrow> store_inv (s\<lparr>st_db := saveDNSConfig c (st_db s)\<rparr>)"
  by (simp add: store_inv_def nets_ok_def db_inv_def refs_inv_def Let_def saveDNSConfig_def upsertSetting_def)

lemma UpdateDNSConfig_inv:
  assumes "store_inv s" "UpdateDNSConfig cfg s = Inr (s', c)"
  shows "store_inv s'"
  using assms save_inv by (auto simp: UpdateDNSConfig_def bindE_eq_Inr)

lemma LoadOrInitDNSConfig_inv:
  assumes "store_inv s" "LoadOrInitDNSConfig defaults s = Inr (s', c)"
  shows "store_inv s'"
  using assms save_inv by (auto simp: LoadOrInitDNSConfig_def Let_def bindE_eq_Inr)

lemma normal_nameservers:
  assumes "NormalizeDNSConfig cfg = Inr c" "list_all zone_free (dc_Nameservers c)"
  shows "list_all ns_ok (dc_Nameservers c)"
  unfolding list_all_iff
proof
  fix t assume t: "t \<in> set (dc_Nameservers c)"
  then obtain a where "addr_IsValid a" "t = addr_String a" using Normalize_normal [OF assms(1)] by blast
  moreover have "zone_free t" using assms(2) t by (simp add: list_all_iff)
  ultimately show "ns_ok t" using ns_ok_addr by simp
qed

subsection \<open>Properties\<close>

text \<open>
  Normalising a DNS configuration yields a valid one: a valid domain, distinct canonical
  nameservers (at least one when DNS is enabled), distinct valid search domains that include
  the mesh domain when names are resolved by it; normalising the result again, its
  nameservers having no IPv6 zone, changes nothing.
\<close>

theorem NormalizeDNSConfig_normal_form:
  assumes "NormalizeDNSConfig cfg = Inr c" "list_all zone_free (dc_Nameservers c)"
  shows "dns_normal c \<and> list_all ns_ok (dc_Nameservers c) \<and> NormalizeDNSConfig c = Inr c"
  using Normalize_normal [OF assms(1)] normal_nameservers [OF assms] Normalize_fixed by blast

definition demo_dns :: DNSConfig where
  "demo_dns = \<lparr>dc_Enabled = True, dc_MagicDNS = True, dc_Domain = '' Corp.VPN. '',
     dc_Nameservers = [''10.0.0.1'', '' 10.0.0.1 '', ''10.0.0.2''], dc_SearchDomains = [''svc'']\<rparr>"

definition demo_dns_normal :: DNSConfig where
  "demo_dns_normal = \<lparr>dc_Enabled = True, dc_MagicDNS = True, dc_Domain = ''corp.vpn'',
     dc_Nameservers = [''10.0.0.1'', ''10.0.0.2''], dc_SearchDomains = [''corp.vpn'', ''svc'']\<rparr>"

lemma demo_dns_eq: "NormalizeDNSConfig demo_dns = Inr demo_dns_normal"
  by code_simp

theorem NormalizeDNSConfig_normal_form_witness:
  "dns_normal demo_dns_normal \<and> NormalizeDNSConfig demo_dns_normal = Inr demo_dns_normal"
proof -
  have z: "list_all zone_free (dc_Nameservers demo_dns_normal)" by code_simp
  show ?thesis using NormalizeDNSConfig_normal_form [OF demo_dns_eq z] by blast
qed

text \<open>
  What \<open>UpdateDNSConfig\<close> returns is what every later read gives: with nameservers
  that have no IPv6 zone, \<open>CurrentDNSConfig\<close> returns the stored configuration, and a
  restart keeps it whatever the startup flags are.
\<close>

theorem UpdateDNSConfig_persists:
  assumes "UpdateDNSConfig cfg s = Inr (s', c)" "list_all zone_free (dc_Nameservers c)"
  shows "CurrentDNSConfig s' = Inr c \<and>
    (dc_Nameservers c \<noteq> [] \<and> dc_SearchDomains c \<noteq> [] \<longrightarrow>
     map_sum id snd (LoadOrInitDNSConfig defaults s') = Inr c)"
proof -
  from assms(1) have n: "NormalizeDNSConfig cfg = Inr c" and s': "s' = s\<lparr>st_db := saveDNSConfig c (st_db s)\<rparr>"
    by (auto simp: UpdateDNSConfig_def bindE_eq_Inr)
  have ns: "list_all ns_ok (dc_Nameservers c)" by (rule normal_nameservers [OF n assms(2)])
  have dn: "dns_normal c" using Normalize_normal [OF n] by blast
  have fixed: "NormalizeDNSConfig c = Inr c" by (rule Normalize_fixed [OF dn ns])
  have "list_all plain_text (dc_Nameservers c)" using ns by (simp add: list_all_iff ns_ok_def)
  moreover have "list_all plain_text (dc_SearchDomains c)"
    using dn plain_domains by (simp add: dns_normal_def)
  ultimately have l: "loadDNSConfig (saveDNSConfig c (st_db s)) = Inr c"
    using load_saved fixed by simp
  have "dc_Domain c \<noteq> []" using dn domain_ne by (simp add: dns_normal_def)
  then show ?thesis
    using l fixed
    by (auto simp: CurrentDNSConfig_def s' LoadOrInitDNSConfig_def Let_def settingExists_def saveDNSConfig_def)
qed

theorem UpdateDNSConfig_persists_witness:
  "\<exists>s'. UpdateDNSConfig demo_dns demo_store = Inr (s', demo_dns_normal) \<and>
     CurrentDNSConfig s' = Inr demo_dns_normal"
proof -
  obtain s' where s': "UpdateDNSConfig demo_dns demo_store = Inr (s', demo_dns_normal)"
    by (simp add: UpdateDNSConfig_def demo_dns_eq)
  have z: "list_all zone_free (dc_Nameservers demo_dns_normal)" by code_simp
  show ?thesis using UpdateDNSConfig_persists [OF s' z] s' by blast
qed

text \<open>
  C26: on a database without DNS settings the configured default domain is never used: the
  first start stores the domain \<open>vpn\<close> for every value of the flag, because loading
  already fills the domain in before the default is considered.
\<close>

theorem LoadOrInitDNSConfig_ignores_default_domain:
  assumes "settings (st_db s) ''dns_domain'' = None" "LoadOrInitDNSConfig defaults s = Inr (s', c)"
  shows "dc_Domain c = ''vpn'' \<and> settings (st_db s') ''dns_domain'' = Some ''vpn''"
proof -
  have v: "normalizeDomain ''vpn'' = ''vpn''" by code_simp
  have dom: "dc_Domain x = (if normalizeDomain (dc_Domain cfg) = [] then ''vpn'' else normalizeDomain (dc_Domain cfg))"
    if "NormalizeDNSConfig cfg = Inr x" for cfg x
    using that by (auto simp: NormalizeDNSConfig_def Let_def bindE_eq_Inr split: if_splits)
  from assms(2) obtain cfg cfg5 where l: "loadDNSConfig (st_db s) = Inr cfg" and n: "NormalizeDNSConfig cfg5 = Inr c"
    and d5: "dc_Domain cfg \<noteq> [] \<Longrightarrow> dc_Domain cfg5 = dc_Domain cfg" and s': "s' = s\<lparr>st_db := saveDNSConfig c (st_db s)\<rparr>"
    by (auto simp: LoadOrInitDNSConfig_def Let_def bindE_eq_Inr)
  have "dc_Domain cfg = ''vpn''"
    using l assms(1) v by (auto simp: loadDNSConfig_def bindE_eq_Inr dest!: dom)
  then have "dc_Domain c = ''vpn''" using dom [OF n] d5 v by simp
  then show ?thesis by (simp add: s' saveDNSConfig_def)
qed

theorem LoadOrInitDNSConfig_ignores_default_domain_witness:
  "\<exists>s' c. LoadOrInitDNSConfig (demo_dns\<lparr>dc_Domain := ''corp''\<rparr>) demo_store = Inr (s', c) \<and> dc_Domain c = ''vpn''"
proof -
  let ?cfg = "\<lparr>dc_Enabled = False, dc_MagicDNS = True, dc_Domain = ''vpn'', dc_Nameservers = [], dc_SearchDomains = []\<rparr>"
  have e: "NormalizeDNSConfig ?cfg = Inr ?cfg"
    "NormalizeDNSConfig (demo_dns\<lparr>dc_Domain := ''vpn''\<rparr>) = Inr (demo_dns_normal\<lparr>dc_Domain := ''vpn'', dc_SearchDomains := [''vpn'', ''svc'']\<rparr>)"
    by code_simp+
  have n: "settings (st_db demo_store) k = None" for k by (simp add: demo_store_def empty_db_def)
  have "loadDNSConfig (st_db demo_store) = Inr ?cfg" using e(1) by (simp add: loadDNSConfig_def load_list_def n)
  moreover have "\<lparr>dc_Enabled = dc_Enabled demo_dns, dc_MagicDNS = dc_MagicDNS demo_dns, dc_Domain = ''vpn'',
      dc_Nameservers = dc_Nameservers demo_dns, dc_SearchDomains = dc_SearchDomains demo_dns\<rparr> = demo_dns\<lparr>dc_Domain := ''vpn''\<rparr>"
    by (simp add: demo_dns_def)
  ultimately obtain s' c where sc: "LoadOrInitDNSConfig (demo_dns\<lparr>dc_Domain := ''corp''\<rparr>) demo_store = Inr (s', c)"
    using e(2) by (simp add: LoadOrInitDNSConfig_def settingExists_def n)
  show ?thesis using LoadOrInitDNSConfig_ignores_default_domain [OF n sc] sc by blast
qed

end
