(* ===== verification/Acl.thy ===== *)
theory Acl
  imports PeerAdmin
begin

section \<open>ACL rules\<close>

text \<open>
  acl.go: the ALLOW rules of a default-deny mesh. A rule is normalised before it is stored
  (\<open>normalizeACLService\<close>), an import is one transaction that inserts every rule or none, and
  the rules decide who sees whom through \<open>listVisible\<close>.
\<close>

record ACLRule =
  ar_ID :: int
  ar_SrcPeerID :: "int option"
  ar_SrcLabel :: string
  ar_DstPeerID :: "int option"
  ar_DstLabel :: string
  ar_Name :: string
  ar_Protocol :: string
  ar_PortMin :: "int option"
  ar_PortMax :: "int option"
  ar_CreatedAt :: string

definition ACLRule_zero :: ACLRule where
  "ACLRule_zero = \<lparr>ar_ID = 0, ar_SrcPeerID = None, ar_SrcLabel = [], ar_DstPeerID = None,
     ar_DstLabel = [], ar_Name = [], ar_Protocol = [], ar_PortMin = None, ar_PortMax = None,
     ar_CreatedAt = []\<rparr>"

text \<open>
  The label of one side of a rule: a LEFT JOIN with peers, the hostname before the address,
  and \<open>any\<close> for a wildcard.
\<close>

definition rule_label :: "int option \<Rightarrow> db \<Rightarrow> string" where
  "rule_label v d =
     (case v of
        None \<Rightarrow> ''any''
      | Some i \<Rightarrow>
          (case peer_by_id i d of
             None \<Rightarrow> []
           | Some p \<Rightarrow> coalesce (or_else (p_hostname p) (Some (p_assigned_ip p))) []))"

definition scan_rule :: "db \<Rightarrow> acl_rule \<Rightarrow> ACLRule" where
  "scan_rule d r =
     \<lparr>ar_ID = r_id r, ar_SrcPeerID = r_src_peer_id r, ar_SrcLabel = rule_label (r_src_peer_id r) d,
      ar_DstPeerID = r_dst_peer_id r, ar_DstLabel = rule_label (r_dst_peer_id r) d,
      ar_Name = coalesce (r_name r) [], ar_Protocol = r_protocol r,
      ar_PortMin = r_port_min r, ar_PortMax = r_port_max r, ar_CreatedAt = r_created_at r\<rparr>"

definition ListACLRules :: "store \<Rightarrow> ACLRule list" where
  "ListACLRules s = map (scan_rule (st_db s)) (sort_key r_id (acl_rules (st_db s)))"

definition normalizeACLService ::
  "string \<Rightarrow> int option \<Rightarrow> int option \<Rightarrow> store_error + string \<times> int option \<times> int option" where
  "normalizeACLService protocol portMin portMax =
     (let trimmed = ToLower (TrimSpace protocol);
          proto = (if trimmed = [] then ''any'' else trimmed)
      in if proto \<notin> set [''any'', ''tcp'', ''udp'', ''icmp'', ''icmpv6'']
         then Inl (ErrMsg ''protocol must be any, tcp, udp, icmp, or icmpv6'')
         else if proto = ''icmp'' \<or> proto = ''icmpv6''
         then (if portMin \<noteq> None \<or> portMax \<noteq> None
               then Inl (ErrMsg (proto @ '' rules cannot specify ports''))
               else Inr (proto, None, None))
         else if portMin = None \<and> portMax = None then Inr (proto, None, None)
         else (let min0 = coalesce portMin 0;
                   max1 = (case portMax of Some m \<Rightarrow> m | None \<Rightarrow> min0);
                   min1 = (if portMin = None then max1 else min0)
               in if min1 < 1 \<or> min1 > 65535 \<or> max1 < 1 \<or> max1 > 65535 \<or> min1 > max1
                  then Inl (ErrMsg ''port range must be 1-65535 with min <= max'')
                  else Inr (proto, Some min1, Some max1)))"

definition insertACLRule :: "time \<Rightarrow> ACLRule \<Rightarrow> db \<Rightarrow> store_error + db \<times> int" where
  "insertACLRule now rule d =
     (let src = ar_SrcPeerID rule; dst = ar_DstPeerID rule; ids = map p_id (peers d)
      in if src \<noteq> None \<and> dst \<noteq> None \<and> src = dst
         then Inl (ErrMsg ''src and dst are the same peer'')
         else bindE (normalizeACLService (ar_Protocol rule) (ar_PortMin rule) (ar_PortMax rule))
           (\<lambda>(protocol, portMin, portMax).
             let i = next_rowid (map r_id (acl_rules d));
                 row = \<lparr>r_id = i, r_name = nullable (ar_Name rule), r_src_peer_id = src,
                        r_dst_peer_id = dst, r_protocol = protocol, r_port_min = portMin,
                        r_port_max = portMax, r_created_at = format_time now\<rparr>
             in ensureE (ref_ok ids src \<and> ref_ok ids dst) ErrConstraint
                  (Inr (d\<lparr>acl_rules := acl_rules d @ [row]\<rparr>, i))))"

definition CreateACLRuleDetailed :: "time \<Rightarrow> ACLRule \<Rightarrow> store \<Rightarrow> store_error + store \<times> int" where
  "CreateACLRuleDetailed now rule s =
     bindE (insertACLRule now rule (st_db s)) (\<lambda>(d, i). Inr (s\<lparr>st_db := d\<rparr>, i))"

definition CreateACLRule ::
  "time \<Rightarrow> int option \<Rightarrow> int option \<Rightarrow> store \<Rightarrow> store_error + store \<times> int" where
  "CreateACLRule now srcPeerID dstPeerID =
     CreateACLRuleDetailed now (ACLRule_zero\<lparr>ar_SrcPeerID := srcPeerID, ar_DstPeerID := dstPeerID,
       ar_Protocol := ''any''\<rparr>)"

definition ImportACLRules :: "time \<Rightarrow> ACLRule list \<Rightarrow> bool \<Rightarrow> store \<Rightarrow> store_error + store \<times> nat" where
  "ImportACLRules now rules replace s =
     (let d = (if replace then (st_db s)\<lparr>acl_rules := []\<rparr> else st_db s)
      in bindE (foldE (\<lambda>rule d. bindE (insertACLRule now rule d) (\<lambda>(d', _). Inr d')) rules d)
           (\<lambda>d'. Inr (s\<lparr>st_db := d'\<rparr>, length rules)))"

definition DeleteACLRule :: "int \<Rightarrow> store \<Rightarrow> store_error + store" where
  "DeleteACLRule i s =
     (let rules = acl_rules (st_db s)
      in if rows_affected (\<lambda>r. r_id r = i) rules = 0 then Inl ErrNotFound
         else Inr (s\<lparr>st_db := (st_db s)\<lparr>acl_rules := delete_where (\<lambda>r. r_id r = i) rules\<rparr>\<rparr>))"

subsection \<open>Normalisation\<close>

lemma service_keywords:
  assumes "p \<in> set [''any'', ''tcp'', ''udp'', ''icmp'', ''icmpv6'']"
  shows "ToLower (TrimSpace p) = p" "p \<noteq> []"
proof -
  have "list_all (\<lambda>p. ToLower (TrimSpace p) = p) [''any'', ''tcp'', ''udp'', ''icmp'', ''icmpv6'']"
    by code_simp
  then show "ToLower (TrimSpace p) = p" using assms unfolding list_all_iff by blast
  show "p \<noteq> []" using assms by auto
qed

text \<open>The port part of the normalisation, for a protocol that is already one of the five.\<close>

definition normal_ports :: "bool \<Rightarrow> int option \<Rightarrow> int option \<Rightarrow> (int option \<times> int option) option" where
  "normal_ports icmp lo hi =
     (case (lo, hi) of
        (None, None) \<Rightarrow> Some (None, None)
      | _ \<Rightarrow>
          let a = coalesce (or_else lo hi) 0; b = coalesce (or_else hi lo) 0
          in if \<not> icmp \<and> 1 \<le> a \<and> a \<le> b \<and> b \<le> 65535 then Some (Some a, Some b) else None)"

lemma normalize_eq:
  assumes "q = ToLower (TrimSpace proto)" "p = (if q = [] then ''any'' else q)"
  shows "normalizeACLService proto lo hi = Inr (p', a, b) \<longleftrightarrow>
    p' = p \<and> p \<in> set [''any'', ''tcp'', ''udp'', ''icmp'', ''icmpv6''] \<and>
    normal_ports (p = ''icmp'' \<or> p = ''icmpv6'') lo hi = Some (a, b)"
proof (cases "p \<in> set [''any'', ''tcp'', ''udp'', ''icmp'', ''icmpv6'']")
  case True
  then have "normalizeACLService proto lo hi =
    (if p = ''icmp'' \<or> p = ''icmpv6''
     then (if lo \<noteq> None \<or> hi \<noteq> None then Inl (ErrMsg (p @ '' rules cannot specify ports''))
           else Inr (p, None, None))
     else if lo = None \<and> hi = None then Inr (p, None, None)
     else (let min0 = coalesce lo 0;
               max1 = (case hi of Some m \<Rightarrow> m | None \<Rightarrow> min0);
               min1 = (if lo = None then max1 else min0)
           in if min1 < 1 \<or> min1 > 65535 \<or> max1 < 1 \<or> max1 > 65535 \<or> min1 > max1
              then Inl (ErrMsg ''port range must be 1-65535 with min <= max'')
              else Inr (p, Some min1, Some max1)))"
    unfolding normalizeACLService_def assms [symmetric] Let_def by (simp only: not_True_eq_False if_False)
  moreover define icmp where "icmp \<longleftrightarrow> p = ''icmp'' \<or> p = ''icmpv6''"
  ultimately show ?thesis
    unfolding icmp_def [symmetric] by (simp only: True) (cases lo; cases hi; cases icmp; auto simp: normal_ports_def Let_def)
next
  case False
  then show ?thesis unfolding normalizeACLService_def assms [symmetric] Let_def by (simp only: not_False_eq_True if_True) simp
qed

lemma service_ok_ports:
  "service_ok p a b \<longleftrightarrow> p \<in> set [''any'', ''tcp'', ''udp'', ''icmp'', ''icmpv6''] \<and>
     normal_ports (p = ''icmp'' \<or> p = ''icmpv6'') a b = Some (a, b)"
  unfolding service_ok_def normal_ports_def Let_def
  by (cases a; cases b) auto

lemma normal_ports_idem: "normal_ports i lo hi = Some (a, b) \<Longrightarrow> normal_ports i a b = Some (a, b)"
  by (cases lo; cases hi) (auto simp: normal_ports_def Let_def split: if_splits)

subsection \<open>Storing a rule\<close>

definition importable :: "int list \<Rightarrow> ACLRule \<Rightarrow> bool" where
  "importable ids rule \<longleftrightarrow>
     (ar_SrcPeerID rule = None \<or> ar_SrcPeerID rule \<noteq> ar_DstPeerID rule) \<and>
     ref_ok ids (ar_SrcPeerID rule) \<and> ref_ok ids (ar_DstPeerID rule) \<and>
     \<not> isl (normalizeACLService (ar_Protocol rule) (ar_PortMin rule) (ar_PortMax rule))"

definition rule_row :: "time \<Rightarrow> int \<Rightarrow> ACLRule \<Rightarrow> acl_rule" where
  "rule_row now i rule =
     (case projr (normalizeACLService (ar_Protocol rule) (ar_PortMin rule) (ar_PortMax rule)) of
        (protocol, lo, hi) \<Rightarrow>
          \<lparr>r_id = i, r_name = nullable (ar_Name rule), r_src_peer_id = ar_SrcPeerID rule,
           r_dst_peer_id = ar_DstPeerID rule, r_protocol = protocol, r_port_min = lo,
           r_port_max = hi, r_created_at = format_time now\<rparr>)"

fun rows_from :: "time \<Rightarrow> int \<Rightarrow> ACLRule list \<Rightarrow> acl_rule list" where
  "rows_from now i [] = []"
| "rows_from now i (rule # rules) = rule_row now i rule # rows_from now (i + 1) rules"

lemma rule_row_simps [simp]:
  "r_id (rule_row now i rule) = i"
  "r_src_peer_id (rule_row now i rule) = ar_SrcPeerID rule"
  "r_dst_peer_id (rule_row now i rule) = ar_DstPeerID rule"
  by (simp_all add: rule_row_def split: prod.split)

lemma insertACLRule_eq:
  "insertACLRule now rule d = Inr y \<longleftrightarrow>
     importable (map p_id (peers d)) rule \<and>
     y = (d\<lparr>acl_rules := acl_rules d @ [rule_row now (next_rowid (map r_id (acl_rules d))) rule]\<rparr>,
          next_rowid (map r_id (acl_rules d)))"
proof (cases "normalizeACLService (ar_Protocol rule) (ar_PortMin rule) (ar_PortMax rule)")
  case (Inl e)
  then show ?thesis by (simp add: insertACLRule_def importable_def Let_def)
next
  case (Inr x)
  then show ?thesis
    by (cases x) (auto simp: insertACLRule_def importable_def rule_row_def Let_def ensureE_def)
qed

lemma rule_row_ok: "importable ids rule \<Longrightarrow> acl_rule_ok ids (rule_row now i rule)"
proof -
  assume ok: "importable ids rule"
  then obtain p a b where n: "normalizeACLService (ar_Protocol rule) (ar_PortMin rule) (ar_PortMax rule) = Inr (p, a, b)"
    by (cases "normalizeACLService (ar_Protocol rule) (ar_PortMin rule) (ar_PortMax rule)")
      (auto simp: importable_def)
  then have "service_ok p a b"
    using normal_ports_idem by (auto simp only: normalize_eq [OF refl refl] service_ok_ports)
  with ok n show ?thesis by (auto simp: importable_def acl_rule_ok_def rule_row_def)
qed

lemma next_rowid_snoc: "next_rowid (ids @ [next_rowid ids]) = next_rowid ids + 1"
proof -
  have "foldr max ids (b + 1) = b + 1" if "\<forall>i \<in> set ids. i \<le> b" for b :: int
    using that by (induction ids) auto
  from this [of "foldr max ids 0"] have "foldr max ids (foldr max ids 0 + 1) = foldr max ids 0 + 1"
    using foldr_max_ge by blast
  moreover have "max (foldr max ids 0 + 1) 0 = foldr max ids (0::int) + 1"
    using foldr_max_base [of 0 ids] by simp
  ultimately show ?thesis by (simp add: next_rowid_def)
qed

lemma import_fold:
  "foldE (\<lambda>rule d. bindE (insertACLRule now rule d) (\<lambda>(d', _). Inr d')) rules d = Inr d' \<longleftrightarrow>
     list_all (importable (map p_id (peers d))) rules \<and>
     d' = d\<lparr>acl_rules := acl_rules d @ rows_from now (next_rowid (map r_id (acl_rules d))) rules\<rparr>"
proof (induction rules arbitrary: d)
  case Nil
  then show ?case by auto
next
  case (Cons rule rules)
  then show ?case
    by (auto simp: bindE_eq_Inr insertACLRule_eq next_rowid_snoc)
qed

lemma refs_inv_rules:
  assumes "db_inv d" "rowids (map r_id rules)" "list_all (acl_rule_ok (map p_id (peers d))) rules"
  shows "db_inv (d\<lparr>acl_rules := rules\<rparr>)"
  using assms by (simp add: db_inv_def refs_inv_def Let_def)

lemma acl_rules_inv:
  "db_inv d \<Longrightarrow> rowids (map r_id (acl_rules d)) \<and> list_all (acl_rule_ok (map p_id (peers d))) (acl_rules d)"
  by (simp add: db_inv_def refs_inv_def Let_def)

lemma store_inv_rules:
  assumes "store_inv s" "rowids (map r_id rules)"
    and "list_all (acl_rule_ok (map p_id (peers (st_db s)))) rules"
  shows "store_inv (s\<lparr>st_db := (st_db s)\<lparr>acl_rules := rules\<rparr>\<rparr>)"
  using assms refs_inv_rules by (simp add: store_inv_def nets_ok_def)

lemma insert_db_inv:
  assumes "db_inv d" "insertACLRule now rule d = Inr (d', i)"
  shows "db_inv d' \<and> peers d' = peers d"
  using assms(2) acl_rules_inv [OF assms(1)]
  by (auto simp: insertACLRule_eq rule_row_ok intro!: refs_inv_rules assms(1) rowids_snoc)

lemma CreateACLRuleDetailed_inv:
  assumes "store_inv s" "CreateACLRuleDetailed now rule s = Inr (s', i)"
  shows "store_inv s'"
proof -
  from assms(2) obtain d' where d': "insertACLRule now rule (st_db s) = Inr (d', i)" "s' = s\<lparr>st_db := d'\<rparr>"
    by (auto simp: CreateACLRuleDetailed_def bindE_eq_Inr)
  with insert_db_inv [OF _ d'(1)] assms(1) show ?thesis by (simp add: store_inv_def nets_ok_def)
qed

lemma DeleteACLRule_inv:
  assumes "store_inv s" "DeleteACLRule i s = Inr s'"
  shows "store_inv s'"
  using assms acl_rules_inv [of "st_db s"] rowids_delete [of r_id "acl_rules (st_db s)"]
  by (auto simp: DeleteACLRule_def Let_def store_inv_def nets_ok_def list_all_iff set_delete_where
      split: if_splits intro!: refs_inv_rules)

lemma rows_from_ok:
  "list_all (importable ids) rules \<Longrightarrow> list_all (acl_rule_ok ids) (rows_from now i rules)"
  by (induction rules arbitrary: i) (auto intro: rule_row_ok)

lemma rows_from_rowids:
  "rowids ids \<Longrightarrow> rowids (ids @ map r_id (rows_from now (next_rowid ids) rules))"
proof (induction rules arbitrary: ids)
  case (Cons rule rules)
  then have "rowids ((ids @ [next_rowid ids]) @ map r_id (rows_from now (next_rowid (ids @ [next_rowid ids])) rules))"
    by (intro Cons.IH rowids_snoc) simp
  then show ?case by (simp add: next_rowid_snoc)
qed simp

definition imported :: "time \<Rightarrow> ACLRule list \<Rightarrow> bool \<Rightarrow> db \<Rightarrow> db" where
  "imported now rules replace d =
     (let kept = (if replace then [] else acl_rules d)
      in d\<lparr>acl_rules := kept @ rows_from now (next_rowid (map r_id kept)) rules\<rparr>)"

lemma ImportACLRules_eq:
  "ImportACLRules now rules replace s = Inr y \<longleftrightarrow>
     list_all (importable (map p_id (peers (st_db s)))) rules \<and>
     y = (s\<lparr>st_db := imported now rules replace (st_db s)\<rparr>, length rules)"
  by (auto simp: ImportACLRules_def imported_def Let_def bindE_eq_Inr import_fold)

lemma imported_inv:
  assumes "store_inv s" "list_all (importable (map p_id (peers (st_db s)))) rules"
  shows "store_inv (s\<lparr>st_db := imported now rules replace (st_db s)\<rparr>)"
  unfolding imported_def Let_def
proof (rule store_inv_rules [OF assms(1)])
  let ?kept = "if replace then [] else acl_rules (st_db s)"
  have kept: "rowids (map r_id ?kept)" "list_all (acl_rule_ok (map p_id (peers (st_db s)))) ?kept"
    using assms(1) acl_rules_inv by (auto simp: store_inv_def rowids_def)
  show "rowids (map r_id (?kept @ rows_from now (next_rowid (map r_id ?kept)) rules))"
    using rows_from_rowids [OF kept(1)] by simp
  show "list_all (acl_rule_ok (map p_id (peers (st_db s)))) (?kept @ rows_from now (next_rowid (map r_id ?kept)) rules)"
    using kept(2) rows_from_ok [OF assms(2)] by simp
qed

lemma ImportACLRules_inv:
  assumes "store_inv s" "ImportACLRules now rules replace s = Inr (s', n)"
  shows "store_inv s'"
  using assms imported_inv by (simp add: ImportACLRules_eq)

subsection \<open>Properties\<close>

text \<open>
  Normalising the service of a rule yields one of the five protocols, no port on an ICMP
  rule and otherwise either no port or a full range within 1-65535, and normalising the
  result again changes nothing; the services in this form are exactly the fixed points of
  \<open>normalizeACLService\<close>.
\<close>

theorem normalizeACLService_normal_form:
  "(normalizeACLService proto lo hi = Inr (p, a, b) \<longrightarrow> service_ok p a b) \<and>
   (service_ok p a b \<longleftrightarrow> normalizeACLService p a b = Inr (p, a, b))"
proof (intro conjI impI iffI)
  show "service_ok p a b" if "normalizeACLService proto lo hi = Inr (p, a, b)"
    using that normal_ports_idem by (auto simp only: normalize_eq [OF refl refl] service_ok_ports)
  show "service_ok p a b" if "normalizeACLService p a b = Inr (p, a, b)"
    using that normal_ports_idem by (auto simp only: normalize_eq [OF refl refl] service_ok_ports)
  show "normalizeACLService p a b = Inr (p, a, b)" if "service_ok p a b"
    using that service_keywords [of p]
    by (simp only: normalize_eq [OF refl refl] service_ok_ports if_False simp_thms)
qed

theorem normalizeACLService_normal_form_witness:
  "normalizeACLService '' TCP '' (Some 80) None = Inr (''tcp'', Some 80, Some 80) \<and>
   service_ok ''tcp'' (Some 80) (Some 80) \<and>
   normalizeACLService ''tcp'' (Some 80) (Some 80) = Inr (''tcp'', Some 80, Some 80)"
proof -
  have n: "normalizeACLService '' TCP '' (Some 80) None = Inr (''tcp'', Some 80, Some 80)" by code_simp
  with normalizeACLService_normal_form [of "'' TCP ''" "Some 80" None "''tcp''" "Some 80" "Some 80"]
  show ?thesis by blast
qed

text \<open>
  An ACL import stores every rule or none. It succeeds exactly when each rule is valid
  (known protocol and ports, existing and different peers), and then the table is the kept
  rules (none when replacing) followed by the imported ones in the order given, normalised
  and numbered from the next free id; otherwise it returns an error and no new store. The
  resulting store satisfies the store invariant.
\<close>

theorem ImportACLRules_all_or_nothing:
  assumes "store_inv s"
  shows "if list_all (importable (map p_id (peers (st_db s)))) rules
         then ImportACLRules now rules replace s =
                Inr (s\<lparr>st_db := imported now rules replace (st_db s)\<rparr>, length rules) \<and>
              store_inv (s\<lparr>st_db := imported now rules replace (st_db s)\<rparr>)
         else isl (ImportACLRules now rules replace s)"
proof (cases "list_all (importable (map p_id (peers (st_db s)))) rules")
  case True
  then show ?thesis using imported_inv [OF assms True] by (simp add: ImportACLRules_eq)
next
  case False
  then have "\<nexists>y. ImportACLRules now rules replace s = Inr y" by (simp add: ImportACLRules_eq)
  with False show ?thesis by (cases "ImportACLRules now rules replace s") auto
qed

definition demo_import :: "ACLRule list" where
  "demo_import = [ACLRule_zero\<lparr>ar_SrcPeerID := Some 1, ar_DstPeerID := Some 2, ar_Protocol := '' TCP'', ar_PortMin := Some 22\<rparr>,
     ACLRule_zero\<lparr>ar_DstPeerID := Some 1\<rparr>]"

theorem ImportACLRules_all_or_nothing_witness:
  "map (\<lambda>r. (r_id r, r_protocol r, r_port_max r)) (acl_rules (imported 0 demo_import False (st_db demo_store2))) =
     [(1, ''any'', None), (2, ''tcp'', Some 22), (3, ''any'', None)] \<and>
   ImportACLRules 0 demo_import False demo_store2 =
     Inr (demo_store2\<lparr>st_db := imported 0 demo_import False (st_db demo_store2)\<rparr>, 2) \<and>
   isl (ImportACLRules 0 (demo_import @ [ACLRule_zero\<lparr>ar_DstPeerID := Some 9\<rparr>]) False demo_store2)"
proof -
  have ok: "list_all (importable (map p_id (peers (st_db demo_store2)))) demo_import" by code_simp
  have bad: "\<not> list_all (importable (map p_id (peers (st_db demo_store2))))
      (demo_import @ [ACLRule_zero\<lparr>ar_DstPeerID := Some 9\<rparr>])" by code_simp
  have len: "length demo_import = 2" by (simp add: demo_import_def)
  have n: "normalizeACLService '' TCP'' (Some 22) None = Inr (''tcp'', Some 22, Some 22)"
    "normalizeACLService [] None None = Inr (''any'', None, None)" by code_simp+
  have rows: "map (\<lambda>r. (r_id r, r_protocol r, r_port_max r)) (acl_rules (imported 0 demo_import False (st_db demo_store2))) =
     [(1, ''any'', None), (2, ''tcp'', Some 22), (3, ''any'', None)]"
    using n by (simp add: imported_def demo_import_def rule_row_def ACLRule_zero_def next_rowid_def
        demo_store2_def demo_store_def demo_rule_def)
  show ?thesis
    using rows ok bad len ImportACLRules_all_or_nothing [OF demo_store2_inv, of demo_import 0 False]
      ImportACLRules_all_or_nothing [OF demo_store2_inv, of "demo_import @ [ACLRule_zero\<lparr>ar_DstPeerID := Some 9\<rparr>]" 0 False]
    by simp
qed

text \<open>
  Under default-deny a created rule opens exactly the pairs it connects: a peer sees
  another afterwards iff it saw it before or the rule connects the two and the other is
  active. Deleting the rule again restores the store.
\<close>

theorem CreateACLRule_opens:
  assumes "store_inv s" "\<not> DefaultAllow s" "CreateACLRule now src dst s = Inr (s', i)"
    and "p \<in> set (peers (st_db s))" "q \<in> set (peers (st_db s))"
  shows "(scan_peer q \<in> set (listVisible (st_db s') (p_id p) (DefaultAllow s')) \<longleftrightarrow>
            scan_peer q \<in> set (listVisible (st_db s) (p_id p) (DefaultAllow s)) \<or>
            p_revoked_at q = None \<and> p_id q \<noteq> p_id p \<and>
            (src = None \<or> src \<in> {Some (p_id p), Some (p_id q)}) \<and>
            (dst = None \<or> dst \<in> {Some (p_id p), Some (p_id q)})) \<and>
         DeleteACLRule i s' = Inr s"
proof -
  let ?d = "st_db s" and ?i = "next_rowid (map r_id (acl_rules (st_db s)))"
  let ?rule = "ACLRule_zero\<lparr>ar_SrcPeerID := src, ar_DstPeerID := dst, ar_Protocol := ''any''\<rparr>"
  have s': "s' = s\<lparr>st_db := ?d\<lparr>acl_rules := acl_rules ?d @ [rule_row now ?i ?rule]\<rparr>\<rparr>" "i = ?i"
    using assms(3) by (auto simp: CreateACLRule_def CreateACLRuleDetailed_def bindE_eq_Inr insertACLRule_eq)
  have inv: "db_inv ?d" using assms(1) by (simp add: store_inv_def)
  have inv': "db_inv (st_db s')"
    using CreateACLRuleDetailed_inv [OF assms(1) assms(3) [unfolded CreateACLRule_def]] by (simp add: store_inv_def)
  have dist: "distinct (map p_id (peers ?d))" using inv by (simp add: db_inv_def rowids_distinct)
  have conn: "acl_connects (p_id p) (p_id q) (rule_row now ?i ?rule) \<longleftrightarrow>
      (src = None \<or> src \<in> {Some (p_id p), Some (p_id q)}) \<and> (dst = None \<or> dst \<in> {Some (p_id p), Some (p_id q)})"
    by (auto simp: acl_connects_def split: option.splits)
  have mem: "p \<in> set (peers (st_db s'))" "q \<in> set (peers (st_db s'))" using assms(4,5) s' by simp_all
  have dist': "distinct (map p_id (peers (st_db s')))" using dist s' by simp
  have "\<forall>r \<in> set (acl_rules ?d). r_id r \<noteq> ?i"
    using next_rowid_greater [of _ "map r_id (acl_rules ?d)"] by (fastforce dest: less_imp_neq)
  then have "delete_where (\<lambda>r. r_id r = ?i) (acl_rules ?d) = acl_rules ?d"
    unfolding delete_where_def filter_id_conv .
  then have "DeleteACLRule i s' = Inr s"
    by (simp add: s' DeleteACLRule_def Let_def rows_affected_def delete_where_def)
  then show ?thesis
    unfolding scan_peer_mem [OF dist' mem(2)] scan_peer_mem [OF dist assms(5)]
      visible_iff [OF inv' mem] visible_iff [OF inv assms(4,5)]
    using conn assms(2) by (auto simp: s')
qed

definition demo_deny :: store where
  "demo_deny = demo_store2\<lparr>DefaultAllow := False, st_db := (st_db demo_store2)\<lparr>acl_rules := []\<rparr>\<rparr>"

theorem CreateACLRule_opens_witness:
  "\<exists>s'. CreateACLRule 0 (Some 1) (Some 2) demo_deny = Inr (s', 1) \<and>
     scan_peer demo_peer2 \<notin> set (listVisible (st_db demo_deny) 1 False) \<and>
     scan_peer demo_peer2 \<in> set (listVisible (st_db s') 1 (DefaultAllow s')) \<and>
     DeleteACLRule 1 s' = Inr demo_deny"
proof -
  have inv: "store_inv demo_deny"
    unfolding demo_deny_def using store_inv_rules [OF demo_store2_inv, of "[]"]
    by (simp add: store_inv_def nets_ok_def rowids_def)
  have imp: "importable (map p_id (peers (st_db demo_deny)))
      (ACLRule_zero\<lparr>ar_SrcPeerID := Some 1, ar_DstPeerID := Some 2, ar_Protocol := ''any''\<rparr>)" by code_simp
  have i: "next_rowid (map r_id (acl_rules (st_db demo_deny))) = 1" by code_simp
  obtain s' where s': "CreateACLRule 0 (Some 1) (Some 2) demo_deny = Inr (s', 1)"
    using imp i by (simp add: CreateACLRule_def CreateACLRuleDetailed_def bindE_eq_Inr insertACLRule_eq)
  have no: "scan_peer demo_peer2 \<notin> set (listVisible (st_db demo_deny) 1 False)" by code_simp
  have mem: "demo_peer \<in> set (peers (st_db demo_deny))" "demo_peer2 \<in> set (peers (st_db demo_deny))"
    by (simp_all add: demo_deny_def demo_store2_def demo_store_def)
  have da: "\<not> DefaultAllow demo_deny" by (simp add: demo_deny_def)
  have ids: "p_id demo_peer = 1" "p_id demo_peer2 = 2" "p_revoked_at demo_peer2 = None"
    by (simp_all add: demo_peer_def demo_peer2_def)
  show ?thesis
    using CreateACLRule_opens [OF inv da s' mem] no s' ids by auto
qed

end
