(* ===== verification/Telemetry.thy ===== *)
theory Telemetry
  imports PeerAdmin Json
begin

section \<open>Telemetry reports\<close>

text \<open>
  telemetry.go and the transition classifier of connections.go: peer authentication by
  token, the one transaction that ingests a report (\<open>ApplyReport\<close>), and the read side.
  Byte counters are SQLite integers; their sums are modelled without the 64-bit limit.
\<close>

subsection \<open>The report (internal/proto)\<close>

record PeerCounter =
  pc_PeerPublicKey :: string
  pc_RxBytes :: int
  pc_TxBytes :: int
  pc_LastHandshakeAt :: string

record PeerPathState =
  ps_PeerPublicKey :: string
  ps_State :: string
  ps_Endpoint :: string

record FlowRecord =
  fr_Protocol :: int
  fr_SrcIP :: string
  fr_SrcPort :: int
  fr_DstIP :: string
  fr_DstPort :: int
  fr_TxBytes :: int
  fr_RxBytes :: int
  fr_TxPackets :: int
  fr_RxPackets :: int

record ProxyEvent =
  pe_At :: string
  pe_Method :: string
  pe_Host :: string
  pe_Path :: string
  pe_Status :: int
  pe_DurationMS :: int
  pe_ReqBytes :: int
  pe_RespBytes :: int
  pe_ClientIP :: string
  pe_Service :: string

record ReportRequest =
  rr_PublicEndpoint :: string
  rr_Candidates :: "AgentCandidate list"
  rr_NATType :: string
  rr_Counters :: "PeerCounter list"
  rr_Flows :: "FlowRecord list"
  rr_PathStates :: "PeerPathState list"
  rr_ProxyEvents :: "ProxyEvent list"
  rr_AdvertiseExitNode :: bool
  rr_Version :: string

subsection \<open>Operations\<close>

definition natType :: "string \<Rightarrow> string" where
  "natType v = (if v \<in> set [''easy'', ''hard'', ''static''] then v else [])"

definition agentVersion :: "string \<Rightarrow> string" where
  "agentVersion v =
     (if v = [] \<or> length v > 64 then []
      else if list_ex (\<lambda>c. code c \<le> 32 \<or> code c > 126) v then []
      else v)"

definition AuthenticatePeer ::
  "(string \<Rightarrow> string) \<Rightarrow> time \<Rightarrow> string \<Rightarrow> store \<Rightarrow> store_error + int \<times> string" where
  "AuthenticatePeer sha256 now token s =
     (case List.find (\<lambda>p. p_auth_token_hash p = Some (HashToken sha256 token) \<and> p_revoked_at p = None)
             (peers (st_db s)) of
        None \<Rightarrow> Inl (ErrUnauthorized ''unknown or revoked peer token'')
      | Some p \<Rightarrow>
          (case p_auth_token_issued_at p of
             None \<Rightarrow> Inr (p_id p, p_assigned_ip p)
           | Some issuedAt \<Rightarrow>
               (case parse_time issuedAt of
                  None \<Rightarrow> Inr (p_id p, p_assigned_ip p)
                | Some issued \<Rightarrow>
                    if 0 < TokenTTL s \<and> time_sub now issued > TokenTTL s
                    then Inl (ErrUnauthorized ''token expired'')
                    else Inr (p_id p, p_assigned_ip p))))"

definition connectionEventKind :: "string \<Rightarrow> string \<Rightarrow> string option" where
  "connectionEventKind prev nxt =
     (if prev = nxt then None
      else if nxt = ''direct'' then Some ''direct''
      else if nxt \<in> set [''quic-relay'', ''ws-relay'', ''udp-relay'']
      then (if prev \<in> set [''quic-relay'', ''ws-relay'', ''udp-relay''] then None else Some ''relay'')
      else None)"

definition peerIDsByPublicKey :: "db \<Rightarrow> string \<Rightarrow> int option" where
  "peerIDsByPublicKey d = map_of (rev (map (\<lambda>p. (p_public_key p, p_id p)) (peers d)))"

definition currentPathStates :: "int \<Rightarrow> db \<Rightarrow> int \<Rightarrow> string option" where
  "currentPathStates peerID d =
     map_of (rev (map (\<lambda>x. (pp_remote_peer_id x, pp_state x))
                    (filter (\<lambda>x. pp_peer_id x = peerID) (peer_paths d))))"

text \<open>The UPDATE of the reporting peer's row.\<close>

definition touch_peer :: "string \<Rightarrow> string \<Rightarrow> ReportRequest \<Rightarrow> peer \<Rightarrow> peer" where
  "touch_peer now observedIP report p =
     p\<lparr>p_last_seen_at := Some now,
       p_observed_ip := or_else (nullable observedIP) (p_observed_ip p),
       p_public_endpoint := or_else (nullable (rr_PublicEndpoint report)) (p_public_endpoint p),
       p_candidates := or_else
         (nullable (if rr_Candidates report = [] then [] else marshal_candidates (rr_Candidates report)))
         (p_candidates p),
       p_nat_type := or_else (nullable (natType (rr_NATType report))) (p_nat_type p),
       p_agent_version := or_else (nullable (agentVersion (rr_Version report))) (p_agent_version p),
       p_advertise_exit_node := rr_AdvertiseExitNode report\<rparr>"

text \<open>
  \<open>INSERT ... ON CONFLICT (peer_id, remote_peer_id) DO UPDATE\<close> on link_stats and
  peer_paths; inserting a row requires both referenced peers to exist.
\<close>

definition has_peers :: "db \<Rightarrow> int list \<Rightarrow> bool" where
  "has_peers d ids \<longleftrightarrow> list_all (\<lambda>i. i \<in> set (map p_id (peers d))) ids"

definition apply_counter ::
  "int \<Rightarrow> string \<Rightarrow> (string \<Rightarrow> int option) \<Rightarrow> PeerCounter \<Rightarrow> db \<Rightarrow> store_error + db" where
  "apply_counter peerID now idByKey c d =
     (case idByKey (pc_PeerPublicKey c) of
        None \<Rightarrow> Inr d
      | Some remoteID \<Rightarrow>
          let row = \<lparr>l_peer_id = peerID, l_remote_peer_id = remoteID, l_rx_bytes = pc_RxBytes c,
                     l_tx_bytes = pc_TxBytes c, l_last_handshake_at = nullable (pc_LastHandshakeAt c),
                     l_updated_at = now\<rparr>
          in if list_ex (\<lambda>l. link_key l = (peerID, remoteID)) (link_stats d)
             then Inr (d\<lparr>link_stats := update_where (\<lambda>l. link_key l = (peerID, remoteID))
                    (\<lambda>l. l\<lparr>l_rx_bytes := l_rx_bytes l + l_rx_bytes row,
                           l_tx_bytes := l_tx_bytes l + l_tx_bytes row,
                           l_last_handshake_at := or_else (l_last_handshake_at row) (l_last_handshake_at l),
                           l_updated_at := now\<rparr>) (link_stats d)\<rparr>)
             else ensureE (has_peers d [peerID, remoteID]) ErrConstraint
                    (Inr (d\<lparr>link_stats := link_stats d @ [row]\<rparr>)))"

definition log_transition :: "int \<Rightarrow> string \<Rightarrow> int \<Rightarrow> string \<Rightarrow> string \<Rightarrow> db \<Rightarrow> store_error + db" where
  "log_transition peerID now remoteID prev state d =
     (case connectionEventKind prev state of
        None \<Rightarrow> Inr d
      | Some kind \<Rightarrow>
          ensureE (has_peers d [peerID, remoteID]) ErrConstraint
            (Inr (d\<lparr>connection_events := connection_events d @
               [\<lparr>c_id = next_rowid (map c_id (connection_events d)), c_at = now,
                 c_reporter_peer_id = peerID, c_remote_peer_id = remoteID, c_kind = kind,
                 c_from_state = nullable prev, c_to_state = state\<rparr>]\<rparr>)))"

definition upsert_path :: "int \<Rightarrow> string \<Rightarrow> int \<Rightarrow> PeerPathState \<Rightarrow> db \<Rightarrow> store_error + db" where
  "upsert_path peerID now remoteID p d =
     (if list_ex (\<lambda>x. path_key x = (peerID, remoteID)) (peer_paths d)
      then Inr (d\<lparr>peer_paths := update_where (\<lambda>x. path_key x = (peerID, remoteID))
             (\<lambda>x. x\<lparr>pp_state := ps_State p, pp_endpoint := nullable (ps_Endpoint p), pp_updated_at := now\<rparr>)
             (peer_paths d)\<rparr>)
      else ensureE (has_peers d [peerID, remoteID]) ErrConstraint
             (Inr (d\<lparr>peer_paths := peer_paths d @
                [\<lparr>pp_peer_id = peerID, pp_remote_peer_id = remoteID, pp_state = ps_State p,
                  pp_endpoint = nullable (ps_Endpoint p), pp_updated_at = now\<rparr>]\<rparr>)))"

definition apply_path ::
  "int \<Rightarrow> string \<Rightarrow> (string \<Rightarrow> int option) \<Rightarrow> (int \<Rightarrow> string option) \<Rightarrow> PeerPathState \<Rightarrow> db \<Rightarrow> store_error + db" where
  "apply_path peerID now idByKey prevStates p d =
     (case idByKey (ps_PeerPublicKey p) of
        None \<Rightarrow> Inr d
      | Some remoteID \<Rightarrow>
          bindE (log_transition peerID now remoteID (coalesce (prevStates remoteID) []) (ps_State p) d)
            (upsert_path peerID now remoteID p))"

definition insert_flow :: "int \<Rightarrow> string \<Rightarrow> FlowRecord \<Rightarrow> db \<Rightarrow> store_error + db" where
  "insert_flow peerID now f d =
     ensureE (has_peers d [peerID]) ErrConstraint
       (Inr (d\<lparr>flows := flows d @
          [\<lparr>f_id = next_rowid (map f_id (flows d)), f_peer_id = peerID, f_protocol = fr_Protocol f,
            f_src_ip = fr_SrcIP f, f_src_port = fr_SrcPort f, f_dst_ip = fr_DstIP f,
            f_dst_port = fr_DstPort f, f_tx_bytes = fr_TxBytes f, f_rx_bytes = fr_RxBytes f,
            f_tx_packets = fr_TxPackets f, f_rx_packets = fr_RxPackets f, f_reported_at = now\<rparr>]\<rparr>))"

definition insert_proxy_event :: "int \<Rightarrow> string \<Rightarrow> ProxyEvent \<Rightarrow> db \<Rightarrow> store_error + db" where
  "insert_proxy_event peerID now e d =
     ensureE (has_peers d [peerID]) ErrConstraint
       (Inr (d\<lparr>proxy_events := proxy_events d @
          [\<lparr>x_id = next_rowid (map x_id (proxy_events d)), x_peer_id = Some peerID,
            x_at = (if pe_At e = [] then now else pe_At e), x_method = nullable (pe_Method e),
            x_host = nullable (pe_Host e), x_path = nullable (pe_Path e), x_status = pe_Status e,
            x_duration_ms = pe_DurationMS e, x_req_bytes = pe_ReqBytes e, x_resp_bytes = pe_RespBytes e,
            x_client_ip = nullable (pe_ClientIP e), x_service = nullable (pe_Service e)\<rparr>]\<rparr>))"

definition ApplyReport :: "time \<Rightarrow> int \<Rightarrow> string \<Rightarrow> ReportRequest \<Rightarrow> store \<Rightarrow> store_error + store" where
  "ApplyReport t peerID observedIP report s =
     (let now = format_time t
      in bindE (write_peers (update_where (\<lambda>p. p_id p = peerID) (touch_peer now observedIP report)
                  (peers (st_db s))) (st_db s)) (\<lambda>d1.
         let idByKey = peerIDsByPublicKey d1
         in bindE (foldE (apply_counter peerID now idByKey) (rr_Counters report) d1) (\<lambda>d2.
            bindE (foldE (apply_path peerID now idByKey (currentPathStates peerID d2))
                     (rr_PathStates report) d2) (\<lambda>d3.
            bindE (foldE (insert_flow peerID now) (rr_Flows report) d3) (\<lambda>d4.
            bindE (foldE (insert_proxy_event peerID now) (rr_ProxyEvents report) d4) (\<lambda>d5.
            Inr (s\<lparr>st_db := d5\<rparr>)))))))"

definition RelayPairKeys :: "int \<Rightarrow> string \<Rightarrow> store \<Rightarrow> store_error + string \<times> bool" where
  "RelayPairKeys selfID targetPublicKey s =
     (case peer_by_id selfID (st_db s) of
        None \<Rightarrow> Inl (ErrMsg ''look up peer'')
      | Some p \<Rightarrow> Inr (p_public_key p,
          0 < length (filter (\<lambda>q. p_public_key q = targetPublicKey \<and> p_revoked_at q = None) (peers (st_db s)))))"

subsection \<open>Preservation\<close>

lemma has_peers_simps [simp]:
  "has_peers d []"
  "has_peers d (i # is) \<longleftrightarrow> i \<in> p_id ` set (peers d) \<and> has_peers d is"
  by (simp_all add: has_peers_def)

lemma db_inv_links:
  "db_inv d \<Longrightarrow> distinct (map link_key (link_stats d)) \<and>
     (\<forall>l \<in> set (link_stats d). has_peers d [l_peer_id l, l_remote_peer_id l])"
  "db_inv d \<Longrightarrow> distinct (map link_key ls) \<Longrightarrow>
     \<forall>l \<in> set ls. has_peers d [l_peer_id l, l_remote_peer_id l] \<Longrightarrow> db_inv (d\<lparr>link_stats := ls\<rparr>)"
  by (auto simp: db_inv_def refs_inv_def Let_def list_all_iff)

lemma db_inv_paths:
  "db_inv d \<Longrightarrow> distinct (map path_key (peer_paths d)) \<and>
     (\<forall>x \<in> set (peer_paths d). has_peers d [pp_peer_id x, pp_remote_peer_id x])"
  "db_inv d \<Longrightarrow> distinct (map path_key xs) \<Longrightarrow>
     \<forall>x \<in> set xs. has_peers d [pp_peer_id x, pp_remote_peer_id x] \<Longrightarrow> db_inv (d\<lparr>peer_paths := xs\<rparr>)"
  by (auto simp: db_inv_def refs_inv_def Let_def list_all_iff)

lemma db_inv_events:
  "db_inv d \<Longrightarrow> rowids (map c_id (connection_events d)) \<and>
     (\<forall>c \<in> set (connection_events d). has_peers d [c_reporter_peer_id c, c_remote_peer_id c])"
  "db_inv d \<Longrightarrow> rowids (map c_id cs) \<Longrightarrow>
     \<forall>c \<in> set cs. has_peers d [c_reporter_peer_id c, c_remote_peer_id c] \<Longrightarrow> db_inv (d\<lparr>connection_events := cs\<rparr>)"
  by (auto simp: db_inv_def refs_inv_def Let_def list_all_iff)

lemma db_inv_flows:
  "db_inv d \<Longrightarrow> rowids (map f_id (flows d)) \<and> (\<forall>f \<in> set (flows d). has_peers d [f_peer_id f])"
  "db_inv d \<Longrightarrow> rowids (map f_id fs) \<Longrightarrow> \<forall>f \<in> set fs. has_peers d [f_peer_id f] \<Longrightarrow> db_inv (d\<lparr>flows := fs\<rparr>)"
  by (auto simp: db_inv_def refs_inv_def Let_def list_all_iff)

lemma db_inv_proxy:
  "db_inv d \<Longrightarrow> rowids (map x_id (proxy_events d)) \<and>
     (\<forall>x \<in> set (proxy_events d). ref_ok (map p_id (peers d)) (x_peer_id x))"
  "db_inv d \<Longrightarrow> rowids (map x_id xs) \<Longrightarrow> \<forall>x \<in> set xs. ref_ok (map p_id (peers d)) (x_peer_id x) \<Longrightarrow>
     db_inv (d\<lparr>proxy_events := xs\<rparr>)"
  by (auto simp: db_inv_def refs_inv_def Let_def list_all_iff)

text \<open>A database that differs from another in the telemetry tables only.\<close>

definition same_core :: "db \<Rightarrow> db \<Rightarrow> bool" where
  "same_core d d' \<longleftrightarrow> d' = d\<lparr>link_stats := link_stats d', flows := flows d', peer_paths := peer_paths d',
     connection_events := connection_events d', proxy_events := proxy_events d'\<rparr>"

lemma same_core_trans: "same_core a b \<Longrightarrow> same_core b c \<Longrightarrow> same_core a c"
  unfolding same_core_def by (cases a; cases b; cases c) simp

lemma same_core_refl [simp]: "same_core d d"
  by (simp add: same_core_def)

lemma same_core_peers: "same_core d d' \<Longrightarrow> peers d' = peers d"
  unfolding same_core_def by (cases d; cases d') simp

lemma apply_counter_inv:
  assumes "db_inv d" "apply_counter i now idByKey c d = Inr d'"
  shows "db_inv d' \<and> same_core d d'"
proof (cases "idByKey (pc_PeerPublicKey c)")
  case None
  with assms show ?thesis by (simp add: apply_counter_def)
next
  case (Some j)
  show ?thesis
  proof (cases "list_ex (\<lambda>l. link_key l = (i, j)) (link_stats d)")
    case True
    let ?f = "\<lambda>l. l\<lparr>l_rx_bytes := l_rx_bytes l + pc_RxBytes c, l_tx_bytes := l_tx_bytes l + pc_TxBytes c,
      l_last_handshake_at := or_else (nullable (pc_LastHandshakeAt c)) (l_last_handshake_at l), l_updated_at := now\<rparr>"
    let ?rows = "update_where (\<lambda>l. link_key l = (i, j)) ?f (link_stats d)"
    have d': "d' = d\<lparr>link_stats := ?rows\<rparr>"
      using assms(2) Some True by (simp add: apply_counter_def Let_def)
    have "map link_key ?rows = map link_key (link_stats d)"
      by (rule map_update_where) (simp add: link_key_def)
    then have "db_inv d'"
      unfolding d' using db_inv_links(1) [OF assms(1)]
      by (intro db_inv_links(2) assms(1)) (auto simp: set_update_where)
    then show ?thesis by (simp add: d' same_core_def)
  next
    case False
    let ?row = "\<lparr>l_peer_id = i, l_remote_peer_id = j, l_rx_bytes = pc_RxBytes c,
      l_tx_bytes = pc_TxBytes c, l_last_handshake_at = nullable (pc_LastHandshakeAt c), l_updated_at = now\<rparr>"
    have d': "d' = d\<lparr>link_stats := link_stats d @ [?row]\<rparr>" "has_peers d [i, j]"
      using assms(2) Some False by (simp_all add: apply_counter_def Let_def go_simps)
    have "(i, j) \<notin> link_key ` set (link_stats d)"
      using False by (auto simp: list_ex_iff image_iff)
    then have "db_inv d'"
      unfolding d' using db_inv_links(1) [OF assms(1)] d'(2)
      by (intro db_inv_links(2) assms(1)) (auto simp: link_key_def)
    then show ?thesis by (simp add: d' same_core_def)
  qed
qed

lemma log_transition_inv:
  assumes "db_inv d" "log_transition i now j prev state d = Inr d'"
  shows "db_inv d' \<and> same_core d d'"
proof (cases "connectionEventKind prev state")
  case None
  with assms show ?thesis by (simp add: log_transition_def)
next
  case (Some kind)
  with assms have "has_peers d [i, j]" and d': "d' = d\<lparr>connection_events := connection_events d @
     [\<lparr>c_id = next_rowid (map c_id (connection_events d)), c_at = now, c_reporter_peer_id = i, c_remote_peer_id = j,
       c_kind = kind, c_from_state = nullable prev, c_to_state = state\<rparr>]\<rparr>"
    by (simp_all add: log_transition_def go_simps)
  then have "db_inv d'"
    unfolding d' using db_inv_events(1) [OF assms(1)]
    by (intro db_inv_events(2) assms(1)) (auto simp: rowids_snoc)
  then show ?thesis by (simp add: d' same_core_def)
qed

lemma upsert_path_inv:
  assumes "db_inv d" "upsert_path i now j p d = Inr d'"
  shows "db_inv d' \<and> same_core d d'"
proof (cases "list_ex (\<lambda>x. path_key x = (i, j)) (peer_paths d)")
  case True
  let ?f = "\<lambda>x. x\<lparr>pp_state := ps_State p, pp_endpoint := nullable (ps_Endpoint p), pp_updated_at := now\<rparr>"
  let ?rows = "update_where (\<lambda>x. path_key x = (i, j)) ?f (peer_paths d)"
  have d': "d' = d\<lparr>peer_paths := ?rows\<rparr>" using assms(2) True by (simp add: upsert_path_def)
  have "map path_key ?rows = map path_key (peer_paths d)"
    by (rule map_update_where) (simp add: path_key_def)
  then have "db_inv d'"
    unfolding d' using db_inv_paths(1) [OF assms(1)]
    by (intro db_inv_paths(2) assms(1)) (auto simp: set_update_where)
  then show ?thesis by (simp add: d' same_core_def)
next
  case False
  with assms(2) have hp: "has_peers d [i, j]" and d': "d' = d\<lparr>peer_paths := peer_paths d @
     [\<lparr>pp_peer_id = i, pp_remote_peer_id = j, pp_state = ps_State p, pp_endpoint = nullable (ps_Endpoint p),
       pp_updated_at = now\<rparr>]\<rparr>"
    by (simp_all add: upsert_path_def go_simps)
  have "(i, j) \<notin> path_key ` set (peer_paths d)" using False by (auto simp: list_ex_iff image_iff)
  then have "db_inv d'"
    unfolding d' using db_inv_paths(1) [OF assms(1)] hp
    by (intro db_inv_paths(2) assms(1)) (auto simp: path_key_def)
  then show ?thesis by (simp add: d' same_core_def)
qed

lemma apply_path_inv:
  assumes "db_inv d" "apply_path i now idByKey prev p d = Inr d'"
  shows "db_inv d' \<and> same_core d d'"
proof (cases "idByKey (ps_PeerPublicKey p)")
  case None
  with assms show ?thesis by (simp add: apply_path_def)
next
  case (Some j)
  with assms(2) obtain e where e: "log_transition i now j (coalesce (prev j) []) (ps_State p) d = Inr e"
    "upsert_path i now j p e = Inr d'"
    by (auto simp: apply_path_def bindE_eq_Inr)
  have "db_inv e \<and> same_core d e" by (rule log_transition_inv [OF assms(1) e(1)])
  moreover from this have "db_inv d' \<and> same_core e d'" by (intro upsert_path_inv [OF _ e(2)]) simp
  ultimately show ?thesis by (blast intro: same_core_trans)
qed

lemma insert_flow_inv:
  assumes "db_inv d" "insert_flow i now f d = Inr d'"
  shows "db_inv d' \<and> same_core d d'"
  using assms(2) db_inv_flows(1) [OF assms(1)]
  by (auto simp: insert_flow_def go_simps same_core_def rowids_snoc intro!: db_inv_flows(2) assms(1))

lemma insert_proxy_event_inv:
  assumes "db_inv d" "insert_proxy_event i now e d = Inr d'"
  shows "db_inv d' \<and> same_core d d'"
  using assms(2) db_inv_proxy(1) [OF assms(1)]
  by (auto simp: insert_proxy_event_def go_simps same_core_def rowids_snoc ref_ok_def intro!: db_inv_proxy(2) assms(1))

text \<open>The four loops of a report, after the update of the reporter's row.\<close>

definition report_tables :: "int \<Rightarrow> string \<Rightarrow> ReportRequest \<Rightarrow> db \<Rightarrow> store_error + db" where
  "report_tables peerID now report d1 =
     bindE (foldE (apply_counter peerID now (peerIDsByPublicKey d1)) (rr_Counters report) d1) (\<lambda>d2.
     bindE (foldE (apply_path peerID now (peerIDsByPublicKey d1) (currentPathStates peerID d2))
              (rr_PathStates report) d2) (\<lambda>d3.
     bindE (foldE (insert_flow peerID now) (rr_Flows report) d3)
       (foldE (insert_proxy_event peerID now) (rr_ProxyEvents report))))"

definition touched :: "string \<Rightarrow> int \<Rightarrow> string \<Rightarrow> ReportRequest \<Rightarrow> db \<Rightarrow> db" where
  "touched now peerID observedIP report d =
     d\<lparr>peers := update_where (\<lambda>p. p_id p = peerID) (touch_peer now observedIP report) (peers d)\<rparr>"

lemma touch_peer_simps [simp]:
  "p_id (touch_peer now o' r p) = p_id p" "p_public_key (touch_peer now o' r p) = p_public_key p"
  "same_identity p (touch_peer now o' r p)"
  by (simp_all add: touch_peer_def same_identity_def)

lemma touch_write:
  assumes "store_inv s"
  shows "write_peers (update_where (\<lambda>p. p_id p = i) (touch_peer now o' r) (peers (st_db s))) (st_db s) =
    Inr (touched now i o' r (st_db s))"
proof -
  have "peers_ok (map sk_id (setup_keys (st_db s)))
      (update_where (\<lambda>p. p_id p = i) (touch_peer now o' r) (peers (st_db s)))"
    using store_invD(7) [OF assms]
    by (rule peers_ok_update) (simp_all add: touch_peer_def peer_row_ok_def)
  then show ?thesis by (simp add: write_peers_def touched_def)
qed

lemma touched_inv:
  assumes "store_inv s"
  shows "store_inv (s\<lparr>st_db := touched now i o' r (st_db s)\<rparr>)"
proof (rule store_inv_update [OF assms])
  show "write_peers (update_where (\<lambda>p. p_id p = i) (touch_peer now o' r) (peers (st_db s))) (st_db s) =
    Inr (touched now i o' r (st_db s))"
    by (rule touch_write [OF assms])
qed (simp_all add: touch_peer_def same_identity_def)

lemma ApplyReport_eq:
  assumes "store_inv s"
  shows "ApplyReport t i o' r s =
    bindE (report_tables i (format_time t) r (touched (format_time t) i o' r (st_db s))) (\<lambda>d. Inr (s\<lparr>st_db := d\<rparr>))"
proof -
  have assoc: "bindE (bindE m f) g = bindE m (\<lambda>x. bindE (f x) g)" for m :: "store_error + db" and f g
    by (cases m) auto
  show ?thesis
    unfolding ApplyReport_def Let_def touch_write [OF assms] bindE_Inr report_tables_def assoc ..
qed

lemma report_tables_inv:
  assumes "db_inv d" "report_tables i now r d = Inr d'"
  shows "db_inv d' \<and> same_core d d'"
proof -
  from assms(2) obtain d2 d3 d4
    where f: "foldE (apply_counter i now (peerIDsByPublicKey d)) (rr_Counters r) d = Inr d2"
      "foldE (apply_path i now (peerIDsByPublicKey d) (currentPathStates i d2)) (rr_PathStates r) d2 = Inr d3"
      "foldE (insert_flow i now) (rr_Flows r) d3 = Inr d4"
      "foldE (insert_proxy_event i now) (rr_ProxyEvents r) d4 = Inr d'"
    by (auto simp: report_tables_def bindE_eq_Inr)
  let ?P = "\<lambda>e. db_inv e \<and> same_core d e"
  have "?P d2"
    by (rule foldE_invariant [where P = ?P, OF f(1)])
      (use assms(1) same_core_refl apply_counter_inv same_core_trans in blast)+
  then have "?P d3"
    by (rule foldE_invariant [where P = ?P, OF f(2)]) (use apply_path_inv same_core_trans in blast)
  then have "?P d4"
    by (rule foldE_invariant [where P = ?P, OF f(3)]) (use insert_flow_inv same_core_trans in blast)
  then show "?P d'"
    by (rule foldE_invariant [where P = ?P, OF f(4)]) (use insert_proxy_event_inv same_core_trans in blast)
qed

lemma ApplyReport_inv:
  assumes "store_inv s" "ApplyReport t i o' r s = Inr s'"
  shows "store_inv s'"
proof -
  let ?s = "s\<lparr>st_db := touched (format_time t) i o' r (st_db s)\<rparr>"
  have inv: "store_inv ?s" by (rule touched_inv [OF assms(1)])
  from assms(2) obtain d' where d': "report_tables i (format_time t) r (st_db ?s) = Inr d'" "s' = s\<lparr>st_db := d'\<rparr>"
    unfolding ApplyReport_eq [OF assms(1)] by (auto simp: bindE_eq_Inr)
  have "db_inv d' \<and> peers d' = peers (st_db ?s)"
    using report_tables_inv [OF store_invD(1) [OF inv] d'(1)] same_core_peers by blast
  with inv show ?thesis by (simp add: d'(2) store_inv_def nets_ok_def)
qed

subsection \<open>A report of a known peer is accepted\<close>

lemma idByKey_known:
  assumes "peerIDsByPublicKey d k = Some j"
  shows "\<exists>p \<in> set (peers d). p_public_key p = k \<and> p_id p = j"
  using map_of_SomeD [OF assms [unfolded peerIDsByPublicKey_def]] by auto

lemma idByKey_iff:
  assumes "distinct (map p_public_key (peers d))"
  shows "peerIDsByPublicKey d k = Some j \<longleftrightarrow> (\<exists>p \<in> set (peers d). p_public_key p = k \<and> p_id p = j)"
proof
  assume "\<exists>p \<in> set (peers d). p_public_key p = k \<and> p_id p = j"
  then have "(k, j) \<in> set (rev (map (\<lambda>p. (p_public_key p, p_id p)) (peers d)))" by auto
  moreover have "distinct (map fst (rev (map (\<lambda>p. (p_public_key p, p_id p)) (peers d))))"
    using assms by (simp add: comp_def flip: rev_map)
  ultimately show "peerIDsByPublicKey d k = Some j" by (simp add: peerIDsByPublicKey_def del: map_map)
qed (rule idByKey_known)

lemma report_steps_total:
  assumes "db_inv d" "same_core d0 d" "i \<in> p_id ` set (peers d0)"
  shows "\<exists>d'. apply_counter i now (peerIDsByPublicKey d0) c d = Inr d'"
    and "\<exists>d'. apply_path i now (peerIDsByPublicKey d0) prev x d = Inr d'"
    and "\<exists>d'. insert_flow i now f d = Inr d'"
    and "\<exists>d'. insert_proxy_event i now e d = Inr d'"
proof -
  have p: "peers d = peers d0" by (rule same_core_peers [OF assms(2)])
  have j: "j \<in> p_id ` set (peers d0)" if "peerIDsByPublicKey d0 k = Some j" for j k
    using idByKey_known [OF that] by blast
  have hp: "has_peers d [i]" "peerIDsByPublicKey d0 k = Some j \<Longrightarrow> has_peers d [i, j]" for j k
    using assms(3) j by (auto simp: p)
  show "\<exists>d'. apply_counter i now (peerIDsByPublicKey d0) c d = Inr d'"
    using hp(2) by (auto simp: apply_counter_def Let_def ensureE_def split: option.split)
  show "\<exists>d'. insert_flow i now f d = Inr d'" "\<exists>d'. insert_proxy_event i now e d = Inr d'"
    using hp(1) by (auto simp: insert_flow_def insert_proxy_event_def ensureE_def)
  show "\<exists>d'. apply_path i now (peerIDsByPublicKey d0) prev x d = Inr d'"
  proof (cases "peerIDsByPublicKey d0 (ps_PeerPublicKey x)")
    case None
    then show ?thesis by (simp add: apply_path_def)
  next
    case (Some j)
    note h = hp(2) [OF Some]
    obtain d1 where d1: "log_transition i now j (coalesce (prev j) []) (ps_State x) d = Inr d1"
      using h by (cases "connectionEventKind (coalesce (prev j) []) (ps_State x)") (auto simp: log_transition_def ensureE_def)
    have "has_peers d1 [i, j]"
      using h same_core_peers [of d d1] log_transition_inv [OF assms(1) d1] by simp
    then have "\<exists>d2. upsert_path i now j x d1 = Inr d2" unfolding upsert_path_def ensureE_def by simp
    with Some d1 show ?thesis by (simp add: apply_path_def)
  qed
qed

lemma report_loop:
  assumes "db_inv s" "same_core d s"
    and "\<And>x e. db_inv e \<Longrightarrow> same_core d e \<Longrightarrow> \<exists>e'. f x e = Inr e'"
    and "\<And>x e e'. db_inv e \<Longrightarrow> f x e = Inr e' \<Longrightarrow> db_inv e' \<and> same_core e e'"
  shows "\<exists>e'. foldE f xs s = Inr e' \<and> db_inv e' \<and> same_core d e'"
proof (rule foldE_total [where P = "\<lambda>e. db_inv e \<and> same_core d e"])
  fix x e
  assume e: "db_inv e \<and> same_core d e"
  with assms(3) obtain e' where e': "f x e = Inr e'" by blast
  with assms(4) e have "db_inv e' \<and> same_core e e'" by blast
  with e e' show "\<exists>e'. f x e = Inr e' \<and> db_inv e' \<and> same_core d e'" by (blast intro: same_core_trans)
qed (use assms(1,2) in simp)

lemma report_tables_total:
  assumes "db_inv d" "i \<in> p_id ` set (peers d)"
  shows "\<exists>d'. report_tables i now r d = Inr d'"
proof -
  note t = report_steps_total [OF _ _ assms(2)]
  obtain d2 where d2: "foldE (apply_counter i now (peerIDsByPublicKey d)) (rr_Counters r) d = Inr d2"
    "db_inv d2" "same_core d d2"
    using report_loop [where f = "apply_counter i now (peerIDsByPublicKey d)", OF assms(1) same_core_refl] t(1) apply_counter_inv by blast
  obtain d3 where d3: "foldE (apply_path i now (peerIDsByPublicKey d) (currentPathStates i d2)) (rr_PathStates r) d2 = Inr d3"
    "db_inv d3" "same_core d d3"
    using report_loop [where f = "apply_path i now (peerIDsByPublicKey d) (currentPathStates i d2)", OF d2(2,3)] t(2) apply_path_inv by blast
  obtain d4 where d4: "foldE (insert_flow i now) (rr_Flows r) d3 = Inr d4" "db_inv d4" "same_core d d4"
    using report_loop [where f = "insert_flow i now", OF d3(2,3)] t(3) insert_flow_inv by blast
  obtain d5 where d5: "foldE (insert_proxy_event i now) (rr_ProxyEvents r) d4 = Inr d5"
    using report_loop [where f = "insert_proxy_event i now", OF d4(2,3)] t(4) insert_proxy_event_inv by blast
  show ?thesis by (simp add: report_tables_def d2 d3 d4 d5)
qed

subsection \<open>What a report adds\<close>

lemma foldE_concat:
  assumes "foldE f xs s = Inr s'" and "P s"
    and "\<And>x s s'. x \<in> set xs \<Longrightarrow> P s \<Longrightarrow> f x s = Inr s' \<Longrightarrow> P s' \<and> m s' = m s @ g x"
  shows "m s' = m s @ concat (map g xs)"
  using assms
proof (induction xs arbitrary: s)
  case (Cons x xs)
  from Cons.prems(1) obtain t where t: "f x s = Inr t" "foldE f xs t = Inr s'"
    by (auto simp: go_simps)
  from Cons.prems(3) [OF _ Cons.prems(2) t(1)] have p: "P t" "m t = m s @ g x" by auto
  have "m s' = m t @ concat (map g xs)"
    by (rule Cons.IH [OF t(2) p(1)]) (rule Cons.prems(3), auto)
  with p(2) show ?case by simp
qed simp

text \<open>The counter stored for a pair of peers, 0 when there is none.\<close>

definition link_total :: "(link_stat \<Rightarrow> int) \<Rightarrow> db \<Rightarrow> int \<times> int \<Rightarrow> int" where
  "link_total g d k = sum_list (map g (filter (\<lambda>l. link_key l = k) (link_stats d)))"

lemma filter_key_unique:
  assumes "distinct (map k xs)" "x \<in> set xs"
  shows "filter (\<lambda>y. k y = k x) xs = [x]"
  using assms
proof (induction xs)
  case (Cons y ys)
  show ?case
  proof (cases "x = y")
    case True
    then have "filter (\<lambda>z. k z = k x) ys = []"
      using Cons.prems(1) by (simp add: filter_empty_conv) (metis image_eqI)
    with True show ?thesis by simp
  next
    case False
    with Cons show ?thesis by auto
  qed
qed simp

lemma link_total_update:
  assumes "distinct (map link_key (link_stats d))" "\<exists>l \<in> set (link_stats d). link_key l = k"
    and "\<And>l. link_key (f l) = link_key l" "\<And>l. g (f l) = g l + v"
  shows "link_total g (d\<lparr>link_stats := update_where (\<lambda>l. link_key l = k) f (link_stats d)\<rparr>) k' =
    link_total g d k' + (if k' = k then v else 0)"
proof -
  from assms(2) obtain l where l: "l \<in> set (link_stats d)" "link_key l = k" by blast
  have eq: "filter (\<lambda>l. link_key l = k') (update_where (\<lambda>l. link_key l = k) f rows) =
      (if k' = k then map f (filter (\<lambda>l. link_key l = k) rows) else filter (\<lambda>l. link_key l = k') rows)" for rows
    using assms(3) by (induction rows) (auto simp: update_where_def)
  show ?thesis
    using filter_key_unique [OF assms(1) l(1)] assms(4) l(2) by (simp add: link_total_def eq)
qed

lemma link_total_append:
  "link_total g (d\<lparr>link_stats := link_stats d @ [l]\<rparr>) k = link_total g d k + (if link_key l = k then g l else 0)"
  by (simp add: link_total_def)

lemma apply_counter_total:
  assumes "db_inv d" "apply_counter i now idByKey c d = Inr d'"
  shows "link_total l_rx_bytes d' (a, b) = link_total l_rx_bytes d (a, b) +
      (if a = i \<and> idByKey (pc_PeerPublicKey c) = Some b then pc_RxBytes c else 0)"
    and "link_total l_tx_bytes d' (a, b) = link_total l_tx_bytes d (a, b) +
      (if a = i \<and> idByKey (pc_PeerPublicKey c) = Some b then pc_TxBytes c else 0)"
proof -
  have dist: "distinct (map link_key (link_stats d))" using db_inv_links(1) [OF assms(1)] by simp
  have "link_total l_rx_bytes d' (a, b) = link_total l_rx_bytes d (a, b) +
      (if a = i \<and> idByKey (pc_PeerPublicKey c) = Some b then pc_RxBytes c else 0) \<and>
    link_total l_tx_bytes d' (a, b) = link_total l_tx_bytes d (a, b) +
      (if a = i \<and> idByKey (pc_PeerPublicKey c) = Some b then pc_TxBytes c else 0)"
  proof (cases "idByKey (pc_PeerPublicKey c)")
    case None
    with assms(2) show ?thesis by (simp add: apply_counter_def)
  next
    case (Some j)
    show ?thesis
    proof (cases "list_ex (\<lambda>l. link_key l = (i, j)) (link_stats d)")
      case True
      then have ex: "\<exists>l \<in> set (link_stats d). link_key l = (i, j)" by (simp add: list_ex_iff)
      let ?f = "\<lambda>l. l\<lparr>l_rx_bytes := l_rx_bytes l + pc_RxBytes c, l_tx_bytes := l_tx_bytes l + pc_TxBytes c,
        l_last_handshake_at := or_else (nullable (pc_LastHandshakeAt c)) (l_last_handshake_at l), l_updated_at := now\<rparr>"
      have d': "d' = d\<lparr>link_stats := update_where (\<lambda>l. link_key l = (i, j)) ?f (link_stats d)\<rparr>"
        using True Some assms(2) by (simp add: apply_counter_def Let_def)
      have "link_total l_rx_bytes d' (a, b) = link_total l_rx_bytes d (a, b) + (if (a, b) = (i, j) then pc_RxBytes c else 0)"
        "link_total l_tx_bytes d' (a, b) = link_total l_tx_bytes d (a, b) + (if (a, b) = (i, j) then pc_TxBytes c else 0)"
        unfolding d' by (rule link_total_update [OF dist ex]; simp add: link_key_def)+
      then show ?thesis using Some by auto
    next
      case False
      with Some assms(2) show ?thesis
        by (auto simp: apply_counter_def Let_def go_simps link_total_append link_key_def)
    qed
  qed
  then show "link_total l_rx_bytes d' (a, b) = link_total l_rx_bytes d (a, b) +
      (if a = i \<and> idByKey (pc_PeerPublicKey c) = Some b then pc_RxBytes c else 0)"
    "link_total l_tx_bytes d' (a, b) = link_total l_tx_bytes d (a, b) +
      (if a = i \<and> idByKey (pc_PeerPublicKey c) = Some b then pc_TxBytes c else 0)" by blast+
qed

lemma sum_list_if: "sum_list (map (\<lambda>x. if P x then f x else 0) xs) = sum_list (map f (filter P xs))"
  for f :: "'a \<Rightarrow> 'n::comm_monoid_add"
  by (induction xs) auto

lemma counters_total:
  assumes "db_inv d" "foldE (apply_counter i now idByKey) cs d = Inr d'"
  shows "link_total l_rx_bytes d' (a, b) = link_total l_rx_bytes d (a, b) +
      (if a = i then sum_list (map pc_RxBytes (filter (\<lambda>c. idByKey (pc_PeerPublicKey c) = Some b) cs)) else 0)"
    and "link_total l_tx_bytes d' (a, b) = link_total l_tx_bytes d (a, b) +
      (if a = i then sum_list (map pc_TxBytes (filter (\<lambda>c. idByKey (pc_PeerPublicKey c) = Some b) cs)) else 0)"
proof -
  have "link_total l_rx_bytes d' (a, b) = link_total l_rx_bytes d (a, b) +
      sum_list (map (\<lambda>c. if a = i \<and> idByKey (pc_PeerPublicKey c) = Some b then pc_RxBytes c else 0) cs)"
    by (rule foldE_sum [where P = db_inv and m = "\<lambda>d. link_total l_rx_bytes d (a, b)", OF assms(2,1)])
      (use apply_counter_inv apply_counter_total(1) in blast)
  then show "link_total l_rx_bytes d' (a, b) = link_total l_rx_bytes d (a, b) +
      (if a = i then sum_list (map pc_RxBytes (filter (\<lambda>c. idByKey (pc_PeerPublicKey c) = Some b) cs)) else 0)"
    by (simp add: sum_list_if)
  have "link_total l_tx_bytes d' (a, b) = link_total l_tx_bytes d (a, b) +
      sum_list (map (\<lambda>c. if a = i \<and> idByKey (pc_PeerPublicKey c) = Some b then pc_TxBytes c else 0) cs)"
    by (rule foldE_sum [where P = db_inv and m = "\<lambda>d. link_total l_tx_bytes d (a, b)", OF assms(2,1)])
      (use apply_counter_inv apply_counter_total(2) in blast)
  then show "link_total l_tx_bytes d' (a, b) = link_total l_tx_bytes d (a, b) +
      (if a = i then sum_list (map pc_TxBytes (filter (\<lambda>c. idByKey (pc_PeerPublicKey c) = Some b) cs)) else 0)"
    by (simp add: sum_list_if)
qed

text \<open>Which tables each loop leaves alone.\<close>

lemma apply_path_frame:
  assumes "apply_path i now idByKey prev x d = Inr d'"
  shows "link_stats d' = link_stats d \<and> flows d' = flows d"
  using assms
  by (auto simp: apply_path_def log_transition_def upsert_path_def go_simps split: option.splits if_splits)

lemma apply_counter_frame:
  assumes "apply_counter i now idByKey c d = Inr d'"
  shows "peer_paths d' = peer_paths d \<and> connection_events d' = connection_events d \<and> flows d' = flows d"
  using assms by (auto simp: apply_counter_def Let_def go_simps split: option.splits if_splits)

lemma insert_frame:
  "insert_flow i now f d = Inr d' \<Longrightarrow> link_stats d' = link_stats d \<and> peer_paths d' = peer_paths d \<and>
     connection_events d' = connection_events d"
  "insert_proxy_event i now e d = Inr d' \<Longrightarrow> link_stats d' = link_stats d \<and> peer_paths d' = peer_paths d \<and>
     connection_events d' = connection_events d \<and> flows d' = flows d"
  by (auto simp: insert_flow_def insert_proxy_event_def go_simps)

text \<open>The transitions a report logs: one per path state whose peer is known and whose change counts.\<close>

definition event_view :: "connection_event \<Rightarrow> int \<times> int \<times> string \<times> string option \<times> string" where
  "event_view c = (c_reporter_peer_id c, c_remote_peer_id c, c_kind c, c_from_state c, c_to_state c)"

definition transition_of ::
  "int \<Rightarrow> (string \<Rightarrow> int option) \<Rightarrow> (int \<Rightarrow> string option) \<Rightarrow> PeerPathState \<Rightarrow>
   (int \<times> int \<times> string \<times> string option \<times> string) list" where
  "transition_of i idByKey prev x =
     (case idByKey (ps_PeerPublicKey x) of
        None \<Rightarrow> []
      | Some j \<Rightarrow>
          (case connectionEventKind (coalesce (prev j) []) (ps_State x) of
             None \<Rightarrow> []
           | Some kind \<Rightarrow> [(i, j, kind, nullable (coalesce (prev j) []), ps_State x)]))"

lemma apply_path_events:
  assumes "apply_path i now idByKey prev x d = Inr d'"
  shows "map event_view (connection_events d') =
    map event_view (connection_events d) @ transition_of i idByKey prev x"
  using assms
  by (auto simp: apply_path_def log_transition_def upsert_path_def transition_of_def event_view_def go_simps
      split: option.splits if_splits)

lemma report_tables_effect:
  assumes "db_inv d" "report_tables i now r d = Inr d'"
  shows "link_total l_rx_bytes d' (a, b) = link_total l_rx_bytes d (a, b) +
      (if a = i then sum_list (map pc_RxBytes (filter (\<lambda>c. peerIDsByPublicKey d (pc_PeerPublicKey c) = Some b)
         (rr_Counters r))) else 0)"
    and "link_total l_tx_bytes d' (a, b) = link_total l_tx_bytes d (a, b) +
      (if a = i then sum_list (map pc_TxBytes (filter (\<lambda>c. peerIDsByPublicKey d (pc_PeerPublicKey c) = Some b)
         (rr_Counters r))) else 0)"
    and "map event_view (connection_events d') = map event_view (connection_events d) @
      concat (map (transition_of i (peerIDsByPublicKey d) (currentPathStates i d)) (rr_PathStates r))"
    and "length (flows d') = length (flows d) + length (rr_Flows r)"
proof -
  from assms(2) obtain d2 d3 d4
    where f: "foldE (apply_counter i now (peerIDsByPublicKey d)) (rr_Counters r) d = Inr d2"
      "foldE (apply_path i now (peerIDsByPublicKey d) (currentPathStates i d2)) (rr_PathStates r) d2 = Inr d3"
      "foldE (insert_flow i now) (rr_Flows r) d3 = Inr d4"
      "foldE (insert_proxy_event i now) (rr_ProxyEvents r) d4 = Inr d'"
    by (auto simp: report_tables_def bindE_eq_Inr)
  have fr2: "peer_paths d2 = peer_paths d \<and> connection_events d2 = connection_events d \<and> flows d2 = flows d"
    by (rule foldE_invariant [where P = "\<lambda>e. peer_paths e = peer_paths d \<and> connection_events e = connection_events d \<and> flows e = flows d",
          OF f(1)]) (auto dest: apply_counter_frame)
  have fr3: "link_stats d3 = link_stats d2 \<and> flows d3 = flows d2"
    by (rule foldE_invariant [where P = "\<lambda>e. link_stats e = link_stats d2 \<and> flows e = flows d2", OF f(2)])
      (auto dest: apply_path_frame)
  have fr4: "link_stats d4 = link_stats d3 \<and> peer_paths d4 = peer_paths d3 \<and> connection_events d4 = connection_events d3"
    by (rule foldE_invariant [where P = "\<lambda>e. link_stats e = link_stats d3 \<and> peer_paths e = peer_paths d3 \<and>
          connection_events e = connection_events d3", OF f(3)]) (auto dest: insert_frame(1))
  have fr5: "link_stats d' = link_stats d4 \<and> peer_paths d' = peer_paths d4 \<and>
      connection_events d' = connection_events d4 \<and> flows d' = flows d4"
    by (rule foldE_invariant [where P = "\<lambda>e. link_stats e = link_stats d4 \<and> peer_paths e = peer_paths d4 \<and>
          connection_events e = connection_events d4 \<and> flows e = flows d4", OF f(4)]) (auto dest: insert_frame(2))
  have tot: "link_total g d' k = link_total g d2 k" for g k
    using fr3 fr4 fr5 by (simp add: link_total_def)
  show "link_total l_rx_bytes d' (a, b) = link_total l_rx_bytes d (a, b) +
      (if a = i then sum_list (map pc_RxBytes (filter (\<lambda>c. peerIDsByPublicKey d (pc_PeerPublicKey c) = Some b)
         (rr_Counters r))) else 0)"
    "link_total l_tx_bytes d' (a, b) = link_total l_tx_bytes d (a, b) +
      (if a = i then sum_list (map pc_TxBytes (filter (\<lambda>c. peerIDsByPublicKey d (pc_PeerPublicKey c) = Some b)
         (rr_Counters r))) else 0)"
    unfolding tot by (rule counters_total [OF assms(1) f(1)])+
  have "map event_view (connection_events d3) = map event_view (connection_events d2) @
      concat (map (transition_of i (peerIDsByPublicKey d) (currentPathStates i d2)) (rr_PathStates r))"
    by (rule foldE_concat [where P = "\<lambda>_. True" and m = "\<lambda>e. map event_view (connection_events e)", OF f(2)])
      (auto dest: apply_path_events)
  moreover have "currentPathStates i d2 = currentPathStates i d" using fr2 by (simp add: currentPathStates_def)
  ultimately show "map event_view (connection_events d') = map event_view (connection_events d) @
      concat (map (transition_of i (peerIDsByPublicKey d) (currentPathStates i d)) (rr_PathStates r))"
    using fr2 fr4 fr5 by simp
  have "length (flows d4) = length (flows d3) + sum_list (map (\<lambda>_. 1) (rr_Flows r))"
    by (rule foldE_sum [where P = "\<lambda>_. True" and m = "\<lambda>e. length (flows e)", OF f(3)])
      (auto simp: insert_flow_def go_simps)
  then show "length (flows d') = length (flows d) + length (rr_Flows r)"
    using fr2 fr3 fr5 by (simp add: sum_list_triv)
qed

subsection \<open>Properties\<close>

text \<open>
  A report is accepted and accounted. Every report of an existing peer is stored: the
  reporter's row gets the reported columns, an empty one leaving the stored value, and every
  other row stays; the counter of each link the reporter has grows by exactly the deltas
  reported for that peer's key (several deltas for one key add up, deltas for unknown keys
  are skipped), the counters of other reporters do not change, and every flow record is
  kept. The store invariant holds afterwards.
\<close>

theorem ApplyReport_accounts:
  assumes "store_inv s" "list_ex (\<lambda>p. p_id p = i) (peers (st_db s))"
  shows "\<exists>s'. ApplyReport t i observedIP r s = Inr s' \<and> store_inv s' \<and>
    peers (st_db s') = update_where (\<lambda>p. p_id p = i) (touch_peer (format_time t) observedIP r) (peers (st_db s)) \<and>
    (\<forall>a b. link_total l_rx_bytes (st_db s') (a, b) = link_total l_rx_bytes (st_db s) (a, b) +
      (if a = i then sum_list (map pc_RxBytes (filter (\<lambda>c. peerIDsByPublicKey (st_db s) (pc_PeerPublicKey c) = Some b)
         (rr_Counters r))) else 0)) \<and>
    (\<forall>a b. link_total l_tx_bytes (st_db s') (a, b) = link_total l_tx_bytes (st_db s) (a, b) +
      (if a = i then sum_list (map pc_TxBytes (filter (\<lambda>c. peerIDsByPublicKey (st_db s) (pc_PeerPublicKey c) = Some b)
         (rr_Counters r))) else 0)) \<and>
    length (flows (st_db s')) = length (flows (st_db s)) + length (rr_Flows r)"
proof -
  let ?d = "touched (format_time t) i observedIP r (st_db s)"
  have inv: "db_inv ?d" using touched_inv [OF assms(1)] by (simp add: store_inv_def)
  have ids: "map p_id (peers ?d) = map p_id (peers (st_db s))"
    unfolding touched_def by (simp add: map_update_where)
  have keys: "peerIDsByPublicKey ?d = peerIDsByPublicKey (st_db s)"
    unfolding peerIDsByPublicKey_def touched_def by (simp add: map_update_where)
  have "i \<in> p_id ` set (peers ?d)"
    using assms(2) ids by (metis (mono_tags, lifting) image_eqI image_set list_ex_iff)
  then obtain d' where d': "report_tables i (format_time t) r ?d = Inr d'"
    using report_tables_total [OF inv] by blast
  then have s': "ApplyReport t i observedIP r s = Inr (s\<lparr>st_db := d'\<rparr>)" by (simp add: ApplyReport_eq [OF assms(1)])
  have tab: "link_stats ?d = link_stats (st_db s)" "flows ?d = flows (st_db s)" by (simp_all add: touched_def)
  have tot: "link_total g ?d k = link_total g (st_db s) k" for g k by (simp add: link_total_def tab)
  have "peers d' = peers ?d" using same_core_peers report_tables_inv [OF inv d'] by blast
  then show ?thesis
    using s' ApplyReport_inv [OF assms(1) s'] report_tables_effect(1,2,4) [OF inv d', unfolded keys tot tab]
    by (intro exI [of _ "s\<lparr>st_db := d'\<rparr>"]) (simp add: touched_def)
qed

text \<open>
  C25: the connection log. A report appends one event per path state that the classifier
  counts as a transition from the state stored before the report, for known peers and in
  the order reported, and no other event.
\<close>

theorem ApplyReport_logs_transitions:
  assumes "store_inv s" "ApplyReport t i observedIP r s = Inr s'"
  shows "map event_view (connection_events (st_db s')) = map event_view (connection_events (st_db s)) @
    concat (map (transition_of i (peerIDsByPublicKey (st_db s)) (currentPathStates i (st_db s))) (rr_PathStates r))"
proof -
  let ?d = "touched (format_time t) i observedIP r (st_db s)"
  have inv: "db_inv ?d" using touched_inv [OF assms(1)] by (simp add: store_inv_def)
  obtain d' where d': "report_tables i (format_time t) r ?d = Inr d'" "s' = s\<lparr>st_db := d'\<rparr>"
    using assms(2) unfolding ApplyReport_eq [OF assms(1)] by (auto simp: bindE_eq_Inr)
  have "peerIDsByPublicKey ?d = peerIDsByPublicKey (st_db s)"
    unfolding peerIDsByPublicKey_def touched_def by (simp add: map_update_where)
  moreover have "currentPathStates i ?d = currentPathStates i (st_db s)" "connection_events ?d = connection_events (st_db s)"
    by (simp_all add: currentPathStates_def touched_def)
  ultimately show ?thesis using report_tables_effect(3) [OF inv d'(1)] d'(2) by simp
qed

definition demo_report :: ReportRequest where
  "demo_report = \<lparr>rr_PublicEndpoint = [], rr_Candidates = [], rr_NATType = ''easy'',
     rr_Counters = [\<lparr>pc_PeerPublicKey = p_public_key demo_peer2, pc_RxBytes = 10, pc_TxBytes = 1, pc_LastHandshakeAt = []\<rparr>,
       \<lparr>pc_PeerPublicKey = ''gone'', pc_RxBytes = 99, pc_TxBytes = 99, pc_LastHandshakeAt = []\<rparr>,
       \<lparr>pc_PeerPublicKey = p_public_key demo_peer2, pc_RxBytes = 20, pc_TxBytes = 2, pc_LastHandshakeAt = []\<rparr>],
     rr_Flows = [], rr_PathStates = [\<lparr>ps_PeerPublicKey = p_public_key demo_peer2, ps_State = ''ws-relay'', ps_Endpoint = []\<rparr>],
     rr_ProxyEvents = [], rr_AdvertiseExitNode = False, rr_Version = ''v1.0''\<rparr>"

lemma demo_keys:
  "peerIDsByPublicKey (st_db demo_store2) (p_public_key demo_peer2) = Some 2"
  "peerIDsByPublicKey (st_db demo_store2) ''gone'' = None"
  by code_simp+

theorem ApplyReport_accounts_witness:
  "\<exists>s'. ApplyReport 0 1 [] demo_report demo_store2 = Inr s' \<and>
     link_total l_rx_bytes (st_db s') (1, 2) = 30 \<and> link_total l_tx_bytes (st_db s') (1, 2) = 3 \<and>
     link_total l_rx_bytes (st_db s') (2, 1) = 0"
proof -
  have k: "list_ex (\<lambda>p. p_id p = 1) (peers (st_db demo_store2))"
    by (simp add: demo_store2_def demo_store_def demo_peer_def)
  have z: "link_total g (st_db demo_store2) k = 0" for g k
    by (simp add: link_total_def demo_store2_def demo_store_def empty_db_def)
  show ?thesis
    using ApplyReport_accounts [OF demo_store2_inv k, of 0 "[]" demo_report] z demo_keys
    by (auto simp: demo_report_def)
qed

theorem ApplyReport_logs_transitions_witness:
  "\<exists>s'. ApplyReport 0 1 [] demo_report demo_store2 = Inr s' \<and>
     map event_view (connection_events (st_db s')) = [(1, 2, ''relay'', None, ''ws-relay'')]"
proof -
  have k: "has_peers (st_db demo_store2) [1]"
    by (simp add: demo_store2_def demo_store_def demo_peer_def)
  let ?d = "touched (format_time 0) 1 [] demo_report (st_db demo_store2)"
  have "db_inv ?d" using touched_inv [OF demo_store2_inv] by (simp add: store_inv_def)
  moreover have "map p_id (peers ?d) = map p_id (peers (st_db demo_store2))"
    unfolding touched_def by (simp add: map_update_where)
  then have "1 \<in> p_id ` set (peers ?d)" using k unfolding has_peers_simps by (metis image_set)
  ultimately obtain d' where "report_tables 1 (format_time 0) demo_report ?d = Inr d'"
    using report_tables_total by blast
  then obtain s' where s': "ApplyReport 0 1 [] demo_report demo_store2 = Inr s'"
    by (simp add: ApplyReport_eq [OF demo_store2_inv])
  have t: "concat (map (transition_of 1 (peerIDsByPublicKey (st_db demo_store2)) (currentPathStates 1 (st_db demo_store2)))
      (rr_PathStates demo_report)) = [(1, 2, ''relay'', None, ''ws-relay'')]" by code_simp
  have e: "connection_events (st_db demo_store2) = []"
    by (simp add: demo_store2_def demo_store_def empty_db_def)
  show ?thesis using s' ApplyReport_logs_transitions [OF demo_store2_inv s'] t e by simp
qed

text \<open>
  What the log shows of a pair whose path goes through a list of reported states: the kinds
  logged one report after the other.
\<close>

definition path_class :: "string \<Rightarrow> string option" where
  "path_class st =
     (if st = ''direct'' then Some ''direct''
      else if st \<in> set [''quic-relay'', ''ws-relay'', ''udp-relay''] then Some ''relay'' else None)"

fun logged_kinds :: "string \<Rightarrow> string list \<Rightarrow> string list" where
  "logged_kinds prev [] = []"
| "logged_kinds prev (st # sts) =
     (case connectionEventKind prev st of None \<Rightarrow> [] | Some k \<Rightarrow> [k]) @ logged_kinds st sts"

lemma connectionEventKind_class:
  "connectionEventKind prev st = (if path_class st = path_class prev then None else path_class st)"
  unfolding connectionEventKind_def path_class_def by simp

text \<open>
  The connection log is the sequence of path classes (direct, relay or neither) without
  stuttering: the kinds logged for successive states are the direct and relay entries of
  the class sequence after collapsing adjacent repetitions, starting from the class stored
  before. Changing only the relay transport, or repeating a state, logs nothing.
\<close>

theorem logged_kinds_stutter_free:
  "logged_kinds prev sts = col id (tl (remdups_adj (map path_class (prev # sts))))"
proof (induction sts arbitrary: prev)
  case Nil
  then show ?case by simp
next
  case (Cons st sts)
  have hd: "\<exists>ys. remdups_adj (map path_class (st # sts)) = path_class st # ys"
    by (metis list.simps(9) remdups_adj_Cons_alt)
  then obtain ys where ys: "remdups_adj (map path_class (st # sts)) = path_class st # ys" by blast
  show ?case
  proof (cases "path_class st = path_class prev")
    case True
    with Cons.IH [of st] show ?thesis by (simp add: connectionEventKind_class)
  next
    case False
    with Cons.IH [of st] ys show ?thesis
      by (auto simp: connectionEventKind_class col_Cons split: option.splits)
  qed
qed

end
