(* ===== verification/Logs.thy ===== *)
theory Logs
  imports Telemetry "HOL-Library.Product_Lexorder"
begin

section \<open>Event logs and their retention\<close>

text \<open>
  audit.go, connections.go, proxy.go and the read side of telemetry.go: appending to the
  audit log, listing each log newest first, and the four retention jobs. The jobs share one
  contract, the locale \<open>retention_log\<close>: rows are deleted by comparing their timestamp
  texts with the cutoff, and because the layout orders texts as instants
  (\<open>format_time_less\<close>) this deletes exactly the rows older than the window.
\<close>

text \<open>\<open>ORDER BY id DESC LIMIT n\<close>; SQLite reads a negative limit as none.\<close>

definition newest_first :: "('r \<Rightarrow> int) \<Rightarrow> int \<Rightarrow> 'r list \<Rightarrow> 'r list" where
  "newest_first key limit rows =
     (let sorted = rev (sort_key key rows) in if limit < 0 then sorted else take (nat limit) sorted)"

text \<open>The hostname column of a LEFT JOIN with peers.\<close>

definition host_of :: "int option \<Rightarrow> db \<Rightarrow> string" where
  "host_of v d =
     (case v of None \<Rightarrow> []
      | Some i \<Rightarrow> (case peer_by_id i d of None \<Rightarrow> [] | Some p \<Rightarrow> coalesce (p_hostname p) []))"

subsection \<open>Link statistics and flows (telemetry.go)\<close>

record LinkStat =
  ls_PeerID :: int
  ls_PeerHostname :: string
  ls_PeerIP :: string
  ls_RemotePeerID :: int
  ls_RemoteHostname :: string
  ls_RemoteIP :: string
  ls_RxBytes :: int
  ls_TxBytes :: int
  ls_LastHandshakeAt :: string
  ls_UpdatedAt :: string
  ls_PathState :: string
  ls_PathEndpoint :: string
  ls_PathUpdatedAt :: string

definition link_row :: "db \<Rightarrow> peer_path \<Rightarrow> LinkStat list" where
  "link_row d x =
     (case (peer_by_id (pp_peer_id x) d, peer_by_id (pp_remote_peer_id x) d) of
        (Some p, Some r) \<Rightarrow>
          (let l = List.find (\<lambda>l. link_key l = path_key x) (link_stats d)
           in [\<lparr>ls_PeerID = pp_peer_id x, ls_PeerHostname = coalesce (p_hostname p) [], ls_PeerIP = p_assigned_ip p,
                ls_RemotePeerID = pp_remote_peer_id x, ls_RemoteHostname = coalesce (p_hostname r) [],
                ls_RemoteIP = p_assigned_ip r,
                ls_RxBytes = (case l of None \<Rightarrow> 0 | Some l \<Rightarrow> l_rx_bytes l),
                ls_TxBytes = (case l of None \<Rightarrow> 0 | Some l \<Rightarrow> l_tx_bytes l),
                ls_LastHandshakeAt = (case l of None \<Rightarrow> [] | Some l \<Rightarrow> coalesce (l_last_handshake_at l) []),
                ls_UpdatedAt = (case l of None \<Rightarrow> pp_updated_at x | Some l \<Rightarrow> l_updated_at l),
                ls_PathState = pp_state x, ls_PathEndpoint = coalesce (pp_endpoint x) [],
                ls_PathUpdatedAt = pp_updated_at x\<rparr>])
      | _ \<Rightarrow> [])"

definition ListLinkStats :: "store \<Rightarrow> LinkStat list" where
  "ListLinkStats s = concat (map (link_row (st_db s)) (sort_key path_key (peer_paths (st_db s))))"

record FlowRow =
  fl_ID :: int
  fl_PeerID :: int
  fl_PeerHostname :: string
  fl_PeerIP :: string
  fl_PeerIP6 :: string
  fl_Protocol :: int
  fl_SrcIP :: string
  fl_SrcPort :: int
  fl_DstIP :: string
  fl_DstPort :: int
  fl_TxBytes :: int
  fl_RxBytes :: int
  fl_TxPackets :: int
  fl_RxPackets :: int
  fl_ReportedAt :: string

definition flow_row :: "db \<Rightarrow> flow \<Rightarrow> FlowRow" where
  "flow_row d f =
     (let p = peer_by_id (f_peer_id f) d
      in \<lparr>fl_ID = f_id f, fl_PeerID = f_peer_id f, fl_PeerHostname = host_of (Some (f_peer_id f)) d,
          fl_PeerIP = (case p of None \<Rightarrow> [] | Some p \<Rightarrow> p_assigned_ip p),
          fl_PeerIP6 = (case p of None \<Rightarrow> [] | Some p \<Rightarrow> coalesce (p_assigned_ip6 p) []),
          fl_Protocol = f_protocol f, fl_SrcIP = f_src_ip f, fl_SrcPort = f_src_port f,
          fl_DstIP = f_dst_ip f, fl_DstPort = f_dst_port f, fl_TxBytes = f_tx_bytes f,
          fl_RxBytes = f_rx_bytes f, fl_TxPackets = f_tx_packets f, fl_RxPackets = f_rx_packets f,
          fl_ReportedAt = f_reported_at f\<rparr>)"

definition RecentFlows :: "int \<Rightarrow> store \<Rightarrow> FlowRow list" where
  "RecentFlows limit s =
     map (flow_row (st_db s))
       (newest_first f_id limit (filter (\<lambda>f. peer_by_id (f_peer_id f) (st_db s) \<noteq> None) (flows (st_db s))))"

definition PruneFlows :: "time \<Rightarrow> duration \<Rightarrow> store \<Rightarrow> store \<times> nat" where
  "PruneFlows now retention s =
     (let cutoff = format_time (now - retention); old = (\<lambda>f. f_reported_at f < cutoff); d = st_db s
      in (s\<lparr>st_db := d\<lparr>flows := delete_where old (flows d)\<rparr>\<rparr>, rows_affected old (flows d)))"

subsection \<open>Audit log (audit.go)\<close>

record AuditEntry =
  ae_Event :: string
  ae_PeerID :: int
  ae_OverlayIP :: string
  ae_RemoteIP :: string
  ae_ForwardedFor :: string
  ae_UserAgent :: string
  ae_Method :: string
  ae_Path :: string
  ae_Status :: int
  ae_Detail :: string

record AuditRow = AuditEntry +
  ae_ID :: int
  ae_At :: string
  ae_PeerHostname :: string

definition new_audit_row :: "time \<Rightarrow> AuditEntry \<Rightarrow> int \<Rightarrow> audit_row" where
  "new_audit_row now e i =
     \<lparr>a_id = i, a_at = format_time now, a_event = ae_Event e,
      a_peer_id = nullable_int (ae_PeerID e), a_overlay_ip = nullable (ae_OverlayIP e),
      a_remote_ip = nullable (ae_RemoteIP e), a_forwarded_for = nullable (ae_ForwardedFor e),
      a_user_agent = nullable (ae_UserAgent e), a_method = nullable (ae_Method e),
      a_path = nullable (ae_Path e), a_status = ae_Status e, a_detail = nullable (ae_Detail e)\<rparr>"

definition Audit :: "time \<Rightarrow> AuditEntry \<Rightarrow> store \<Rightarrow> store_error + store" where
  "Audit now e s =
     (let d = st_db s
      in ensureE (ref_ok (map p_id (peers d)) (nullable_int (ae_PeerID e))) ErrConstraint
           (Inr (s\<lparr>st_db := d\<lparr>audit_log := audit_log d @
              [new_audit_row now e (next_rowid (map a_id (audit_log d)))]\<rparr>\<rparr>)))"

definition audit_view :: "db \<Rightarrow> audit_row \<Rightarrow> AuditRow" where
  "audit_view d a =
     \<lparr>ae_Event = a_event a, ae_PeerID = coalesce (a_peer_id a) 0, ae_OverlayIP = coalesce (a_overlay_ip a) [],
      ae_RemoteIP = coalesce (a_remote_ip a) [], ae_ForwardedFor = coalesce (a_forwarded_for a) [],
      ae_UserAgent = coalesce (a_user_agent a) [], ae_Method = coalesce (a_method a) [],
      ae_Path = coalesce (a_path a) [], ae_Status = a_status a, ae_Detail = coalesce (a_detail a) [],
      ae_ID = a_id a, ae_At = a_at a, ae_PeerHostname = host_of (a_peer_id a) d\<rparr>"

definition ListAuditLog :: "int \<Rightarrow> store \<Rightarrow> AuditRow list" where
  "ListAuditLog limit s = map (audit_view (st_db s)) (newest_first a_id limit (audit_log (st_db s)))"

definition PruneAuditLog :: "time \<Rightarrow> duration \<Rightarrow> store \<Rightarrow> store \<times> nat" where
  "PruneAuditLog now retention s =
     (let cutoff = format_time (now - retention); old = (\<lambda>a. a_at a < cutoff); d = st_db s
      in (s\<lparr>st_db := d\<lparr>audit_log := delete_where old (audit_log d)\<rparr>\<rparr>, rows_affected old (audit_log d)))"

subsection \<open>Connection events (connections.go)\<close>

record ConnectionEventRow =
  ce_ID :: int
  ce_At :: string
  ce_Kind :: string
  ce_FromState :: string
  ce_ToState :: string
  ce_ReporterPeerID :: int
  ce_ReporterHostname :: string
  ce_RemotePeerID :: int
  ce_RemoteHostname :: string

definition connection_view :: "db \<Rightarrow> connection_event \<Rightarrow> ConnectionEventRow" where
  "connection_view d c =
     \<lparr>ce_ID = c_id c, ce_At = c_at c, ce_Kind = c_kind c, ce_FromState = coalesce (c_from_state c) [],
      ce_ToState = c_to_state c, ce_ReporterPeerID = c_reporter_peer_id c,
      ce_ReporterHostname = host_of (Some (c_reporter_peer_id c)) d, ce_RemotePeerID = c_remote_peer_id c,
      ce_RemoteHostname = host_of (Some (c_remote_peer_id c)) d\<rparr>"

definition ListConnectionEvents :: "int \<Rightarrow> store \<Rightarrow> ConnectionEventRow list" where
  "ListConnectionEvents limit s =
     map (connection_view (st_db s)) (newest_first c_id limit (connection_events (st_db s)))"

definition PruneConnectionEvents :: "time \<Rightarrow> duration \<Rightarrow> store \<Rightarrow> store \<times> nat" where
  "PruneConnectionEvents now retention s =
     (let cutoff = format_time (now - retention); old = (\<lambda>c. c_at c < cutoff); d = st_db s
      in (s\<lparr>st_db := d\<lparr>connection_events := delete_where old (connection_events d)\<rparr>\<rparr>,
          rows_affected old (connection_events d)))"

subsection \<open>Proxy events (proxy.go)\<close>

record ProxyEventRow = ProxyEvent +
  pe_ID :: int
  pe_PeerID :: int
  pe_PeerHostname :: string

definition proxy_view :: "db \<Rightarrow> proxy_row \<Rightarrow> ProxyEventRow" where
  "proxy_view d x =
     \<lparr>pe_At = x_at x, pe_Method = coalesce (x_method x) [], pe_Host = coalesce (x_host x) [],
      pe_Path = coalesce (x_path x) [], pe_Status = x_status x, pe_DurationMS = x_duration_ms x,
      pe_ReqBytes = x_req_bytes x, pe_RespBytes = x_resp_bytes x, pe_ClientIP = coalesce (x_client_ip x) [],
      pe_Service = coalesce (x_service x) [], pe_ID = x_id x, pe_PeerID = coalesce (x_peer_id x) 0,
      pe_PeerHostname = host_of (x_peer_id x) d\<rparr>"

definition ListProxyEvents :: "int \<Rightarrow> store \<Rightarrow> ProxyEventRow list" where
  "ListProxyEvents limit s = map (proxy_view (st_db s)) (newest_first x_id limit (proxy_events (st_db s)))"

definition PruneProxyEvents :: "time \<Rightarrow> duration \<Rightarrow> store \<Rightarrow> store \<times> nat" where
  "PruneProxyEvents now retention s =
     (let cutoff = format_time (now - retention); old = (\<lambda>x. x_at x < cutoff); d = st_db s
      in (s\<lparr>st_db := d\<lparr>proxy_events := delete_where old (proxy_events d)\<rparr>\<rparr>,
          rows_affected old (proxy_events d)))"

subsection \<open>The retention contract\<close>

text \<open>
  \<open>rows\<close> and \<open>set_rows\<close> read and replace one log of the database, \<open>at\<close> is its timestamp
  column, \<open>prune\<close> its retention job.
\<close>

locale retention_log =
  fixes at :: "'r \<Rightarrow> string"
    and rows :: "db \<Rightarrow> 'r list"
    and set_rows :: "'r list \<Rightarrow> db \<Rightarrow> db"
    and prune :: "time \<Rightarrow> duration \<Rightarrow> store \<Rightarrow> store \<times> nat"
  assumes rows_set: "rows (set_rows xs d) = xs"
    and set_set: "set_rows ys (set_rows xs d) = set_rows ys d"
    and set_peers: "peers (set_rows xs d) = peers d"
    and sub_inv: "db_inv d \<Longrightarrow> db_inv (set_rows (delete_where P (rows d)) d)"
    and prune_eq: "prune now ret s =
      (s\<lparr>st_db := set_rows (delete_where (\<lambda>r. at r < format_time (now - ret)) (rows (st_db s))) (st_db s)\<rparr>,
       rows_affected (\<lambda>r. at r < format_time (now - ret)) (rows (st_db s)))"
begin

lemma prune_inv: "store_inv s \<Longrightarrow> store_inv (fst (prune now ret s))"
  by (auto simp: prune_eq store_inv_def nets_ok_def set_peers sub_inv)

lemma prune_rows:
  "rows (st_db (fst (prune now ret s))) = filter (\<lambda>r. \<not> at r < format_time (now - ret)) (rows (st_db s))"
  by (simp add: prune_eq rows_set delete_where_def)

lemma prune_count:
  "snd (prune now ret s) + length (rows (st_db (fst (prune now ret s)))) = length (rows (st_db s))"
  unfolding prune_rows by (simp add: prune_eq rows_affected_def sum_length_filter_compl)

lemma prune_exact:
  assumes "valid_time (now - ret)" "list_all (\<lambda>r. valid_time (inst r) \<and> at r = format_time (inst r)) (rows (st_db s))"
  shows "rows (st_db (fst (prune now ret s))) =
    filter (\<lambda>r. (now - ret) div 1000000 \<le> inst r div 1000000) (rows (st_db s))"
  unfolding prune_rows
proof (rule filter_cong [OF refl])
  fix r assume "r \<in> set (rows (st_db s))"
  then have "valid_time (inst r)" "at r = format_time (inst r)" using assms(2) by (auto simp: list_all_iff)
  then show "\<not> at r < format_time (now - ret) \<longleftrightarrow> (now - ret) div 1000000 \<le> inst r div 1000000"
    using format_time_less [of "inst r" "now - ret"] assms(1) by auto
qed

lemma prune_twice:
  assumes "valid_time (now - ret)" "valid_time (now' - ret')" "now' - ret' \<le> now - ret"
  shows "prune now' ret' (fst (prune now ret s)) = (fst (prune now ret s), 0)"
proof -
  let ?s = "fst (prune now ret s)"
  have le: "format_time (now' - ret') \<le> format_time (now - ret)"
    using format_time_le [OF assms(2,1)] assms(3) by (simp add: zdiv_mono1)
  have keep: "\<not> at r < format_time (now' - ret')" if "r \<in> set (rows (st_db ?s))" for r
    using that le by (auto simp: prune_rows)
  then have "delete_where (\<lambda>r. at r < format_time (now' - ret')) (rows (st_db ?s)) = rows (st_db ?s)"
    by (simp add: delete_where_def)
  moreover have "rows_affected (\<lambda>r. at r < format_time (now' - ret')) (rows (st_db ?s)) = 0"
    using keep by (simp add: rows_affected_zero_iff)
  moreover have "set_rows (rows (st_db ?s)) (st_db ?s) = st_db ?s"
    by (simp add: prune_eq rows_set set_set)
  ultimately show ?thesis unfolding prune_eq [of now' ret'] by simp
qed

end

interpretation flow_log: retention_log f_reported_at flows "\<lambda>xs d. d\<lparr>flows := xs\<rparr>" PruneFlows
  by unfold_locales
    (auto simp: PruneFlows_def Let_def set_delete_where rowids_delete dest: db_inv_flows(1) intro!: db_inv_flows(2))

interpretation event_log: retention_log c_at connection_events "\<lambda>xs d. d\<lparr>connection_events := xs\<rparr>" PruneConnectionEvents
  by unfold_locales
    (auto simp: PruneConnectionEvents_def Let_def set_delete_where rowids_delete dest: db_inv_events(1) intro!: db_inv_events(2))

interpretation proxy_log: retention_log x_at proxy_events "\<lambda>xs d. d\<lparr>proxy_events := xs\<rparr>" PruneProxyEvents
  by unfold_locales
    (auto simp: PruneProxyEvents_def Let_def set_delete_where rowids_delete dest: db_inv_proxy(1) intro!: db_inv_proxy(2))

lemma db_inv_audit:
  "db_inv d \<Longrightarrow> rowids (map a_id (audit_log d)) \<and>
     (\<forall>a \<in> set (audit_log d). ref_ok (map p_id (peers d)) (a_peer_id a))"
  "db_inv d \<Longrightarrow> rowids (map a_id xs) \<Longrightarrow> \<forall>a \<in> set xs. ref_ok (map p_id (peers d)) (a_peer_id a) \<Longrightarrow>
     db_inv (d\<lparr>audit_log := xs\<rparr>)"
  by (auto simp: db_inv_def refs_inv_def Let_def list_all_iff)

interpretation audit: retention_log a_at audit_log "\<lambda>xs d. d\<lparr>audit_log := xs\<rparr>" PruneAuditLog
  by unfold_locales
    (auto simp: PruneAuditLog_def Let_def set_delete_where rowids_delete dest: db_inv_audit(1) intro!: db_inv_audit(2))

lemma Audit_inv:
  assumes "store_inv s" "Audit now e s = Inr s'"
  shows "store_inv s'"
proof -
  let ?d = "st_db s"
  have "db_inv (st_db s')" "peers (st_db s') = peers ?d" "st_network s' = st_network s" "Network6 s' = Network6 s"
    using assms(2) db_inv_audit(1) [OF store_invD(1) [OF assms(1)]]
    by (auto simp: Audit_def Let_def go_simps rowids_snoc new_audit_row_def
        intro!: db_inv_audit(2) store_invD(1) [OF assms(1)])
  with assms(1) show ?thesis by (simp add: store_inv_def nets_ok_def)
qed

subsection \<open>Properties\<close>

text \<open>
  Audit retention. With timestamps written by the program, \<open>PruneAuditLog\<close> keeps
  exactly the entries whose millisecond is not before the cutoff, in order, reports how many
  it deleted, keeps the store invariant, and a later run whose cutoff is not later deletes
  nothing more.
\<close>

theorem PruneAuditLog_exact:
  assumes "store_inv s" "valid_time (now - ret)"
    and "list_all (\<lambda>a. valid_time (inst a) \<and> a_at a = format_time (inst a)) (audit_log (st_db s))"
  shows "(let s' = fst (PruneAuditLog now ret s); n = snd (PruneAuditLog now ret s)
          in audit_log (st_db s') = filter (\<lambda>a. (now - ret) div 1000000 \<le> inst a div 1000000) (audit_log (st_db s)) \<and>
             n + length (audit_log (st_db s')) = length (audit_log (st_db s)) \<and> store_inv s' \<and>
             PruneAuditLog now ret s' = (s', 0))"
  unfolding Let_def
  by (intro conjI audit.prune_exact [OF assms(2,3)] audit.prune_count audit.prune_inv [OF assms(1)]
      audit.prune_twice [OF assms(2,2) order_refl])

definition demo_audited :: store where
  "demo_audited = demo_store\<lparr>st_db := (st_db demo_store)\<lparr>audit_log :=
     [\<lparr>a_id = 1, a_at = ''1970-01-01T00:00:00.000Z'', a_event = ''enroll'', a_peer_id = Some 1, a_overlay_ip = None,
       a_remote_ip = None, a_forwarded_for = None, a_user_agent = None, a_method = None, a_path = None, a_status = 200,
       a_detail = None\<rparr>,
      \<lparr>a_id = 2, a_at = ''1970-01-01T00:00:01.000Z'', a_event = ''enroll'', a_peer_id = None, a_overlay_ip = None,
       a_remote_ip = None, a_forwarded_for = None, a_user_agent = None, a_method = None, a_path = None, a_status = 401,
       a_detail = None\<rparr>]\<rparr>\<rparr>"

lemma demo_audited_inv: "store_inv demo_audited"
  by code_simp

theorem PruneAuditLog_exact_witness:
  "map a_id (audit_log (st_db (fst (PruneAuditLog 2000000000 1000000000 demo_audited)))) = [2] \<and>
   snd (PruneAuditLog 2000000000 1000000000 demo_audited) = 1"
proof -
  let ?inst = "\<lambda>a. if a_id a = 1 then 0 else 1000000000"
  have t: "format_time 1000000000 = ''1970-01-01T00:00:01.000Z''" by code_simp
  have u: "valid_time 0" "valid_time 1000000000" by code_simp+
  have all: "list_all (\<lambda>a. valid_time (?inst a) \<and> a_at a = format_time (?inst a)) (audit_log (st_db demo_audited))"
    using t u epoch_text by (simp add: demo_audited_def)
  have v: "valid_time (2000000000 - 1000000000)" using u by simp
  have len: "length (audit_log (st_db demo_audited)) = 2" by (simp add: demo_audited_def)
  have "audit_log (st_db (fst (PruneAuditLog 2000000000 1000000000 demo_audited))) =
      filter (\<lambda>a. (2000000000 - 1000000000) div 1000000 \<le> (?inst a :: int) div 1000000) (audit_log (st_db demo_audited))"
    "snd (PruneAuditLog 2000000000 1000000000 demo_audited) +
      length (audit_log (st_db (fst (PruneAuditLog 2000000000 1000000000 demo_audited)))) = 2"
    using PruneAuditLog_exact [OF demo_audited_inv v all] unfolding Let_def len by blast+
  then show ?thesis by (simp add: demo_audited_def)
qed

lemma newest_first_snoc:
  assumes "rowids (map key (rows @ [r]))" "0 < limit"
  shows "newest_first key limit (rows @ [r]) = r # newest_first key (limit - 1) rows"
proof -
  have so: "sorted_wrt (<) (map key (rows @ [r]))" using assms(1) by (simp add: rowids_def)
  then have "sort_key key (rows @ [r]) = rows @ [r]" "sort_key key rows = rows"
    by (auto intro!: sort_key_id simp: sorted_wrt_append)
  moreover have "nat limit = Suc (nat (limit - 1))" using assms(2) by simp
  ultimately show ?thesis using assms(2) by (simp add: newest_first_def Let_def)
qed

text \<open>
  An audited event is the first of the log. Every entry about no peer or an existing one
  is stored; listing the log then shows it first, with all its fields as given, a fresh id
  above all others and the time of the call, followed by what the list showed before.
\<close>

theorem Audit_listed:
  assumes "store_inv s" "ae_PeerID e \<le> 0 \<or> list_ex (\<lambda>p. p_id p = ae_PeerID e) (peers (st_db s))"
    and "0 \<le> ae_PeerID e" "0 < n"
  shows "\<exists>s' row. Audit now e s = Inr s' \<and> ListAuditLog n s' = row # ListAuditLog (n - 1) s \<and>
    AuditEntry.truncate row = e \<and> ae_At row = format_time now \<and> ae_ID row = next_rowid (map a_id (audit_log (st_db s)))"
proof -
  let ?d = "st_db s"
  have ref: "ref_ok (map p_id (peers ?d)) (nullable_int (ae_PeerID e))"
    using assms(2) by (auto simp: ref_ok_def nullable_int_def list_ex_iff) (metis imageI)
  then obtain s' where s': "Audit now e s = Inr s'" by (simp add: Audit_def Let_def)
  define r where "r = new_audit_row now e (next_rowid (map a_id (audit_log ?d)))"
  have r: "st_db s' = ?d\<lparr>audit_log := audit_log ?d @ [r]\<rparr>"
    using s' ref by (auto simp: Audit_def Let_def r_def)
  have "rowids (map a_id (audit_log (st_db s')))"
    using db_inv_audit(1) store_invD(1) [OF Audit_inv [OF assms(1) s']] by blast
  then have "newest_first a_id n (audit_log (st_db s')) = r # newest_first a_id (n - 1) (audit_log ?d)"
    unfolding r using newest_first_snoc assms(4) by simp
  moreover have "audit_view (st_db s') = audit_view ?d"
    by (intro ext) (simp add: audit_view_def host_of_def peer_by_id_def r split: option.split)
  ultimately have "ListAuditLog n s' = audit_view ?d r # ListAuditLog (n - 1) s"
    by (simp add: ListAuditLog_def)
  moreover have "AuditEntry.truncate (audit_view ?d r) = e"
    using assms(3) by (cases e) (auto simp: audit_view_def r_def new_audit_row_def AuditEntry.truncate_def nullable_int_def)
  ultimately show ?thesis
    using s' by (intro exI [of _ s'] exI [of _ "audit_view ?d r"]) (simp add: audit_view_def r_def new_audit_row_def)
qed

definition demo_entry :: AuditEntry where
  "demo_entry = \<lparr>ae_Event = ''peer_revoked'', ae_PeerID = 1, ae_OverlayIP = [], ae_RemoteIP = ''192.0.2.9'',
     ae_ForwardedFor = [], ae_UserAgent = [], ae_Method = ''POST'', ae_Path = [], ae_Status = 204, ae_Detail = []\<rparr>"

theorem Audit_listed_witness:
  "\<exists>s' row. Audit 0 demo_entry demo_audited = Inr s' \<and> ListAuditLog 1 s' = [row] \<and>
     AuditEntry.truncate row = demo_entry \<and> ae_ID row = 3"
proof -
  have a: "ae_PeerID demo_entry \<le> 0 \<or> list_ex (\<lambda>p. p_id p = ae_PeerID demo_entry) (peers (st_db demo_audited))"
    by (simp add: demo_entry_def demo_audited_def demo_store_def demo_peer_def)
  have b: "0 \<le> ae_PeerID demo_entry" by (simp add: demo_entry_def)
  have c: "next_rowid (map a_id (audit_log (st_db demo_audited))) = 3"
    by (simp add: demo_audited_def next_rowid_def)
  have z: "ListAuditLog (1 - 1) demo_audited = []" by (simp add: ListAuditLog_def newest_first_def)
  show ?thesis
    using Audit_listed [OF demo_audited_inv a b, of 1 0] c z by auto
qed

end
