(* ===== verification/Tokens.thy ===== *)
theory Tokens
  imports Telemetry
begin

section \<open>The life of a peer token\<close>

text \<open>
  Enrollment issues a token and stores its hash; \<open>AuthenticatePeer\<close> accepts it until it is
  rotated, expires or its peer is revoked. These facts span enrollment (store.go), the
  administration of peers (admin.go) and authentication (telemetry.go).
\<close>

lemma authenticate_row:
  assumes "distinct (map p_id (peers (st_db s)))" "p \<in> set (peers (st_db s))" "p_revoked_at p = None"
    and "p_auth_token_hash p = Some (HashToken sha256 token)"
    and "\<And>q. q \<in> set (peers (st_db s)) \<Longrightarrow> q \<noteq> p \<Longrightarrow> p_auth_token_hash q \<noteq> Some (HashToken sha256 token)"
  shows "List.find (\<lambda>p. p_auth_token_hash p = Some (HashToken sha256 token) \<and> p_revoked_at p = None)
    (peers (st_db s)) = Some p"
proof (cases "List.find (\<lambda>p. p_auth_token_hash p = Some (HashToken sha256 token) \<and> p_revoked_at p = None) (peers (st_db s))")
  case None
  with assms(2-4) show ?thesis by (auto simp: find_None_all)
next
  case (Some q)
  with find_Some_mem [OF Some] assms(5) show ?thesis by blast
qed

lemma authenticate_issued:
  assumes "List.find (\<lambda>p. p_auth_token_hash p = Some (HashToken sha256 token) \<and> p_revoked_at p = None)
      (peers (st_db s)) = Some p"
    and "p_auth_token_issued_at p = Some (format_time now)" "valid_time now"
  shows "AuthenticatePeer sha256 later token s =
    (if 0 < TokenTTL s \<and> time_sub later (now div 1000000 * 1000000) > TokenTTL s
     then Inl (ErrUnauthorized ''token expired'') else Inr (p_id p, p_assigned_ip p))"
  unfolding AuthenticatePeer_def assms(1) option.case assms(2) parse_format_time [OF assms(3)] ..

lemma authenticate_Inr:
  assumes "AuthenticatePeer sha256 later token s = Inr (i, ip)"
  shows "\<exists>p \<in> set (peers (st_db s)). p_id p = i \<and> p_assigned_ip p = ip \<and> p_revoked_at p = None \<and>
    p_auth_token_hash p = Some (HashToken sha256 token)"
  using assms unfolding AuthenticatePeer_def
  by (auto split: option.splits if_splits dest!: find_Some_mem)

text \<open>The row an enrollment leaves behind, and the rows it does not touch.\<close>

lemma Enroll_row:
  assumes "store_inv s" "Enroll sha256 now raw a s = Inr (s', r)"
  obtains p where "p \<in> set (peers (st_db s'))" "p_id p = ID (er_Peer r)" "p_public_key p = ea_publicKey a"
    "p_assigned_ip p = AssignedIP (er_Peer r)" "p_auth_token_hash p = Some (HashToken sha256 (AuthToken r))"
    "p_auth_token_issued_at p = Some (format_time now)"
    "p_revoked_at p = None \<longleftrightarrow> \<not> list_ex (\<lambda>q. p_public_key q = ea_publicKey a \<and> p_revoked_at q \<noteq> None) (peers (st_db s))"
    "\<forall>q \<in> set (peers (st_db s')). q \<noteq> p \<longrightarrow> q \<in> set (peers (st_db s)) \<and> p_id q \<noteq> p_id p"
    "TokenTTL s' = TokenTTL s"
proof (cases "ea_publicKey a \<in> p_public_key ` set (peers (st_db s))")
  case False
  then have no: "\<forall>q \<in> set (peers (st_db s)). p_public_key q \<noteq> ea_publicKey a" by (metis imageI)
  from assms(2) obtain k ip ip6 where e: "s' = enrolled sha256 now raw a s k ip ip6" "r = enroll_response raw a s s' ip ip6"
    unfolding Enroll_new [OF False] enroll_new_Inr [OF assms(1)] by blast
  let ?i = "next_rowid (map p_id (peers (st_db s)))"
  let ?p = "new_peer now a ?i (sk_id k) ip ip6 (HashToken sha256 (RawURLEncode raw))"
  have p: "peers (st_db s') = peers (st_db s) @ [?p]" "TokenTTL s' = TokenTTL s"
    by (simp_all add: e(1) enrolled_def Let_def)
  have "p_id q \<noteq> ?i" if "q \<in> set (peers (st_db s))" for q
    using next_rowid_greater [of "p_id q" "map p_id (peers (st_db s))"] that by auto
  with no p show ?thesis
    by (intro that [of ?p]) (auto simp: e(2) enroll_response_def Let_def list_ex_iff new_peer_def)
next
  case True
  then obtain q where q: "q \<in> set (peers (st_db s))" "p_public_key q = ea_publicKey a" by auto
  have inv: "distinct (map p_id (peers (st_db s)))" "distinct (map p_public_key (peers (st_db s)))"
    using store_invD(7) [OF assms(1)] by (simp_all add: peers_ok_def)
  have re: "reEnroll sha256 now raw a (scan_existing q) (p_setup_key_id q) s = Inr (s', r)"
    using assms(2) Enroll_existing [OF assms(1) q] by simp
  have "ID (scan_existing q) = p_id q" by simp
  from re obtain ip6 where s': "st_db s' = (st_db s)\<lparr>peers := update_where (\<lambda>x. p_id x = p_id q)
        (refresh_peer now a ip6 (HashToken sha256 (RawURLEncode raw))) (peers (st_db s))\<rparr>"
    "r = reenroll_response raw a s s' q ip6" "TokenTTL s' = TokenTTL s"
    unfolding reEnroll_def
    by (auto simp: Let_def newAuthToken_def go_simps reenroll_response_def split: option.splits if_splits)
  let ?p = "refresh_peer now a ip6 (HashToken sha256 (RawURLEncode raw)) q"
  have other: "x \<in> set (peers (st_db s)) \<and> p_id x \<noteq> p_id ?p" if "x \<in> set (peers (st_db s'))" "x \<noteq> ?p" for x
  proof -
    have "x \<in> set (update_where (\<lambda>x. p_id x = p_id q)
        (refresh_peer now a ip6 (HashToken sha256 (RawURLEncode raw))) (peers (st_db s)))"
      using that(1) s'(1) by simp
    then show ?thesis
      using that(2) distinct_map_eqD [OF inv(1) _ q(1)] by (auto simp: set_update_where)
  qed
  have "p_revoked_at q = None \<longleftrightarrow> \<not> list_ex (\<lambda>x. p_public_key x = ea_publicKey a \<and> p_revoked_at x \<noteq> None) (peers (st_db s))"
    using q distinct_map_eqD [OF inv(2) _ q(1)] unfolding list_ex_iff by metis
  moreover have "?p \<in> set (peers (st_db s'))" using q(1) s'(1) by (simp add: set_update_where)
  moreover have "ID (er_Peer r) = p_id q" "AssignedIP (er_Peer r) = p_assigned_ip q" "AuthToken r = RawURLEncode raw"
    by (simp_all add: s'(2) reenroll_response_def mirror_existing_def Let_def scan_existing_def PeerRow_zero_def)
  ultimately show ?thesis
    using q(2) s'(3) other by (intro that [of ?p]) (auto simp: refresh_peer_def)
qed

lemma find_after_revoke:
  assumes "List.find (\<lambda>p. p_auth_token_hash p = h \<and> p_revoked_at p = None) rows = Some p" "p_id p \<noteq> i"
  shows "List.find (\<lambda>p. p_auth_token_hash p = h \<and> p_revoked_at p = None)
    (update_where (active_peer i) (\<lambda>p. p\<lparr>p_revoked_at := Some t\<rparr>) rows) = Some p"
  using assms(1)
proof (induction rows)
  case (Cons x xs)
  then show ?case
    using assms(2)
    by (cases "p_auth_token_hash x = h \<and> p_revoked_at x = None"; cases "active_peer i x")
      (auto simp: update_where_def active_peer_def)
qed simp

subsection \<open>Properties\<close>

text \<open>
  C24: the token an enrollment returns authenticates its peer, and only it does. Unless the
  key belongs to a revoked peer, and provided no stored hash equals the new one, the token
  is accepted at every later time within the TTL (at any time without one) as the enrolled
  peer with its address, and refused as expired after it; every other token, the one the
  peer had before included, no longer authenticates as that peer.
\<close>

theorem Enroll_token_authenticates:
  assumes "store_inv s" "Enroll sha256 now raw a s = Inr (s', r)" "valid_time now"
    and "\<not> list_ex (\<lambda>q. p_public_key q = ea_publicKey a \<and> p_revoked_at q \<noteq> None) (peers (st_db s))"
    and "\<not> list_ex (\<lambda>q. p_auth_token_hash q = Some (HashToken sha256 (AuthToken r))) (peers (st_db s))"
  shows "AuthenticatePeer sha256 later (AuthToken r) s' =
      (if 0 < TokenTTL s \<and> time_sub later (now div 1000000 * 1000000) > TokenTTL s
       then Inl (ErrUnauthorized ''token expired'') else Inr (ID (er_Peer r), AssignedIP (er_Peer r))) \<and>
    (HashToken sha256 old \<noteq> HashToken sha256 (AuthToken r) \<longrightarrow>
       AuthenticatePeer sha256 later old s' \<noteq> Inr (ID (er_Peer r), ip))"
proof -
  obtain p where p: "p \<in> set (peers (st_db s'))" "p_id p = ID (er_Peer r)" "p_public_key p = ea_publicKey a"
    "p_assigned_ip p = AssignedIP (er_Peer r)" "p_auth_token_hash p = Some (HashToken sha256 (AuthToken r))"
    "p_auth_token_issued_at p = Some (format_time now)"
    "p_revoked_at p = None \<longleftrightarrow> \<not> list_ex (\<lambda>q. p_public_key q = ea_publicKey a \<and> p_revoked_at q \<noteq> None) (peers (st_db s))"
    "\<forall>q \<in> set (peers (st_db s')). q \<noteq> p \<longrightarrow> q \<in> set (peers (st_db s)) \<and> p_id q \<noteq> p_id p"
    "TokenTTL s' = TokenTTL s"
    by (rule Enroll_row [OF assms(1,2)])
  have dist: "distinct (map p_id (peers (st_db s')))"
    using store_invD(7) [OF Enroll_inv [OF assms(1,2)]] by (simp add: peers_ok_def)
  have "List.find (\<lambda>p. p_auth_token_hash p = Some (HashToken sha256 (AuthToken r)) \<and> p_revoked_at p = None)
      (peers (st_db s')) = Some p"
  proof (rule authenticate_row [OF dist p(1)])
    show "p_revoked_at p = None" using p(7) assms(4) by simp
    show "p_auth_token_hash q \<noteq> Some (HashToken sha256 (AuthToken r))" if "q \<in> set (peers (st_db s'))" "q \<noteq> p" for q
      using p(8) that assms(5) by (auto simp: list_ex_iff)
  qed (rule p(5))
  from authenticate_issued [OF this p(6) assms(3)]
  have new: "AuthenticatePeer sha256 later (AuthToken r) s' =
      (if 0 < TokenTTL s \<and> time_sub later (now div 1000000 * 1000000) > TokenTTL s
       then Inl (ErrUnauthorized ''token expired'') else Inr (ID (er_Peer r), AssignedIP (er_Peer r)))"
    unfolding p(2,4,9) .
  have "AuthenticatePeer sha256 later old s' \<noteq> Inr (ID (er_Peer r), ip)"
    if "HashToken sha256 old \<noteq> HashToken sha256 (AuthToken r)"
  proof
    assume "AuthenticatePeer sha256 later old s' = Inr (ID (er_Peer r), ip)"
    then obtain q where q: "q \<in> set (peers (st_db s'))" "p_id q = ID (er_Peer r)"
      "p_auth_token_hash q = Some (HashToken sha256 old)" using authenticate_Inr by blast
    have "q = p" using p(2,8) q(1,2) by metis
    with q(3) p(5) that show False by simp
  qed
  with new show ?thesis by blast
qed

theorem Enroll_token_authenticates_witness:
  "\<exists>s' r. Enroll (\<lambda>x. x) 0 ''raw'' demo_args demo_store = Inr (s', r) \<and>
     AuthenticatePeer (\<lambda>x. x) 5 (AuthToken r) s' = Inr (1, AssignedIP (er_Peer r)) \<and>
     AuthenticatePeer (\<lambda>x. x) 5 ''old'' s' \<noteq> Inr (1, AssignedIP (er_Peer r))"
proof -
  obtain s' r where e: "Enroll (\<lambda>x. x) 0 ''raw'' demo_args demo_store = Inr (s', r)"
    "ID (er_Peer r) = 1" "AuthToken r = RawURLEncode ''raw''"
  proof -
    have mem: "demo_peer \<in> set (peers (st_db demo_store))" "demo_key \<in> set (setup_keys (st_db demo_store))"
      "p_public_key demo_peer = ea_publicKey demo_args" "retry_key demo_args demo_peer demo_key"
      "ea_listenPort demo_args \<le> 65535" "backfill demo_store demo_peer = Inr []"
      by (simp_all add: demo_store_def retry_key_def demo_args_def demo_peer_def demo_key_def backfill_def
          v6Enabled_def network6_def)
    show thesis
      using that Enroll_existing [OF demo_store_inv mem(1,3)] reEnroll_eq [OF demo_store_inv mem(1,2,4)]
        refreshed_peers_ok [OF demo_store_inv mem(1,6,5)] mem(6)
      by (simp add: write_peers_def reenroll_response_def mirror_existing_def Let_def demo_peer_def)
  qed
  have v: "valid_time 0" by code_simp
  have ttl: "TokenTTL demo_store = 0" by (simp add: demo_store_def)
  have a: "\<not> list_ex (\<lambda>q. p_public_key q = ea_publicKey demo_args \<and> p_revoked_at q \<noteq> None) (peers (st_db demo_store))"
    by (simp add: demo_store_def demo_peer_def)
  have b: "\<not> list_ex (\<lambda>q. p_auth_token_hash q = Some (HashToken (\<lambda>x. x) (AuthToken r))) (peers (st_db demo_store))"
    unfolding e(3) by code_simp
  have h: "HashToken (\<lambda>x. x) ''old'' \<noteq> HashToken (\<lambda>x. x) (AuthToken r)" unfolding e(3) by code_simp
  show ?thesis
    using e Enroll_token_authenticates [OF demo_store_inv e(1) v a b, of 5 "''old''" "AssignedIP (er_Peer r)"] ttl h by auto
qed

text \<open>
  Revoking a peer cuts it off. After a successful \<open>RevokePeer\<close> no token authenticates
  as that peer, while every other peer's token still does as before.
\<close>

theorem RevokePeer_cuts_off:
  assumes "store_inv s" "RevokePeer now i s = Inr s'"
  shows "AuthenticatePeer sha256 later token s' \<noteq> Inr (i, ip) \<and>
    (j \<noteq> i \<and> AuthenticatePeer sha256 later token s = Inr (j, ip) \<longrightarrow>
     AuthenticatePeer sha256 later token s' = Inr (j, ip))"
proof -
  let ?f = "\<lambda>p. p\<lparr>p_revoked_at := Some (format_time now)\<rparr>"
  have s': "s' = s\<lparr>st_db := (st_db s)\<lparr>peers := update_where (active_peer i) ?f (peers (st_db s))\<rparr>\<rparr>"
    using assms(2) unfolding RevokePeer_eq [OF assms(1)] by (auto split: if_splits)
  have "AuthenticatePeer sha256 later token s' \<noteq> Inr (i, ip)"
  proof
    assume "AuthenticatePeer sha256 later token s' = Inr (i, ip)"
    from authenticate_Inr [OF this] obtain p where p: "p \<in> set (peers (st_db s'))" "p_id p = i" "p_revoked_at p = None"
      by blast
    have s'_rows: "peers (st_db s') = update_where (active_peer i) ?f (peers (st_db s))" by (simp add: s')
    from p(1) obtain q where q: "p = (if active_peer i q then ?f q else q)"
      unfolding s'_rows update_where_def set_map by blast
    show False
      using p(2,3) unfolding q by (cases "active_peer i q") (auto simp: active_peer_def)
  qed
  moreover have "AuthenticatePeer sha256 later token s' = Inr (j, ip)"
    if j: "j \<noteq> i" "AuthenticatePeer sha256 later token s = Inr (j, ip)"
  proof -
    let ?P = "\<lambda>p. p_auth_token_hash p = Some (HashToken sha256 token) \<and> p_revoked_at p = None"
    obtain p where p: "List.find ?P (peers (st_db s)) = Some p" "p_id p = j"
      using j(2) unfolding AuthenticatePeer_def by (auto split: option.splits if_splits)
    have "List.find ?P (peers (st_db s')) = List.find ?P (peers (st_db s))"
      using find_after_revoke [OF p(1)] p j(1) by (simp add: s')
    moreover have "TokenTTL s' = TokenTTL s" by (simp add: s')
    ultimately show ?thesis using j(2) unfolding AuthenticatePeer_def by metis
  qed
  ultimately show ?thesis by blast
qed

theorem RevokePeer_cuts_off_witness:
  "AuthenticatePeer (\<lambda>x. x) 5 ''t'' demo_revoked \<noteq> Inr (2, ''10.0.0.2'')"
  using RevokePeer_cuts_off [OF demo_store2_inv demo_revoke, of "\<lambda>x. x" 5 "''t''" "''10.0.0.2''"] by simp

end
