(* ===== verification/GoParse.thy ===== *)
theory GoParse
  imports Encoding
begin

section \<open>Reading numbers and fields back from text\<close>

text \<open>
  The readers of Go's library that the program uses on cookies, stored password hashes and
  request paths: \<open>strconv.ParseInt\<close> in base ten and 64 bits, the \<open>%d\<close> verb of
  \<open>fmt.Sscanf\<close>, \<open>strings.Cut\<close> and \<open>strings.HasPrefix\<close>.
\<close>

definition HasPrefix :: "string \<Rightarrow> string \<Rightarrow> bool" where
  "HasPrefix s p \<longleftrightarrow> take (length p) s = p"

definition Cut :: "char \<Rightarrow> string \<Rightarrow> (string \<times> string) option" where
  "Cut c s = (let after = dropWhile (\<lambda>x. x \<noteq> c) s
     in if after = [] then None else Some (takeWhile (\<lambda>x. x \<noteq> c) s, tl after))"

definition int64 :: "int \<Rightarrow> bool" where
  "int64 i \<longleftrightarrow> - (2 ^ 63) \<le> i \<and> i < 2 ^ 63"

definition ParseInt :: "string \<Rightarrow> int option" where
  "ParseInt s =
     (let (neg, ds) = (case s of
            [] \<Rightarrow> (False, [])
          | c # r \<Rightarrow> if c = CHR ''-'' then (True, r) else if c = CHR ''+'' then (False, r) else (False, s));
          n = int (dec_val ds); v = (if neg then - n else n)
      in if ds = [] \<or> \<not> list_all is_digit ds \<or> \<not> int64 v then None else Some v)"

lemma HasPrefix_append [simp]: "HasPrefix (p @ s) p"
  by (simp add: HasPrefix_def)

lemma Cut_append: "c \<notin> set a \<Longrightarrow> Cut c (a @ c # b) = Some (a, b)"
proof -
  assume "c \<notin> set a"
  then have "\<forall>x \<in> set a. x \<noteq> c" by metis
  then show ?thesis by (simp add: Cut_def takeWhile_append2 dropWhile_append2)
qed

lemma Cut_Some:
  assumes "Cut c s = Some (a, b)"
  shows "s = a @ c # b \<and> c \<notin> set a"
proof -
  obtain d r where d: "dropWhile (\<lambda>x. x \<noteq> c) s = d # r" and a: "a = takeWhile (\<lambda>x. x \<noteq> c) s" and b: "b = r"
    using assms by (cases "dropWhile (\<lambda>x. x \<noteq> c) s") (auto simp: Cut_def Let_def)
  have "d = c" using hd_dropWhile [of "\<lambda>x. x \<noteq> c" s] d by simp
  moreover have "s = a @ d # r" using takeWhile_dropWhile_id [of "\<lambda>x. x \<noteq> c" s] d a by simp
  moreover have "c \<notin> set a" using a by (auto dest: set_takeWhileD)
  ultimately show ?thesis using b by simp
qed

lemma dec_all_digits: "list_all is_digit (dec n)"
  by (auto simp: list_all_iff dest: dec_digits)

lemma sign_not_digit: "\<not> is_digit CHR ''-''" "\<not> is_digit CHR ''+''" "\<not> is_digit CHR '',''"
  "\<not> is_digit CHR ''.''" "\<not> is_digit CHR ''|''" "\<not> is_digit CHR ''$''"
  by (simp_all add: is_digit_def)

lemma dec_hd_digit: "dec n = c # r \<Longrightarrow> is_digit c"
  using dec_digits [of c n] by simp

lemma ParseInt_Itoa:
  assumes "int64 i"
  shows "ParseInt (Itoa i) = Some i"
proof (cases "i < 0")
  case True
  then have "Itoa i = CHR ''-'' # dec (nat (- i))" by (simp add: Itoa_def)
  then show ?thesis using True assms dec_all_digits by (simp add: ParseInt_def Let_def)
next
  case False
  then have e: "Itoa i = dec (nat i)" by (simp add: Itoa_def)
  obtain c r where c: "dec (nat i) = c # r" by (cases "dec (nat i)") auto
  have "c \<noteq> CHR ''-''" "c \<noteq> CHR ''+''" using dec_hd_digit [OF c] sign_not_digit by auto
  then have "(case dec (nat i) of [] \<Rightarrow> (False, []) | c # r \<Rightarrow>
      if c = CHR ''-'' then (True, r) else if c = CHR ''+'' then (False, r) else (False, dec (nat i)))
      = (False, dec (nat i))" by (simp add: c)
  then show ?thesis
    unfolding ParseInt_def e Let_def using False assms dec_all_digits by simp
qed

interpretation int_text: text_codec Itoa ParseInt int64
  by unfold_locales (rule ParseInt_Itoa)

lemma Itoa_chars:
  assumes "c \<in> set (Itoa i)"
  shows "is_digit c \<or> c = CHR ''-''"
  using assms dec_digits by (auto simp: Itoa_def split: if_splits)

subsection \<open>Sscanf\<close>

text \<open>
  A literal of the format matches itself. \<open>%d\<close> skips white space other than a newline,
  takes an optional sign and the longest run of digits, and fails outside 64 bits.
  What follows the last verb is not read.
\<close>

definition scan_lit :: "string \<Rightarrow> string \<Rightarrow> string option" where
  "scan_lit lit s = (if HasPrefix s lit then Some (drop (length lit) s) else None)"

function scan_space :: "string \<Rightarrow> string option" where
  "scan_space s =
     (case List.find (\<lambda>w. w \<noteq> [] \<and> take (length w) s = w) space_codes of
        None \<Rightarrow> Some s
      | Some w \<Rightarrow>
          if w = [byte 10] then None
          else if w = [byte 13] \<and> take 2 s = [byte 13, byte 10] then scan_space (drop 2 s)
          else scan_space (drop (length w) s))"
  by pat_completeness auto
termination
proof (relation "measure length", goal_cases)
  case 1
  show ?case by simp
next
  case (2 s w)
  then have "take 2 s = [byte 13, byte 10]" by auto
  then show ?case by (cases s) auto
next
  case (3 s w)
  then have "w \<noteq> []" and "take (length w) s = w"
    by (auto dest: find_Some_mem)
  then show ?case by (cases s; cases w) auto
qed

declare scan_space.simps [simp del]

definition scan_d :: "string \<Rightarrow> (int \<times> string) option" where
  "scan_d s = Option.bind (scan_space s) (\<lambda>t.
     let (sign, u) = (case t of [] \<Rightarrow> ([], []) | c # r \<Rightarrow> if c = CHR ''-'' \<or> c = CHR ''+'' then ([c], r) else ([], t))
     in map_option (\<lambda>v. (v, dropWhile is_digit u)) (ParseInt (sign @ takeWhile is_digit u)))"

lemma scan_lit_append [simp]: "scan_lit lit (lit @ s) = Some s"
  by (simp add: scan_lit_def)

lemma digit_not_space:
  assumes "is_digit c"
  shows "List.find (\<lambda>w. w \<noteq> [] \<and> take (length w) (c # r) = w) space_codes = None"
proof -
  have "visible_char c" using assms by (simp add: visible_char_def is_digit_def)
  then show ?thesis
    using space_codes_edges unfolding find_None_all
    by (metis length_0_conv list.sel(1) take_eq_Nil2 hd_take gr0I)
qed

lemma scan_d_dec:
  assumes "int64 (int n)" "\<forall>c r'. r = c # r' \<longrightarrow> \<not> is_digit c"
  shows "scan_d (dec n @ r) = Some (int n, r)"
proof -
  obtain c w where c: "dec n = c # w" by (cases "dec n") auto
  have dc: "is_digit c" by (rule dec_hd_digit [OF c])
  have s: "scan_space (dec n @ r) = Some (dec n @ r)"
    unfolding c append_Cons using digit_not_space [OF dc, of "w @ r"] by (simp add: scan_space.simps)
  have sg: "c \<noteq> CHR ''-''" "c \<noteq> CHR ''+''" using dc sign_not_digit by auto
  have t: "takeWhile is_digit (dec n @ r) = dec n" "dropWhile is_digit (dec n @ r) = r"
    using assms(2) dec_all_digits [of n]
    by (cases r; auto simp: list_all_iff takeWhile_append2 dropWhile_append2)+
  have "ParseInt (dec n) = Some (int n)" using ParseInt_Itoa [OF assms(1)] by (simp add: Itoa_def)
  then show ?thesis
    unfolding scan_d_def s using t sg by (simp add: c Let_def)
qed

end
