(* ===== verification/Users.thy ===== *)
theory Users
  imports Telemetry GoParse
begin

section \<open>Admin accounts\<close>

text \<open>
  internal/store/users.go: the accounts of the web UI. A password is stored as the
  self-describing argon2id string of \<open>hashPassword\<close>. The key derivation is the package
  golang.org/x/crypto/argon2, a parameter of the definitions: its \<open>IDKey\<close> and its
  \<open>Version\<close> constant. Salts are the random bytes drawn, handed in.
\<close>

record argon2 =
  IDKey :: "string \<Rightarrow> string \<Rightarrow> nat \<Rightarrow> nat \<Rightarrow> nat \<Rightarrow> nat \<Rightarrow> string"
  argon_Version :: nat

record User =
  us_ID :: int
  us_Username :: string
  us_AuthSource :: string
  us_SessionEpoch :: int
  us_CreatedAt :: string
  us_UpdatedAt :: string

subsection \<open>Password hashes\<close>

definition argonTime :: nat where "argonTime = 1"
definition argonMemory :: nat where "argonMemory = 64 * 1024"
definition argonThreads :: nat where "argonThreads = 4"
definition argonKeyLen :: nat where "argonKeyLen = 32"

definition hashPassword :: "argon2 \<Rightarrow> string \<Rightarrow> string \<Rightarrow> string" where
  "hashPassword ag salt password =
     (let key = IDKey ag password salt argonTime argonMemory argonThreads argonKeyLen
      in ''$argon2id$v='' @ dec (argon_Version ag) @ ''$m='' @ dec argonMemory @ '',t='' @ dec argonTime @
         '',p='' @ dec argonThreads @ ''$'' @ RawStdEncode salt @ ''$'' @ RawStdEncode key)"

definition scan_params :: "string \<Rightarrow> (int \<times> int \<times> int) option" where
  "scan_params s =
     Option.bind (scan_lit ''m='' s) (\<lambda>s. Option.bind (scan_d s) (\<lambda>(mem, s).
     Option.bind (scan_lit '',t='' s) (\<lambda>s. Option.bind (scan_d s) (\<lambda>(tim, s).
     Option.bind (scan_lit '',p='' s) (\<lambda>s. map_option (\<lambda>(par, s). (mem, tim, par)) (scan_d s))))))"

definition verifyPassword :: "argon2 \<Rightarrow> string \<Rightarrow> string \<Rightarrow> bool" where
  "verifyPassword ag encoded password =
     (let parts = split_on CHR ''$'' encoded
      in if length parts \<noteq> 6 \<or> parts ! 1 \<noteq> ''argon2id'' then False
         else case (Option.bind (scan_lit ''v='' (parts ! 2)) scan_d, scan_params (parts ! 3),
                    RawStdDecode (parts ! 4), RawStdDecode (parts ! 5)) of
             (Some _, Some (mem, tim, par), Some salt, Some want) \<Rightarrow>
               IDKey ag password salt (nat (tim mod 2 ^ 32)) (nat (mem mod 2 ^ 32)) (nat (par mod 2 ^ 8)) (length want)
                 = want
           | _ \<Rightarrow> False)"

definition username_char :: "char \<Rightarrow> bool" where
  "username_char r \<longleftrightarrow> r = CHR ''-'' \<or> r = CHR ''_'' \<or> r = CHR ''.'' \<or> r = CHR ''@'' \<or>
     (CHR ''a'' \<le> r \<and> r \<le> CHR ''z'') \<or> (CHR ''A'' \<le> r \<and> r \<le> CHR ''Z'') \<or> (CHR ''0'' \<le> r \<and> r \<le> CHR ''9'')"

definition validateUsername :: "string \<Rightarrow> store_error + string" where
  "validateUsername username =
     (let username = TrimSpace username
      in ensureE (username \<noteq> []) (ErrMsg ''username is required'')
         (ensureE (length username \<le> 64) (ErrMsg ''username too long (max 64)'')
         (ensureE (list_all username_char username) (ErrMsg ''username may contain only letters, digits, and -_.@'')
         (Inr username))))"

definition validatePassword :: "string \<Rightarrow> store_error + unit" where
  "validatePassword password =
     ensureE (8 \<le> length password) (ErrMsg ''password must be at least 8 characters'')
     (ensureE (length password \<le> 512) (ErrMsg ''password too long (max 512)'') (Inr ()))"

subsection \<open>Operations\<close>

definition scan_user :: "user \<Rightarrow> User" where
  "scan_user u = \<lparr>us_ID = u_id u, us_Username = u_username u, us_AuthSource = u_auth_source u,
     us_SessionEpoch = u_session_epoch u, us_CreatedAt = u_created_at u, us_UpdatedAt = u_updated_at u\<rparr>"

definition UserByID :: "int \<Rightarrow> store \<Rightarrow> store_error + User" where
  "UserByID i s =
     (case List.find (\<lambda>u. u_id u = i) (users (st_db s)) of
        None \<Rightarrow> Inl ErrNotFound
      | Some u \<Rightarrow> Inr (scan_user u))"

definition insert_user :: "string \<Rightarrow> string \<Rightarrow> string \<Rightarrow> db \<Rightarrow> store_error + db" where
  "insert_user username hash now d =
     write_users (users d @ [\<lparr>u_id = next_rowid (map u_id (users d)), u_username = username,
       u_password_hash = hash, u_auth_source = ''local'', u_session_epoch = 0,
       u_created_at = now, u_updated_at = now\<rparr>]) d"

definition CreateLocalUser ::
  "argon2 \<Rightarrow> string \<Rightarrow> time \<Rightarrow> string \<Rightarrow> string \<Rightarrow> store \<Rightarrow> store_error + store \<times> User" where
  "CreateLocalUser ag salt now username password s =
     bindE (validateUsername username) (\<lambda>username.
     bindE (validatePassword password) (\<lambda>_.
       let hash = hashPassword ag salt password; i = next_rowid (map u_id (users (st_db s)))
       in case insert_user username hash (format_time now) (st_db s) of
            Inl _ \<Rightarrow> Inl ErrUserExists
          | Inr d \<Rightarrow> bindE (UserByID i (s\<lparr>st_db := d\<rparr>)) (\<lambda>u. Inr (s\<lparr>st_db := d\<rparr>, u))))"

text \<open>\<open>salt\<close> is drawn by \<open>CreateLocalUser\<close>, \<open>salt2\<close> by the fallback.\<close>

definition EnsureSeedUser ::
  "argon2 \<Rightarrow> string \<Rightarrow> string \<Rightarrow> time \<Rightarrow> string \<Rightarrow> string \<Rightarrow> store \<Rightarrow> store_error + store \<times> bool" where
  "EnsureSeedUser ag salt salt2 now username bootstrapPassword s =
     (if 0 < length (users (st_db s)) then Inr (s, False)
      else case CreateLocalUser ag salt now username bootstrapPassword s of
          Inr (s', _) \<Rightarrow> Inr (s', True)
        | Inl _ \<Rightarrow>
            bindE (insert_user username (hashPassword ag salt2 bootstrapPassword) (format_time now) (st_db s))
              (\<lambda>d. Inr (s\<lparr>st_db := d\<rparr>, True)))"

definition Authenticate :: "argon2 \<Rightarrow> string \<Rightarrow> string \<Rightarrow> store \<Rightarrow> store_error + User" where
  "Authenticate ag username password s =
     (let username = TrimSpace username
      in case List.find (\<lambda>u. u_username u = username) (users (st_db s)) of
           None \<Rightarrow> Inl ErrAuth
         | Some u \<Rightarrow>
             if u_auth_source u \<noteq> ''local'' \<or> \<not> verifyPassword ag (u_password_hash u) password
             then Inl ErrAuth
             else UserByID (u_id u) s)"

definition SetPassword :: "argon2 \<Rightarrow> string \<Rightarrow> time \<Rightarrow> int \<Rightarrow> string \<Rightarrow> store \<Rightarrow> store_error + store" where
  "SetPassword ag salt now userID newPassword s =
     bindE (validatePassword newPassword) (\<lambda>_.
       let hash = hashPassword ag salt newPassword;
           P = (\<lambda>u. u_id u = userID \<and> u_auth_source u = ''local'');
           rows = update_where P (\<lambda>u. u\<lparr>u_password_hash := hash,
             u_session_epoch := u_session_epoch u + 1, u_updated_at := format_time now\<rparr>) (users (st_db s))
       in bindE (write_users rows (st_db s)) (\<lambda>d.
          ensureE (rows_affected P (users (st_db s)) \<noteq> 0) ErrNotFound (Inr (s\<lparr>st_db := d\<rparr>))))"

definition DeleteUser :: "int \<Rightarrow> store \<Rightarrow> store_error + store" where
  "DeleteUser userID s =
     (let P = (\<lambda>u. u_id u = userID); rows = users (st_db s)
      in ensureE (1 < length rows) (ErrMsg ''cannot delete the last remaining admin user'')
         (ensureE (rows_affected P rows \<noteq> 0) ErrNotFound
         (bindE (write_users (delete_where P rows) (st_db s)) (\<lambda>d. Inr (s\<lparr>st_db := d\<rparr>)))))"

definition ListUsers :: "store \<Rightarrow> User list" where
  "ListUsers s = map scan_user (sort_key u_id (users (st_db s)))"

subsection \<open>Hash and verify\<close>

lemma std_no_dollar: "CHR ''$'' \<notin> set (RawStdEncode s)"
proof -
  have "CHR ''$'' \<notin> set std_alphabet" by code_simp
  then show ?thesis using raw_encode_set [OF alphabets_ok(2)] by blast
qed

lemma dec_no_dollar: "CHR ''$'' \<notin> set (dec n)"
  using dec_digits sign_not_digit by blast

lemma scan_params_print:
  assumes "int64 (int m)" "int64 (int t)" "int64 (int p)"
  shows "scan_params (''m='' @ dec m @ '',t='' @ dec t @ '',p='' @ dec p) = Some (int m, int t, int p)"
proof -
  have 1: "scan_d (dec m @ '',t='' @ dec t @ '',p='' @ dec p) = Some (int m, '',t='' @ dec t @ '',p='' @ dec p)"
    using assms(1) sign_not_digit by (intro scan_d_dec) auto
  have 2: "scan_d (dec t @ '',p='' @ dec p) = Some (int t, '',p='' @ dec p)"
    using assms(2) sign_not_digit by (intro scan_d_dec) auto
  have 3: "scan_d (dec p) = Some (int p, [])"
    using scan_d_dec [OF assms(3), of "[]"] by simp
  show ?thesis unfolding scan_params_def by (simp only: scan_lit_append 1 2 3 bind.simps prod.case option.map)
qed

lemma hashPassword_parts:
  "split_on CHR ''$'' (hashPassword ag salt pw) =
     [[], ''argon2id'', ''v='' @ dec (argon_Version ag),
      ''m='' @ dec argonMemory @ '',t='' @ dec argonTime @ '',p='' @ dec argonThreads,
      RawStdEncode salt, RawStdEncode (IDKey ag pw salt argonTime argonMemory argonThreads argonKeyLen)]"
proof -
  let ?a = "''argon2id''" and ?v = "''v='' @ dec (argon_Version ag)"
  let ?m = "''m='' @ dec argonMemory @ '',t='' @ dec argonTime @ '',p='' @ dec argonThreads"
  let ?s = "RawStdEncode salt" and ?k = "RawStdEncode (IDKey ag pw salt argonTime argonMemory argonThreads argonKeyLen)"
  have e: "hashPassword ag salt pw = [] @ CHR ''$'' # ?a @ CHR ''$'' # ?v @ CHR ''$'' # ?m @ CHR ''$'' # ?s @ CHR ''$'' # ?k"
    by (simp add: hashPassword_def Let_def)
  have n: "CHR ''$'' \<notin> set ?a" "CHR ''$'' \<notin> set ?v" "CHR ''$'' \<notin> set ?m"
    using dec_no_dollar by auto
  show ?thesis
    unfolding e using n std_no_dollar
    by (simp only: split_on_word split_on_no_sep list.set empty_iff not_False_eq_True)
qed

lemma verify_hashPassword:
  assumes "\<And>p s t m n k. length (IDKey ag p s t m n k) = k" and "int64 (int (argon_Version ag))"
  shows "verifyPassword ag (hashPassword ag salt pw) pw' \<longleftrightarrow>
    IDKey ag pw' salt argonTime argonMemory argonThreads argonKeyLen =
    IDKey ag pw salt argonTime argonMemory argonThreads argonKeyLen"
proof -
  have v: "scan_d (dec (argon_Version ag)) = Some (int (argon_Version ag), [])"
    using scan_d_dec [OF assms(2), of "[]"] by simp
  have p: "scan_params (''m='' @ dec argonMemory @ '',t='' @ dec argonTime @ '',p='' @ dec argonThreads)
      = Some (int argonMemory, int argonTime, int argonThreads)"
    by (rule scan_params_print) (simp_all add: int64_def argonMemory_def argonTime_def argonThreads_def)
  have c: "nat (int argonMemory mod 2 ^ 32) = argonMemory" "nat (int argonTime mod 2 ^ 32) = argonTime"
    "nat (int argonThreads mod 2 ^ 8) = argonThreads"
    by (simp_all add: argonMemory_def argonTime_def argonThreads_def)
  have i: "length [p0, p1, p2, p3, p4, p5] = 6" "[p0, p1, p2, p3, p4, p5] ! 1 = p1" "[p0, p1, p2, p3, p4, p5] ! 2 = p2"
    "[p0, p1, p2, p3, p4, p5] ! 3 = p3" "[p0, p1, p2, p3, p4, p5] ! 4 = p4" "[p0, p1, p2, p3, p4, p5] ! 5 = p5"
    for p0 p1 p2 p3 p4 p5 :: string by simp_all
  show ?thesis
    unfolding verifyPassword_def Let_def hashPassword_parts i
    by (simp only: scan_lit_append v p b64rawstd.parse_print bind.simps option.case prod.case c assms(1)
        simp_thms if_False)
qed

subsection \<open>Account operations\<close>

lemma replace_error_eq_Inr [go_simps]:
  "(case m of Inl e \<Rightarrow> Inl (h e) | Inr x \<Rightarrow> f x) = Inr y \<longleftrightarrow> (\<exists>x. m = Inr x \<and> f x = Inr y)"
  by (cases m) auto

lemma find_user:
  assumes "distinct (map k (rows :: user list))" "u \<in> set rows" "k u = v"
  shows "List.find (\<lambda>x. k x = v) rows = Some u"
  using find_unique [OF assms(1,2)] assms(3) by simp

lemma UserByID_iff:
  assumes "users_ok (users (st_db s))"
  shows "UserByID i s = Inr v \<longleftrightarrow> (\<exists>u \<in> set (users (st_db s)). u_id u = i \<and> v = scan_user u)"
  using assms find_user [of u_id "users (st_db s)"]
  by (auto simp: UserByID_def users_ok_def split: option.splits dest: find_Some_mem)

lemma Authenticate_iff:
  assumes "users_ok (users (st_db s))"
  shows "Authenticate ag name pw s = Inr v \<longleftrightarrow>
    (\<exists>u \<in> set (users (st_db s)). u_username u = TrimSpace name \<and> u_auth_source u = ''local'' \<and>
       verifyPassword ag (u_password_hash u) pw \<and> v = scan_user u)"
proof -
  have d: "distinct (map u_username (users (st_db s)))" "distinct (map u_id (users (st_db s)))"
    using assms by (auto simp: users_ok_def)
  have u: "UserByID (u_id x) s = Inr v \<longleftrightarrow> v = scan_user x" if "x \<in> set (users (st_db s))" for x
    using that find_user [OF d(2) that refl] by (auto simp: UserByID_def)
  show ?thesis
  proof (cases "List.find (\<lambda>u. u_username u = TrimSpace name) (users (st_db s))")
    case None
    then have "\<forall>u \<in> set (users (st_db s)). u_username u \<noteq> TrimSpace name" by (simp add: find_None_all)
    with None show ?thesis by (auto simp: Authenticate_def Let_def)
  next
    case (Some x)
    then have x: "x \<in> set (users (st_db s))" "u_username x = TrimSpace name" by (auto dest: find_Some_mem)
    have o: "y = x" if "y \<in> set (users (st_db s))" "u_username y = TrimSpace name" for y
      using find_user [OF d(1) that] Some by simp
    define local where "local \<longleftrightarrow> u_auth_source x = ''local''"
    have "Authenticate ag name pw s =
        (if \<not> local \<or> \<not> verifyPassword ag (u_password_hash x) pw then Inl ErrAuth else UserByID (u_id x) s)"
      by (simp add: Authenticate_def Some local_def)
    then have "Authenticate ag name pw s = Inr v \<longleftrightarrow> local \<and> verifyPassword ag (u_password_hash x) pw \<and> v = scan_user x"
      using u [OF x(1)] by (auto split: if_splits)
    then show ?thesis unfolding local_def using x o by metis
  qed
qed

lemma Authenticate_error: "Authenticate ag name pw s = Inl e \<Longrightarrow> users_ok (users (st_db s)) \<Longrightarrow> e = ErrAuth"
  by (auto simp: Authenticate_def UserByID_def Let_def find_None_all split: option.splits if_splits dest: find_Some_mem)

lemma insert_user_Inr:
  assumes "insert_user name hash t d = Inr d'"
  obtains u where "d' = d\<lparr>users := users d @ [u]\<rparr>" "users_ok (users d @ [u])"
    "u = \<lparr>u_id = next_rowid (map u_id (users d)), u_username = name, u_password_hash = hash,
       u_auth_source = ''local'', u_session_epoch = 0, u_created_at = t, u_updated_at = t\<rparr>"
  using assms by (auto simp: insert_user_def go_simps)

lemma insert_user_total:
  assumes "users_ok (users d)" "name \<notin> u_username ` set (users d)"
  shows "\<exists>d'. insert_user name hash t d = Inr d'"
  using assms next_rowid_fresh [of "map u_id (users d)"]
  by (auto simp: insert_user_def write_users_def users_ok_def ensureE_def)

text \<open>
  A created account: the row it adds, and that creation fails on exactly the three checks.
\<close>

lemma CreateLocalUser_effect:
  assumes "CreateLocalUser ag salt now name pw s = Inr (s', v)"
  obtains u where
    "u = \<lparr>u_id = next_rowid (map u_id (users (st_db s))), u_username = TrimSpace name,
       u_password_hash = hashPassword ag salt pw, u_auth_source = ''local'', u_session_epoch = 0,
       u_created_at = format_time now, u_updated_at = format_time now\<rparr>"
    "s' = s\<lparr>st_db := (st_db s)\<lparr>users := users (st_db s) @ [u]\<rparr>\<rparr>"
    "users_ok (users (st_db s) @ [u])" "v = scan_user u"
    "validateUsername name = Inr (TrimSpace name)" "validatePassword pw = Inr ()"
proof -
  from assms obtain un d where un: "validateUsername name = Inr un" "validatePassword pw = Inr ()"
    and d: "insert_user un (hashPassword ag salt pw) (format_time now) (st_db s) = Inr d"
    and v: "UserByID (next_rowid (map u_id (users (st_db s)))) (s\<lparr>st_db := d\<rparr>) = Inr v" "s' = s\<lparr>st_db := d\<rparr>"
    by (auto simp: CreateLocalUser_def go_simps Let_def)
  have un': "un = TrimSpace name" using un(1) by (auto simp: validateUsername_def Let_def go_simps)
  from d obtain u where u: "d = (st_db s)\<lparr>users := users (st_db s) @ [u]\<rparr>" "users_ok (users (st_db s) @ [u])"
    "u = \<lparr>u_id = next_rowid (map u_id (users (st_db s))), u_username = un,
       u_password_hash = hashPassword ag salt pw, u_auth_source = ''local'', u_session_epoch = 0,
       u_created_at = format_time now, u_updated_at = format_time now\<rparr>"
    by (rule insert_user_Inr)
  have id: "u_id u = next_rowid (map u_id (users (st_db s)))" using u(3) by simp
  have "v = scan_user u"
    using v(1) u(2) find_user [of u_id "users (st_db s) @ [u]" u, OF _ _ id]
    by (auto simp: UserByID_def u(1) users_ok_def)
  with u un un' v(2) that show thesis by simp
qed

lemma SetPassword_effect:
  assumes "SetPassword ag salt now i pw s = Inr s'"
  obtains u where "u \<in> set (users (st_db s))" "u_id u = i" "u_auth_source u = ''local''"
    "s' = s\<lparr>st_db := (st_db s)\<lparr>users := update_where (\<lambda>u. u_id u = i \<and> u_auth_source u = ''local'')
       (\<lambda>u. u\<lparr>u_password_hash := hashPassword ag salt pw, u_session_epoch := u_session_epoch u + 1,
          u_updated_at := format_time now\<rparr>) (users (st_db s))\<rparr>\<rparr>"
    "users_ok (users (st_db s'))"
  using assms by (auto simp: SetPassword_def go_simps Let_def)

lemma DeleteUser_effect:
  assumes "DeleteUser i s = Inr s'"
  shows "s' = s\<lparr>st_db := (st_db s)\<lparr>users := delete_where (\<lambda>u. u_id u = i) (users (st_db s))\<rparr>\<rparr> \<and>
    1 < length (users (st_db s)) \<and> users_ok (users (st_db s')) \<and> i \<in> u_id ` set (users (st_db s))"
  using assms by (auto simp: DeleteUser_def go_simps Let_def)

subsection \<open>Preservation\<close>

lemma store_inv_users:
  assumes "store_inv s" "rowids (map u_id rows)" "users_ok rows"
  shows "store_inv (s\<lparr>st_db := (st_db s)\<lparr>users := rows\<rparr>\<rparr>)"
  using assms by (simp add: store_inv_def db_inv_def nets_ok_def refs_inv_def)

lemma store_inv_users_ok: "store_inv s \<Longrightarrow> users_ok (users (st_db s))"
  by (simp add: store_inv_def db_inv_def)

lemma store_inv_user_rowids: "store_inv s \<Longrightarrow> rowids (map u_id (users (st_db s)))"
  by (simp add: store_inv_def db_inv_def)

lemma insert_user_inv:
  assumes "store_inv s" "insert_user name hash t (st_db s) = Inr d"
  shows "store_inv (s\<lparr>st_db := d\<rparr>)"
  using assms(2)
proof (rule insert_user_Inr)
  fix u
  assume u: "d = (st_db s)\<lparr>users := users (st_db s) @ [u]\<rparr>" "users_ok (users (st_db s) @ [u])"
    "u = \<lparr>u_id = next_rowid (map u_id (users (st_db s))), u_username = name, u_password_hash = hash,
       u_auth_source = ''local'', u_session_epoch = 0, u_created_at = t, u_updated_at = t\<rparr>"
  have "rowids (map u_id (users (st_db s) @ [u]))"
    using rowids_snoc [OF store_inv_user_rowids [OF assms(1)]] u(3) by simp
  with u(1,2) assms(1) show ?thesis by (simp add: store_inv_users)
qed

lemma CreateLocalUser_inv:
  assumes "store_inv s" "CreateLocalUser ag salt now name pw s = Inr (s', v)"
  shows "store_inv s'"
  using insert_user_inv [OF assms(1)] assms(2)
  by (auto simp: CreateLocalUser_def go_simps Let_def)

lemma EnsureSeedUser_inv:
  assumes "store_inv s" "EnsureSeedUser ag salt salt2 now name pw s = Inr (s', b)"
  shows "store_inv s'"
  using assms CreateLocalUser_inv [OF assms(1)] insert_user_inv [OF assms(1)]
  by (auto simp: EnsureSeedUser_def go_simps split: if_splits sum.splits)

lemma SetPassword_inv:
  assumes "store_inv s" "SetPassword ag salt now i pw s = Inr s'"
  shows "store_inv s'"
  using assms(2)
proof (rule SetPassword_effect)
  fix u assume s': "s' = s\<lparr>st_db := (st_db s)\<lparr>users := update_where (\<lambda>u. u_id u = i \<and> u_auth_source u = ''local'')
       (\<lambda>u. u\<lparr>u_password_hash := hashPassword ag salt pw, u_session_epoch := u_session_epoch u + 1,
          u_updated_at := format_time now\<rparr>) (users (st_db s))\<rparr>\<rparr>" and "users_ok (users (st_db s'))"
  then show ?thesis
    using assms(1) store_inv_user_rowids [OF assms(1)]
    unfolding s' by (intro store_inv_users) (simp_all add: map_update_where)
qed

lemma DeleteUser_inv:
  assumes "store_inv s" "DeleteUser i s = Inr s'"
  shows "store_inv s'"
  using DeleteUser_effect [OF assms(2)] assms(1) rowids_delete [OF store_inv_user_rowids [OF assms(1)]]
  by (auto intro!: store_inv_users)

lemma DeleteUser_nonempty:
  assumes "store_inv s" "DeleteUser i s = Inr s'"
  shows "users (st_db s') \<noteq> []"
proof -
  obtain u v where uv: "u \<in> set (users (st_db s))" "v \<in> set (users (st_db s))" "u \<noteq> v"
    using DeleteUser_effect [OF assms(2)] store_inv_users_ok [OF assms(1)]
    by (cases "users (st_db s)" rule: remdups_adj.cases) (auto simp: users_ok_def)
  then have "u_id u \<noteq> i \<or> u_id v \<noteq> i"
    using store_inv_users_ok [OF assms(1)] by (auto simp: users_ok_def dest: distinct_map_eqD)
  then show ?thesis
    using DeleteUser_effect [OF assms(2)] uv by (auto simp: delete_where_def filter_empty_conv)
qed

subsection \<open>Properties\<close>

text \<open>
  C27: A created account signs in: its user name (surrounding space ignored) with a password
  whose derived key equals that of the chosen password yields exactly that account, any other
  password is refused with \<open>ErrAuth\<close>. The derivation is documented to return as many
  bytes as asked for.
\<close>

theorem CreateLocalUser_authenticates:
  assumes "store_inv s" "CreateLocalUser ag salt now name pw s = Inr (s', v)"
    and "\<And>p s t m n k. length (IDKey ag p s t m n k) = k" "int64 (int (argon_Version ag))"
  shows "Authenticate ag name pw' s' =
    (if IDKey ag pw' salt argonTime argonMemory argonThreads argonKeyLen
        = IDKey ag pw salt argonTime argonMemory argonThreads argonKeyLen
     then Inr v else Inl ErrAuth)"
proof -
  from assms(2) obtain u where
    u: "u = \<lparr>u_id = next_rowid (map u_id (users (st_db s))), u_username = TrimSpace name,
       u_password_hash = hashPassword ag salt pw, u_auth_source = ''local'', u_session_epoch = 0,
       u_created_at = format_time now, u_updated_at = format_time now\<rparr>"
    and s': "s' = s\<lparr>st_db := (st_db s)\<lparr>users := users (st_db s) @ [u]\<rparr>\<rparr>"
    and ok: "users_ok (users (st_db s) @ [u])" and v: "v = scan_user u"
    by (rule CreateLocalUser_effect)
  have f: "List.find (\<lambda>x. u_username x = TrimSpace name) (users (st_db s')) = Some u"
    using ok u s' by (intro find_user) (auto simp: users_ok_def)
  have "UserByID (u_id u) s' = Inr v"
    using ok v s' by (subst UserByID_iff) auto
  then show ?thesis
    using verify_hashPassword [OF assms(3,4)] f by (auto simp: Authenticate_def Let_def u)
qed

text \<open>A key derivation of the documented shape, for concrete runs.\<close>

definition demo_argon :: argon2 where
  "demo_argon = \<lparr>IDKey = (\<lambda>p s t m n k. take k (p @ replicate k CHR ''0'')), argon_Version = 19\<rparr>"

lemma demo_argon_length: "length (IDKey demo_argon p s t m n k) = k"
  by (simp add: demo_argon_def)

lemma CreateLocalUser_total:
  assumes "store_inv s" "validateUsername name = Inr un" "validatePassword pw = Inr ()"
    and "un \<notin> u_username ` set (users (st_db s))"
  shows "\<exists>s' v. CreateLocalUser ag salt now name pw s = Inr (s', v)"
proof -
  obtain d where d: "insert_user un (hashPassword ag salt pw) (format_time now) (st_db s) = Inr d"
    using insert_user_total [OF store_inv_users_ok [OF assms(1)] assms(4)] by blast
  from d have "\<exists>u. UserByID (next_rowid (map u_id (users (st_db s)))) (s\<lparr>st_db := d\<rparr>) = Inr u"
    by (auto elim!: insert_user_Inr simp: UserByID_def find_None_all split: option.splits)
  with d assms(2,3) show ?thesis by (auto simp: CreateLocalUser_def)
qed

theorem CreateLocalUser_authenticates_witness:
  "\<exists>s' v. CreateLocalUser demo_argon ''salt'' 0 '' admin'' ''password1'' demo_store = Inr (s', v) \<and>
     Authenticate demo_argon '' admin'' ''password1'' s' = Inr v \<and>
     Authenticate demo_argon '' admin'' ''password2'' s' = Inl ErrAuth"
proof -
  have "validateUsername '' admin'' = Inr ''admin''" "validatePassword ''password1'' = Inr ()"
    by code_simp+
  then obtain s' v where c: "CreateLocalUser demo_argon ''salt'' 0 '' admin'' ''password1'' demo_store = Inr (s', v)"
    using CreateLocalUser_total [OF demo_store_inv, of "'' admin''" "''admin''" "''password1''" demo_argon "''salt''" 0]
    by (auto simp: demo_store_def empty_db_def)
  have v: "int64 (int (argon_Version demo_argon))" by (simp add: demo_argon_def int64_def)
  have n: "IDKey demo_argon ''password2'' ''salt'' argonTime argonMemory argonThreads argonKeyLen
      \<noteq> IDKey demo_argon ''password1'' ''salt'' argonTime argonMemory argonThreads argonKeyLen"
    by (simp add: demo_argon_def argonKeyLen_def)
  show ?thesis
    using CreateLocalUser_authenticates [OF demo_store_inv c demo_argon_length v, of "''password1''"]
      CreateLocalUser_authenticates [OF demo_store_inv c demo_argon_length v, of "''password2''"] c n
    by auto
qed

end
