(* ===== verification/Runs.thy ===== *)
theory Runs
  imports Prelude
begin

section \<open>Runs of a step relation\<close>

text \<open>
  A component that several goroutines or requests drive is a step relation labelled with
  events; \<open>run\<close> is a finite sequence of its steps in any interleaving. The locale
  \<open>preserved\<close> is the contract of an invariant; every component that has a step relation
  interprets it on its own steps and its own invariant.
\<close>

inductive run :: "('s \<Rightarrow> 'e \<Rightarrow> 's \<Rightarrow> bool) \<Rightarrow> 's \<Rightarrow> 'e list \<Rightarrow> 's \<Rightarrow> bool" for step where
  run_Nil: "run step s [] s"
| run_Cons: "step s e t \<Longrightarrow> run step t es u \<Longrightarrow> run step s (e # es) u"

inductive_simps run_Nil_iff [simp]: "run step s [] t"
inductive_simps run_Cons_iff: "run step s (e # es) t"

lemma run_append: "run step s es t \<Longrightarrow> run step t fs u \<Longrightarrow> run step s (es @ fs) u"
  by (induction rule: run.induct) (auto intro: run.intros)

lemma run_snoc: "run step s es t \<Longrightarrow> step t e u \<Longrightarrow> run step s (es @ [e]) u"
  by (rule run_append) (auto intro: run.intros)

locale preserved =
  fixes step :: "'s \<Rightarrow> 'e \<Rightarrow> 's \<Rightarrow> bool" and inv :: "'s \<Rightarrow> bool"
  assumes step_preserves: "inv s \<Longrightarrow> step s e t \<Longrightarrow> inv t"
begin

lemma run_preserves: "run step s es t \<Longrightarrow> inv s \<Longrightarrow> inv t"
  by (induction rule: run.induct) (auto intro: step_preserves)

text \<open>A property of every event, given the invariant where it happens.\<close>

lemma run_events:
  assumes "run step s es t" "inv s" "\<And>s e t. inv s \<Longrightarrow> step s e t \<Longrightarrow> P e" "e \<in> set es"
  shows "P e"
  using assms by (induction rule: run.induct) (auto intro: step_preserves)

text \<open>A quantity that no step decreases is not decreased by a run.\<close>

lemma run_mono:
  fixes m :: "'s \<Rightarrow> 'n::preorder"
  assumes "run step s es t" "inv s" "\<And>s e t. inv s \<Longrightarrow> step s e t \<Longrightarrow> m s \<le> m t"
  shows "m s \<le> m t"
  using assms
proof (induction rule: run.induct)
  case (run_Cons s e t es u)
  have "m s \<le> m t" by (rule run_Cons.prems(2) [OF run_Cons.prems(1) run_Cons.hyps(1)])
  also have "m t \<le> m u"
    by (rule run_Cons.IH [OF step_preserves [OF run_Cons.prems(1) run_Cons.hyps(1)] run_Cons.prems(2)])
  finally show ?case .
qed simp

end

end
