(* ===== verification/StoreRuns.thy ===== *)
theory StoreRuns
  imports StaticPeers ExitNode NetworkMigration Dns Acl Logs Tokens Users Runs
begin

section \<open>Histories of the store\<close>

text \<open>
  The handlers of the control plane, its retention jobs and its start-up code call the store in
  any order; every call is one SQLite transaction. A history is a run of the steps below, one
  constructor per call that changes the database. A call that fails rolls back, so it is no step.
\<close>

datatype store_op =
    OpCreateSetupKey string
  | OpEnroll enroll_args
  | OpCandidates int
  | OpCreateStaticPeer StaticPeer
  | OpRevokePeer int
  | OpRevokeSetupKey int
  | OpRemovePeer int
  | OpUpdatePeerAddress int
  | OpSetAdvertiseExitNode int bool
  | OpSetExitNode int int
  | OpReport int
  | OpCreateRule ACLRule
  | OpImportRules "ACLRule list"
  | OpDeleteRule int
  | OpDNS DNSConfig
  | OpMigrate prefix prefix
  | OpCreateUser string
  | OpSetPassword int
  | OpDeleteUser int
  | OpAudit AuditEntry
  | OpPrune

text \<open>
  The two networks of a migration are those the server has parsed from the request
  (\<open>parseNetwork4\<close>, \<open>parseNetwork6\<close>).
\<close>

inductive store_step :: "store \<Rightarrow> store_op \<Rightarrow> store \<Rightarrow> bool" where
  "CreateNamedSetupKey now raw name maxUses expiresIn s = Inr (s', key) \<Longrightarrow> store_step s (OpCreateSetupKey key) s'"
| "Enroll sha256 now raw a s = Inr (s', r) \<Longrightarrow> store_step s (OpEnroll a) s'"
| "UpdatePeerCandidates i cands s = Inr s' \<Longrightarrow> store_step s (OpCandidates i) s'"
| "CreateStaticPeer sha256 now rawKey rawToken spec s = Inr (s', info) \<Longrightarrow> store_step s (OpCreateStaticPeer spec) s'"
| "RevokePeer now i s = Inr s' \<Longrightarrow> store_step s (OpRevokePeer i) s'"
| "RevokeSetupKey now i s = Inr s' \<Longrightarrow> store_step s (OpRevokeSetupKey i) s'"
| "RemovePeer i s = Inr s' \<Longrightarrow> store_step s (OpRemovePeer i) s'"
| "UpdatePeerAddress i raw4 raw6 s = Inr (s', info) \<Longrightarrow> store_step s (OpUpdatePeerAddress i) s'"
| "SetAdvertiseExitNode i b s = Inr s' \<Longrightarrow> store_step s (OpSetAdvertiseExitNode i b) s'"
| "SetExitNode i j s = Inr (s', out) \<Longrightarrow> store_step s (OpSetExitNode i j) s'"
| "ApplyReport now i observed report s = Inr s' \<Longrightarrow> store_step s (OpReport i) s'"
| "CreateACLRuleDetailed now rule s = Inr (s', i) \<Longrightarrow> store_step s (OpCreateRule rule) s'"
| "ImportACLRules now rules replace s = Inr (s', n) \<Longrightarrow> store_step s (OpImportRules rules) s'"
| "DeleteACLRule i s = Inr s' \<Longrightarrow> store_step s (OpDeleteRule i) s'"
| "UpdateDNSConfig cfg s = Inr (s', c) \<Longrightarrow> store_step s (OpDNS cfg) s'"
| "LoadOrInitDNSConfig cfg s = Inr (s', c) \<Longrightarrow> store_step s (OpDNS cfg) s'"
| "prefix_IsValid t4 \<Longrightarrow> prefix_IsValid t6 \<Longrightarrow> Is4 (prefix_Addr t4) \<Longrightarrow> Is6 (prefix_Addr t6) \<Longrightarrow>
     ApplyNetworkMigration t4 t6 s = Inr (s', plan) \<Longrightarrow> store_step s (OpMigrate t4 t6) s'"
| "CreateLocalUser ag salt now name pw s = Inr (s', u) \<Longrightarrow> store_step s (OpCreateUser name) s'"
| "EnsureSeedUser ag salt salt2 now name pw s = Inr (s', b) \<Longrightarrow> store_step s (OpCreateUser name) s'"
| "SetPassword ag salt now i pw s = Inr s' \<Longrightarrow> store_step s (OpSetPassword i) s'"
| "DeleteUser i s = Inr s' \<Longrightarrow> store_step s (OpDeleteUser i) s'"
| "Audit now e s = Inr s' \<Longrightarrow> store_step s (OpAudit e) s'"
| "PruneFlows now retention s = (s', n) \<Longrightarrow> store_step s OpPrune s'"
| "PruneAuditLog now retention s = (s', n) \<Longrightarrow> store_step s OpPrune s'"
| "PruneConnectionEvents now retention s = (s', n) \<Longrightarrow> store_step s OpPrune s'"
| "PruneProxyEvents now retention s = (s', n) \<Longrightarrow> store_step s OpPrune s'"



subsection \<open>The invariant of every history\<close>

lemma UpdatePeerCandidates_inv:
  assumes "store_inv s" "UpdatePeerCandidates i cands s = Inr s'"
  shows "store_inv s'"
  using assms
  by (auto simp: UpdatePeerCandidates_def bindE_eq_Inr same_identity_def split: if_splits intro: store_inv_update)

lemma pruned_inv:
  assumes "store_inv s"
  shows "PruneFlows now retention s = (s', n) \<Longrightarrow> store_inv s'"
    and "PruneAuditLog now retention s = (s', n) \<Longrightarrow> store_inv s'"
    and "PruneConnectionEvents now retention s = (s', n) \<Longrightarrow> store_inv s'"
    and "PruneProxyEvents now retention s = (s', n) \<Longrightarrow> store_inv s'"
  using flow_log.prune_inv [OF assms, of now retention] audit.prune_inv [OF assms, of now retention]
    event_log.prune_inv [OF assms, of now retention] proxy_log.prune_inv [OF assms, of now retention] by simp_all

lemmas store_op_invs = CreateNamedSetupKey_inv Enroll_inv UpdatePeerCandidates_inv CreateStaticPeer_inv RevokePeer_inv
  RevokeSetupKey_inv RemovePeer_inv UpdatePeerAddress_inv SetAdvertiseExitNode_inv SetExitNode_inv ApplyReport_inv
  CreateACLRuleDetailed_inv ImportACLRules_inv DeleteACLRule_inv UpdateDNSConfig_inv LoadOrInitDNSConfig_inv
  CreateLocalUser_inv EnsureSeedUser_inv SetPassword_inv DeleteUser_inv Audit_inv pruned_inv

lemma store_step_inv:
  assumes "store_inv s" "store_step s e t"
  shows "store_inv t"
  using assms(2,1) by cases (erule (1) store_op_invs | (rule ApplyNetworkMigration_inv [rotated -1], assumption+))+

interpretation store_sys: preserved store_step store_inv
  by unfold_locales (rule store_step_inv)

lemma first_start_inv:
  assumes "st_db s = empty_db" "LoadOrInitNetworkConfig d4 d6 s = Inr (s0, cfg)"
  shows "store_inv s0"
proof -
  obtain n4 n6 c4 c6 d where n: "parseNetworkConfig c4 c6 = Inr (n4, n6)" "s0 = setNetworks n4 n6 (s\<lparr>st_db := d\<rparr>)"
    and d: "peers d = []" "d = empty_db\<lparr>settings := settings d\<rparr>"
    using assms by (auto simp: LoadOrInitNetworkConfig_def Let_def go_simps upsertSetting_def empty_db_def split: if_splits prod.splits)
  have "overlay_net n4 \<and> Is4 (prefix_Addr n4)" "overlay_net n6 \<and> Is6 (prefix_Addr n6)"
  proof -
    obtain m4 m6 where m: "ParsePrefix c4 = Some m4" "ParsePrefix c6 = Some m6" "Is4 (prefix_Addr m4)" "Is6 (prefix_Addr m6)"
      "n4 = Masked m4" "n6 = Masked m6"
      using n(1) by (auto simp: parseNetworkConfig_def split: option.splits if_splits)
    have v: "prefix_IsValid m4" "prefix_IsValid m6" using ParsePrefix_plain m(1,2) by (auto simp: plain_prefix_def)
    have "Is4 (prefix_Addr (Masked m4))" "Is6 (prefix_Addr (Masked m6))"
      using v m(3,4) by (cases m4 rule: Masked.cases; cases m6 rule: Masked.cases; simp)+
    with v m show "overlay_net n4 \<and> Is4 (prefix_Addr n4)" "overlay_net n6 \<and> Is6 (prefix_Addr n6)"
      by (simp_all add: Masked_overlay_net)
  qed
  moreover have "db_inv d" 
    by (subst d(2)) (simp add: db_inv_def empty_db_def setup_keys_ok_def peers_ok_def users_ok_def uses_inv_def refs_inv_def rowids_def col_def)
  ultimately show ?thesis using n(2) d(1) by (simp add: store_inv_def nets_ok_def addrs_inv_def setNetworks_def Masked_id)
qed

subsection \<open>Revocation\<close>

definition revoked_row :: "int \<Rightarrow> db \<Rightarrow> bool" where
  "revoked_row i d \<longleftrightarrow> list_ex (\<lambda>p. p_id p = i \<and> p_revoked_at p \<noteq> None) (peers d)"

lemma revoked_same: "same_rows (peers d) (peers d') \<Longrightarrow> revoked_row i d \<Longrightarrow> revoked_row i d'"
  unfolding revoked_row_def same_rows_def list_ex_iff by (fastforce simp: same_identity_def list_all2_conv_all_nth in_set_conv_nth)

lemma revoked_update:
  assumes "revoked_row i d" "peers d' = update_where P f (peers d)"
    and "\<And>p. p_id (f p) = p_id p" "\<And>p. p_revoked_at p \<noteq> None \<Longrightarrow> p_revoked_at (f p) \<noteq> None"
  shows "revoked_row i d'"
proof -
  obtain p where p: "p \<in> set (peers d)" "p_id p = i" "p_revoked_at p \<noteq> None"
    using assms(1) by (auto simp: revoked_row_def list_ex_iff)
  let ?q = "if P p then f p else p"
  have "?q \<in> set (peers d')" using p(1) assms(2) by (auto simp: update_where_def)
  moreover have "p_id ?q = i" "p_revoked_at ?q \<noteq> None" using p(2,3) assms(3,4) by simp_all
  ultimately show ?thesis unfolding revoked_row_def list_ex_iff by blast
qed

lemma revoked_append: "revoked_row i d \<Longrightarrow> peers d' = peers d @ ps \<Longrightarrow> revoked_row i d'"
  by (simp add: revoked_row_def)

lemma revoked_kept: "revoked_row i d \<Longrightarrow> peers d' = peers d \<Longrightarrow> revoked_row i d'"
  by (simp add: revoked_row_def)

lemma Enroll_revoked:
  assumes "store_inv s" "revoked_row i (st_db s)" "Enroll sha256 now raw a s = Inr (s', r)"
  shows "revoked_row i (st_db s')"
proof (cases "List.find (\<lambda>p. p_public_key p = ea_publicKey a) (peers (st_db s))")
  case None
  then have "enroll_new sha256 now raw a s = Inr (s', r)" using assms(3) by (simp add: Enroll_def)
  then show ?thesis
    unfolding enroll_new_Inr [OF assms(1)] by (auto simp: enrolled_def Let_def intro: revoked_append [OF assms(2)])
next
  case (Some p)
  then have "reEnroll sha256 now raw a (scan_existing p) (p_setup_key_id p) s = Inr (s', r)"
    using assms(3) by (simp add: Enroll_def)
  then show ?thesis
    by (auto simp: reEnroll_def Let_def go_simps newAuthToken_def split: option.splits if_splits
        intro!: revoked_update [OF assms(2)])
qed

lemma RemovePeer_revoked:
  assumes "revoked_row i (st_db s)" "RemovePeer j s = Inr s'" "j \<noteq> i"
  shows "revoked_row i (st_db s')"
  using assms unfolding revoked_row_def list_ex_iff
  by (force simp: RemovePeer_def cascade_peer_def detach_def set_delete_where split: if_splits)

lemma SetExitNode_revoked:
  assumes "store_inv s" "revoked_row i (st_db s)" "SetExitNode j e s = Inr (s', out)"
  shows "revoked_row i (st_db s')"
  using SetExitNode_effect(2) [OF assms(1,3)] by (auto intro: revoked_update [OF assms(2)])

lemma ApplyReport_revoked:
  assumes "store_inv s" "revoked_row i (st_db s)" "ApplyReport now j observed report s = Inr s'"
  shows "revoked_row i (st_db s')"
proof -
  let ?d = "touched (format_time now) j observed report (st_db s)"
  obtain d where d: "report_tables j (format_time now) report ?d = Inr d" "s' = s\<lparr>st_db := d\<rparr>"
    using assms(3) unfolding ApplyReport_eq [OF assms(1)] by (auto simp: go_simps)
  have "db_inv ?d" using touched_inv [OF assms(1)] by (simp add: store_inv_def)
  then have "peers d = peers ?d" using report_tables_inv [OF _ d(1)] same_core_peers by blast
  moreover have "revoked_row i ?d" by (rule revoked_update [OF assms(2), of _ "\<lambda>p. p_id p = j" "touch_peer (format_time now) observed report"])
      (simp_all add: touched_def touch_peer_def Let_def)
  ultimately show ?thesis using d(2) revoked_kept by simp
qed

lemma Migration_revoked:
  assumes "store_inv s" "revoked_row i (st_db s)" "prefix_IsValid t4" "prefix_IsValid t6"
    and "ApplyNetworkMigration t4 t6 s = Inr (s', plan)"
  shows "revoked_row i (st_db s')"
  using ApplyNetworkMigration_result(1) [OF assms(1,3-5)] assms(2)
  by (auto simp: migration_result_def upsertSetting_def migrated_same_rows intro!: revoked_same [of "st_db s"])

lemma other_revoked:
  assumes "store_inv s" "revoked_row i (st_db s)"
  shows "UpdatePeerCandidates j cands s = Inr s' \<Longrightarrow> revoked_row i (st_db s')"
    and "CreateStaticPeer sha256 now rawKey rawToken spec s = Inr (s', info) \<Longrightarrow> revoked_row i (st_db s')"
    and "RevokePeer now j s = Inr s' \<Longrightarrow> revoked_row i (st_db s')"
    and "UpdatePeerAddress j raw4 raw6 s = Inr (s', info) \<Longrightarrow> revoked_row i (st_db s')"
    and "SetAdvertiseExitNode j b s = Inr s' \<Longrightarrow> revoked_row i (st_db s')"
proof -
  show "UpdatePeerCandidates j cands s = Inr s' \<Longrightarrow> revoked_row i (st_db s')"
    using assms(2) by (auto simp: UpdatePeerCandidates_def go_simps split: if_splits intro: revoked_update [OF assms(2)])
  show "CreateStaticPeer sha256 now rawKey rawToken spec s = Inr (s', info) \<Longrightarrow> revoked_row i (st_db s')"
    by (erule CreateStaticPeer_Inr) (auto simp: with_static_def Let_def intro: revoked_append [OF assms(2)])
  show "RevokePeer now j s = Inr s' \<Longrightarrow> revoked_row i (st_db s')"
    unfolding RevokePeer_eq [OF assms(1)] by (auto split: if_splits intro: revoked_update [OF assms(2)])
  show "UpdatePeerAddress j raw4 raw6 s = Inr (s', info) \<Longrightarrow> revoked_row i (st_db s')"
    unfolding UpdatePeerAddress_requested
    by (auto simp: go_simps readdress_def split: if_splits intro!: revoked_update [OF assms(2)])
  show "SetAdvertiseExitNode j b s = Inr s' \<Longrightarrow> revoked_row i (st_db s')"
    by (auto simp: SetAdvertiseExitNode_def go_simps split: if_splits intro!: revoked_update [OF assms(2)])
qed

text \<open>The operations that leave the peers table alone.\<close>

lemma insert_peers: "insertACLRule now rule d = Inr (d', i) \<Longrightarrow> peers d' = peers d"
  by (auto simp: insertACLRule_def Let_def go_simps split: if_splits)

lemma import_peers:
  "foldE (\<lambda>rule d. bindE (insertACLRule now rule d) (\<lambda>(d', _). Inr d')) rules d = Inr d' \<Longrightarrow> peers d' = peers d"
proof (induction rules arbitrary: d)
  case (Cons r rules)
  then obtain d1 i where d1: "insertACLRule now r d = Inr (d1, i)"
    "foldE (\<lambda>rule d. bindE (insertACLRule now rule d) (\<lambda>(d', _). Inr d')) rules d1 = Inr d'"
    by (auto simp: go_simps)
  then show ?case using Cons.IH [OF d1(2)] insert_peers [OF d1(1)] by simp
qed simp

lemma same_peers:
  "CreateNamedSetupKey now raw name maxUses expiresIn s = Inr (s', key) \<Longrightarrow> peers (st_db s') = peers (st_db s)"
  "RevokeSetupKey now i s = Inr s' \<Longrightarrow> peers (st_db s') = peers (st_db s)"
  "CreateACLRuleDetailed now rule s = Inr (s', j) \<Longrightarrow> peers (st_db s') = peers (st_db s)"
  "ImportACLRules now rules replace s = Inr (s', n) \<Longrightarrow> peers (st_db s') = peers (st_db s)"
  "DeleteACLRule i s = Inr s' \<Longrightarrow> peers (st_db s') = peers (st_db s)"
  "UpdateDNSConfig cfg s = Inr (s', c) \<Longrightarrow> peers (st_db s') = peers (st_db s)"
  "LoadOrInitDNSConfig cfg s = Inr (s', c) \<Longrightarrow> peers (st_db s') = peers (st_db s)"
  "Audit now e s = Inr s' \<Longrightarrow> peers (st_db s') = peers (st_db s)"
  by (auto simp: CreateNamedSetupKey_def RevokeSetupKey_def CreateACLRuleDetailed_def ImportACLRules_def
      DeleteACLRule_def UpdateDNSConfig_def LoadOrInitDNSConfig_def saveDNSConfig_def upsertSetting_def Audit_def
      Let_def go_simps split: if_splits dest!: insert_peers import_peers)

lemma same_peers_users:
  "CreateLocalUser ag salt now name pw s = Inr (s', u) \<Longrightarrow> peers (st_db s') = peers (st_db s)"
  "EnsureSeedUser ag salt salt2 now name pw s = Inr (s', b) \<Longrightarrow> peers (st_db s') = peers (st_db s)"
  "SetPassword ag salt now i pw s = Inr s' \<Longrightarrow> peers (st_db s') = peers (st_db s)"
  "DeleteUser i s = Inr s' \<Longrightarrow> peers (st_db s') = peers (st_db s)"
  by (auto simp: CreateLocalUser_def EnsureSeedUser_def insert_user_def SetPassword_def DeleteUser_def
      Let_def go_simps split: if_splits sum.splits)

lemma same_peers_pruned:
  "PruneFlows now retention s = (s', n) \<Longrightarrow> peers (st_db s') = peers (st_db s)"
  "PruneAuditLog now retention s = (s', n) \<Longrightarrow> peers (st_db s') = peers (st_db s)"
  "PruneConnectionEvents now retention s = (s', n) \<Longrightarrow> peers (st_db s') = peers (st_db s)"
  "PruneProxyEvents now retention s = (s', n) \<Longrightarrow> peers (st_db s') = peers (st_db s)"
  by (auto simp: PruneFlows_def PruneAuditLog_def PruneConnectionEvents_def PruneProxyEvents_def Let_def)

lemma store_step_revoked:
  assumes "store_inv s" "store_step s e t" "e \<noteq> OpRemovePeer i" "revoked_row i (st_db s)"
  shows "revoked_row i (st_db t)"
  using assms(2)
proof cases
  case (7 j)
  then show ?thesis using RemovePeer_revoked [OF assms(4)] assms(3) by blast
qed (erule Enroll_revoked [OF assms(1,4)] SetExitNode_revoked [OF assms(1,4)] ApplyReport_revoked [OF assms(1,4)]
       other_revoked [OF assms(1,4)]
     | (rule revoked_kept [OF assms(4)], erule same_peers same_peers_users same_peers_pruned)
     | (rule Migration_revoked [OF assms(1,4)], assumption+))+

lemma run_revoked:
  assumes "run store_step s ops t" "store_inv s" "OpRemovePeer i \<notin> set ops" "revoked_row i (st_db s)"
  shows "store_inv t \<and> revoked_row i (st_db t)"
  using assms
proof (induction rule: run.induct)
  case (run_Cons s e t es u)
  then show ?case using store_step_revoked [of s e t i] store_step_inv [of s e t] by auto
qed simp

subsection \<open>Properties\<close>

text \<open>
  C1: Whatever calls the store has served since its first start, the database is well formed:
  no two peers share a key or an address, every address is a host of the current network in
  canonical form, no setup key has been used more often than it allows, nor less often than
  peers were enrolled with it, references lead to existing rows, and the exit node of an
  active peer is an agent without an exit node of its own.
\<close>

theorem mesh_well_formed:
  assumes "st_db s = empty_db" "LoadOrInitNetworkConfig d4 d6 s = Inr (s0, cfg)" "run store_step s0 ops t"
  shows "distinct (map p_public_key (peers (st_db t))) \<and> distinct (map p_assigned_ip (peers (st_db t))) \<and>
    distinct (col p_assigned_ip6 (peers (st_db t))) \<and>
    list_all (\<lambda>p. host_text (st_network t) (p_assigned_ip p) \<and>
      (case p_assigned_ip6 p of None \<Rightarrow> True | Some t6 \<Rightarrow> host_text (Network6 t) t6)) (peers (st_db t)) \<and>
    list_all (\<lambda>k. uses_ok k \<and> int (peers_of_key (sk_id k) (peers (st_db t))) \<le> sk_uses_consumed k) (setup_keys (st_db t)) \<and>
    list_all (exit_ok (peers (st_db t))) (peers (st_db t)) \<and> refs_inv (st_db t)"
proof -
  have "store_inv t" by (rule store_sys.run_preserves [OF assms(3) first_start_inv [OF assms(1,2)]])
  then show ?thesis
    by (auto simp: store_inv_def db_inv_def addrs_inv_def peers_ok_def setup_keys_ok_def uses_inv_def list_all_iff)
qed

definition demo_blank :: store where
  "demo_blank = \<lparr>st_db = empty_db, st_network = PrefixZero, DefaultAllow = True, TokenTTL = 0, Network6 = PrefixZero\<rparr>"

lemma first_start_ok:
  assumes "st_db s = empty_db" "overlay_net t4" "overlay_net t6" "Is4 (prefix_Addr t4)" "Is6 (prefix_Addr t6)"
  shows "\<exists>s0 cfg. LoadOrInitNetworkConfig t4 t6 s = Inr (s0, cfg) \<and> setup_keys (st_db s0) = []"
proof -
  have "plain_prefix t4" "plain_prefix t6" using assms(2,3) overlay_net_plain by auto
  then have "parseNetworkConfig (prefix_String t4) (prefix_String t6) = Inr (t4, t6)"
    using assms(2-5) by (simp add: parseNetworkConfig_def prefix_text.parse_print Masked_id)
  then show ?thesis
    using assms by (simp add: LoadOrInitNetworkConfig_def loadNetworkConfig_def Masked_id setNetworks_def upsertSetting_def empty_db_def Let_def)
qed

theorem mesh_well_formed_witness:
  "\<exists>s0 cfg t. LoadOrInitNetworkConfig (Prefix (V4 1681915904) 10) (Prefix (V6 0 []) 64) demo_blank = Inr (s0, cfg) \<and>
     run store_step s0 [OpCreateSetupKey (RawURLEncode ''key'')] t \<and>
     length (setup_keys (st_db t)) = 1 \<and> list_all uses_ok (setup_keys (st_db t))"
proof -
  have b: "st_db demo_blank = empty_db" by (simp add: demo_blank_def)
  have "overlay_net (Prefix (V4 1681915904) 10)" using store_invD(2) [OF demo_store_inv] by (simp add: demo_store_def)
  moreover have "overlay_net (Prefix (V6 0 []) 64)" by (simp add: overlay_net_def clear_low_def)
  ultimately obtain s0 cfg where s0: "LoadOrInitNetworkConfig (Prefix (V4 1681915904) 10) (Prefix (V6 0 []) 64) demo_blank = Inr (s0, cfg)"
    "setup_keys (st_db s0) = []" using first_start_ok [OF b] by fastforce
  obtain t where t: "CreateNamedSetupKey 0 ''key'' [] 3 0 s0 = Inr (t, RawURLEncode ''key'')" "length (setup_keys (st_db t)) = 1"
    using s0(2) by (simp add: CreateNamedSetupKey_def Let_def write_setup_keys_def setup_keys_ok_def uses_ok_def nullable_int_def)
  have r: "run store_step s0 [OpCreateSetupKey (RawURLEncode ''key'')] t"
    using store_step.intros(1) [OF t(1)] by (auto intro: run.intros)
  show ?thesis using mesh_well_formed [OF b s0(1) r] s0(1) r t(2) by (auto simp: list_all_iff)
qed

text \<open>
  C2: Revocation is final. Once a peer is revoked, no sequence of calls short of removing its
  row brings it back: nobody is given it as a peer, and no token authenticates as it, also
  after it has enrolled again with its setup key and been given a fresh token.
\<close>

theorem revocation_final:
  assumes "store_inv s" "RevokePeer now i s = Inr s1" "run store_step s1 ops t" "OpRemovePeer i \<notin> set ops"
  shows "i \<notin> ID ` set (listVisible (st_db t) self da) \<and> AuthenticatePeer sha256 later token t \<noteq> Inr (i, ip)"
proof -
  have "revoked_row i (st_db s1)"
  proof -
    obtain p where p: "p \<in> set (peers (st_db s))" "active_peer i p"
      and s1: "peers (st_db s1) = update_where (active_peer i) (\<lambda>p. p\<lparr>p_revoked_at := Some (format_time now)\<rparr>) (peers (st_db s))"
      using assms(2) unfolding RevokePeer_eq [OF assms(1)] by (auto split: if_splits)
    have "p\<lparr>p_revoked_at := Some (format_time now)\<rparr> \<in> set (peers (st_db s1))" using p s1 by (force simp: update_where_def)
    then show ?thesis
      using p(2) unfolding revoked_row_def list_ex_iff
      by (intro bexI [of _ "p\<lparr>p_revoked_at := Some (format_time now)\<rparr>"]) (simp_all add: active_peer_def)
  qed
  then have t: "store_inv t" "revoked_row i (st_db t)"
    using run_revoked [OF assms(3) RevokePeer_inv [OF assms(1,2)] assms(4)] by auto
  then have "distinct (map p_id (peers (st_db t)))" by (simp add: store_inv_def db_inv_def rowids_distinct)
  then have gone: "p_revoked_at p \<noteq> None" if "p \<in> set (peers (st_db t))" "p_id p = i" for p
    using t(2) that by (auto simp: revoked_row_def list_ex_iff dest: distinct_map_eqD)
  then have "i \<notin> ID ` set (listVisible (st_db t) self da)" by (fastforce simp: listVisible_mem visible_def)
  moreover have "AuthenticatePeer sha256 later token t \<noteq> Inr (i, ip)"
    using gone authenticate_Inr [of sha256 later token t i ip] by blast
  ultimately show ?thesis by simp
qed

definition demo_return :: "store_error + store \<times> EnrollResult" where
  "demo_return = Enroll (\<lambda>x. x) 0 ''again'' (demo_args\<lparr>ea_publicKey := ''pkB''\<rparr>) demo_revoked"

theorem revocation_final_witness:
  "\<exists>t r. demo_return = Inr (t, r) \<and> 2 \<notin> ID ` set (listVisible (st_db t) 1 True) \<and>
     AuthenticatePeer (\<lambda>x. x) 0 (AuthToken r) t \<noteq> Inr (2, ''100.64.0.2'')"
proof -
  have "\<not> isl demo_return" by code_simp
  then obtain t r where r: "demo_return = Inr (t, r)" by (metis isl_def old.sum.exhaust surj_pair)
  have e: "Enroll (\<lambda>x. x) 0 ''again'' (demo_args\<lparr>ea_publicKey := ''pkB''\<rparr>) demo_revoked = Inr (t, r)"
    using r by (simp add: demo_return_def)
  have "run store_step demo_revoked [OpEnroll (demo_args\<lparr>ea_publicKey := ''pkB''\<rparr>)] t"
    using store_step.intros(2) [OF e] by (auto intro: run.intros)
  from revocation_final [OF demo_store2_inv demo_revoke this, of 1 True "\<lambda>x. x" 0 "AuthToken r" "''100.64.0.2''"] r
  show ?thesis by (intro exI [of _ t] exI [of _ r]) simp
qed

end
