(* ===== verification/Sessions.thy ===== *)
theory Sessions
  imports Users
begin

section \<open>Web-UI session cookies\<close>

text \<open>
  cmd/server/ui.go: \<open>signUISession\<close> and \<open>sessionUser\<close>. A cookie is the base64url text
  of \<open>userID.epoch.issued|mac\<close>; the MAC is HMAC-SHA256 under the server's session key.
  HMAC (crypto/hmac, RFC 2104) is spelled out over the parameter \<open>sha256\<close>; nothing is
  assumed of the hash itself. The cookie jar, the clock and the key are arguments.
\<close>

unbundle bit_operations_syntax

definition xor_byte :: "nat \<Rightarrow> char \<Rightarrow> char" where
  "xor_byte b c = byte (code c XOR b)"

definition hmac_sha256 :: "(string \<Rightarrow> string) \<Rightarrow> string \<Rightarrow> string \<Rightarrow> string" where
  "hmac_sha256 sha256 key msg =
     (let k = (if 64 < length key then sha256 key else key);
          block = k @ replicate (64 - length k) (byte 0)
      in sha256 (map (xor_byte 92) block @ sha256 (map (xor_byte 54) block @ msg)))"

definition second :: duration where "second = 10 ^ 9"
definition minute :: duration where "minute = 60 * second"
definition uiSessionTTL :: duration where "uiSessionTTL = 12 * (60 * minute)"

text \<open>\<open>t.Unix()\<close>: whole seconds since the epoch.\<close>

definition Unix :: "time \<Rightarrow> int" where
  "Unix t = t div second"

definition uiSessionMAC :: "(string \<Rightarrow> string) \<Rightarrow> string \<Rightarrow> string \<Rightarrow> string" where
  "uiSessionMAC sha256 sessionKey payload = hmac_sha256 sha256 sessionKey (''wgmesh-ui-session.'' @ payload)"

definition signUISession :: "(string \<Rightarrow> string) \<Rightarrow> string \<Rightarrow> User \<Rightarrow> time \<Rightarrow> string" where
  "signUISession sha256 sessionKey user t =
     (let payload = Itoa (us_ID user) @ ''.'' @ Itoa (us_SessionEpoch user) @ ''.'' @ Itoa (Unix t);
          mac = RawURLEncode (uiSessionMAC sha256 sessionKey payload)
      in RawURLEncode (payload @ ''|'' @ mac))"

definition session_fields :: "string \<Rightarrow> (int \<times> int \<times> int) option" where
  "session_fields payload =
     (case split_on CHR ''.'' payload of
        [a, b, c] \<Rightarrow>
          (case (ParseInt a, ParseInt b, ParseInt c) of
             (Some userID, Some epoch, Some issued) \<Rightarrow> Some (userID, epoch, issued)
           | _ \<Rightarrow> None)
      | _ \<Rightarrow> None)"

definition check_session :: "time \<Rightarrow> int \<times> int \<times> int \<Rightarrow> store \<Rightarrow> User option" where
  "check_session now f s =
     (case f of (userID, epoch, issued) \<Rightarrow>
        if now + minute < issued * second \<or> uiSessionTTL < now - issued * second then None
        else case UserByID userID s of
               Inl _ \<Rightarrow> None
             | Inr user \<Rightarrow> if us_SessionEpoch user \<noteq> epoch then None else Some user)"

definition sessionUser ::
  "(string \<Rightarrow> string) \<Rightarrow> string \<Rightarrow> time \<Rightarrow> string option \<Rightarrow> store \<Rightarrow> User option" where
  "sessionUser sha256 sessionKey now cookie s =
     Option.bind cookie (\<lambda>value.
     Option.bind (RawURLDecode value) (\<lambda>raw.
     Option.bind (Cut CHR ''|'' raw) (\<lambda>(payload, macRaw).
     Option.bind (session_fields payload) (\<lambda>f.
     Option.bind (RawURLDecode macRaw) (\<lambda>got.
       if got \<noteq> uiSessionMAC sha256 sessionKey payload then None else check_session now f s)))))"

subsection \<open>Signed cookies\<close>

lemma Itoa_no_sep: "CHR ''.'' \<notin> set (Itoa i)" "CHR ''|'' \<notin> set (Itoa i)"
  using Itoa_chars [of _ i] sign_not_digit by auto

lemma session_fields_print:
  assumes "int64 a" "int64 b" "int64 c"
  shows "session_fields (Itoa a @ ''.'' @ Itoa b @ ''.'' @ Itoa c) = Some (a, b, c)"
proof -
  have "split_on CHR ''.'' (Itoa a @ CHR ''.'' # Itoa b @ CHR ''.'' # Itoa c) = [Itoa a, Itoa b, Itoa c]"
    using Itoa_no_sep by (simp add: split_on_word split_on_no_sep)
  then show ?thesis
    using assms by (simp add: session_fields_def ParseInt_Itoa)
qed

lemma sessionUser_signed:
  assumes "int64 (us_ID u)" "int64 (us_SessionEpoch u)" "int64 (Unix t)"
  shows "sessionUser sha256 key now (Some (signUISession sha256 key u t)) s =
    (if now + minute < Unix t * second \<or> uiSessionTTL < now - Unix t * second then None
     else case UserByID (us_ID u) s of
            Inl _ \<Rightarrow> None
          | Inr v \<Rightarrow> if us_SessionEpoch v \<noteq> us_SessionEpoch u then None else Some v)"
proof -
  define payload where "payload = Itoa (us_ID u) @ ''.'' @ Itoa (us_SessionEpoch u) @ ''.'' @ Itoa (Unix t)"
  have n: "CHR ''|'' \<notin> set payload" using Itoa_no_sep by (auto simp: payload_def)
  have c: "Cut CHR ''|'' (payload @ CHR ''|'' # m) = Some (payload, m)" for m
    by (rule Cut_append [OF n])
  have f: "session_fields payload = Some (us_ID u, us_SessionEpoch u, Unix t)"
    unfolding payload_def by (rule session_fields_print [OF assms])
  have e: "signUISession sha256 key u t =
      RawURLEncode (payload @ CHR ''|'' # RawURLEncode (uiSessionMAC sha256 key payload))"
    by (simp add: signUISession_def Let_def payload_def)
  show ?thesis
    unfolding sessionUser_def e by (simp add: b64url.parse_print c f check_session_def)
qed

text \<open>An accepted cookie: its MAC verifies, it is fresh, and it names an existing account's epoch.\<close>

lemma sessionUser_sound:
  assumes "users_ok (users (st_db s))" "sessionUser sha256 key now (Some value) s = Some v"
  obtains payload mac issued u where
    "RawURLDecode value = Some (payload @ CHR ''|'' # mac)"
    "RawURLDecode mac = Some (uiSessionMAC sha256 key payload)"
    "session_fields payload = Some (u_id u, u_session_epoch u, issued)"
    "u \<in> set (users (st_db s))" "v = scan_user u"
    "issued * second \<le> now + minute" "now - issued * second \<le> uiSessionTTL"
proof -
  from assms(2) obtain raw payload mac f where
    1: "RawURLDecode value = Some raw" "Cut CHR ''|'' raw = Some (payload, mac)"
      "session_fields payload = Some f" "RawURLDecode mac = Some (uiSessionMAC sha256 key payload)"
      and f: "check_session now f s = Some v"
    unfolding sessionUser_def bind_eq_Some_conv option.inject case_prod_beta prod.collapse
    by (metis (no_types, lifting) option.distinct(1) prod.collapse)
  obtain i ep issued where fi: "f = (i, ep, issued)" by (cases f)
  have u: "issued * second \<le> now + minute" "now - issued * second \<le> uiSessionTTL"
      "UserByID i s = Inr v" "us_SessionEpoch v = ep"
    using f by (auto simp: check_session_def fi not_less split: if_split_asm sum.split_asm)
  have "raw = payload @ CHR ''|'' # mac" using Cut_Some [OF 1(2)] by simp
  moreover from u(3) UserByID_iff [OF assms(1)] obtain x where "x \<in> set (users (st_db s))" "u_id x = i" "v = scan_user x"
    by auto
  ultimately show thesis using that [of payload mac x issued] 1 u fi by (simp add: scan_user_def)
qed

subsection \<open>Properties\<close>

lemma session_fresh:
  assumes "now - t \<le> uiSessionTTL - second" "t \<le> now"
  shows "\<not> (now + minute < Unix t * second \<or> uiSessionTTL < now - Unix t * second)"
proof -
  have "Unix t * second \<le> t" "t - second < Unix t * second"
    using pos_mod_bound [of second t] pos_mod_sign [of second t] div_mult_mod_eq [of t second]
    by (simp_all add: Unix_def second_def)
  with assms show ?thesis by (auto simp: minute_def second_def)
qed

text \<open>
  C28: A signed session cookie is accepted exactly while it is fresh and the account it names
  still exists with the epoch it was signed for; it then identifies that account.
\<close>

theorem session_accepted_iff:
  assumes "users_ok (users (st_db s))"
    and "int64 (us_ID u)" "int64 (us_SessionEpoch u)" "int64 (Unix t)"
  shows "sessionUser sha256 key now (Some (signUISession sha256 key u t)) s = Some v \<longleftrightarrow>
    Unix t * second \<le> now + minute \<and> now - Unix t * second \<le> uiSessionTTL \<and>
    (\<exists>x \<in> set (users (st_db s)). u_id x = us_ID u \<and> u_session_epoch x = us_SessionEpoch u \<and> v = scan_user x)"
proof -
  have *: "(case UserByID (us_ID u) s of Inl _ \<Rightarrow> None
      | Inr w \<Rightarrow> if us_SessionEpoch w \<noteq> us_SessionEpoch u then None else Some w) = Some v \<longleftrightarrow>
      UserByID (us_ID u) s = Inr v \<and> us_SessionEpoch v = us_SessionEpoch u"
    by (auto split: sum.split if_splits)
  show ?thesis
    unfolding sessionUser_signed [OF assms(2-4)] using * UserByID_iff [OF assms(1), of "us_ID u" v]
    by (auto simp: scan_user_def not_less)
qed

definition demo_user :: user where
  "demo_user = \<lparr>u_id = 1, u_username = ''admin'', u_password_hash = ''x'', u_auth_source = ''local'',
     u_session_epoch = 0, u_created_at = ''2026-01-01T00:00:00.000Z'', u_updated_at = ''2026-01-01T00:00:00.000Z''\<rparr>"

definition demo_users :: store where
  "demo_users = demo_store\<lparr>st_db := (st_db demo_store)\<lparr>users := [demo_user, demo_user\<lparr>u_id := 2, u_username := ''b''\<rparr>]\<rparr>\<rparr>"

lemma demo_users_inv: "store_inv demo_users"
proof -
  have "rowids (map u_id [demo_user, demo_user\<lparr>u_id := 2, u_username := ''b''\<rparr>])"
    "users_ok [demo_user, demo_user\<lparr>u_id := 2, u_username := ''b''\<rparr>]"
    by (simp_all add: demo_user_def rowids_def users_ok_def)
  then show ?thesis unfolding demo_users_def by (rule store_inv_users [OF demo_store_inv])
qed

theorem session_accepted_iff_witness:
  "sessionUser id ''key'' (5 * second) (Some (signUISession id ''key'' (scan_user demo_user) 0)) demo_users
     = Some (scan_user demo_user)"
  by (subst session_accepted_iff [OF store_inv_users_ok [OF demo_users_inv]])
    (simp_all add: demo_users_def demo_store_def demo_user_def scan_user_def int64_def Unix_def second_def minute_def uiSessionTTL_def)

text \<open>
  C29: Changing a password logs the account out everywhere and swaps the password: the database
  it leaves accepts no cookie signed for the account at the epoch it had or an earlier one, whenever
  the cookie was signed and whenever it is shown; it accepts one signed for the refreshed account
  at any time of its life; and the new password signs in.
\<close>

theorem SetPassword_revokes_sessions:
  assumes "store_inv s" "UserByID i s = Inr u" "SetPassword ag salt now i pw s = Inr s'"
    and "\<And>p s t m n k. length (IDKey ag p s t m n k) = k" "int64 (int (argon_Version ag))"
    and "int64 i" "int64 (us_SessionEpoch u)" "int64 (us_SessionEpoch u + 1)"
  shows "(\<forall>v t later. us_ID v = i \<and> us_SessionEpoch v \<le> us_SessionEpoch u \<and> int64 (us_SessionEpoch v) \<and> int64 (Unix t) \<longrightarrow>
       sessionUser sha256 key later (Some (signUISession sha256 key v t)) s' = None) \<and>
    (\<exists>u'. UserByID i s' = Inr u' \<and> us_Username u' = us_Username u \<and>
       (\<forall>t later. int64 (Unix t) \<and> t \<le> later \<and> later \<le> t + uiSessionTTL - second \<longrightarrow>
          sessionUser sha256 key later (Some (signUISession sha256 key u' t)) s' = Some u') \<and>
       (\<forall>name. TrimSpace name = us_Username u \<longrightarrow> Authenticate ag name pw s' = Inr u'))"
proof -
  let ?f = "\<lambda>u. u\<lparr>u_password_hash := hashPassword ag salt pw, u_session_epoch := u_session_epoch u + 1,
          u_updated_at := format_time now\<rparr>"
  let ?P = "\<lambda>u. u_id u = i \<and> u_auth_source u = ''local''"
  from assms(3) obtain x where x: "x \<in> set (users (st_db s))" "?P x"
    and s': "s' = s\<lparr>st_db := (st_db s)\<lparr>users := update_where ?P ?f (users (st_db s))\<rparr>\<rparr>"
    and ok': "users_ok (users (st_db s'))"
    by (rule SetPassword_effect) blast
  have ok: "users_ok (users (st_db s))" by (rule store_inv_users_ok [OF assms(1)])
  have ux: "u = scan_user x"
    using assms(2) x UserByID_iff [OF ok, of i u] ok by (auto simp: users_ok_def dest: distinct_map_eqD)
  have mem: "?f x \<in> set (users (st_db s'))" using x by (auto simp: s' set_update_where)
  have u': "UserByID i s' = Inr (scan_user (?f x))"
    using mem x(2) by (subst UserByID_iff [OF ok']) (auto intro!: bexI [of _ "?f x"])
  have i: "us_ID u = i" "us_ID (scan_user (?f x)) = i" using ux x(2) by (auto simp: scan_user_def)
  have e: "us_SessionEpoch (scan_user (?f x)) = us_SessionEpoch u + 1" by (simp add: ux scan_user_def)
  have "sessionUser sha256 key later (Some (signUISession sha256 key v t)) s' = None"
    if "us_ID v = i" "us_SessionEpoch v \<le> us_SessionEpoch u" "int64 (us_SessionEpoch v)" "int64 (Unix t)" for v t later
    using assms(6) that u' e by (subst sessionUser_signed) simp_all
  moreover have "sessionUser sha256 key later (Some (signUISession sha256 key (scan_user (?f x)) t)) s' = Some (scan_user (?f x))"
    if "int64 (Unix t)" "t \<le> later" "later \<le> t + uiSessionTTL - second" for t later
    using assms(6,8) u' i e that session_fresh [of later t] by (subst sessionUser_signed) simp_all
  moreover have "Authenticate ag name pw s' = Inr (scan_user (?f x))"
    if "TrimSpace name = us_Username u" for name
    using mem x(2) verify_hashPassword [OF assms(4,5)] that ux
    by (subst Authenticate_iff [OF ok']) (auto simp: scan_user_def intro!: bexI [of _ "?f x"])
  ultimately show ?thesis using u' by (intro conjI exI [of _ "scan_user (?f x)"]) (auto simp: ux scan_user_def)
qed

theorem SetPassword_revokes_sessions_witness:
  "\<exists>s' u'. SetPassword demo_argon ''salt'' 0 1 ''password1'' demo_users = Inr s' \<and>
     sessionUser id ''key'' (3 * minute) (Some (signUISession id ''key'' (scan_user demo_user) 0)) s' = None \<and>
     sessionUser id ''key'' (3 * minute) (Some (signUISession id ''key'' u' 0)) s' = Some u' \<and>
     Authenticate demo_argon '' admin '' ''password1'' s' = Inr u'"
proof -
  have u: "UserByID 1 demo_users = Inr (scan_user demo_user)"
    by (simp add: UserByID_def demo_users_def demo_user_def)
  have "\<exists>s'. SetPassword demo_argon ''salt'' 0 1 ''password1'' demo_users = Inr s'"
    by (simp add: SetPassword_def validatePassword_def demo_users_def demo_user_def write_users_def
        update_where_def users_ok_def rows_affected_def)
  then obtain s' where s': "SetPassword demo_argon ''salt'' 0 1 ''password1'' demo_users = Inr s'" ..
  have v: "int64 (int (argon_Version demo_argon))" by (simp add: demo_argon_def int64_def)
  have t: "TrimSpace '' admin '' = us_Username (scan_user demo_user)"
    by (simp add: demo_user_def scan_user_def) code_simp
  have b: "int64 1" "int64 (us_SessionEpoch (scan_user demo_user))" "int64 (us_SessionEpoch (scan_user demo_user) + 1)"
    by (simp_all add: int64_def scan_user_def demo_user_def)
  have z: "int64 (Unix 0)" "us_ID (scan_user demo_user) = 1" "0 \<le> 3 * minute" "3 * minute \<le> 0 + uiSessionTTL - second"
    by (simp_all add: int64_def Unix_def scan_user_def demo_user_def uiSessionTTL_def minute_def second_def)
  from SetPassword_revokes_sessions [OF demo_users_inv u s' demo_argon_length v b, of id "''key''"] s' t b(2) z
  show ?thesis by (metis order_refl)
qed

text \<open>
  C30: Deleting an account does not always revoke its cookies. The users table reuses the
  rowid of a deleted newest account, and a fresh account starts at epoch 0: a cookie of a deleted
  account that never changed its password is accepted, while it is fresh, as the account
  created next.
\<close>

theorem session_outlives_deleted_user:
  assumes "store_inv s" "users (st_db s) = rows @ [u]" "u_session_epoch u = 0"
    and "rows \<noteq> []" "u_id u = next_rowid (map u_id rows)"
    and "DeleteUser (u_id u) s = Inr s1"
    and "CreateLocalUser ag salt now name pw s1 = Inr (s2, v)"
    and "int64 (u_id u)" "int64 (Unix t)" "t \<le> later" "later \<le> t + uiSessionTTL - second"
  shows "sessionUser sha256 key later (Some (signUISession sha256 key (scan_user u) t)) s2 = Some v"
proof -
  have d: "distinct (map u_id (rows @ [u]))" using store_inv_users_ok [OF assms(1)] assms(2) by (simp add: users_ok_def)
  then have n: "\<forall>x \<in> set rows. u_id x \<noteq> u_id u" by (auto simp: image_iff)
  have s1: "users (st_db s1) = rows"
    using DeleteUser_effect [OF assms(6)] assms(2) n by (auto simp: delete_where_def filter_id_conv)
  from assms(7) obtain w where
    w: "w = \<lparr>u_id = next_rowid (map u_id (users (st_db s1))), u_username = TrimSpace name,
       u_password_hash = hashPassword ag salt pw, u_auth_source = ''local'', u_session_epoch = 0,
       u_created_at = format_time now, u_updated_at = format_time now\<rparr>"
    and s2: "s2 = s1\<lparr>st_db := (st_db s1)\<lparr>users := users (st_db s1) @ [w]\<rparr>\<rparr>"
    and ok: "users_ok (users (st_db s1) @ [w])" and v: "v = scan_user w"
    by (rule CreateLocalUser_effect)
  have "UserByID (u_id u) s2 = Inr v"
    using w s2 ok v s1 assms(5) by (subst UserByID_iff) auto
  moreover have "us_SessionEpoch v = 0" using v w by (simp add: scan_user_def)
  ultimately show ?thesis
    using assms(3,8,9) session_fresh [of later t] assms(10,11)
    by (subst sessionUser_signed) (simp_all add: scan_user_def int64_def)
qed

theorem session_outlives_deleted_user_witness:
  "\<exists>s1 s2 v. DeleteUser 2 demo_users = Inr s1 \<and>
     CreateLocalUser demo_argon ''salt'' 0 ''mallory'' ''password1'' s1 = Inr (s2, v) \<and>
     sessionUser id ''key'' 5 (Some (signUISession id ''key''
       (scan_user (demo_user\<lparr>u_id := 2, u_username := ''b''\<rparr>)) 0)) s2 = Some v \<and> us_Username v = ''mallory''"
proof -
  let ?u = "demo_user\<lparr>u_id := 2, u_username := ''b''\<rparr>"
  have r: "users (st_db demo_users) = [demo_user] @ [?u]" by (simp add: demo_users_def)
  have "\<exists>s1. DeleteUser (u_id ?u) demo_users = Inr s1"
    by (simp add: DeleteUser_def demo_users_def demo_user_def rows_affected_def write_users_def users_ok_def delete_where_def)
  then obtain s1 where s1: "DeleteUser (u_id ?u) demo_users = Inr s1" ..
  have us: "users (st_db s1) = [demo_user]"
    using DeleteUser_effect [OF s1] by (simp add: delete_where_def r demo_user_def)
  have n: "validateUsername ''mallory'' = Inr ''mallory''" "validatePassword ''password1'' = Inr ()" by code_simp+
  from CreateLocalUser_total [OF DeleteUser_inv [OF demo_users_inv s1] n] us
  obtain s2 v where c: "CreateLocalUser demo_argon ''salt'' 0 ''mallory'' ''password1'' s1 = Inr (s2, v)"
    by (fastforce simp: demo_user_def)
  have "sessionUser id ''key'' 5 (Some (signUISession id ''key'' (scan_user ?u) 0)) s2 = Some v"
    by (rule session_outlives_deleted_user [OF demo_users_inv r _ _ _ s1 c])
      (simp_all add: demo_user_def next_rowid_def int64_def Unix_def uiSessionTTL_def minute_def second_def)
  moreover have "TrimSpace ''mallory'' = ''mallory''" by code_simp
  then have "us_Username v = ''mallory''"
    using c by (auto elim!: CreateLocalUser_effect simp: scan_user_def)
  ultimately show ?thesis using s1 c by (simp add: demo_user_def)
qed

end
