(* ===== verification/Relay.thy ===== *)
theory Relay
  imports GoParse GoTime Runs
begin

section \<open>The UDP pair forwarder\<close>

text \<open>
  internal/relay/relay.go: a relay holds, per pair of peers, two UDP ports and the source
  address latched on each leg. Its state is the table of live pairs; the two forwarding
  goroutines of a pair, the cleanup ticker and the allocation calls are the transitions,
  each one the work done between two reads (or under the mutex). The operating system is a
  parameter: which ports another process holds, and which port an ephemeral bind picks.
\<close>

type_synonym addr_port = "addr \<times> nat"

record Config =
  PortMin :: nat
  PortMax :: nat

record pair =
  pr_portA :: nat
  pr_portB :: nat
  pr_srcA :: "addr_port option"
  pr_srcB :: "addr_port option"
  pr_lastActive :: time

record relay_server =
  rs_cfg :: Config
  rs_pairs :: "(string \<times> pair) list"

record udp_os =
  os_busy :: "nat \<Rightarrow> bool"
  os_ephemeral :: "nat list \<Rightarrow> nat option"

datatype relay_error = ErrPortsExhausted | ErrBind | ErrConfig string

definition idleTimeout :: duration where "idleTimeout = 10 * (60 * 10 ^ 9)"

definition New :: "Config \<Rightarrow> relay_error + relay_server" where
  "New cfg =
     ensureE ((PortMin cfg = 0) = (PortMax cfg = 0)) (ErrConfig ''set both PortMin and PortMax, or neither'')
     (ensureE (PortMin cfg \<le> PortMax cfg) (ErrConfig ''PortMin exceeds PortMax'')
     (Inr \<lparr>rs_cfg = cfg, rs_pairs = []\<rparr>))"

definition Close :: "relay_server \<Rightarrow> relay_server" where
  "Close s = s\<lparr>rs_pairs := []\<rparr>"

subsection \<open>Ports\<close>

definition pair_ports :: "pair \<Rightarrow> nat list" where
  "pair_ports p = [pr_portA p, pr_portB p]"

definition held :: "relay_server \<Rightarrow> nat list" where
  "held s = concat (map (pair_ports \<circ> snd) (rs_pairs s))"

text \<open>
  A bind fails on a port another process holds (\<open>os_busy\<close>) and on one this process holds
  (\<open>taken\<close>): the ports of live pairs and, for the second leg, the port just bound.
\<close>

definition listenUDP :: "udp_os \<Rightarrow> Config \<Rightarrow> nat list \<Rightarrow> relay_error + nat" where
  "listenUDP os cfg taken =
     (if PortMin cfg = 0 then (case os_ephemeral os taken of None \<Rightarrow> Inl ErrBind | Some p \<Rightarrow> Inr p)
      else case List.find (\<lambda>p. \<not> os_busy os p \<and> p \<notin> set taken) [PortMin cfg..<Suc (PortMax cfg)] of
             None \<Rightarrow> Inl ErrPortsExhausted
           | Some p \<Rightarrow> Inr p)"

definition touch :: "time \<Rightarrow> pair \<Rightarrow> pair" where
  "touch now p = p\<lparr>pr_lastActive := now\<rparr>"

definition set_pair :: "string \<Rightarrow> pair \<Rightarrow> relay_server \<Rightarrow> relay_server" where
  "set_pair i p s = s\<lparr>rs_pairs := map (\<lambda>(j, q). if j = i then (j, p) else (j, q)) (rs_pairs s)\<rparr>"

definition Allocate :: "udp_os \<Rightarrow> time \<Rightarrow> string \<Rightarrow> relay_server \<Rightarrow> relay_error + relay_server \<times> nat \<times> nat" where
  "Allocate os now i s =
     (case map_of (rs_pairs s) i of
        Some p \<Rightarrow> Inr (set_pair i (touch now p) s, pr_portA p, pr_portB p)
      | None \<Rightarrow>
          bindE (listenUDP os (rs_cfg s) (held s)) (\<lambda>a.
          bindE (listenUDP os (rs_cfg s) (a # held s)) (\<lambda>b.
            let p = touch now \<lparr>pr_portA = a, pr_portB = b, pr_srcA = None, pr_srcB = None, pr_lastActive = 0\<rparr>
            in Inr (s\<lparr>rs_pairs := rs_pairs s @ [(i, p)]\<rparr>, a, b))))"

definition Observed :: "string \<Rightarrow> relay_server \<Rightarrow> (addr_port option \<times> addr_port option) option" where
  "Observed i s = map_option (\<lambda>p. (pr_srcA p, pr_srcB p)) (map_of (rs_pairs s) i)"

definition cleanup :: "time \<Rightarrow> relay_server \<Rightarrow> relay_server" where
  "cleanup now s = s\<lparr>rs_pairs := filter (\<lambda>(i, p). \<not> idleTimeout < now - pr_lastActive p) (rs_pairs s)\<rparr>"

subsection \<open>Forwarding\<close>

definition msgInitiation :: nat where "msgInitiation = 1"
definition msgResponse :: nat where "msgResponse = 2"
definition msgCookie :: nat where "msgCookie = 3"
definition msgTransport :: nat where "msgTransport = 4"

definition wgShaped :: "string \<Rightarrow> bool" where
  "wgShaped b =
     (if length b < 4 \<or> code (b ! 1) \<noteq> 0 \<or> code (b ! 2) \<noteq> 0 \<or> code (b ! 3) \<noteq> 0 then False
      else let t = code (b ! 0)
      in if t = msgInitiation then length b = 148
         else if t = msgResponse then length b = 92
         else if t = msgCookie then length b = 64
         else if t = msgTransport then 32 \<le> length b
         else False)"

definition leg :: "bool \<Rightarrow> pair \<Rightarrow> addr_port option" where
  "leg fromA p = (if fromA then pr_srcA p else pr_srcB p)"

definition set_leg :: "bool \<Rightarrow> addr_port \<Rightarrow> pair \<Rightarrow> pair" where
  "set_leg fromA x p = (if fromA then p\<lparr>pr_srcA := Some x\<rparr> else p\<lparr>pr_srcB := Some x\<rparr>)"

text \<open>
  One iteration of \<open>forward\<close>'s loop: a datagram \<open>pkt\<close> from \<open>src\<close> arrives on the leg
  \<open>fromA\<close>. The result is the pair and the datagram written out of the other leg, with
  its destination. The two goroutines of a pair share no lock: a leg's address is written by
  its own goroutine only, and an iteration reads the opposite leg once, so it takes effect at
  that read.
\<close>

definition forward :: "time \<Rightarrow> bool \<Rightarrow> string \<Rightarrow> addr_port \<Rightarrow> pair \<Rightarrow> pair \<times> (string \<times> addr_port) option" where
  "forward now fromA pkt src p =
     (if \<not> wgShaped pkt then (p, None)
      else if leg fromA p \<noteq> Some src \<and> leg fromA p \<noteq> None \<and> code (pkt ! 0) = msgTransport then (p, None)
      else let p1 = (if leg fromA p \<noteq> Some src then set_leg fromA src p else p);
               p2 = p1\<lparr>pr_lastActive := now\<rparr>
           in (p2, map_option (\<lambda>dst. (pkt, dst)) (leg (\<not> fromA) p2)))"

definition receive ::
  "time \<Rightarrow> string \<Rightarrow> bool \<Rightarrow> string \<Rightarrow> addr_port \<Rightarrow> relay_server \<Rightarrow> relay_server \<times> (string \<times> addr_port) option" where
  "receive now i fromA pkt src s =
     (case map_of (rs_pairs s) i of
        None \<Rightarrow> (s, None)
      | Some p \<Rightarrow> let (p', out) = forward now fromA pkt src p in (set_pair i p' s, out))"

subsection \<open>Transitions\<close>

datatype relay_event =
    EvAllocate string nat nat
  | EvReceive string bool string addr_port "(string \<times> addr_port) option"
  | EvCleanup "string list"

inductive relay_step :: "udp_os \<Rightarrow> relay_server \<Rightarrow> relay_event \<Rightarrow> relay_server \<Rightarrow> bool" for os where
  step_allocate: "Allocate os now i s = Inr (s', a, b) \<Longrightarrow> relay_step os s (EvAllocate i a b) s'"
| step_receive: "receive now i fromA pkt src s = (s', out) \<Longrightarrow>
    relay_step os s (EvReceive i fromA pkt src out) s'"
| step_cleanup: "s' = cleanup now s \<Longrightarrow> gone = filter (\<lambda>i. i \<notin> fst ` set (rs_pairs s')) (map fst (rs_pairs s)) \<Longrightarrow>
    relay_step os s (EvCleanup gone) s'"

inductive_cases allocate_stepE: "relay_step os s (EvAllocate i a b) s'"
inductive_cases receive_stepE: "relay_step os s (EvReceive i fromA pkt src out) s'"
inductive_cases cleanup_stepE: "relay_step os s (EvCleanup gone) s'"

text \<open>What the operating system promises of an ephemeral bind: the port was free.\<close>

definition os_ok :: "udp_os \<Rightarrow> bool" where
  "os_ok os \<longleftrightarrow> (\<forall>taken p. os_ephemeral os taken = Some p \<longrightarrow> p \<notin> set taken)"

definition in_range :: "Config \<Rightarrow> nat \<Rightarrow> bool" where
  "in_range cfg p \<longleftrightarrow> (PortMin cfg = 0 \<or> PortMin cfg \<le> p \<and> p \<le> PortMax cfg)"

definition relay_inv :: "relay_server \<Rightarrow> bool" where
  "relay_inv s \<longleftrightarrow> distinct (map fst (rs_pairs s)) \<and> distinct (held s) \<and> list_all (in_range (rs_cfg s)) (held s)"

lemma listenUDP_Inr:
  assumes "os_ok os" "listenUDP os cfg taken = Inr p"
  shows "p \<notin> set taken \<and> in_range cfg p"
  using assms
  by (auto simp: listenUDP_def os_ok_def in_range_def split: if_splits option.splits dest!: find_Some_mem)

lemma set_pair_ids [simp]: "map fst (rs_pairs (set_pair i p s)) = map fst (rs_pairs s)"
  by (auto simp: set_pair_def)

lemma set_pair_cfg [simp]: "rs_cfg (set_pair i p s) = rs_cfg s"
  by (simp add: set_pair_def)

lemma set_pair_held:
  assumes "distinct (map fst (rs_pairs s))" "map_of (rs_pairs s) i = Some q" "pair_ports p = pair_ports q"
  shows "held (set_pair i p s) = held s"
proof -
  have "map (pair_ports \<circ> snd) (map (\<lambda>(j, q). if j = i then (j, p) else (j, q)) (rs_pairs s))
      = map (pair_ports \<circ> snd) (rs_pairs s)"
    using assms by (auto simp: map_of_eq_Some_iff dest: eq_key_imp_eq_value)
  then show ?thesis by (simp add: held_def set_pair_def del: map_map)
qed

lemma map_of_set_pair:
  "map_of (rs_pairs (set_pair i p s)) j =
     (if j = i then map_option (\<lambda>_. p) (map_of (rs_pairs s) i) else map_of (rs_pairs s) j)"
proof -
  have "map_of (map (\<lambda>(j, q). if j = i then (j, p) else (j, q)) xs) j =
     (if j = i then map_option (\<lambda>_. p) (map_of xs i) else map_of xs j)" for xs
    by (induction xs) auto
  then show ?thesis by (simp add: set_pair_def)
qed

lemma forward_ports: "forward now fromA pkt src p = (p', out) \<Longrightarrow> pair_ports p' = pair_ports p"
  by (auto simp: forward_def Let_def set_leg_def pair_ports_def split: if_splits)

lemma relay_step_preserves:
  assumes "os_ok os" "relay_inv s" "relay_step os s e s'"
  shows "relay_inv s' \<and> rs_cfg s' = rs_cfg s"
  using assms(3)
proof cases
  case (step_allocate now i a b)
  show ?thesis
  proof (cases "map_of (rs_pairs s) i")
    case (Some p)
    then have s': "s' = set_pair i (touch now p) s" using step_allocate by (simp add: Allocate_def)
    have "held s' = held s"
      unfolding s' using assms(2) Some by (intro set_pair_held) (auto simp: relay_inv_def touch_def pair_ports_def)
    with assms(2) s' show ?thesis by (simp add: relay_inv_def)
  next
    case None
    then obtain p where l: "listenUDP os (rs_cfg s) (held s) = Inr a" "listenUDP os (rs_cfg s) (a # held s) = Inr b"
      and s': "s' = s\<lparr>rs_pairs := rs_pairs s @ [(i, p)]\<rparr>" "pair_ports p = [a, b]"
      using step_allocate by (auto simp: Allocate_def go_simps Let_def touch_def pair_ports_def)
    have "held s' = held s @ [a, b]" using s' by (simp add: held_def)
    then show ?thesis
      using assms(2) s' None listenUDP_Inr [OF assms(1) l(1)] listenUDP_Inr [OF assms(1) l(2)]
      by (auto simp: relay_inv_def map_of_eq_None_iff)
  qed
next
  case (step_receive now i fromA pkt src out)
  show ?thesis
  proof (cases "map_of (rs_pairs s) i")
    case None
    with step_receive assms(2) show ?thesis by (simp add: receive_def)
  next
    case (Some p)
    obtain p' o' where f: "forward now fromA pkt src p = (p', o')" by (cases "forward now fromA pkt src p")
    then have s': "s' = set_pair i p' s" using step_receive Some by (simp add: receive_def)
    have "held s' = held s"
      unfolding s' using assms(2) Some forward_ports [OF f] by (intro set_pair_held) (auto simp: relay_inv_def)
    with assms(2) s' show ?thesis by (simp add: relay_inv_def)
  qed
next
  case (step_cleanup now gone)
  have d: "distinct (concat (map f (filter P xs)))" if "distinct (concat (map f xs))" for f P and xs :: "(string \<times> pair) list"
    using that by (induction xs) auto
  show ?thesis
    using assms(2) step_cleanup d [of "pair_ports \<circ> snd" "rs_pairs s"] distinct_map_filter [of fst "rs_pairs s"]
    by (auto simp: relay_inv_def cleanup_def held_def list_all_iff case_prod_unfold)
qed

text \<open>The operating system's promise rides along with the invariant.\<close>

interpretation relay_sys: preserved "relay_step os" "\<lambda>s. os_ok os \<and> relay_inv s \<and> rs_cfg s = cfg" for os cfg
  by unfold_locales (use relay_step_preserves in auto)

lemma New_inv: "New cfg = Inr s \<Longrightarrow> relay_inv s \<and> rs_cfg s = cfg"
  by (auto simp: New_def go_simps relay_inv_def held_def)

subsection \<open>The latch\<close>

text \<open>A datagram that the latch of a leg listens to: \<open>forward\<close> lets it move the address.\<close>

definition moves_latch :: "string \<Rightarrow> bool \<Rightarrow> relay_event \<Rightarrow> addr_port option" where
  "moves_latch i fromA e =
     (case e of
        EvReceive j g pkt src out \<Rightarrow>
          if j = i \<and> g = fromA \<and> wgShaped pkt \<and> code (pkt ! 0) \<noteq> msgTransport then Some src else None
      | _ \<Rightarrow> None)"

definition drops :: "string \<Rightarrow> relay_event \<Rightarrow> bool" where
  "drops i e = (case e of EvCleanup gone \<Rightarrow> i \<in> set gone | _ \<Rightarrow> False)"

text \<open>
  What a datagram of the pair that is sent on has to be, when the leg's address is \<open>x\<close>: unchanged,
  received from \<open>x\<close> if it came in on the leg, and sent to \<open>x\<close> if it came in on the other one.
\<close>

definition delivered_to :: "string \<Rightarrow> bool \<Rightarrow> addr_port \<Rightarrow> relay_event \<Rightarrow> bool" where
  "delivered_to i fromA x e =
     (case e of
        EvReceive j g pkt src (Some (pkt', dst)) \<Rightarrow> j = i \<longrightarrow> pkt' = pkt \<and> (if g = fromA then src = x else dst = x)
      | _ \<Rightarrow> True)"

definition latched :: "string \<Rightarrow> bool \<Rightarrow> addr_port \<Rightarrow> relay_server \<Rightarrow> bool" where
  "latched i fromA x s \<longleftrightarrow> (\<exists>p. map_of (rs_pairs s) i = Some p \<and> leg fromA p = Some x)"

lemma forward_leg:
  assumes "forward now g pkt src p = (p', out)"
  shows "leg fromA p' =
    (if g = fromA \<and> wgShaped pkt \<and> (leg fromA p = None \<or> code (pkt ! 0) \<noteq> msgTransport)
     then Some src else leg fromA p)"
  using assms by (auto simp: forward_def Let_def set_leg_def leg_def split: if_splits)

lemma forward_out:
  assumes "forward now g pkt src p = (p', Some (pkt', dst))"
  shows "pkt' = pkt \<and> wgShaped pkt \<and> leg (\<not> g) p = Some dst \<and> leg g p' = Some src"
  using assms by (auto simp: forward_def Let_def set_leg_def leg_def split: if_splits)

lemma latched_step:
  assumes "relay_inv s" "relay_step os s e s'" "latched i fromA x s"
    and "\<not> drops i e" "moves_latch i fromA e \<in> {None, Some x}"
  shows "latched i fromA x s' \<and> delivered_to i fromA x e"
proof -
  from assms(3) obtain p where p: "map_of (rs_pairs s) i = Some p" "leg fromA p = Some x" by (auto simp: latched_def)
  from assms(2) show ?thesis
  proof cases
    case (step_allocate now j a b)
    then have "map_of (rs_pairs s') i = Some p \<or> map_of (rs_pairs s') i = Some (touch now p)"
      using p(1) by (auto simp: Allocate_def go_simps Let_def map_of_set_pair split: option.splits if_splits)
    then show ?thesis
      using p(2) step_allocate by (auto simp: latched_def touch_def leg_def delivered_to_def split: if_splits)
  next
    case (step_receive now j g pkt src out)
    show ?thesis
    proof (cases "j = i")
      case False
      then show ?thesis
        using step_receive p
        by (auto simp: receive_def latched_def delivered_to_def map_of_set_pair split: option.splits prod.splits)
    next
      case True
      obtain p' out' where f: "forward now g pkt src p = (p', out')" by (cases "forward now g pkt src p")
      then have s': "s' = set_pair i p' s" "out' = out" using step_receive True p(1) by (auto simp: receive_def)
      have "leg fromA p' = Some x"
        using forward_leg [OF f, of fromA] p(2) assms(5) step_receive True
        by (auto simp: moves_latch_def split: if_splits)
      moreover have "delivered_to i fromA x e"
        using forward_out [of now g pkt src p p'] f s'(2) p(2) step_receive True \<open>leg fromA p' = Some x\<close>
        by (cases g; cases fromA) (auto simp: delivered_to_def split: option.split)
      ultimately show ?thesis using s' p(1) by (auto simp: latched_def map_of_set_pair)
    qed
  next
    case (step_cleanup now gone)
    have i: "i \<in> fst ` set (rs_pairs s)" using p(1) by (metis map_of_SomeD image_eqI fst_conv)
    then have "i \<in> fst ` set (rs_pairs s')" using assms(4) step_cleanup by (auto simp: drops_def)
    then have "\<exists>q. (i, q) \<in> set (rs_pairs s')" by auto
    then have "(i, p) \<in> set (rs_pairs s')"
      using step_cleanup p(1) assms(1)
      by (auto simp: cleanup_def relay_inv_def dest!: map_of_SomeD dest: eq_key_imp_eq_value)
    moreover have "distinct (map fst (rs_pairs s'))"
      using step_cleanup assms(1) by (simp add: cleanup_def relay_inv_def distinct_map_filter)
    ultimately show ?thesis using p(2) step_cleanup by (auto simp: latched_def delivered_to_def)
  qed
qed

text \<open>The same along a run, as long as the pair is not swept and only \<open>x\<close> moves the latch.\<close>

lemma latched_run:
  assumes "run (relay_step os) s es s'" "os_ok os" "relay_inv s" "latched i fromA x s"
    and "\<forall>e \<in> set es. \<not> drops i e \<and> moves_latch i fromA e \<in> {None, Some x}"
  shows "latched i fromA x s' \<and> (\<forall>e \<in> set es. delivered_to i fromA x e)"
  using assms
proof (induction rule: run.induct)
  case (run_Cons s e t es u)
  have "latched i fromA x t \<and> delivered_to i fromA x e"
    using run_Cons.prems by (intro latched_step [OF run_Cons.prems(2) run_Cons.hyps(1)]) auto
  moreover have "relay_inv t" using relay_step_preserves [OF run_Cons.prems(1,2) run_Cons.hyps(1)] by simp
  ultimately show ?case using run_Cons.IH run_Cons.prems by auto
qed simp

subsection \<open>Allocation as an interface\<close>

text \<open>
  What the control plane relies on (\<open>relayAllocator\<close> of cmd/server/relay.go): allocation
  yields two different ports, and asking again for the same pair yields the same ports.
\<close>

locale relayAllocator =
  fixes ok :: "'s \<Rightarrow> bool"
    and allocate :: "time \<Rightarrow> string \<Rightarrow> 's \<Rightarrow> 'e + 's \<times> nat \<times> nat"
  assumes allocate_ok: "ok s \<Longrightarrow> allocate t i s = Inr (s', a, b) \<Longrightarrow> ok s' \<and> a \<noteq> b"
    and allocate_again: "ok s \<Longrightarrow> allocate t i s = Inr (s', a, b) \<Longrightarrow> \<exists>s''. allocate t' i s' = Inr (s'', a, b)"
begin

text \<open>
  Whatever the order in which the two sides of a pair ask, the side with the smaller key
  takes the first port and the other side the second: they land on opposite legs.
\<close>

lemma opposite_legs:
  assumes "ok s" "allocate t i s = Inr (s1, a, b)" "allocate t' i s1 = Inr (s2, a', b')" "k \<noteq> (k' :: string)"
  shows "{if k' < k then b else a, if k < k' then b' else a'} = {a, b}
    \<and> (if k' < k then b else a) \<noteq> (if k < k' then b' else a')"
proof -
  have "a' = a" "b' = b" using allocate_again [OF assms(1,2), of t'] assms(3) by auto
  moreover have "a \<noteq> b" using allocate_ok [OF assms(1,2)] by simp
  ultimately show ?thesis using assms(4) by auto
qed

end

lemma Allocate_inv:
  assumes "os_ok os" "relay_inv s" "Allocate os t i s = Inr (s', a, b)"
  shows "relay_inv s' \<and> a \<noteq> b \<and> (\<exists>p. map_of (rs_pairs s') i = Some p \<and> pr_portA p = a \<and> pr_portB p = b)"
proof -
  have "relay_inv s'" using relay_step_preserves [OF assms(1,2) step_allocate [OF assms(3)]] by simp
  moreover have m: "\<exists>p. map_of (rs_pairs s') i = Some p \<and> pr_portA p = a \<and> pr_portB p = b"
    using assms(3)
    by (auto simp: Allocate_def go_simps Let_def map_of_set_pair touch_def map_add_Some_iff split: option.splits)
  ultimately show ?thesis
  proof (intro conjI)
    from m obtain p where p: "(i, p) \<in> set (rs_pairs s')" "pr_portA p = a" "pr_portB p = b" by (auto dest: map_of_SomeD)
    have "distinct (held s')" using \<open>relay_inv s'\<close> by (simp add: relay_inv_def)
    then have "distinct (pair_ports p)"
      using p(1) unfolding held_def by (force simp: distinct_concat_iff)
    with p show "a \<noteq> b" by (simp add: pair_ports_def)
  qed auto
qed

lemma Allocate_again:
  assumes "map_of (rs_pairs s) i = Some p"
  shows "\<exists>s'. Allocate os t i s = Inr (s', pr_portA p, pr_portB p)"
  using assms by (simp add: Allocate_def)

interpretation embedded: relayAllocator "\<lambda>s. os_ok os \<and> relay_inv s" "Allocate os" for os
proof unfold_locales
  fix s t i s' a b assume *: "os_ok os \<and> relay_inv s" "Allocate os t i s = Inr (s', a, b)"
  then show "(os_ok os \<and> relay_inv s') \<and> a \<noteq> b" using Allocate_inv by blast
  show "\<exists>s''. Allocate os t' i s' = Inr (s'', a, b)" for t'
    using Allocate_inv [of os s t i s' a b] * Allocate_again [of s' i] by fastforce
qed

lemma find_filter: "List.find P xs = (case filter P xs of [] \<Rightarrow> None | x # _ \<Rightarrow> Some x)"
  by (induction xs) auto

subsection \<open>Properties\<close>

text \<open>
  C15: In every state a relay reaches, no two forwarding legs share a port, each pair
  identifier is live at most once, and with a configured range every port lies in it.
\<close>

theorem relay_ports_disjoint:
  assumes "New cfg = Inr s0" "os_ok os" "run (relay_step os) s0 es s"
  shows "distinct (held s) \<and> distinct (map fst (rs_pairs s)) \<and>
    (PortMin cfg \<noteq> 0 \<longrightarrow> (\<forall>p \<in> set (held s). PortMin cfg \<le> p \<and> p \<le> PortMax cfg))"
proof -
  have "relay_inv s" "rs_cfg s = cfg"
    using relay_sys.run_preserves [OF assms(3), of cfg] New_inv [OF assms(1)] assms(2) by auto
  then show ?thesis by (auto simp: relay_inv_def in_range_def list_all_iff)
qed

definition demo_os :: udp_os where
  "demo_os = \<lparr>os_busy = (\<lambda>p. p = 40001), os_ephemeral = (\<lambda>_. None)\<rparr>"

definition demo_cfg :: Config where
  "demo_cfg = \<lparr>PortMin = 40000, PortMax = 40002\<rparr>"

definition demo_pair :: pair where
  "demo_pair = \<lparr>pr_portA = 40000, pr_portB = 40002, pr_srcA = None, pr_srcB = None, pr_lastActive = 0\<rparr>"

definition demo_relay :: relay_server where
  "demo_relay = \<lparr>rs_cfg = demo_cfg, rs_pairs = [(''ab'', demo_pair)]\<rparr>"

lemma demo_os_ok: "os_ok demo_os"
  by (simp add: os_ok_def demo_os_def)

lemma demo_relay_new: "New demo_cfg = Inr \<lparr>rs_cfg = demo_cfg, rs_pairs = []\<rparr>"
  by (simp add: New_def demo_cfg_def)

lemma demo_relay_allocated:
  "Allocate demo_os 0 ''ab'' \<lparr>rs_cfg = demo_cfg, rs_pairs = []\<rparr> = Inr (demo_relay, 40000, 40002)"
  by (simp add: Allocate_def listenUDP_def demo_cfg_def demo_os_def held_def upt_rec touch_def demo_relay_def demo_pair_def)

theorem relay_ports_disjoint_witness:
  "run (relay_step demo_os) \<lparr>rs_cfg = demo_cfg, rs_pairs = []\<rparr> [EvAllocate ''ab'' 40000 40002] demo_relay \<and>
   distinct (held demo_relay)"
proof -
  have r: "run (relay_step demo_os) \<lparr>rs_cfg = demo_cfg, rs_pairs = []\<rparr> [EvAllocate ''ab'' 40000 40002] demo_relay"
    using step_allocate [OF demo_relay_allocated] by (auto intro: run.intros)
  with relay_ports_disjoint [OF demo_relay_new demo_os_ok r] show ?thesis by blast
qed

text \<open>
  Allocation with a configured range. A live pair gets its ports again. A new pair
  gets the two lowest ports of the range that neither a live pair nor another process
  holds; when fewer than two are left the error is \<open>ErrPortsExhausted\<close> and nothing changes.
\<close>

theorem Allocate_exact:
  assumes "PortMin (rs_cfg s) \<noteq> 0"
  shows "Allocate os now i s =
    (case map_of (rs_pairs s) i of
       Some p \<Rightarrow> Inr (set_pair i (touch now p) s, pr_portA p, pr_portB p)
     | None \<Rightarrow>
         (case filter (\<lambda>p. \<not> os_busy os p \<and> p \<notin> set (held s)) [PortMin (rs_cfg s)..<Suc (PortMax (rs_cfg s))] of
            a # b # _ \<Rightarrow> Inr (s\<lparr>rs_pairs := rs_pairs s @ [(i, \<lparr>pr_portA = a, pr_portB = b, pr_srcA = None,
                             pr_srcB = None, pr_lastActive = now\<rparr>)]\<rparr>, a, b)
          | _ \<Rightarrow> Inl ErrPortsExhausted))"
proof (cases "map_of (rs_pairs s) i")
  case None
  define range where "range = [PortMin (rs_cfg s)..<Suc (PortMax (rs_cfg s))]"
  define F where "F = filter (\<lambda>p. \<not> os_busy os p \<and> p \<notin> set (held s)) range"
  have d: "distinct F" by (simp add: F_def range_def)
  have l: "listenUDP os (rs_cfg s) taken =
      (case filter (\<lambda>p. \<not> os_busy os p \<and> p \<notin> set taken) range of [] \<Rightarrow> Inl ErrPortsExhausted | p # _ \<Rightarrow> Inr p)" for taken
    using assms by (simp add: listenUDP_def find_filter range_def split: list.split)
  have "filter (\<lambda>p. \<not> os_busy os p \<and> p \<notin> set (a # held s)) range = filter (\<lambda>p. p \<noteq> a) F" for a
    by (simp add: F_def) (metis (mono_tags, lifting) filter_cong)
  moreover have "filter (\<lambda>p. p \<noteq> a) (a # F') = F'" if "distinct (a # F')" for a F'
    using that by (auto simp: filter_id_conv)
  ultimately have l2: "filter (\<lambda>p. \<not> os_busy os p \<and> p \<notin> set (a # held s)) range = F'" if "F = a # F'" for a F'
    using d that by metis
  show ?thesis
    unfolding Allocate_def None option.case range_def [symmetric]
    using l [of "held s"] l [of "_ # held s"] l2 d
    by (cases F rule: remdups_adj.cases) (simp_all add: F_def [symmetric] touch_def)
qed (simp add: Allocate_def)

theorem Allocate_exact_witness:
  "Allocate demo_os 7 ''cd'' demo_relay = Inl ErrPortsExhausted"
  by (subst Allocate_exact) (simp_all add: demo_relay_def demo_cfg_def demo_os_def demo_pair_def held_def pair_ports_def upt_rec)

text \<open>
  C11: The return stream of a leg cannot be redirected by data packets. Once a leg has an
  address, whatever is received in whatever interleaving on any leg of any pair, the leg keeps
  it, everything forwarded towards the leg is an unchanged datagram sent to that address, and
  nothing that any other address sends to the leg is forwarded to the other side, provided the
  pair is not swept and only that address sends non-transport messages to the leg.
\<close>

theorem relay_latch_safe:
  assumes "os_ok os" "relay_inv s" "map_of (rs_pairs s) i = Some p" "leg fromA p = Some x"
    and "run (relay_step os) s es s'"
    and "\<forall>e \<in> set es. \<not> drops i e \<and> moves_latch i fromA e \<in> {None, Some x}"
  shows "(\<exists>p'. map_of (rs_pairs s') i = Some p' \<and> leg fromA p' = Some x) \<and>
    (\<forall>e \<in> set es. delivered_to i fromA x e)"
  using latched_run [OF assms(5,1,2) _ assms(6)] assms(3,4) by (auto simp: latched_def)

definition demo_transport :: string where
  "demo_transport = map byte [4, 0, 0, 0] @ replicate 28 CHR ''x''"

definition demo_cookie :: string where
  "demo_cookie = map byte [3, 0, 0, 0] @ replicate 60 CHR ''x''"

definition demo_latched :: relay_server where
  "demo_latched = \<lparr>rs_cfg = demo_cfg, rs_pairs =
     [(''ab'', demo_pair\<lparr>pr_srcA := Some (V4 1, 51820), pr_srcB := Some (V4 2, 51820)\<rparr>)]\<rparr>"

lemma demo_latched_inv: "relay_inv demo_latched"
  by (simp add: relay_inv_def demo_latched_def held_def pair_ports_def demo_pair_def in_range_def demo_cfg_def)

lemma demo_shapes: "wgShaped demo_transport" "code (demo_transport ! 0) = msgTransport"
  "wgShaped demo_cookie" "code (demo_cookie ! 0) = msgCookie"
  by code_simp+

text \<open>An intruder's data packet on leg A is dropped; the answer of B still goes to A.\<close>

theorem relay_latch_safe_witness:
  "\<exists>s'. run (relay_step demo_os) demo_latched
      [EvReceive ''ab'' True demo_transport (V4 9, 9) None,
       EvReceive ''ab'' False demo_transport (V4 2, 51820) (Some (demo_transport, (V4 1, 51820)))] s' \<and>
     (\<exists>p'. map_of (rs_pairs s') ''ab'' = Some p' \<and> leg True p' = Some (V4 1, 51820)) \<and>
     delivered_to ''ab'' True (V4 1, 51820)
       (EvReceive ''ab'' False demo_transport (V4 2, 51820) (Some (demo_transport, (V4 1, 51820))))"
proof -
  let ?es = "[EvReceive ''ab'' True demo_transport (V4 9, 9) None,
       EvReceive ''ab'' False demo_transport (V4 2, 51820) (Some (demo_transport, (V4 1, 51820)))]"
  have 1: "receive 5 ''ab'' True demo_transport (V4 9, 9) demo_latched = (demo_latched, None)"
    by (simp add: receive_def forward_def demo_latched_def leg_def demo_shapes set_pair_def)
  obtain s' where 2: "receive 5 ''ab'' False demo_transport (V4 2, 51820) demo_latched =
      (s', Some (demo_transport, (V4 1, 51820)))"
    by (simp add: receive_def forward_def demo_latched_def leg_def demo_shapes set_pair_def)
  have r: "run (relay_step demo_os) demo_latched ?es s'"
    using step_receive [OF 1] step_receive [OF 2] by (auto intro!: run.intros)
  have p: "map_of (rs_pairs demo_latched) ''ab'' =
      Some (demo_pair\<lparr>pr_srcA := Some (V4 1, 51820), pr_srcB := Some (V4 2, 51820)\<rparr>)"
    by (simp add: demo_latched_def)
  have "(\<exists>p'. map_of (rs_pairs s') ''ab'' = Some p' \<and> leg True p' = Some (V4 1, 51820)) \<and>
      (\<forall>e \<in> set ?es. delivered_to ''ab'' True (V4 1, 51820) e)"
    by (rule relay_latch_safe [OF demo_os_ok demo_latched_inv p _ r])
      (simp_all add: leg_def drops_def moves_latch_def demo_shapes)
  with r show ?thesis by auto
qed

text \<open>
  C31: A cookie reply moves the latch. The package comment says only a handshake-shaped
  message may move a leg's address; the loop refuses transport messages only, so any datagram of
  a cookie reply's shape (64 bytes, type 3) from any source takes over the leg, and the next
  packet of the other side is sent there.
\<close>

theorem cookie_reply_moves_latch:
  assumes "map_of (rs_pairs s) i = Some p" "wgShaped pkt" "code (pkt ! 0) = msgCookie"
    and "wgShaped data" "leg (\<not> fromA) p = Some peer"
  shows "\<exists>s1 out s2. receive now i fromA pkt attacker s = (s1, out) \<and>
    Observed i s1 = Some (if fromA then (Some attacker, pr_srcB p) else (pr_srcA p, Some attacker)) \<and>
    receive now' i (\<not> fromA) data peer s1 = (s2, Some (data, attacker))"
proof -
  obtain p1 o1 where f1: "forward now fromA pkt attacker p = (p1, o1)" by (cases "forward now fromA pkt attacker p")
  have l1: "leg fromA p1 = Some attacker" "leg (\<not> fromA) p1 = Some peer"
    using forward_leg [OF f1] assms by (auto simp: msgCookie_def msgTransport_def)
  have f2: "forward now' (\<not> fromA) data peer p1 = (p1\<lparr>pr_lastActive := now'\<rparr>, Some (data, attacker))"
    using l1 assms(4) by (cases fromA) (simp_all add: forward_def leg_def)
  have "receive now i fromA pkt attacker s = (set_pair i p1 s, o1)" using f1 assms(1) by (simp add: receive_def)
  moreover have m: "map_of (rs_pairs (set_pair i p1 s)) i = Some p1" using assms(1) by (simp add: map_of_set_pair)
  moreover have "Observed i (set_pair i p1 s) = Some (if fromA then (Some attacker, pr_srcB p) else (pr_srcA p, Some attacker))"
    using m l1 assms(5) by (cases fromA) (simp_all add: Observed_def leg_def)
  moreover have "\<exists>s2. receive now' i (\<not> fromA) data peer (set_pair i p1 s) = (s2, Some (data, attacker))"
    using m f2 by (simp add: receive_def)
  ultimately show ?thesis by blast
qed

theorem cookie_reply_moves_latch_witness:
  "\<exists>s1 out s2. receive 5 ''ab'' True demo_cookie (V4 9, 9) demo_latched = (s1, out) \<and>
     Observed ''ab'' s1 = Some (Some (V4 9, 9), Some (V4 2, 51820)) \<and>
     receive 6 ''ab'' False demo_transport (V4 2, 51820) s1 = (s2, Some (demo_transport, (V4 9, 9)))"
  using cookie_reply_moves_latch [of demo_latched "''ab''"
      "demo_pair\<lparr>pr_srcA := Some (V4 1, 51820), pr_srcB := Some (V4 2, 51820)\<rparr>" demo_cookie demo_transport True
      "(V4 2, 51820)" 5 "(V4 9, 9)" 6] demo_shapes
  by (simp add: demo_latched_def leg_def)

end
