(* ===== verification/Endpoints.thy ===== *)
theory Endpoints
  imports Telemetry Relay "HOL-Library.Multiset"
begin

section \<open>Endpoint candidates\<close>

text \<open>
  cmd/server/main.go: how the control plane ranks the ways one peer can reach another. The
  host and port functions of package net are modelled as the sources use them; whether
  \<open>net.ResolveUDPAddr\<close> resolves a text depends on the resolver and is the parameter
  \<open>resolves\<close>.
\<close>

subsection \<open>Package net\<close>

definition SplitHostPort :: "string \<Rightarrow> (string \<times> string) option" where
  "SplitHostPort s =
     (case cut_last CHR '':'' s of
        None \<Rightarrow> None
      | Some (front, port) \<Rightarrow>
          if hd s = CHR ''[''
          then (case Cut CHR '']'' s of
                  None \<Rightarrow> None
                | Some (open_host, rest) \<Rightarrow>
                    if open_host @ '']'' \<noteq> front then None
                    else if CHR ''['' \<in> set (tl s) \<or> CHR '']'' \<in> set rest then None
                    else Some (tl open_host, port))
          else if CHR '':'' \<in> set front \<or> CHR ''['' \<in> set s \<or> CHR '']'' \<in> set s then None
          else Some (front, port))"

definition JoinHostPort :: "string \<Rightarrow> string \<Rightarrow> string" where
  "JoinHostPort host port =
     (if CHR '':'' \<in> set host then ''['' @ host @ '']:'' @ port else host @ '':'' @ port)"

text \<open>\<open>net.ParseIP(s).To4()\<close>: an IPv4 address, possibly written IPv4-mapped, without a zone.\<close>

definition ParseIP_To4 :: "string \<Rightarrow> 32 word option" where
  "ParseIP_To4 s =
     (case ParseAddr s of
        Some (V4 w) \<Rightarrow> Some w
      | Some (V6 w z) \<Rightarrow> if z = [] then (case Unmap (V6 w z) of V4 v \<Rightarrow> Some v | _ \<Rightarrow> None) else None
      | _ \<Rightarrow> None)"

definition IsLoopback :: "addr \<Rightarrow> bool" where
  "IsLoopback a =
     (case Unmap a of
        V4 w \<Rightarrow> octets w ! 0 = 127
      | V6 w _ \<Rightarrow> w = 1
      | AddrZero \<Rightarrow> False)"

definition addr_port_String :: "addr_port \<Rightarrow> string" where
  "addr_port_String x = (case x of (a, p) \<Rightarrow>
     (if Is6 a then ''['' @ addr_String a @ '']:'' @ dec p else addr_String a @ '':'' @ dec p))"

subsection \<open>Candidates\<close>

record EndpointCandidate =
  ec_Endpoint :: string
  ec_Type :: string
  ec_Priority :: int

definition lanEndpoint :: "PeerRow \<Rightarrow> string option" where
  "lanEndpoint p =
     (if ObservedIP p \<noteq> [] \<and> 0 < ListenPort p then Some (JoinHostPort (ObservedIP p) (Itoa (ListenPort p))) else None)"

definition sameHost :: "string \<Rightarrow> string \<Rightarrow> bool" where
  "sameHost a b =
     (case (SplitHostPort a, SplitHostPort b) of
        (Some (ha, _), Some (hb, _)) \<Rightarrow> ha = hb
      | _ \<Rightarrow> False)"

definition maxEndpointCandidates :: nat where "maxEndpointCandidates = 6"
definition maxAgentCandidates :: nat where "maxAgentCandidates = 8"

definition known_type :: "string \<Rightarrow> bool" where
  "known_type t \<longleftrightarrow> t \<in> set [''host'', ''host6'', ''stun6'', ''upnp'', ''pinned'']"

definition validAgentCandidates :: "(string \<Rightarrow> bool) \<Rightarrow> AgentCandidate list \<Rightarrow> AgentCandidate list" where
  "validAgentCandidates resolves cands =
     take maxAgentCandidates (filter (\<lambda>c. known_type (ac_Type c) \<and> resolves (ac_Endpoint c)) cands)"

definition encodeAgentCandidates :: "(string \<Rightarrow> bool) \<Rightarrow> AgentCandidate list \<Rightarrow> string" where
  "encodeAgentCandidates resolves cands =
     (let kept = validAgentCandidates resolves cands
      in if kept = [] then [] else marshal_candidates kept)"

definition agentCandidates :: "PeerRow \<Rightarrow> AgentCandidate list" where
  "agentCandidates p =
     (if CandidatesJSON p = [] then []
      else case unmarshal_candidates (CandidatesJSON p) of
             None \<Rightarrow> []
           | Some out \<Rightarrow> take maxAgentCandidates out)"

definition sameV4Subnet :: "AgentCandidate list \<Rightarrow> string \<Rightarrow> bool" where
  "sameV4Subnet selfCands endpoint =
     (case SplitHostPort endpoint of
        None \<Rightarrow> False
      | Some (host, _) \<Rightarrow>
          (case ParseIP_To4 host of
             None \<Rightarrow> False
           | Some ip \<Rightarrow>
               list_ex (\<lambda>c. ac_Type c = ''host'' \<and>
                 (case SplitHostPort (ac_Endpoint c) of
                    None \<Rightarrow> False
                  | Some (selfHost, _) \<Rightarrow>
                      (case ParseIP_To4 selfHost of
                         None \<Rightarrow> False
                       | Some selfIP \<Rightarrow> take 3 (octets ip) = take 3 (octets selfIP)))) selfCands))"

text \<open>
  The closure \<open>add\<close> with its \<open>seen\<close> map: an empty or already listed endpoint is
  skipped, so \<open>seen\<close> is the set of endpoints of \<open>out\<close>.
\<close>

fun add_candidate :: "string \<times> string \<times> int \<Rightarrow> EndpointCandidate list \<Rightarrow> EndpointCandidate list" where
  "add_candidate (endpoint, typ, priority) out =
     (if endpoint = [] \<or> endpoint \<in> set (map ec_Endpoint out) then out
      else out @ [\<lparr>ec_Endpoint = endpoint, ec_Type = typ, ec_Priority = priority\<rparr>])"

definition sortCandidates :: "EndpointCandidate list \<Rightarrow> EndpointCandidate list" where
  "sortCandidates out = take maxEndpointCandidates (sort_key (\<lambda>c. - ec_Priority c) out)"

definition lan_proposal :: "PeerRow \<Rightarrow> int \<Rightarrow> (string \<times> string \<times> int) list" where
  "lan_proposal p prio = (case lanEndpoint p of None \<Rightarrow> [] | Some lan \<Rightarrow> [(lan, ''lan'', prio)])"

definition of_type :: "string \<Rightarrow> int \<Rightarrow> AgentCandidate list \<Rightarrow> (string \<times> string \<times> int) list" where
  "of_type t prio cs = map (\<lambda>c. (ac_Endpoint c, t, prio)) (filter (\<lambda>c. ac_Type c = t) cs)"

definition sameNAT :: "PeerRow \<Rightarrow> PeerRow \<Rightarrow> bool" where
  "sameNAT self p \<longleftrightarrow> PublicEndpoint p \<noteq> [] \<and> PublicEndpoint self \<noteq> [] \<and> sameHost (PublicEndpoint self) (PublicEndpoint p)"

text \<open>The calls of \<open>add\<close> in program order, for the two sides of the fork.\<close>

definition same_nat_proposals :: "PeerRow \<Rightarrow> PeerRow \<Rightarrow> (string \<times> string \<times> int) list" where
  "same_nat_proposals self p =
     (let reported = agentCandidates p; selfReported = agentCandidates self
      in concat (map (\<lambda>c.
           if ac_Type c = ''pinned'' then [(ac_Endpoint c, ''pinned'', 95)]
           else if ac_Type c = ''host''
                then (if sameV4Subnet selfReported (ac_Endpoint c) then [(ac_Endpoint c, ''host'', 110)] else [])
           else if ac_Type c = ''host6'' then [(ac_Endpoint c, ''host6'', 100)]
           else if ac_Type c = ''stun6'' then [(ac_Endpoint c, ''stun6'', 130)]
           else []) reported) @
         lan_proposal p 105 @ [(PublicEndpoint p, ''stun'', 85)] @ of_type ''upnp'' 84 reported)"

definition cross_nat_proposals :: "PeerRow \<Rightarrow> PeerRow \<Rightarrow> (string \<times> string \<times> int) list" where
  "cross_nat_proposals self p =
     (let reported = agentCandidates p; selfReported = agentCandidates self
      in of_type ''pinned'' 140 reported @ of_type ''stun6'' 130 reported @ of_type ''upnp'' 120 reported @
         (if PublicEndpoint p \<noteq> [] then [(PublicEndpoint p, ''stun'', 90)] else []) @
         concat (map (\<lambda>c.
           if ac_Type c = ''host6'' then [(ac_Endpoint c, ''host6'', 85)]
           else if ac_Type c = ''host''
                then (if sameV4Subnet selfReported (ac_Endpoint c) then [(ac_Endpoint c, ''host'', 110)] else [])
           else []) reported) @
         lan_proposal p 80)"

definition endpointCandidates :: "PeerRow \<Rightarrow> PeerRow \<Rightarrow> EndpointCandidate list" where
  "endpointCandidates self p =
     sortCandidates (fold add_candidate
       (if sameNAT self p then same_nat_proposals self p else cross_nat_proposals self p) [])"

definition endpointHint :: "PeerRow \<Rightarrow> PeerRow \<Rightarrow> string option" where
  "endpointHint self p =
     (case endpointCandidates self p of [] \<Rightarrow> None | c # _ \<Rightarrow> Some (ec_Endpoint c))"

text \<open>
  \<open>pairCandidates\<close> adds the source address the embedded relay latched for the peer's leg.
  \<open>observed\<close> is the relay's report for the pair, None without a relay or a live pair.
\<close>

definition pairCandidates ::
  "(addr_port option \<times> addr_port option) option \<Rightarrow> PeerRow \<Rightarrow> PeerRow \<Rightarrow> EndpointCandidate list" where
  "pairCandidates observed self p =
     (let out = endpointCandidates self p
      in case observed of
           None \<Rightarrow> out
         | Some (srcA, srcB) \<Rightarrow>
             (case (if PublicKey self < PublicKey p then srcB else srcA) of
                None \<Rightarrow> out
              | Some src \<Rightarrow>
                  if \<not> addr_IsValid (fst src) \<or> IsLoopback (fst src) then out
                  else if list_ex (\<lambda>c. ec_Endpoint c = addr_port_String src) out then out
                  else sortCandidates (out @ [\<lparr>ec_Endpoint = addr_port_String src, ec_Type = ''relay'',
                         ec_Priority = (if sameNAT self p then 83 else 95)\<rparr>])))"

subsection \<open>Lemmas\<close>

definition candidates_ok :: "EndpointCandidate list \<Rightarrow> bool" where
  "candidates_ok out \<longleftrightarrow> distinct (map ec_Endpoint out) \<and> (\<forall>c \<in> set out. ec_Endpoint c \<noteq> [])"

lemma add_candidate_ok: "candidates_ok out \<Longrightarrow> candidates_ok (add_candidate x out)"
  by (cases x) (auto simp: candidates_ok_def)

lemma fold_add_ok: "candidates_ok out \<Longrightarrow> candidates_ok (fold add_candidate ps out)"
  by (induction ps arbitrary: out) (auto intro: add_candidate_ok)

lemma fold_add_mem:
  "c \<in> set (fold add_candidate ps out) \<Longrightarrow>
     c \<in> set out \<or> (ec_Endpoint c, ec_Type c, ec_Priority c) \<in> set ps"
proof (induction ps arbitrary: out)
  case (Cons x ps)
  from Cons.IH [of "add_candidate x out"] Cons.prems show ?case
    by (cases x) (auto split: if_splits)
qed simp

text \<open>Candidates are only ever appended, and the first real proposal comes first.\<close>

lemma fold_add_prefix: "\<exists>more. fold add_candidate ps out = out @ more"
proof (induction ps arbitrary: out)
  case (Cons x ps)
  have "\<exists>m. add_candidate x out = out @ m" by (cases x) auto
  then obtain m where "add_candidate x out = out @ m" ..
  with Cons.IH [of "add_candidate x out"] show ?case by auto
qed simp

lemma find_append_Some: "List.find P xs = Some x \<Longrightarrow> List.find P (xs @ ys) = Some x"
  by (induction xs) (auto split: if_splits)

lemma fold_add_first:
  assumes "List.find (\<lambda>(e, _). e \<noteq> []) ps = Some (e, t, n)"
  shows "\<exists>more. fold add_candidate ps [] = \<lparr>ec_Endpoint = e, ec_Type = t, ec_Priority = n\<rparr> # more"
  using assms
proof (induction ps)
  case (Cons x ps)
  show ?case
  proof (cases "fst x = []")
    case True
    with Cons show ?thesis by (cases x) auto
  next
    case False
    with Cons.prems have "x = (e, t, n)" by (cases x) auto
    with False fold_add_prefix [of ps "[\<lparr>ec_Endpoint = e, ec_Type = t, ec_Priority = n\<rparr>]"] show ?thesis by auto
  qed
qed simp

lemma sortCandidates_head:
  assumes "\<forall>y \<in> set xs. ec_Priority y \<le> ec_Priority x"
  shows "\<exists>more. sortCandidates (x # xs) = x # more"
proof -
  have "sort_key (\<lambda>c. - ec_Priority c) (x # xs) = x # sort_key (\<lambda>c. - ec_Priority c) xs"
    using assms by (simp add: insort_is_Cons)
  then show ?thesis by (simp add: sortCandidates_def maxEndpointCandidates_def)
qed

lemma sortCandidates_set: "set (sortCandidates out) \<subseteq> set out"
  unfolding sortCandidates_def using set_take_subset by fastforce

lemma sortCandidates_ok:
  assumes "candidates_ok out"
  shows "candidates_ok (sortCandidates out) \<and> length (sortCandidates out) \<le> maxEndpointCandidates \<and>
    sorted_wrt (\<lambda>a b. ec_Priority b \<le> ec_Priority a) (sortCandidates out)"
proof -
  let ?s = "sort_key (\<lambda>c. - ec_Priority c) out"
  have "mset (map ec_Endpoint ?s) = mset (map ec_Endpoint out)" by simp
  then have "distinct (map ec_Endpoint ?s)"
    using assms unfolding candidates_ok_def by (metis mset_eq_imp_distinct_iff)
  moreover have "sorted_wrt (\<lambda>a b. ec_Priority b \<le> ec_Priority a) ?s"
    using sorted_sort_key [of "\<lambda>c. - ec_Priority c" out] by (simp add: sorted_map)
  ultimately show ?thesis
    using assms sortCandidates_set [of out]
    by (auto simp: sortCandidates_def candidates_ok_def take_map [symmetric] sorted_wrt_take dest: in_set_takeD)
qed

lemma endpointCandidates_ok:
  "candidates_ok (endpointCandidates self p) \<and> length (endpointCandidates self p) \<le> maxEndpointCandidates \<and>
   sorted_wrt (\<lambda>a b. ec_Priority b \<le> ec_Priority a) (endpointCandidates self p)"
  unfolding endpointCandidates_def by (rule sortCandidates_ok [OF fold_add_ok]) (simp add: candidates_ok_def)

lemma addr_port_String_ne: "addr_port_String x \<noteq> []"
  by (cases x) (simp add: addr_port_String_def)

text \<open>Where an offered endpoint can come from.\<close>

definition endpoint_sources :: "PeerRow \<Rightarrow> string set" where
  "endpoint_sources p =
     ac_Endpoint ` set (agentCandidates p) \<union> {PublicEndpoint p} \<union> set_option (lanEndpoint p)"

lemma proposals_sources:
  assumes "(e, t, n) \<in> set (if sameNAT self p then same_nat_proposals self p else cross_nat_proposals self p)"
  shows "e \<in> endpoint_sources p \<and> n \<le> 140"
  using assms
  by (auto simp: same_nat_proposals_def cross_nat_proposals_def Let_def of_type_def lan_proposal_def
      endpoint_sources_def split: if_splits option.splits)

lemma endpointCandidates_sources:
  assumes "c \<in> set (endpointCandidates self p)"
  shows "ec_Endpoint c \<in> endpoint_sources p"
proof -
  have "c \<in> set (fold add_candidate (if sameNAT self p then same_nat_proposals self p else cross_nat_proposals self p) [])"
    using assms sortCandidates_set unfolding endpointCandidates_def by blast
  then show ?thesis using proposals_sources fold_add_mem by fastforce
qed

definition relay_source :: "(addr_port option \<times> addr_port option) option \<Rightarrow> PeerRow \<Rightarrow> PeerRow \<Rightarrow> string set" where
  "relay_source observed self p =
     (case observed of
        None \<Rightarrow> {}
      | Some (srcA, srcB) \<Rightarrow> addr_port_String ` set_option (if PublicKey self < PublicKey p then srcB else srcA))"

subsection \<open>Properties\<close>

text \<open>
  What a peer is told about reaching another: at most six candidates, best first, no
  endpoint twice and none empty, each either reported by that peer, its STUN endpoint, the address
  it was observed at, or the source the relay latched for it.
\<close>

theorem pairCandidates_ranked:
  "length (pairCandidates observed self p) \<le> 6 \<and>
   sorted_wrt (\<lambda>a b. ec_Priority b \<le> ec_Priority a) (pairCandidates observed self p) \<and>
   distinct (map ec_Endpoint (pairCandidates observed self p)) \<and>
   ec_Endpoint ` set (pairCandidates observed self p) \<subseteq> endpoint_sources p \<union> relay_source observed self p - {[]}"
proof -
  define out where "out = endpointCandidates self p"
  define r where "r x = \<lparr>ec_Endpoint = addr_port_String x, ec_Type = ''relay'',
      ec_Priority = (if sameNAT self p then 83 else 95)\<rparr>" for x
  have ok: "candidates_ok out" "length out \<le> 6" "sorted_wrt (\<lambda>a b. ec_Priority b \<le> ec_Priority a) out"
    using endpointCandidates_ok [of self p] by (auto simp: out_def maxEndpointCandidates_def)
  have src: "ec_Endpoint c \<in> endpoint_sources p" if "c \<in> set out" for c
    using that endpointCandidates_sources by (auto simp: out_def)
  consider (same) "pairCandidates observed self p = out"
    | (more) srcA srcB x where "observed = Some (srcA, srcB)" "Some x = (if PublicKey self < PublicKey p then srcB else srcA)"
        "\<not> list_ex (\<lambda>c. ec_Endpoint c = addr_port_String x) out"
        "pairCandidates observed self p = sortCandidates (out @ [r x])"
  proof (cases observed)
    case None
    then show ?thesis by (intro same) (simp add: pairCandidates_def out_def)
  next
    case (Some ab)
    obtain srcA srcB where o: "observed = Some (srcA, srcB)" using Some by (cases ab) auto
    define l where "l = (if PublicKey self < PublicKey p then srcB else srcA)"
    have e: "pairCandidates observed self p =
        (case l of None \<Rightarrow> out | Some src \<Rightarrow>
           if \<not> addr_IsValid (fst src) \<or> IsLoopback (fst src) then out
           else if list_ex (\<lambda>c. ec_Endpoint c = addr_port_String src) out then out
           else sortCandidates (out @ [r src]))"
      unfolding pairCandidates_def o l_def out_def r_def Let_def option.case prod.case ..
    show ?thesis
    proof (cases l)
      case None
      then show ?thesis using e by (intro same) simp
    next
      case (Some x)
      with e same more [OF o, of x] show ?thesis by (fastforce simp: l_def split: if_splits)
    qed
  qed
  then show ?thesis
  proof cases
    case same
    then show ?thesis using ok src by (auto simp: candidates_ok_def)
  next
    case more
    have "candidates_ok (out @ [r x])"
      using ok(1) more(3) addr_port_String_ne [of x] by (auto simp: candidates_ok_def r_def list_ex_iff)
    note s = sortCandidates_ok [OF this]
    have "\<forall>c \<in> set (pairCandidates observed self p). ec_Endpoint c \<in> endpoint_sources p \<or> ec_Endpoint c = addr_port_String x"
    proof
      fix c assume that: "c \<in> set (pairCandidates observed self p)"
      have "c \<in> set out \<or> c = r x" using that more(4) sortCandidates_set [of "out @ [r x]"] by auto
      then show "ec_Endpoint c \<in> endpoint_sources p \<or> ec_Endpoint c = addr_port_String x" using src by (auto simp: r_def)
    qed
    moreover have "addr_port_String x \<in> relay_source observed self p"
      using more(1,2) by (auto simp: relay_source_def split: if_splits)
    ultimately have "ec_Endpoint ` set (pairCandidates observed self p) \<subseteq> endpoint_sources p \<union> relay_source observed self p"
      unfolding image_subset_iff by (metis UnI1 UnI2)
    then show ?thesis
      using s unfolding more(4) [symmetric] candidates_ok_def maxEndpointCandidates_def by auto
  qed
qed

text \<open>
  An operator-pinned endpoint wins: across different NATs, a peer that reported a
  pinned endpoint is first tried exactly there.
\<close>

theorem endpointHint_pinned:
  assumes "\<not> sameNAT self p"
    and "List.find (\<lambda>c. ac_Type c = ''pinned'' \<and> ac_Endpoint c \<noteq> []) (agentCandidates p) = Some c"
  shows "endpointHint self p = Some (ac_Endpoint c)"
proof -
  let ?ps = "cross_nat_proposals self p"
  let ?c = "\<lparr>ec_Endpoint = ac_Endpoint c, ec_Type = ''pinned'', ec_Priority = 140\<rparr>"
  have f: "List.find (\<lambda>(e, _). e \<noteq> []) (of_type ''pinned'' 140 cs) = Some (ac_Endpoint c, ''pinned'', 140)"
    if "List.find (\<lambda>c. ac_Type c = ''pinned'' \<and> ac_Endpoint c \<noteq> []) cs = Some c" for cs
    using that by (induction cs) (auto simp: of_type_def split: if_splits)
  have "List.find (\<lambda>(e, _). e \<noteq> []) ?ps = Some (ac_Endpoint c, ''pinned'', 140)"
    unfolding cross_nat_proposals_def Let_def by (rule find_append_Some [OF f [OF assms(2)]])
  then obtain more where m: "fold add_candidate ?ps [] = ?c # more"
    using fold_add_first by blast
  have "ec_Priority y \<le> 140" if "y \<in> set more" for y
  proof -
    have "(ec_Endpoint y, ec_Type y, ec_Priority y) \<in> set ?ps"
      using fold_add_mem [of y ?ps "[]"] that m by auto
    with assms(1) proposals_sources [of _ _ _ self p] show ?thesis by auto
  qed
  then have "\<exists>more'. sortCandidates (?c # more) = ?c # more'" by (intro sortCandidates_head) auto
  then show ?thesis using assms(1) m by (auto simp: endpointHint_def endpointCandidates_def)
qed

definition demo_row :: PeerRow where
  "demo_row = \<lparr>ID = 2, PublicKey = ''pkB'', Hostname = ''b'', AssignedIP = ''100.64.0.2'', AssignedIP6 = [],
     PeerType = ''agent'', GatewayPeerID = 0, AdvertiseExitNode = False, ExitNodePeerID = 0,
     PublicEndpoint = ''198.51.100.7:51820'', ObservedIP = ''192.0.2.9'', ListenPort = 51820,
     CandidatesJSON = marshal_candidates [\<lparr>ac_Endpoint = ''10.0.0.5:51820'', ac_Type = ''host''\<rparr>,
       \<lparr>ac_Endpoint = ''vpn.example.org:51820'', ac_Type = ''pinned''\<rparr>],
     NATType = ''easy'', Version = []\<rparr>"

lemma demo_row_candidates:
  "agentCandidates demo_row = [\<lparr>ac_Endpoint = ''10.0.0.5:51820'', ac_Type = ''host''\<rparr>,
       \<lparr>ac_Endpoint = ''vpn.example.org:51820'', ac_Type = ''pinned''\<rparr>]"
  by code_simp

theorem endpointHint_pinned_witness:
  "endpointHint (demo_row\<lparr>PublicEndpoint := []\<rparr>) demo_row = Some ''vpn.example.org:51820''"
  using endpointHint_pinned [of "demo_row\<lparr>PublicEndpoint := []\<rparr>" demo_row
      "\<lparr>ac_Endpoint = ''vpn.example.org:51820'', ac_Type = ''pinned''\<rparr>"]
  by (simp add: sameNAT_def demo_row_candidates)

end
