(* ===== verification/Server.thy ===== *)
theory Server
  imports Sessions Logs Dns Acl Endpoints "HOL-Library.AList"
begin

section \<open>The control-plane server: state, authentication, audit and signalling\<close>

text \<open>
  cmd/server: the \<open>server\<close> struct and what every handler uses. A handler is a function
  from the request and the server to the server afterwards and the response; the clock, the
  random bytes drawn and the decoded body (\<open>Inl\<close> with the status and message when
  \<open>decodeJSON\<close> has refused it) are arguments. What runs outside the sources is the record \<open>env\<close>: SHA-256, argon2, the
  WireGuard key functions of wgctrl's wgtypes, the resolver, the
  text of an error and \<open>%q\<close> quoting. Log output (slog) is left out.
\<close>

record wgtypes =
  ParseKey :: "string \<Rightarrow> string option"
  KeyString :: "string \<Rightarrow> string"
  PublicKeyOf :: "string \<Rightarrow> string"

record env =
  e_sha256 :: "string \<Rightarrow> string"
  e_argon2 :: argon2
  e_wg :: wgtypes
  e_resolves :: "string \<Rightarrow> bool"
  e_errText :: "store_error \<Rightarrow> string"
  e_quote :: "string \<Rightarrow> string"
  e_os :: udp_os

record punchEpoch =
  pe_epoch :: int
  pe_bumpedAt :: "time option"
  pe_attempts :: int

record signalMessage =
  sm_Type :: string
  sm_From :: string
  sm_To :: string
  sm_At :: time
  sm_Payload :: string

text \<open>
  A signal client is its public key, peer id and connection; \<open>sv_alive\<close> says whether a write
  to a connection succeeds, \<open>sv_sent\<close> records the messages written. A zero
  \<open>bumpedAt\<close> is None, an absent relay (\<open>s.relay == nil\<close>) is None.
\<close>

record signalClient =
  sc_peerID :: int
  sc_publicKey :: string
  sc_conn :: nat

record server =
  sv_store :: store
  sv_networkCIDR :: string
  sv_network6CIDR :: string
  sv_pskMaster :: string
  sv_adminToken :: string
  sv_sessionKey :: string
  sv_trustProxy :: bool
  sv_trustedProxies :: "prefix list"
  sv_keepalive :: int
  sv_relay :: "relay_server option"
  sv_relayHost :: string
  sv_stunServers :: "string list"
  sv_clients :: "(string \<times> signalClient) list"
  sv_alive :: "nat \<Rightarrow> bool"
  sv_sent :: "(nat \<times> signalMessage) list"
  sv_closed :: "nat list"
  sv_punchEpochs :: "string \<Rightarrow> punchEpoch option"

record request =
  rq_RemoteAddr :: string
  rq_XFF :: string
  rq_UserAgent :: string
  rq_Method :: string
  rq_Path :: string
  rq_Authorization :: string
  rq_Cookie :: "string option"

text \<open>The identity a handler attached with \<open>enrichRequest\<close>: \<open>reqContext\<close>.\<close>

type_synonym reqContext = "int \<times> string"

datatype 'a response = Reply 'a | Error nat string

type_synonym 'a body = "(nat \<times> string) + 'a"

abbreviation anonymous :: reqContext where
  "anonymous \<equiv> (0, [])"

subsection \<open>Addresses of clients, flags\<close>

definition trustsXFFFrom :: "server \<Rightarrow> string \<Rightarrow> bool" where
  "trustsXFFFrom sv remoteHost =
     (if sv_trustProxy sv then True
      else if sv_trustedProxies sv = [] then False
      else case ParseAddr remoteHost of
             None \<Rightarrow> False
           | Some a \<Rightarrow> list_ex (\<lambda>p. Contains p (Unmap a)) (sv_trustedProxies sv))"

definition clientIP :: "server \<Rightarrow> request \<Rightarrow> string" where
  "clientIP sv r =
     (case SplitHostPort (rq_RemoteAddr r) of
        None \<Rightarrow> []
      | Some (host, _) \<Rightarrow>
          if trustsXFFFrom sv host \<and> rq_XFF r \<noteq> []
          then TrimSpace (last (split_on CHR '','' (rq_XFF r)))
          else host)"

definition add_proxy :: "string \<Rightarrow> prefix list \<Rightarrow> string + prefix list" where
  "add_proxy raw out =
     (let part = TrimSpace raw
      in if part = [] then Inr out
         else case ParsePrefix part of
             Some p \<Rightarrow> Inr (out @ [Masked p])
           | None \<Rightarrow>
               (case ParseAddr part of
                  None \<Rightarrow> Inl part
                | Some a \<Rightarrow> Inr (out @ [Prefix (Unmap a) (BitLen (Unmap a))])))"

definition parseTrustedProxies :: "string \<Rightarrow> string + prefix list" where
  "parseTrustedProxies raw = foldE add_proxy (split_on CHR '','' raw) []"

definition cidr6_text :: "prefix \<Rightarrow> string" where
  "cidr6_text p = (if prefix_IsValid p then prefix_String p else [])"

definition parseNetwork4 :: "string \<Rightarrow> prefix option" where
  "parseNetwork4 raw =
     Option.bind (ParsePrefix raw) (\<lambda>p. if Is4 (prefix_Addr p) then Some (Masked p) else None)"

definition parseNetwork6 :: "string \<Rightarrow> prefix option" where
  "parseNetwork6 raw =
     Option.bind (ParsePrefix raw) (\<lambda>p. if Is6 (prefix_Addr p) then Some (Masked p) else None)"

definition splitCSV :: "string \<Rightarrow> string list" where
  "splitCSV raw = filter (\<lambda>p. p \<noteq> []) (map TrimSpace (split_on CHR '','' raw))"

definition currentNetworkConfig :: "server \<Rightarrow> string \<times> string" where
  "currentNetworkConfig sv = (sv_networkCIDR sv, sv_network6CIDR sv)"

definition setNetworkConfig :: "string \<times> string \<Rightarrow> server \<Rightarrow> server" where
  "setNetworkConfig c sv = sv\<lparr>sv_networkCIDR := fst c, sv_network6CIDR := snd c\<rparr>"

definition keepaliveOrDefault :: "server \<Rightarrow> int" where
  "keepaliveOrDefault sv = (if sv_keepalive sv \<le> 0 then 25 else sv_keepalive sv)"

definition CutPrefix :: "string \<Rightarrow> string \<Rightarrow> string option" where
  "CutPrefix s p = (if HasPrefix s p then Some (drop (length p) s) else None)"

definition bearer :: "request \<Rightarrow> string option" where
  "bearer r = CutPrefix (rq_Authorization r) ''Bearer ''"

subsection \<open>Secrets in files\<close>

text \<open>
  The load-or-generate pattern. A file is its contents, None when it does not exist; the result
  is the contents afterwards and the secret. Reading and writing succeed.
\<close>

definition loadOrGenerateAdminToken :: "string \<Rightarrow> string option \<Rightarrow> string + string \<times> string" where
  "loadOrGenerateAdminToken raw file =
     (case file of
        None \<Rightarrow> let token = hex_encode raw in Inr (token @ [byte 10], token)
      | Some contents \<Rightarrow>
          let token = TrimSpace contents
          in if token = [] then Inl ''admin token file is empty'' else Inr (contents, token))"

definition loadOrGenerateSessionKey :: "string \<Rightarrow> string option \<Rightarrow> string + string \<times> string" where
  "loadOrGenerateSessionKey raw file =
     (case file of
        None \<Rightarrow> Inr (hex_encode raw @ [byte 10], raw)
      | Some contents \<Rightarrow>
          (case hex_decode (TrimSpace contents) of
             None \<Rightarrow> Inl ''session key file is malformed''
           | Some key \<Rightarrow> if length key < 32 then Inl ''session key file is malformed'' else Inr (contents, key)))"

subsection \<open>Audit\<close>

definition audit :: "time \<Rightarrow> request \<Rightarrow> reqContext \<Rightarrow> string \<Rightarrow> int \<Rightarrow> string \<Rightarrow> server \<Rightarrow> server" where
  "audit now r rc event status detail sv =
     (let e = \<lparr>ae_Event = event, ae_PeerID = fst rc, ae_OverlayIP = snd rc, ae_RemoteIP = clientIP sv r,
                ae_ForwardedFor = rq_XFF r, ae_UserAgent = rq_UserAgent r, ae_Method = rq_Method r,
                ae_Path = rq_Path r, ae_Status = status, ae_Detail = detail\<rparr>
      in case Logs.Audit now e (sv_store sv) of
           Inl _ \<Rightarrow> sv
         | Inr s \<Rightarrow> sv\<lparr>sv_store := s\<rparr>)"

subsection \<open>Signalling\<close>

definition register :: "signalClient \<Rightarrow> server \<Rightarrow> server" where
  "register c sv =
     (let old = map_of (sv_clients sv) (sc_publicKey c);
          sv' = sv\<lparr>sv_clients := AList.update (sc_publicKey c) c (sv_clients sv)\<rparr>
      in case old of
           Some prev \<Rightarrow> if prev \<noteq> c then sv'\<lparr>sv_closed := sv_closed sv' @ [sc_conn prev]\<rparr> else sv'
         | None \<Rightarrow> sv')"

definition unregister :: "signalClient \<Rightarrow> server \<Rightarrow> server" where
  "unregister c sv =
     (if map_of (sv_clients sv) (sc_publicKey c) = Some c
      then sv\<lparr>sv_clients := AList.delete (sc_publicKey c) (sv_clients sv)\<rparr> else sv)"

definition write_client :: "signalClient \<Rightarrow> signalMessage \<Rightarrow> server \<Rightarrow> server \<times> bool" where
  "write_client c msg sv =
     (if sv_alive sv (sc_conn c) then (sv\<lparr>sv_sent := sv_sent sv @ [(sc_conn c, msg)]\<rparr>, True) else (sv, False))"

definition send :: "string \<Rightarrow> signalMessage \<Rightarrow> server \<Rightarrow> server \<times> bool" where
  "send to msg sv =
     (case map_of (sv_clients sv) to of None \<Rightarrow> (sv, False) | Some c \<Rightarrow> write_client c msg sv)"

definition broadcast :: "signalMessage \<Rightarrow> server \<Rightarrow> server" where
  "broadcast msg sv = fold (\<lambda>c sv. fst (write_client c msg sv)) (map snd (sv_clients sv)) sv"

definition reason_payload :: "string \<Rightarrow> string" where
  "reason_payload reason = [CHR ''{'', CHR 0x22] @ ''reason'' @ [CHR 0x22, CHR '':''] @ json_string reason @ ''}''"

definition signalSync :: "time \<Rightarrow> string \<Rightarrow> server \<Rightarrow> server" where
  "signalSync now reason =
     broadcast \<lparr>sm_Type = ''sync-now'', sm_From = [], sm_To = [], sm_At = now, sm_Payload = reason_payload reason\<rparr>"

definition signalPeerSync :: "time \<Rightarrow> string \<Rightarrow> string \<Rightarrow> server \<Rightarrow> server" where
  "signalPeerSync now publicKey reason sv =
     fst (send publicKey \<lparr>sm_Type = ''sync-now'', sm_From = [], sm_To = publicKey, sm_At = now,
       sm_Payload = reason_payload reason\<rparr> sv)"

text \<open>
  \<open>handleSignalMessage\<close> on a decoded message: relayed to a peer the sender may see, under
  the sender's own key.
\<close>

definition handleSignalMessage ::
  "time \<Rightarrow> signalClient \<Rightarrow> signalMessage option \<Rightarrow> server \<Rightarrow> server \<times> string option" where
  "handleSignalMessage now client m sv =
     (case m of
        None \<Rightarrow> (sv, Some ''invalid signal message'')
      | Some msg \<Rightarrow>
          if sm_Type msg = [] then (sv, Some ''signal type required'')
          else if sm_Type msg = ''hello'' \<or> sm_To msg = [] then (sv, None)
          else case PeersForID (sc_peerID client) (sv_store sv) of
              Inl _ \<Rightarrow> (sv, Some ''target lookup failed'')
            | Inr (_, others) \<Rightarrow>
                if \<not> list_ex (\<lambda>p. PublicKey p = sm_To msg) others then (sv, Some ''unknown or revoked target peer'')
                else let (sv', ok) = send (sm_To msg) (msg\<lparr>sm_From := sc_publicKey client, sm_At := now\<rparr>) sv
                     in (sv', if ok then None else Some ''target peer is not connected to signal''))"

subsection \<open>Who may call\<close>

definition validUISession :: "env \<Rightarrow> time \<Rightarrow> request \<Rightarrow> server \<Rightarrow> bool" where
  "validUISession env now r sv =
     (sessionUser (e_sha256 env) (sv_sessionKey sv) now (rq_Cookie r) (sv_store sv) \<noteq> None)"

definition requireAdmin ::
  "env \<Rightarrow> time \<Rightarrow> (request \<Rightarrow> server \<Rightarrow> server \<times> 'a response) \<Rightarrow> request \<Rightarrow> server \<Rightarrow> server \<times> 'a response" where
  "requireAdmin env now handler r sv =
     (let bearerOK = (bearer r = Some (sv_adminToken sv))
      in if \<not> bearerOK \<and> \<not> validUISession env now r sv then (sv, Error 401 ''unauthorized'')
         else handler r sv)"

definition requireSession ::
  "env \<Rightarrow> time \<Rightarrow> (User \<Rightarrow> request \<Rightarrow> server \<Rightarrow> server \<times> 'a response) \<Rightarrow> request \<Rightarrow> server \<Rightarrow> server \<times> 'a response" where
  "requireSession env now handler r sv =
     (case sessionUser (e_sha256 env) (sv_sessionKey sv) now (rq_Cookie r) (sv_store sv) of
        None \<Rightarrow> (sv, Error 401 ''sign in to the web UI to use this endpoint'')
      | Some user \<Rightarrow> handler user r sv)"

subsection \<open>Sign-in and accounts (ui.go, users.go)\<close>

text \<open>The cookie a sign-in sets is its reply.\<close>

definition handleUILogin ::
  "env \<Rightarrow> time \<Rightarrow> (string \<times> string) option \<Rightarrow> request \<Rightarrow> server \<Rightarrow> server \<times> string response" where
  "handleUILogin env now form r sv =
     (case form of
        None \<Rightarrow> (sv, Error 400 ''invalid request'')
      | Some (name, password) \<Rightarrow>
          let username = TrimSpace name
          in case Authenticate (e_argon2 env) username password (sv_store sv) of
               Inl _ \<Rightarrow> (audit now r anonymous ''ui_login_failed'' 401 (''user='' @ username) sv,
                 Error 401 ''invalid username or password'')
             | Inr user \<Rightarrow> (audit now r anonymous ''ui_login'' 200 (''user='' @ us_Username user) sv,
                 Reply (signUISession (e_sha256 env) (sv_sessionKey sv) user now)))"

definition handleChangePassword ::
  "env \<Rightarrow> string \<Rightarrow> time \<Rightarrow> (string \<times> string) body \<Rightarrow> User \<Rightarrow> request \<Rightarrow> server \<Rightarrow> server \<times> string option response" where
  "handleChangePassword env salt now req user r sv =
     (case req of
        Inl (status, m) \<Rightarrow> (sv, Error status m)
      | Inr (current, new) \<Rightarrow>
          (case Authenticate (e_argon2 env) (us_Username user) current (sv_store sv) of
             Inl _ \<Rightarrow> (audit now r anonymous ''password_change_failed'' 401 (''user='' @ us_Username user) sv,
               Error 401 ''current password is incorrect'')
           | Inr _ \<Rightarrow>
               (case SetPassword (e_argon2 env) salt now (us_ID user) new (sv_store sv) of
                  Inl e \<Rightarrow> (sv, Error 400 (e_errText env e))
                | Inr s' \<Rightarrow>
                    let cookie = (case UserByID (us_ID user) s' of
                          Inr refreshed \<Rightarrow> Some (signUISession (e_sha256 env) (sv_sessionKey sv) refreshed now)
                        | Inl _ \<Rightarrow> None)
                    in (audit now r anonymous ''password_change'' 200 (''user='' @ us_Username user) (sv\<lparr>sv_store := s'\<rparr>),
                        Reply cookie))))"

definition handleCreateUser ::
  "env \<Rightarrow> string \<Rightarrow> time \<Rightarrow> (string \<times> string) body \<Rightarrow> request \<Rightarrow> server \<Rightarrow> server \<times> User response" where
  "handleCreateUser env salt now req r sv =
     (case req of
        Inl (status, m) \<Rightarrow> (sv, Error status m)
      | Inr (username, password) \<Rightarrow>
          (case CreateLocalUser (e_argon2 env) salt now username password (sv_store sv) of
             Inl e \<Rightarrow> (sv, Error (if e = ErrUserExists then 409 else 400) (e_errText env e))
           | Inr (s', user) \<Rightarrow>
               (audit now r anonymous ''user_create'' 200 (''user='' @ us_Username user) (sv\<lparr>sv_store := s'\<rparr>), Reply user)))"

definition handleDeleteUser :: "env \<Rightarrow> time \<Rightarrow> string \<Rightarrow> request \<Rightarrow> server \<Rightarrow> server \<times> unit response" where
  "handleDeleteUser env now pathID r sv =
     (case ParseInt pathID of
        None \<Rightarrow> (sv, Error 400 ''invalid user id'')
      | Some i \<Rightarrow>
          (case DeleteUser i (sv_store sv) of
             Inl e \<Rightarrow> (sv, if e = ErrNotFound then Error 404 ''user not found'' else Error 400 (e_errText env e))
           | Inr s' \<Rightarrow> (audit now r anonymous ''user_delete'' 200 (''user_id='' @ Itoa i) (sv\<lparr>sv_store := s'\<rparr>), Reply ())))"

definition handleListUsers :: "server \<Rightarrow> server \<times> User list response" where
  "handleListUsers sv = (sv, Reply (ListUsers (sv_store sv)))"

definition handleAccount :: "User \<Rightarrow> request \<Rightarrow> server \<Rightarrow> server \<times> User response" where
  "handleAccount user r sv = (sv, Reply user)"

end
