(* ===== verification/Punch.thy ===== *)
theory Punch
  imports Server
begin

section \<open>Pair identities and hole-punch coordination\<close>

text \<open>
  What the control plane derives from an unordered pair of public keys: the relay pair identifier
  (cmd/server/relayws.go), the preshared key (internal/psk, HKDF of RFC 5869 with one output
  block over the HMAC of the sessions theory), and the punch epochs of cmd/server/report.go: a
  counter per pair that tells both agents to probe again, bounded per relay episode.
\<close>

subsection \<open>Pair identities\<close>

definition pair_label :: "string \<Rightarrow> string \<Rightarrow> string" where
  "pair_label a b = (if b < a then b @ ''|'' @ a else a @ ''|'' @ b)"

definition relayPairID :: "(string \<Rightarrow> string) \<Rightarrow> string \<Rightarrow> string \<Rightarrow> string" where
  "relayPairID sha256 keyA keyB =
     (let (lo, hi) = (if keyB < keyA then (keyB, keyA) else (keyA, keyB))
      in hex_encode (take 16 (sha256 (lo @ ''|'' @ hi))))"

definition hkdf_key32 :: "(string \<Rightarrow> string) \<Rightarrow> string \<Rightarrow> string \<Rightarrow> string" where
  "hkdf_key32 sha256 secret info =
     (let prk = hmac_sha256 sha256 (replicate 32 (byte 0)) secret
      in take 32 (hmac_sha256 sha256 prk (info @ [byte 1])))"

definition DerivePairKey :: "(string \<Rightarrow> string) \<Rightarrow> string \<Rightarrow> string \<Rightarrow> string \<Rightarrow> string" where
  "DerivePairKey sha256 master pubA pubB =
     (let (lo, hi) = (if pubB < pubA then (pubB, pubA) else (pubA, pubB))
      in hkdf_key32 sha256 master (''wgmesh-pair-psk:'' @ lo @ ''|'' @ hi))"

lemma relayPairID_label: "relayPairID sha256 a b = hex_encode (take 16 (sha256 (pair_label a b)))"
  by (simp add: relayPairID_def pair_label_def)

lemma DerivePairKey_label: "DerivePairKey sha256 master a b = hkdf_key32 sha256 master (''wgmesh-pair-psk:'' @ pair_label a b)"
  by (simp add: DerivePairKey_def pair_label_def)

lemma pair_label_commute: "pair_label a b = pair_label b a"
  by (auto simp: pair_label_def)

lemma DerivePairKey_commute: "DerivePairKey sha256 master a b = DerivePairKey sha256 master b a"
  unfolding DerivePairKey_label by (subst pair_label_commute) simp

lemma relayPairID_commute: "relayPairID sha256 a b = relayPairID sha256 b a"
  unfolding relayPairID_label by (subst pair_label_commute) simp

lemma pair_label_inject:
  assumes "CHR ''|'' \<notin> set a" "CHR ''|'' \<notin> set b" "CHR ''|'' \<notin> set c" "CHR ''|'' \<notin> set d"
  shows "pair_label a b = pair_label c d \<longleftrightarrow> {a, b} = {c, d}"
proof -
  have i: "x @ CHR ''|'' # y = z @ CHR ''|'' # w \<longleftrightarrow> x = z \<and> y = w"
    if "CHR ''|'' \<notin> set x" "CHR ''|'' \<notin> set z" for x y z w
    using Cut_append [OF that(1), of y] Cut_append [OF that(2), of w] by (metis option.inject prod.inject)
  have e: "pair_label x y = (if y < x then y else x) @ CHR ''|'' # (if y < x then x else y)" for x y
    by (simp add: pair_label_def)
  have "pair_label a b = pair_label c d \<longleftrightarrow>
      (if b < a then b else a) = (if d < c then d else c) \<and> (if b < a then a else b) = (if d < c then c else d)"
    unfolding e using assms by (intro i) simp_all
  then show ?thesis unfolding doubleton_eq_iff by (auto split: if_splits)
qed

text \<open>
  Both ends of a pair get the same preshared key and the same relay pair, whoever asks; and
  two different pairs are told apart: the texts that identity and key are derived from differ.
\<close>

theorem pair_identity:
  assumes "CHR ''|'' \<notin> set a" "CHR ''|'' \<notin> set b" "CHR ''|'' \<notin> set c" "CHR ''|'' \<notin> set d"
  shows "DerivePairKey sha256 master a b = DerivePairKey sha256 master b a \<and>
    relayPairID sha256 a b = relayPairID sha256 b a \<and>
    ((\<forall>h. relayPairID h a b = relayPairID h c d) \<longleftrightarrow> {a, b} = {c, d})"
proof (intro conjI)
  show "DerivePairKey sha256 master a b = DerivePairKey sha256 master b a" by (rule DerivePairKey_commute)
  show "relayPairID sha256 a b = relayPairID sha256 b a" by (rule relayPairID_commute)
  show "(\<forall>h. relayPairID h a b = relayPairID h c d) \<longleftrightarrow> {a, b} = {c, d}"
  proof
    assume h: "\<forall>h. relayPairID h a b = relayPairID h c d"
    define h where "h x = (if x = pair_label a b then ''1'' else ''2'')" for x
    have "pair_label c d = pair_label a b"
    proof (rule ccontr)
      assume "pair_label c d \<noteq> pair_label a b"
      then have "hex_encode (take 16 ''1'') = hex_encode (take 16 ''2'')"
        using h [rule_format, of h] by (simp add: relayPairID_label h_def)
      moreover have "hex_encode (take 16 ''1'') \<noteq> hex_encode (take 16 ''2'')" by code_simp
      ultimately show False by simp
    qed
    then show "{a, b} = {c, d}" using pair_label_inject [OF assms] by simp
  next
    assume "{a, b} = {c, d}"
    then show "\<forall>h. relayPairID h a b = relayPairID h c d"
      using pair_label_inject [OF assms] by (simp add: relayPairID_label)
  qed
qed

theorem pair_identity_witness:
  "\<exists>h. relayPairID h ''pkA'' ''pkB'' \<noteq> relayPairID h ''pkA'' ''pkC''"
proof -
  have "(\<forall>h. relayPairID h ''pkA'' ''pkB'' = relayPairID h ''pkA'' ''pkC'') \<longleftrightarrow> {''pkA'', ''pkB''} = {''pkA'', ''pkC''}"
    using pair_identity [of "''pkA''" "''pkB''" "''pkA''" "''pkC''" id "[]"] by simp
  then show ?thesis by (simp add: doubleton_eq_iff)
qed

subsection \<open>Punch epochs\<close>

record punchDecision =
  pd_state :: string
  pd_remoteOnline :: bool
  pd_selfCandidates :: nat
  pd_remoteCandidates :: nat
  pd_selfNAT :: string
  pd_remoteNAT :: string

definition is_relay_state :: "string \<Rightarrow> bool" where
  "is_relay_state st \<longleftrightarrow> st \<in> set [''quic-relay'', ''ws-relay'', ''udp-relay'']"

definition shouldBumpPunchEpoch :: "punchDecision \<Rightarrow> bool" where
  "shouldBumpPunchEpoch d =
     (if \<not> is_relay_state (pd_state d) then False
      else if pd_selfNAT d = ''hard'' \<and> pd_remoteNAT d = ''hard'' then False
      else pd_remoteOnline d \<and> 0 < pd_selfCandidates d \<and> 0 < pd_remoteCandidates d)"

definition punchCooldown :: duration where "punchCooldown = 2 * minute"
definition maxPunchAttempts :: int where "maxPunchAttempts = 3"

definition punch_zero :: punchEpoch where
  "punch_zero = \<lparr>pe_epoch = 0, pe_bumpedAt = None, pe_attempts = 0\<rparr>"

definition punch_entry :: "string \<Rightarrow> server \<Rightarrow> punchEpoch" where
  "punch_entry pairID sv = (case sv_punchEpochs sv pairID of None \<Rightarrow> punch_zero | Some e \<Rightarrow> e)"

definition current_epoch :: "env \<Rightarrow> string \<Rightarrow> string \<Rightarrow> server \<Rightarrow> int" where
  "current_epoch env keyA keyB sv = pe_epoch (punch_entry (relayPairID (e_sha256 env) keyA keyB) sv)"

definition cooldown :: "int \<Rightarrow> duration" where
  "cooldown attempts = punchCooldown * 2 ^ nat (min attempts 2)"

definition bump_pair :: "string \<Rightarrow> time \<Rightarrow> server \<Rightarrow> server \<times> bool" where
  "bump_pair pairID now sv =
     (let cur = punch_entry pairID sv
      in if maxPunchAttempts \<le> pe_attempts cur then (sv, False)
         else if (case pe_bumpedAt cur of None \<Rightarrow> False | Some t \<Rightarrow> now - t < cooldown (pe_attempts cur)) then (sv, False)
         else (sv\<lparr>sv_punchEpochs := (sv_punchEpochs sv)(pairID \<mapsto>
                 \<lparr>pe_epoch = pe_epoch cur + 1, pe_bumpedAt = Some now, pe_attempts = pe_attempts cur + 1\<rparr>)\<rparr>, True))"

definition bumpPunchEpoch :: "env \<Rightarrow> string \<Rightarrow> string \<Rightarrow> time \<Rightarrow> server \<Rightarrow> server \<times> bool" where
  "bumpPunchEpoch env keyA keyB = bump_pair (relayPairID (e_sha256 env) keyA keyB)"

definition reset_pair :: "string \<Rightarrow> server \<Rightarrow> server" where
  "reset_pair pairID sv =
     (case sv_punchEpochs sv pairID of
        None \<Rightarrow> sv
      | Some cur \<Rightarrow>
          if pe_attempts cur = 0 then sv
          else sv\<lparr>sv_punchEpochs := (sv_punchEpochs sv)(pairID \<mapsto> cur\<lparr>pe_attempts := 0, pe_bumpedAt := None\<rparr>)\<rparr>)"

definition resetPunchAttempts :: "env \<Rightarrow> string \<Rightarrow> string \<Rightarrow> server \<Rightarrow> server" where
  "resetPunchAttempts env keyA keyB = reset_pair (relayPairID (e_sha256 env) keyA keyB)"

text \<open>
  \<open>last_seen_at\<close> is only ever written in the store's own layout, on which
  \<open>time.Parse(time.RFC3339Nano, ...)\<close> and \<open>parse_time\<close> agree.
\<close>

definition online_peer :: "time \<Rightarrow> duration \<Rightarrow> PeerInfo \<Rightarrow> bool" where
  "online_peer now maxAge p =
     (if pi_RevokedAt p \<noteq> [] \<or> pi_LastSeenAt p = [] then False
      else case parse_time (pi_LastSeenAt p) of None \<Rightarrow> False | Some seen \<Rightarrow> time_sub now seen \<le> maxAge)"

definition onlinePeers :: "time \<Rightarrow> duration \<Rightarrow> store \<Rightarrow> string \<Rightarrow> bool" where
  "onlinePeers now maxAge s key = list_ex (\<lambda>p. pi_PublicKey p = key \<and> online_peer now maxAge p) (ListPeers s)"

text \<open>One iteration of the loop of \<open>coordinatePunches\<close>.\<close>

definition observed_pair :: "env \<Rightarrow> PeerRow \<Rightarrow> PeerRow \<Rightarrow> server \<Rightarrow> (addr_port option \<times> addr_port option) option" where
  "observed_pair env self p sv =
     Option.bind (sv_relay sv) (Observed (relayPairID (e_sha256 env) (PublicKey self) (PublicKey p)))"

definition coordinate_path ::
  "env \<Rightarrow> time \<Rightarrow> PeerRow \<Rightarrow> PeerRow list \<Rightarrow> PeerPathState \<Rightarrow> server \<Rightarrow> server" where
  "coordinate_path env now self others p sv =
     (case map_of (rev (map (\<lambda>x. (PublicKey x, x)) others)) (ps_PeerPublicKey p) of
        None \<Rightarrow> sv
      | Some remote \<Rightarrow>
          if ps_State p = ''direct'' then resetPunchAttempts env (PublicKey self) (PublicKey remote) sv
          else if shouldBumpPunchEpoch \<lparr>pd_state = ps_State p,
                    pd_remoteOnline = onlinePeers now (2 * minute) (sv_store sv) (ps_PeerPublicKey p),
                    pd_selfCandidates = length (pairCandidates (observed_pair env remote self sv) remote self),
                    pd_remoteCandidates = length (pairCandidates (observed_pair env self remote sv) self remote),
                    pd_selfNAT = NATType self, pd_remoteNAT = NATType remote\<rparr>
          then (case bumpPunchEpoch env (PublicKey self) (PublicKey remote) now sv of
                  (sv', True) \<Rightarrow> signalPeerSync now (PublicKey remote) ''punch'' sv'
                | (sv', False) \<Rightarrow> sv')
          else sv)"

definition coordinatePunches ::
  "env \<Rightarrow> time \<Rightarrow> PeerRow \<Rightarrow> PeerRow list \<Rightarrow> PeerPathState list \<Rightarrow> server \<Rightarrow> server" where
  "coordinatePunches env now self others paths = fold (coordinate_path env now self others) paths"

subsection \<open>Punch transitions\<close>

datatype punch_event = EvBump string time bool | EvReset string

inductive punch_step :: "server \<Rightarrow> punch_event \<Rightarrow> server \<Rightarrow> bool" where
  step_bump: "bump_pair pid now sv = (sv', ok) \<Longrightarrow> punch_step sv (EvBump pid now ok) sv'"
| step_reset: "sv' = reset_pair pid sv \<Longrightarrow> punch_step sv (EvReset pid) sv'"

definition entry_ok :: "punchEpoch \<Rightarrow> bool" where
  "entry_ok e \<longleftrightarrow> 0 \<le> pe_attempts e \<and> pe_attempts e \<le> maxPunchAttempts \<and> (pe_bumpedAt e = None \<longleftrightarrow> pe_attempts e = 0)"

definition punch_inv :: "server \<Rightarrow> bool" where
  "punch_inv sv \<longleftrightarrow> (\<forall>pid. entry_ok (punch_entry pid sv))"

definition bumps :: "string \<Rightarrow> punch_event list \<Rightarrow> int" where
  "bumps pid es = int (length (filter (\<lambda>e. case e of EvBump p t ok \<Rightarrow> p = pid \<and> ok | _ \<Rightarrow> False) es))"

lemma bumps_Nil [simp]: "bumps pid [] = 0"
  by (simp add: bumps_def)

lemma bumps_Cons: "bumps pid (e # es) = (case e of EvBump p t ok \<Rightarrow> if p = pid \<and> ok then 1 else 0 | _ \<Rightarrow> 0) + bumps pid es"
  by (auto simp: bumps_def split: punch_event.split)

lemma bump_pair_entry:
  assumes "bump_pair p now sv = (sv', ok)"
  shows "punch_entry pid sv' =
    (if p = pid \<and> ok then \<lparr>pe_epoch = pe_epoch (punch_entry pid sv) + 1, pe_bumpedAt = Some now,
       pe_attempts = pe_attempts (punch_entry pid sv) + 1\<rparr> else punch_entry pid sv)"
  using assms by (auto simp: bump_pair_def Let_def punch_entry_def split: if_splits)

lemma bump_pair_ok:
  assumes "bump_pair p now sv = (sv', True)"
  shows "pe_attempts (punch_entry p sv) < maxPunchAttempts \<and>
    (\<forall>t. pe_bumpedAt (punch_entry p sv) = Some t \<longrightarrow> cooldown (pe_attempts (punch_entry p sv)) \<le> now - t)"
  using assms by (auto simp: bump_pair_def Let_def split: if_splits option.splits)

lemma reset_pair_entry:
  assumes "punch_inv sv"
  shows "punch_entry pid (reset_pair p sv) =
    (if p = pid then (punch_entry pid sv)\<lparr>pe_attempts := 0, pe_bumpedAt := None\<rparr> else punch_entry pid sv)"
  using assms
  by (auto simp: reset_pair_def punch_entry_def punch_zero_def punch_inv_def entry_ok_def split: option.splits dest: spec [of _ pid])

lemma punch_step_entry:
  assumes "punch_inv sv" "punch_step sv e sv'"
  shows "punch_inv sv' \<and> pe_epoch (punch_entry pid sv') = pe_epoch (punch_entry pid sv) + bumps pid [e] \<and>
    (e \<noteq> EvReset pid \<longrightarrow> pe_attempts (punch_entry pid sv') = pe_attempts (punch_entry pid sv) + bumps pid [e]) \<and>
    (e \<noteq> EvReset pid \<and> bumps pid [e] = 0 \<longrightarrow> punch_entry pid sv' = punch_entry pid sv)"
  using assms(2)
proof cases
  case (step_bump p now ok)
  have "punch_inv sv'"
    unfolding punch_inv_def
  proof
    fix q
    have "entry_ok (punch_entry q sv)" using assms(1) by (simp add: punch_inv_def)
    then show "entry_ok (punch_entry q sv')"
      using bump_pair_entry [OF step_bump(2), of q] bump_pair_ok [of p now sv sv'] step_bump(2)
      by (auto simp: entry_ok_def)
  qed
  then show ?thesis
    using bump_pair_entry [OF step_bump(2), of pid] step_bump(1) by (auto simp: bumps_Cons)
next
  case (step_reset p)
  then show ?thesis
    using reset_pair_entry [OF assms(1)] assms(1)
    by (auto simp: punch_inv_def entry_ok_def bumps_Cons maxPunchAttempts_def)
qed

interpretation punch_sys: preserved punch_step punch_inv
  by unfold_locales (use punch_step_entry in blast)

lemma punch_run_entry:
  assumes "run punch_step sv es sv'" "punch_inv sv"
  shows "pe_epoch (punch_entry pid sv') = pe_epoch (punch_entry pid sv) + bumps pid es \<and>
    (EvReset pid \<notin> set es \<longrightarrow> pe_attempts (punch_entry pid sv') = pe_attempts (punch_entry pid sv) + bumps pid es) \<and>
    (EvReset pid \<notin> set es \<and> bumps pid es = 0 \<longrightarrow> punch_entry pid sv' = punch_entry pid sv)"
  using assms
proof (induction rule: run.induct)
  case (run_Cons sv e t es u)
  have p: "0 \<le> bumps pid es" "0 \<le> bumps pid [e]" "bumps pid (e # es) = bumps pid [e] + bumps pid es"
    by (simp_all add: bumps_def)
  from punch_step_entry [OF run_Cons.prems run_Cons.hyps(1), of pid] run_Cons.IH
  show ?case using p by auto
qed simp

subsection \<open>Properties\<close>

text \<open>
  C13: Coordination is bounded. Over any run the epoch of a pair grows by exactly the number of
  accepted bumps, never down; and within a relay episode (no reset of the pair) at most three
  bumps are accepted, however many reports ask for one.
\<close>

theorem punch_budget:
  assumes "punch_inv sv" "run punch_step sv es sv'"
  shows "pe_epoch (punch_entry pid sv') = pe_epoch (punch_entry pid sv) + bumps pid es \<and>
    (EvReset pid \<notin> set es \<longrightarrow> bumps pid es \<le> 3)"
proof -
  have "punch_inv sv'" by (rule punch_sys.run_preserves [OF assms(2,1)])
  then have "pe_attempts (punch_entry pid sv') \<le> 3" "0 \<le> pe_attempts (punch_entry pid sv)"
    using assms(1) by (auto simp: punch_inv_def entry_ok_def maxPunchAttempts_def)
  then show ?thesis using punch_run_entry [OF assms(2,1), of pid] by auto
qed

definition demo_server :: server where
  "demo_server = \<lparr>sv_store = demo_store2, sv_networkCIDR = ''100.64.0.0/10'', sv_network6CIDR = [], sv_pskMaster = ''m'',
     sv_adminToken = ''secret'', sv_sessionKey = ''key'', sv_trustProxy = False, sv_trustedProxies = [],
     sv_keepalive = 25, sv_relay = None, sv_relayHost = ''relay'', sv_stunServers = [], sv_clients = [],
     sv_alive = (\<lambda>_. True), sv_sent = [], sv_closed = [], sv_punchEpochs = (\<lambda>_. None)\<rparr>"

lemma demo_server_punch: "punch_inv demo_server" "punch_entry pid demo_server = punch_zero"
  by (simp_all add: punch_inv_def punch_entry_def demo_server_def entry_ok_def punch_zero_def maxPunchAttempts_def)

lemma demo_bumped:
  "\<exists>sv1. bump_pair ''p'' 0 demo_server = (sv1, True)"
  by (simp add: bump_pair_def Let_def demo_server_punch(2) punch_zero_def maxPunchAttempts_def)

theorem punch_budget_witness:
  "\<exists>sv1. run punch_step demo_server [EvBump ''p'' 0 True] sv1 \<and> pe_epoch (punch_entry ''p'' sv1) = 1"
proof -
  obtain sv1 where b: "bump_pair ''p'' 0 demo_server = (sv1, True)" using demo_bumped ..
  have r: "run punch_step demo_server [EvBump ''p'' 0 True] sv1"
    using step_bump [OF b] by (auto intro: run.intros)
  from punch_budget [OF demo_server_punch(1) r, of "''p''"] show ?thesis
    using r by (auto simp: bumps_Cons demo_server_punch(2) punch_zero_def)
qed

text \<open>
  The pacing of an episode. After an accepted bump the next one of the same episode is at
  least four minutes later: the base cooldown of two minutes never applies, because the first
  bump of an episode waits for nothing and the later ones already double it.
\<close>

theorem punch_spacing:
  assumes "punch_inv sv" "bump_pair pid t sv = (sv1, True)" "run punch_step sv1 es sv2"
    and "EvReset pid \<notin> set es" "bumps pid es = 0" "bump_pair pid t' sv2 = (sv3, True)"
  shows "2 * punchCooldown \<le> t' - t"
proof -
  let ?e = "punch_entry pid sv1"
  have i: "punch_inv sv1" using punch_sys.step_preserves [OF assms(1) step_bump [OF assms(2)]] .
  have e: "pe_bumpedAt ?e = Some t" "pe_attempts ?e = pe_attempts (punch_entry pid sv) + 1"
    using bump_pair_entry [OF assms(2), of pid] by auto
  have "punch_entry pid sv2 = ?e" using punch_run_entry [OF assms(3) i, of pid] assms(4,5) by simp
  then have c: "cooldown (pe_attempts ?e) \<le> t' - t" using bump_pair_ok [OF assms(6)] e(1) by simp
  have "1 \<le> pe_attempts ?e" using e(2) assms(1) by (auto simp: punch_inv_def entry_ok_def)
  then have "1 \<le> nat (min (pe_attempts ?e) 2)" by auto
  then have "(2::int) ^ 1 \<le> 2 ^ nat (min (pe_attempts ?e) 2)" by (rule power_increasing) simp
  then have "2 * punchCooldown \<le> cooldown (pe_attempts ?e)"
    by (simp add: cooldown_def punchCooldown_def minute_def second_def)
  with c show ?thesis by simp
qed

theorem punch_spacing_witness:
  "\<exists>sv1 sv3. bump_pair ''p'' 0 demo_server = (sv1, True) \<and>
     bump_pair ''p'' (2 * punchCooldown) sv1 = (sv3, True) \<and> 2 * punchCooldown \<le> 2 * punchCooldown - 0"
proof -
  obtain sv1 where b: "bump_pair ''p'' 0 demo_server = (sv1, True)" using demo_bumped ..
  have "\<exists>sv3. bump_pair ''p'' (2 * punchCooldown) sv1 = (sv3, True)"
    using bump_pair_entry [OF b, of "''p''"]
    by (simp add: bump_pair_def Let_def demo_server_punch(2) punch_zero_def maxPunchAttempts_def cooldown_def)
  then obtain sv3 where b3: "bump_pair ''p'' (2 * punchCooldown) sv1 = (sv3, True)" ..
  from punch_spacing [OF demo_server_punch(1) b run_Nil _ _ b3] b b3 show ?thesis by auto
qed

end
