(* ===== verification/ConfigSync.thy ===== *)
theory ConfigSync
  imports Punch Tokens ExitNode
begin

section \<open>The configuration an agent is given\<close>

text \<open>
  cmd/server/main.go and report.go: what an enrollment and a report answer with. The peer list
  is the agent's WireGuard configuration: one entry per peer it talks to directly, whose
  AllowedIPs are the overlay addresses reached through that peer. A routed static peer is an
  entry only for its gateway; for everyone else its addresses are folded into the gateway's
  entry.
\<close>

subsection \<open>Peer entries\<close>

record PeerConfigResponse =
  pc_PublicKey :: string
  pc_Hostname :: string
  pc_PresharedKey :: "string option"
  pc_Endpoint :: "string option"
  pc_EndpointCandidates :: "EndpointCandidate list"
  pc_PunchEpoch :: int
  pc_PersistentKeepaliveInterval :: "int option"
  pc_AllowedIPs :: "string list"
  pc_ExitNode :: bool

definition allowedIPsForPeer :: "PeerRow \<Rightarrow> string list" where
  "allowedIPsForPeer p = (AssignedIP p @ ''/32'') # (if AssignedIP6 p \<noteq> [] then [AssignedIP6 p @ ''/128''] else [])"

definition is_static :: "PeerRow \<Rightarrow> bool" where
  "is_static p \<longleftrightarrow> PeerType p = ''static''"

definition mobilesByGateway :: "PeerRow list \<Rightarrow> int \<Rightarrow> PeerRow list" where
  "mobilesByGateway others g = filter (\<lambda>x. is_static x \<and> GatewayPeerID x \<noteq> 0 \<and> GatewayPeerID x = g) others"

definition direct_peer :: "PeerRow \<Rightarrow> PeerRow \<Rightarrow> bool" where
  "direct_peer self x \<longleftrightarrow> \<not> (is_static x \<and> GatewayPeerID x \<noteq> 0 \<and> GatewayPeerID x \<noteq> ID self)"

definition is_exit :: "PeerRow \<Rightarrow> PeerRow \<Rightarrow> bool" where
  "is_exit self x \<longleftrightarrow> ExitNodePeerID self \<noteq> 0 \<and> ID x = ExitNodePeerID self"

definition default_routes :: "string list" where
  "default_routes = [''0.0.0.0/0'', ''::/0'']"

definition peer_entry :: "env \<Rightarrow> server \<Rightarrow> PeerRow \<Rightarrow> PeerRow list \<Rightarrow> PeerRow \<Rightarrow> PeerConfigResponse" where
  "peer_entry env sv self others x =
     (let pairPSK = KeyString (e_wg env) (DerivePairKey (e_sha256 env) (sv_pskMaster sv) (PublicKey self) (PublicKey x));
          allowed = allowedIPsForPeer x;
          entry = \<lparr>pc_PublicKey = PublicKey x, pc_Hostname = Hostname x, pc_PresharedKey = Some pairPSK,
            pc_Endpoint = None, pc_EndpointCandidates = [],
            pc_PunchEpoch = current_epoch env (PublicKey self) (PublicKey x) sv,
            pc_PersistentKeepaliveInterval = Some (keepaliveOrDefault sv), pc_AllowedIPs = [], pc_ExitNode = False\<rparr>
      in if is_static x then entry\<lparr>pc_AllowedIPs := allowed\<rparr>
         else let allowed1 = allowed @ concat (map allowedIPsForPeer (mobilesByGateway others (ID x)));
                  allowed2 = (if is_exit self x then allowed1 @ default_routes else allowed1);
                  candidates = pairCandidates (observed_pair env self x sv) self x
              in entry\<lparr>pc_ExitNode := is_exit self x,
                   pc_Endpoint := (case candidates of [] \<Rightarrow> None | c # _ \<Rightarrow> Some (ec_Endpoint c)),
                   pc_EndpointCandidates := candidates, pc_AllowedIPs := allowed2\<rparr>)"

definition buildPeerEntries :: "env \<Rightarrow> server \<Rightarrow> PeerRow \<Rightarrow> PeerRow list \<Rightarrow> PeerConfigResponse list" where
  "buildPeerEntries env sv self others = map (peer_entry env sv self others) (filter (direct_peer self) others)"

definition gatewayRoutesFor :: "PeerRow \<Rightarrow> PeerRow list \<Rightarrow> string list" where
  "gatewayRoutesFor self others =
     concat (map allowedIPsForPeer (filter (\<lambda>x. is_static x \<and> GatewayPeerID x = ID self) others))"

definition exitNodeActiveFor :: "PeerRow \<Rightarrow> PeerRow list \<Rightarrow> bool" where
  "exitNodeActiveFor self others = list_ex (\<lambda>x. ExitNodePeerID x = ID self) others"

subsection \<open>The packet-filter policy\<close>

record proto_ACLRule =
  pa_SrcIP :: string
  pa_SrcIP6 :: string
  pa_DstIP :: string
  pa_DstIP6 :: string
  pa_Protocol :: string
  pa_PortMin :: int
  pa_PortMax :: int

record ACLPolicy =
  ap_DefaultPolicy :: string
  ap_Rules :: "proto_ACLRule list"

definition active_by_id :: "store \<Rightarrow> int \<Rightarrow> PeerInfo option" where
  "active_by_id s i = List.find (\<lambda>p. pi_RevokedAt p = [] \<and> pi_ID p = i) (ListPeers s)"

definition policy_end :: "store \<Rightarrow> int option \<Rightarrow> (string \<times> string) option" where
  "policy_end s v =
     (case v of
        None \<Rightarrow> Some ([], [])
      | Some i \<Rightarrow> map_option (\<lambda>p. (pi_AssignedIP p, pi_AssignedIP6 p)) (active_by_id s i))"

definition policy_rule :: "store \<Rightarrow> ACLRule \<Rightarrow> proto_ACLRule list" where
  "policy_rule s r =
     (case (policy_end s (ar_SrcPeerID r), policy_end s (ar_DstPeerID r)) of
        (Some (src, src6), Some (dst, dst6)) \<Rightarrow>
          [\<lparr>pa_SrcIP = src, pa_SrcIP6 = src6, pa_DstIP = dst, pa_DstIP6 = dst6, pa_Protocol = ar_Protocol r,
            pa_PortMin = coalesce (ar_PortMin r) 0, pa_PortMax = coalesce (ar_PortMax r) 0\<rparr>]
      | _ \<Rightarrow> [])"

definition buildACLPolicy :: "server \<Rightarrow> ACLPolicy" where
  "buildACLPolicy sv =
     (if DefaultAllow (sv_store sv) then \<lparr>ap_DefaultPolicy = ''allow'', ap_Rules = []\<rparr>
      else \<lparr>ap_DefaultPolicy = ''deny'',
             ap_Rules = concat (map (policy_rule (sv_store sv)) (ListACLRules (sv_store sv)))\<rparr>)"

subsection \<open>Responses\<close>

record SyncResponse =
  sr_AssignedIP :: string
  sr_AssignedIP6 :: string
  sr_NetworkCIDR :: string
  sr_NetworkCIDR6 :: string
  sr_DNS :: DNSConfig
  sr_Peers :: "PeerConfigResponse list"
  sr_ACL :: ACLPolicy
  sr_GatewayRoutes :: "string list"
  sr_ExitNodeActive :: bool
  sr_STUNServers :: "string list"

record EnrollResponse = SyncResponse +
  en_PeerID :: int
  en_AuthToken :: string

definition sync_fields :: "env \<Rightarrow> server \<Rightarrow> PeerRow \<Rightarrow> PeerRow list \<Rightarrow> DNSConfig \<Rightarrow> SyncResponse" where
  "sync_fields env sv self others dns =
     \<lparr>sr_AssignedIP = AssignedIP self, sr_AssignedIP6 = AssignedIP6 self,
      sr_NetworkCIDR = fst (currentNetworkConfig sv), sr_NetworkCIDR6 = snd (currentNetworkConfig sv),
      sr_DNS = dns, sr_Peers = buildPeerEntries env sv self others, sr_ACL = buildACLPolicy sv,
      sr_GatewayRoutes = gatewayRoutesFor self others, sr_ExitNodeActive = exitNodeActiveFor self others,
      sr_STUNServers = sv_stunServers sv\<rparr>"

definition buildResponse :: "env \<Rightarrow> server \<Rightarrow> EnrollResult \<Rightarrow> store_error + EnrollResponse" where
  "buildResponse env sv res =
     bindE (CurrentDNSConfig (sv_store sv)) (\<lambda>dns.
       Inr (SyncResponse.extend (sync_fields env sv (er_Peer res) (Others res) dns)
              (EnrollResponse.fields (ID (er_Peer res)) (AuthToken res))))"

subsection \<open>Enrollment and report handlers\<close>

record EnrollRequest =
  eq_SetupKey :: string
  eq_PublicKey :: string
  eq_Hostname :: string
  eq_ListenPort :: int
  eq_PublicEndpoint :: string
  eq_Candidates :: "AgentCandidate list"
  eq_AdvertiseExitNode :: bool

definition is_unauthorized :: "store_error \<Rightarrow> bool" where
  "is_unauthorized e = (case e of ErrUnauthorized _ \<Rightarrow> True | _ \<Rightarrow> False)"

definition enroll_args_of :: "server \<Rightarrow> request \<Rightarrow> EnrollRequest \<Rightarrow> enroll_args" where
  "enroll_args_of sv r q = \<lparr>ea_setupKey = eq_SetupKey q, ea_publicKey = eq_PublicKey q, ea_hostname = eq_Hostname q,
     ea_listenPort = eq_ListenPort q, ea_observedIP = clientIP sv r, ea_publicEndpoint = eq_PublicEndpoint q\<rparr>"

text \<open>The two best-effort writes after the enrollment transaction; a failed one is only logged.\<close>

definition store_candidates :: "env \<Rightarrow> EnrollRequest \<Rightarrow> server \<times> EnrollResult \<Rightarrow> server \<times> EnrollResult" where
  "store_candidates env q x =
     (case x of (sv, res) \<Rightarrow>
        let cands = encodeAgentCandidates (e_resolves env) (eq_Candidates q)
        in if cands = [] then (sv, res)
           else case UpdatePeerCandidates (ID (er_Peer res)) cands (sv_store sv) of
               Inl _ \<Rightarrow> (sv, res)
             | Inr s \<Rightarrow> (sv\<lparr>sv_store := s\<rparr>, res\<lparr>er_Peer := (er_Peer res)\<lparr>CandidatesJSON := cands\<rparr>\<rparr>))"

definition store_offer :: "EnrollRequest \<Rightarrow> server \<times> EnrollResult \<Rightarrow> server \<times> EnrollResult" where
  "store_offer q x =
     (case x of (sv, res) \<Rightarrow>
        if eq_AdvertiseExitNode q = AdvertiseExitNode (er_Peer res) then (sv, res)
        else case SetAdvertiseExitNode (ID (er_Peer res)) (eq_AdvertiseExitNode q) (sv_store sv) of
            Inl _ \<Rightarrow> (sv, res)
          | Inr s \<Rightarrow> (sv\<lparr>sv_store := s\<rparr>,
              res\<lparr>er_Peer := (er_Peer res)\<lparr>AdvertiseExitNode := eq_AdvertiseExitNode q\<rparr>\<rparr>))"

definition handleEnroll ::
  "env \<Rightarrow> time \<Rightarrow> string \<Rightarrow> EnrollRequest body \<Rightarrow> request \<Rightarrow> server \<Rightarrow> server \<times> EnrollResponse response" where
  "handleEnroll env now raw req r sv =
     (case req of
        Inl (status, m) \<Rightarrow> (sv, Error status m)
      | Inr q \<Rightarrow>
          if eq_SetupKey q = [] then (sv, Error 400 ''setup_key is required'')
          else if ParseKey (e_wg env) (eq_PublicKey q) = None
               then (sv, Error 400 ''public_key is not a valid WireGuard key'')
          else if eq_ListenPort q < 0 \<or> 65535 < eq_ListenPort q then (sv, Error 400 ''listen_port out of range'')
          else case Enroll (e_sha256 env) now raw (enroll_args_of sv r q) (sv_store sv) of
              Inl e \<Rightarrow>
                if is_unauthorized e
                then (audit now r anonymous ''enroll_rejected'' 401 (e_errText env e) sv, Error 401 ''unauthorized'')
                else (sv, Error 500 ''internal error'')
            | Inr (s, res) \<Rightarrow>
                let rc = (ID (er_Peer res), AssignedIP (er_Peer res));
                    (sv1, res1) = store_offer q (store_candidates env q (sv\<lparr>sv_store := s\<rparr>, res));
                    sv2 = (if Created res1
                           then audit now r rc ''enroll'' 200
                                  (''new peer '' @ AssignedIP (er_Peer res1) @ '' ('' @ eq_Hostname q @ '')'') sv1
                           else audit now r rc ''re_enroll'' 200
                                  (''peer '' @ AssignedIP (er_Peer res1) @ '' ('' @ eq_Hostname q @ '')'') sv1)
                in case buildResponse env sv2 res1 of
                     Inl _ \<Rightarrow> (sv2, Error 500 ''internal error'')
                   | Inr out \<Rightarrow> (sv2, Reply out))"

definition handleReport ::
  "env \<Rightarrow> time \<Rightarrow> ReportRequest body \<Rightarrow> request \<Rightarrow> server \<Rightarrow> server \<times> SyncResponse response" where
  "handleReport env now req r sv =
     (case bearer r of
        None \<Rightarrow> (sv, Error 401 ''unauthorized'')
      | Some token \<Rightarrow>
          (case AuthenticatePeer (e_sha256 env) now token (sv_store sv) of
             Inl e \<Rightarrow>
               if is_unauthorized e
               then (audit now r anonymous ''report_rejected'' 401 (e_errText env e) sv, Error 401 ''unauthorized'')
               else (sv, Error 500 ''internal error'')
           | Inr (peerID, overlayIP) \<Rightarrow>
               (case req of
                  Inl (status, m) \<Rightarrow> (sv, Error status m)
                | Inr q \<Rightarrow>
                    let report = q\<lparr>rr_Candidates := validAgentCandidates (e_resolves env) (rr_Candidates q)\<rparr>
                    in case ApplyReport now peerID (clientIP sv r) report (sv_store sv) of
                         Inl _ \<Rightarrow> (sv, Error 500 ''internal error'')
                       | Inr s \<Rightarrow>
                           let sv1 = sv\<lparr>sv_store := s\<rparr>
                           in case PeersForID peerID s of
                                Inl _ \<Rightarrow> (sv1, Error 500 ''internal error'')
                              | Inr (self, others) \<Rightarrow>
                                  let sv2 = coordinatePunches env now self others (rr_PathStates report) sv1
                                  in case CurrentDNSConfig (sv_store sv2) of
                                       Inl _ \<Rightarrow> (sv2, Error 500 ''internal error'')
                                     | Inr dns \<Rightarrow> (sv2, Reply (sync_fields env sv2 self others dns)))))"

end
