(* ===== verification/Observability.thy ===== *)
theory Observability
  imports Punch
begin

section \<open>Access log and log views\<close>

text \<open>
  cmd/server/observability.go and the read-only handlers of connections.go, proxy.go and
  report.go: the ring buffer that keeps the newest request lines, the redaction of request
  headers, the middleware that writes one line per request, and the views of the logs of the
  store. The response of a view is the list of rows; the query parameter \<open>limit\<close> is its text.
\<close>

subsection \<open>The ring of request lines\<close>

datatype accessLogMode = accessLogMemory | accessLogStdout | accessLogOff

definition parseAccessLogMode :: "string \<Rightarrow> string + accessLogMode" where
  "parseAccessLogMode raw =
     (if raw = ''memory'' then Inr accessLogMemory
      else if raw = ''stdout'' then Inr accessLogStdout
      else if raw = ''off'' then Inr accessLogOff
      else Inl (''access-log must be '' @ [CHR 0x22] @ ''memory'' @ [CHR 0x22] @ '', '' @ [CHR 0x22] @ ''stdout'' @
        [CHR 0x22] @ '', or '' @ [CHR 0x22] @ ''off'' @ [CHR 0x22]))"

record accessLogLine =
  al_Time :: string
  al_Event :: string
  al_Method :: string
  al_Path :: string
  al_Status :: int
  al_DurationMS :: int
  al_RemoteIP :: string
  al_ForwardedFor :: string
  al_OverlayIP :: string
  al_PeerID :: int
  al_UserAgent :: string
  al_Headers :: "(string \<times> string) list"

text \<open>The lines given to standard output are recorded in order; the zero line fills the buffer.\<close>

record 'l accessLogSink =
  sk_mode :: accessLogMode
  sk_next :: nat
  sk_full :: bool
  sk_lines :: "'l list"
  sk_stdout :: "'l list"

definition newAccessLogSink :: "'l \<Rightarrow> accessLogMode \<Rightarrow> int \<Rightarrow> 'l accessLogSink" where
  "newAccessLogSink zero mode sz =
     \<lparr>sk_mode = mode, sk_next = 0, sk_full = False, sk_lines = replicate (nat (if sz < 1 then 1 else sz)) zero,
      sk_stdout = []\<rparr>"

definition sink_write :: "'l \<Rightarrow> 'l accessLogSink \<Rightarrow> 'l accessLogSink" where
  "sink_write line s =
     (case sk_mode s of
        accessLogOff \<Rightarrow> s
      | accessLogStdout \<Rightarrow> s\<lparr>sk_stdout := sk_stdout s @ [line]\<rparr>
      | accessLogMemory \<Rightarrow>
          let n = (sk_next s + 1) mod length (sk_lines s)
          in s\<lparr>sk_lines := (sk_lines s)[sk_next s := line], sk_next := n, sk_full := (sk_full s \<or> n = 0)\<rparr>)"

definition sink_index :: "'l accessLogSink \<Rightarrow> nat \<Rightarrow> int" where
  "sink_index s i =
     (let idx = int (sk_next s) - 1 - int i in if idx < 0 then idx + int (length (sk_lines s)) else idx)"

definition sink_list :: "int \<Rightarrow> 'l accessLogSink \<Rightarrow> 'l list" where
  "sink_list limit s =
     (if sk_mode s \<noteq> accessLogMemory \<or> limit \<le> 0 then []
      else let total = (if sk_full s then length (sk_lines s) else sk_next s);
               limit = (if int total < limit then int total else limit)
           in map (\<lambda>i. sk_lines s ! nat (sink_index s i)) [0..<nat limit])"

subsection \<open>Redacted headers\<close>

text \<open>
  \<open>http.CanonicalHeaderKey\<close>: a name with a byte outside the token characters is left as
  it is; otherwise letters are upper case at the start and after a hyphen, lower case elsewhere.
\<close>

definition upper_char :: "char \<Rightarrow> char" where
  "upper_char c = (if 97 \<le> code c \<and> code c \<le> 122 then byte (code c - 32) else c)"

definition is_letter :: "char \<Rightarrow> bool" where
  "is_letter c \<longleftrightarrow> 65 \<le> code c \<and> code c \<le> 90 \<or> 97 \<le> code c \<and> code c \<le> 122"

definition validHeaderFieldByte :: "char \<Rightarrow> bool" where
  "validHeaderFieldByte c \<longleftrightarrow> is_letter c \<or> is_digit c \<or> c \<in> set (CHR 0x27 # CHR 0x60 # ''!#$%&*+-.^_|~'')"

fun canonical :: "bool \<Rightarrow> string \<Rightarrow> string" where
  "canonical upper [] = []"
| "canonical upper (c # s) = (if upper then upper_char c else lower_char c) # canonical (c = CHR ''-'') s"

definition CanonicalHeaderKey :: "string \<Rightarrow> string" where
  "CanonicalHeaderKey s = (if list_all validHeaderFieldByte s then canonical True s else s)"

type_synonym http_Header = "(string \<times> string list) list"

definition redacted_names :: "string list" where
  "redacted_names = [''Authorization'', ''Cookie'', ''Sec-Websocket-Key'']"

definition safeHeaders :: "http_Header \<Rightarrow> (string \<times> string) list" where
  "safeHeaders h =
     map (\<lambda>(k, v). (k, if CanonicalHeaderKey k \<in> set redacted_names then ''[redacted]'' else join_with '','' v)) h"

subsection \<open>The logging middleware\<close>

text \<open>
  A handler behind the middleware: it changes the server, sets the status on the recorder (0 when
  it wrote nothing) and may attach the authenticated peer. The line is written when it returns.
\<close>

type_synonym logged_handler = "request \<Rightarrow> server \<Rightarrow> server \<times> int \<times> reqContext"

definition access_line :: "time \<Rightarrow> int \<Rightarrow> http_Header \<Rightarrow> request \<Rightarrow> int \<Rightarrow> reqContext \<Rightarrow> server \<Rightarrow> accessLogLine" where
  "access_line start took h r status rc sv =
     \<lparr>al_Time = format_rfc3339 start, al_Event = ''http_request'', al_Method = rq_Method r, al_Path = rq_Path r,
      al_Status = (if status = 0 then 200 else status), al_DurationMS = took div 1000000,
      al_RemoteIP = clientIP sv r, al_ForwardedFor = rq_XFF r, al_OverlayIP = snd rc, al_PeerID = fst rc,
      al_UserAgent = rq_UserAgent r, al_Headers = safeHeaders h\<rparr>"

definition logRequests ::
  "time \<Rightarrow> int \<Rightarrow> logged_handler \<Rightarrow> http_Header \<Rightarrow> request \<Rightarrow> server \<times> accessLogLine accessLogSink
   \<Rightarrow> server \<times> accessLogLine accessLogSink" where
  "logRequests start took next_handler h r = (\<lambda>(sv, sink).
     case next_handler r sv of (sv', status, rc) \<Rightarrow>
       (sv', sink_write (access_line start took h r status rc sv') sink))"

definition isLoopback :: "string \<Rightarrow> bool" where
  "isLoopback listen =
     (case SplitHostPort listen of
        None \<Rightarrow> False
      | Some (host, _) \<Rightarrow>
          (case ParseAddr host of
             Some (V6 w z) \<Rightarrow> z = [] \<and> IsLoopback (V6 w z)
           | Some a \<Rightarrow> IsLoopback a
           | None \<Rightarrow> False))"

subsection \<open>Views of the logs\<close>

definition parse_limit :: "int \<Rightarrow> int \<Rightarrow> string \<Rightarrow> int option" where
  "parse_limit dflt most q =
     (if q = [] then Some dflt
      else case ParseInt q of None \<Rightarrow> None | Some n \<Rightarrow> if n < 1 \<or> most < n then None else Some n)"

definition handleListAccessLog :: "string \<Rightarrow> 'l accessLogSink \<Rightarrow> 'l list response" where
  "handleListAccessLog q sink =
     (case parse_limit 200 2000 q of
        None \<Rightarrow> Error 400 ''limit must be 1-2000''
      | Some limit \<Rightarrow> Reply (sink_list limit sink))"

definition handleListAudit :: "string \<Rightarrow> server \<Rightarrow> AuditRow list response" where
  "handleListAudit q sv =
     (case parse_limit 200 2000 q of
        None \<Rightarrow> Error 400 ''limit must be 1-2000''
      | Some limit \<Rightarrow> Reply (ListAuditLog limit (sv_store sv)))"

definition handleListConnectionEvents :: "string \<Rightarrow> server \<Rightarrow> ConnectionEventRow list response" where
  "handleListConnectionEvents q sv =
     (case parse_limit 200 2000 q of
        None \<Rightarrow> Error 400 ''limit must be 1-2000''
      | Some limit \<Rightarrow> Reply (ListConnectionEvents limit (sv_store sv)))"

definition handleListProxyEvents :: "string \<Rightarrow> server \<Rightarrow> ProxyEventRow list response" where
  "handleListProxyEvents q sv =
     (case parse_limit 200 2000 q of
        None \<Rightarrow> Error 400 ''limit must be 1-2000''
      | Some limit \<Rightarrow> Reply (ListProxyEvents limit (sv_store sv)))"

definition handleListLinkStats :: "server \<Rightarrow> LinkStat list response" where
  "handleListLinkStats sv = Reply (ListLinkStats (sv_store sv))"

record flowJSON =
  fj_ID :: int
  fj_PeerID :: int
  fj_PeerHostname :: string
  fj_Protocol :: int
  fj_ProtocolName :: string
  fj_Direction :: string
  fj_SrcIP :: string
  fj_SrcPort :: int
  fj_DstIP :: string
  fj_DstPort :: int
  fj_IngressPort :: int
  fj_EgressPort :: int
  fj_TxBytes :: int
  fj_RxBytes :: int
  fj_TxPackets :: int
  fj_RxPackets :: int
  fj_ReportedAt :: string

definition protocolName :: "int \<Rightarrow> string" where
  "protocolName p =
     (if p = 1 then ''icmp'' else if p = 6 then ''tcp'' else if p = 17 then ''udp''
      else if p = 58 then ''icmpv6'' else Itoa p)"

definition flowDirection :: "string \<Rightarrow> string \<Rightarrow> string \<Rightarrow> int \<Rightarrow> string \<Rightarrow> int \<Rightarrow> string \<times> int \<times> int" where
  "flowDirection peerIP peerIP6 srcIP srcPort dstIP dstPort =
     (if srcIP = peerIP \<or> peerIP6 \<noteq> [] \<and> srcIP = peerIP6 then (''egress'', srcPort, dstPort)
      else if dstIP = peerIP \<or> peerIP6 \<noteq> [] \<and> dstIP = peerIP6 then (''ingress'', dstPort, srcPort)
      else (''transit'', dstPort, srcPort))"

definition flow_json :: "FlowRow \<Rightarrow> flowJSON" where
  "flow_json f =
     (case flowDirection (fl_PeerIP f) (fl_PeerIP6 f) (fl_SrcIP f) (fl_SrcPort f) (fl_DstIP f) (fl_DstPort f) of
        (dir, ingressPort, egressPort) \<Rightarrow>
          \<lparr>fj_ID = fl_ID f, fj_PeerID = fl_PeerID f, fj_PeerHostname = fl_PeerHostname f,
           fj_Protocol = fl_Protocol f, fj_ProtocolName = protocolName (fl_Protocol f), fj_Direction = dir,
           fj_SrcIP = fl_SrcIP f, fj_SrcPort = fl_SrcPort f, fj_DstIP = fl_DstIP f, fj_DstPort = fl_DstPort f,
           fj_IngressPort = ingressPort, fj_EgressPort = egressPort, fj_TxBytes = fl_TxBytes f,
           fj_RxBytes = fl_RxBytes f, fj_TxPackets = fl_TxPackets f, fj_RxPackets = fl_RxPackets f,
           fj_ReportedAt = fl_ReportedAt f\<rparr>)"

definition handleListFlows :: "string \<Rightarrow> server \<Rightarrow> flowJSON list response" where
  "handleListFlows q sv =
     (case parse_limit 100 1000 q of
        None \<Rightarrow> Error 400 ''limit must be 1-1000''
      | Some limit \<Rightarrow> Reply (map flow_json (RecentFlows limit (sv_store sv))))"

text \<open>One pass of \<open>pruneAuditLoop\<close> and of \<open>pruneFlowsLoop\<close>; the ticks come from outside.\<close>

definition pruneAuditLoop_pass :: "time \<Rightarrow> duration \<Rightarrow> store \<Rightarrow> store" where
  "pruneAuditLoop_pass now retention s =
     fst (PruneProxyEvents now retention (fst (PruneConnectionEvents now retention
       (fst (PruneAuditLog now retention s)))))"

subsection \<open>What the ring holds\<close>

text \<open>
  The abstraction: all lines written so far. The ring holds the last ones, its slots
  counted from the position of the oldest.
\<close>

definition ring_holds :: "'l list \<Rightarrow> 'l accessLogSink \<Rightarrow> bool" where
  "ring_holds xs s \<longleftrightarrow>
     (let n = length (sk_lines s)
      in sk_mode s = accessLogMemory \<and> 0 < n \<and> sk_next s = length xs mod n \<and> (sk_full s \<longleftrightarrow> n \<le> length xs) \<and>
         (\<forall>j < length xs. length xs \<le> j + n \<longrightarrow> sk_lines s ! (j mod n) = xs ! j))"

lemma ring_start: "ring_holds [] (newAccessLogSink zero accessLogMemory sz)"
  by (simp add: ring_holds_def newAccessLogSink_def Let_def)

lemma ring_write:
  assumes "ring_holds xs s"
  shows "ring_holds (xs @ [x]) (sink_write x s)"
proof -
  let ?n = "length (sk_lines s)" and ?m = "length xs"
  have s: "sk_mode s = accessLogMemory" "0 < ?n" "sk_next s = ?m mod ?n" "sk_full s \<longleftrightarrow> ?n \<le> ?m"
    and held: "\<And>j. j < ?m \<Longrightarrow> ?m \<le> j + ?n \<Longrightarrow> sk_lines s ! (j mod ?n) = xs ! j"
    using assms by (auto simp: ring_holds_def Let_def)
  have w: "sink_write x s = s\<lparr>sk_lines := (sk_lines s)[?m mod ?n := x], sk_next := Suc ?m mod ?n,
      sk_full := (sk_full s \<or> Suc ?m mod ?n = 0)\<rparr>"
    using s by (simp add: sink_write_def Let_def mod_Suc_eq)
  have full: "sk_full s \<or> Suc ?m mod ?n = 0 \<longleftrightarrow> ?n \<le> Suc ?m"
    using s(2,4) by (metis dvd_imp_le le_Suc_eq mod_0_imp_dvd mod_self zero_less_Suc)
  have lines: "(sk_lines s)[?m mod ?n := x] ! (j mod ?n) = (xs @ [x]) ! j" if j: "j < Suc ?m" "Suc ?m \<le> j + ?n" for j
  proof (cases "j = ?m")
    case True
    then show ?thesis using s(2) by simp
  next
    case False
    have "j mod ?n \<noteq> ?m mod ?n"
    proof
      assume eq: "j mod ?n = ?m mod ?n"
      have lt: "j < ?m" using False j(1) by simp
      then have "?n dvd ?m - j" using eq by (metis less_imp_le mod_eq_dvd_iff_nat)
      then have "?n \<le> ?m - j" using lt by (simp add: dvd_imp_le)
      then show False using j(2) lt by simp
    qed
    then show ?thesis using False j held [of j] s(2) by (simp add: nth_append)
  qed
  show ?thesis unfolding w ring_holds_def Let_def using s(1,2) full lines by simp
qed

lemma ring_index:
  assumes "ring_holds xs s" "i < length xs" "i < length (sk_lines s)"
  shows "sk_lines s ! nat (sink_index s i) = rev xs ! i"
proof -
  let ?n = "length (sk_lines s)" and ?m = "length xs"
  have s: "0 < ?n" "sk_next s = ?m mod ?n"
    and held: "\<And>j. j < ?m \<Longrightarrow> ?m \<le> j + ?n \<Longrightarrow> sk_lines s ! (j mod ?n) = xs ! j"
    using assms(1) by (auto simp: ring_holds_def Let_def)
  let ?j = "?m - Suc i"
  have j: "?j < ?m" "?m \<le> ?j + ?n" using assms(2,3) by auto
  have "int (?j mod ?n) = sink_index s i"
  proof -
    have "int (?j mod ?n) = (int ?m - 1 - int i) mod int ?n" using assms(2) by (simp add: zmod_int of_nat_diff diff_diff_eq)
    also have "\<dots> = (int (?m mod ?n) - 1 - int i) mod int ?n"
      using mod_diff_left_eq [of "int ?m" "int ?n" "1 + int i"] by (simp add: zmod_int diff_diff_eq)
    also have "\<dots> = sink_index s i"
    proof (cases "int (?m mod ?n) - 1 - int i < 0")
      case True
      have "(int (?m mod ?n) - 1 - int i) mod int ?n = (int (?m mod ?n) - 1 - int i + int ?n) mod int ?n" by simp
      also have "\<dots> = int (?m mod ?n) - 1 - int i + int ?n" using True assms(3) by (intro mod_pos_pos_trivial) auto
      finally show ?thesis using True s(2) by (simp add: sink_index_def Let_def)
    next
      case False
      have "int (?m mod ?n) < int ?n" using s(1) by simp
      then show ?thesis using False s(2) by (simp add: sink_index_def Let_def mod_pos_pos_trivial)
    qed
    finally show ?thesis .
  qed
  then have "nat (sink_index s i) = ?j mod ?n" by (metis nat_int)
  then show ?thesis using held [OF j] assms(2) by (simp add: rev_nth)
qed

lemma ring_lists_newest:
  assumes "ring_holds xs s"
  shows "sink_list limit s = take (nat (min limit (int (length (sk_lines s))))) (rev xs)"
proof (cases "limit \<le> 0")
  case True
  then show ?thesis by (simp add: sink_list_def)
next
  case False
  let ?n = "length (sk_lines s)" and ?m = "length xs"
  have s: "sk_mode s = accessLogMemory" "0 < ?n" "sk_next s = ?m mod ?n" "sk_full s \<longleftrightarrow> ?n \<le> ?m"
    using assms by (auto simp: ring_holds_def Let_def)
  define k where "k = nat (min limit (int (min ?n ?m)))"
  have total: "(if sk_full s then ?n else sk_next s) = min ?n ?m" using s by auto
  have "sink_list limit s = map (\<lambda>i. sk_lines s ! nat (sink_index s i)) [0..<k]"
    unfolding sink_list_def Let_def total k_def using False s(1) by (auto simp: min_def)
  also have "\<dots> = map (\<lambda>i. rev xs ! i) [0..<k]"
    by (rule map_cong) (auto simp: k_def intro!: ring_index [OF assms])
  also have "\<dots> = take k (rev xs)"
    by (rule nth_equalityI) (auto simp: k_def)
  also have "\<dots> = take (nat (min limit (int ?n))) (rev xs)"
    using False by (intro take_equalityI) (auto simp: k_def min_def)
  finally show ?thesis .
qed

lemma ring_size: "length (sk_lines (fold sink_write xs s)) = length (sk_lines s)"
  by (induction xs arbitrary: s) (auto simp: sink_write_def Let_def split: accessLogMode.split)

lemma ring_written: "ring_holds ys s \<Longrightarrow> ring_holds (ys @ xs) (fold sink_write xs s)"
proof (induction xs arbitrary: ys s)
  case Nil
  then show ?case by simp
next
  case (Cons x xs)
  from Cons.IH [OF ring_write [OF Cons.prems]] show ?case by simp
qed

text \<open>
  C22: Whatever lines the server has written, the access log in memory mode lists exactly the
  newest of them, newest first: as many as were asked for and as the ring has slots. The wrapping
  index arithmetic never shows a stale or an empty slot.
\<close>

theorem access_log_newest:
  "sink_list limit (fold sink_write xs (newAccessLogSink zero accessLogMemory sz)) =
     take (nat (min limit (max 1 sz))) (rev xs)"
proof -
  have "ring_holds xs (fold sink_write xs (newAccessLogSink zero accessLogMemory sz))"
    using ring_written [OF ring_start] by simp
  moreover have "int (length (sk_lines (newAccessLogSink zero accessLogMemory sz))) = max 1 sz"
    by (auto simp: newAccessLogSink_def)
  ultimately show ?thesis by (simp add: ring_lists_newest ring_size)
qed

subsection \<open>Secrets and the access log\<close>

lemma char_case_codes:
  "code (lower_char c) = (if 65 \<le> code c \<and> code c \<le> 90 then code c + 32 else code c)"
  "code (upper_char c) = (if 97 \<le> code c \<and> code c \<le> 122 then code c - 32 else code c)"
  by (auto simp: lower_char_def upper_char_def take_bit_eq_mod)

lemma char_case [simp]:
  "upper_char (lower_char c) = upper_char c" "lower_char (lower_char c) = lower_char c"
  "is_letter (lower_char c) \<longleftrightarrow> is_letter c"
  unfolding of_char_eq_iff [where 'a = nat, symmetric] is_letter_def by (auto simp: char_case_codes)

lemma lower_other:
  assumes "\<not> is_letter d"
  shows "lower_char c = d \<longleftrightarrow> c = d"
  using assms unfolding of_char_eq_iff [where 'a = nat, symmetric] is_letter_def by (auto simp: char_case_codes)

lemma lower_hyphen [simp]: "lower_char c = CHR ''-'' \<longleftrightarrow> c = CHR ''-''"
  by (simp add: lower_other is_letter_def)

lemma canonical_lower: "canonical u (map lower_char s) = canonical u s"
  by (induction s arbitrary: u) auto

lemma valid_letter: "is_letter c \<or> c = CHR ''-'' \<Longrightarrow> validHeaderFieldByte c"
  unfolding validHeaderFieldByte_def by (erule disjE) simp_all

text \<open>A name that is a redacted one up to the case of its letters is redacted.\<close>

lemma CanonicalHeaderKey_fold:
  assumes "map lower_char k = map lower_char n" "n \<in> set redacted_names"
  shows "CanonicalHeaderKey k = n"
proof -
  have "list_all (\<lambda>c. is_letter c \<or> c = CHR ''-'') n" "canonical True n = n"
    using assms(2) by (auto simp: redacted_names_def is_letter_def upper_char_def lower_char_def)
  moreover from this(1) have "list_all (\<lambda>c. is_letter c \<or> c = CHR ''-'') (map lower_char n)"
    by (auto simp: list_all_iff)
  then have "list_all (\<lambda>c. is_letter c \<or> c = CHR ''-'') k"
    unfolding assms(1) [symmetric] by (auto simp: list_all_iff)
  then have "list_all validHeaderFieldByte k"
    by (rule list.pred_mono_strong) (erule valid_letter)
  moreover have "canonical True k = canonical True n" using assms(1) by (metis canonical_lower)
  ultimately show ?thesis by (simp add: CanonicalHeaderKey_def)
qed

definition secret_header :: "string \<Rightarrow> bool" where
  "secret_header k \<longleftrightarrow> map lower_char k \<in> set [''authorization'', ''cookie'', ''sec-websocket-key'']"

definition public_headers :: "http_Header \<Rightarrow> http_Header" where
  "public_headers = map (\<lambda>(k, v). (k, if secret_header k then [] else v))"

lemma secret_redacted: "secret_header k \<Longrightarrow> CanonicalHeaderKey k \<in> set redacted_names"
proof -
  assume "secret_header k"
  moreover have "map (map lower_char) redacted_names = [''authorization'', ''cookie'', ''sec-websocket-key'']"
    by code_simp
  ultimately have "map lower_char k \<in> set (map (map lower_char) redacted_names)"
    by (simp only: secret_header_def)
  then show ?thesis by (auto simp: CanonicalHeaderKey_fold)
qed

lemma safeHeaders_public: "safeHeaders (public_headers h) = safeHeaders h"
  by (auto simp: safeHeaders_def public_headers_def secret_redacted)

lemma clientIP_secrets [simp]: "clientIP sv (r\<lparr>rq_Authorization := a, rq_Cookie := c\<rparr>) = clientIP sv r"
  by (auto simp: clientIP_def split: option.split)

definition demo_request :: request where
  "demo_request = \<lparr>rq_RemoteAddr = ''10.0.0.1:5000'', rq_XFF = [], rq_UserAgent = [], rq_Method = ''GET'',
     rq_Path = ''/'', rq_Authorization = ''Bearer s3cret'', rq_Cookie = None\<rparr>"

text \<open>
  C21: The access log does not depend on the secrets of a request. Two requests that agree on
  everything but the values of the Authorization, Cookie and Sec-WebSocket-Key headers, in any
  spelling of their names, and that the handlers treat alike, leave the same access log.
\<close>

theorem access_log_no_secrets:
  assumes "public_headers h' = public_headers h"
    and "r' = r\<lparr>rq_Authorization := a, rq_Cookie := c\<rparr>"
    and "next_handler r' sv = next_handler r sv"
  shows "logRequests start took next_handler h' r' (sv, sink) = logRequests start took next_handler h r (sv, sink)"
proof -
  have "safeHeaders h' = safeHeaders h" using assms(1) by (metis safeHeaders_public)
  then show ?thesis using assms(3) by (simp add: logRequests_def access_line_def assms(2))
qed

definition demo_line :: accessLogLine where
  "demo_line = access_line 0 0 [] demo_request 0 anonymous demo_server"

theorem access_log_no_secrets_witness:
  "(let h = [(''authorization'', [''Bearer s3cret'']), (''Accept'', [''a'', ''b''])];
        h' = [(''authorization'', [''Bearer other'']), (''Accept'', [''a'', ''b''])];
        r' = demo_request\<lparr>rq_Authorization := ''Bearer other'', rq_Cookie := Some ''x''\<rparr>
    in h' \<noteq> h \<and>
       logRequests 0 0 (\<lambda>r sv. (sv, 404, anonymous)) h' r' (demo_server, newAccessLogSink demo_line accessLogMemory 2) =
       logRequests 0 0 (\<lambda>r sv. (sv, 404, anonymous)) h demo_request (demo_server, newAccessLogSink demo_line accessLogMemory 2))"
  unfolding Let_def
  by (intro conjI access_log_no_secrets) (simp_all add: public_headers_def secret_header_def lower_char_def)

end
