(* ===== verification/AdminApi.thy ===== *)
theory AdminApi
  imports ConfigSync StaticPeers NetworkMigration Observability
begin

section \<open>The admin interface\<close>

text \<open>
  admin.go, acl.go and relay.go of cmd/server: the handlers behind \<open>requireAdmin\<close> that read and
  change peers, setup keys, networks, DNS and access rules, and the handler that gives an agent its
  port of a relay pair. A path parameter is its text, \<open>time.ParseDuration\<close> and the text of a refused
  prefix are arguments. The response of a handler is the value it encodes. Every change is followed by
  one audit entry and, where agents are affected, by the signal to sync.
\<close>

subsection \<open>Views of peers and keys\<close>

record peerJSON =
  pj_ID :: int
  pj_PublicKey :: string
  pj_AssignedIP :: string
  pj_AssignedIP6 :: string
  pj_PeerType :: string
  pj_GatewayPeerID :: int
  pj_GatewayEndpoint :: string
  pj_HasStoredConfig :: bool
  pj_AdvertiseExitNode :: bool
  pj_ExitNodePeerID :: int
  pj_HealthStatus :: string
  pj_LastSeenAgeSec :: int
  pj_Hostname :: string
  pj_ListenPort :: int
  pj_ObservedIP :: string
  pj_PublicEndpoint :: string
  pj_NATType :: string
  pj_AgentVersion :: string
  pj_CreatedAt :: string
  pj_LastSeenAt :: string
  pj_RevokedAt :: string

definition peerType :: "string \<Rightarrow> string" where
  "peerType kind = (if kind = ''static'' then ''static'' else ''agent'')"

text \<open>\<open>int64(d.Seconds())\<close> cuts the fraction off, towards zero.\<close>

definition whole_seconds :: "duration \<Rightarrow> int" where
  "whole_seconds d = (if d < 0 then - ((- d) div 10 ^ 9) else d div 10 ^ 9)"

definition peerHealth :: "time \<Rightarrow> string \<Rightarrow> string \<Rightarrow> string \<Rightarrow> string \<times> int" where
  "peerHealth now lastSeenAt revokedAt kind =
     (if revokedAt \<noteq> [] then (''revoked'', 0)
      else if peerType kind = ''static'' then (''static'', 0)
      else if lastSeenAt = [] then (''offline'', 0)
      else case parse_time lastSeenAt of
             None \<Rightarrow> (''unknown'', 0)
           | Some lastSeen \<Rightarrow>
               let age = whole_seconds (time_sub now lastSeen)
               in (if age \<le> 90 then ''online'' else if age \<le> 300 then ''stale'' else ''offline'', age))"

definition peerInfoJSON :: "time \<Rightarrow> PeerInfo \<Rightarrow> peerJSON" where
  "peerInfoJSON now p =
     (let (health, age) = peerHealth now (pi_LastSeenAt p) (pi_RevokedAt p) (pi_PeerType p)
      in \<lparr>pj_ID = pi_ID p, pj_PublicKey = pi_PublicKey p, pj_AssignedIP = pi_AssignedIP p,
          pj_AssignedIP6 = pi_AssignedIP6 p, pj_PeerType = peerType (pi_PeerType p),
          pj_GatewayPeerID = pi_GatewayPeerID p, pj_GatewayEndpoint = pi_GatewayEndpoint p,
          pj_HasStoredConfig = pi_HasStoredConfig p, pj_AdvertiseExitNode = pi_AdvertiseExitNode p,
          pj_ExitNodePeerID = pi_ExitNodePeerID p, pj_HealthStatus = health, pj_LastSeenAgeSec = age,
          pj_Hostname = pi_Hostname p, pj_ListenPort = pi_ListenPort p, pj_ObservedIP = pi_ObservedIP p,
          pj_PublicEndpoint = pi_PublicEndpoint p, pj_NATType = pi_NATType p,
          pj_AgentVersion = pi_AgentVersion p, pj_CreatedAt = pi_CreatedAt p,
          pj_LastSeenAt = pi_LastSeenAt p, pj_RevokedAt = pi_RevokedAt p\<rparr>)"

definition handleListPeers :: "time \<Rightarrow> server \<Rightarrow> server \<times> peerJSON list response" where
  "handleListPeers now sv = (sv, Reply (map (peerInfoJSON now) (ListPeers (sv_store sv))))"

record peerPingJSON =
  pg_PeerID :: int
  pg_Status :: string
  pg_LastSeenAt :: string
  pg_LastSeenAgeSec :: int

definition handlePingPeer :: "time \<Rightarrow> string \<Rightarrow> server \<Rightarrow> server \<times> peerPingJSON response" where
  "handlePingPeer now pathID sv =
     (case ParseInt pathID of
        None \<Rightarrow> (sv, Error 400 ''invalid id'')
      | Some i \<Rightarrow>
          (case List.find (\<lambda>p. pi_ID p = i) (ListPeers (sv_store sv)) of
             None \<Rightarrow> (sv, Error 404 ''peer not found'')
           | Some p \<Rightarrow>
               let (status, age) = peerHealth now (pi_LastSeenAt p) (pi_RevokedAt p) (pi_PeerType p)
               in (sv, Reply \<lparr>pg_PeerID = pi_ID p, pg_Status = status, pg_LastSeenAt = pi_LastSeenAt p,
                              pg_LastSeenAgeSec = age\<rparr>)))"

definition handleListSetupKeys :: "server \<Rightarrow> server \<times> SetupKeyInfo list response" where
  "handleListSetupKeys sv = (sv, Reply (ListSetupKeys (sv_store sv)))"

definition handleGetNetwork :: "server \<Rightarrow> server \<times> (string \<times> string) response" where
  "handleGetNetwork sv = (sv, Reply (currentNetworkConfig sv))"

definition handleGetDNS :: "server \<Rightarrow> server \<times> DNSConfig response" where
  "handleGetDNS sv =
     (case CurrentDNSConfig (sv_store sv) of
        Inl _ \<Rightarrow> (sv, Error 500 ''internal error'')
      | Inr cfg \<Rightarrow> (sv, Reply cfg))"

subsection \<open>Changes\<close>

text \<open>What follows a committed change: the audit entry, then the broadcast if there is a reason for one.\<close>

definition record_change ::
  "time \<Rightarrow> request \<Rightarrow> string \<Rightarrow> string \<Rightarrow> string option \<Rightarrow> server \<Rightarrow> server" where
  "record_change now r event detail reason sv =
     (case reason of
        None \<Rightarrow> audit now r anonymous event 200 detail sv
      | Some why \<Rightarrow> signalSync now why (audit now r anonymous event 200 detail sv))"

definition handleUpdateDNS ::
  "env \<Rightarrow> time \<Rightarrow> DNSConfig body \<Rightarrow> request \<Rightarrow> server \<Rightarrow> server \<times> DNSConfig response" where
  "handleUpdateDNS env now req r sv =
     (case req of
        Inl (status, m) \<Rightarrow> (sv, Error status m)
      | Inr q \<Rightarrow>
          (case UpdateDNSConfig q (sv_store sv) of
             Inl e \<Rightarrow> (sv, Error 400 (e_errText env e))
           | Inr (s, cfg) \<Rightarrow>
               (record_change now r ''dns_update''
                  (''enabled='' @ show_bool (dc_Enabled cfg) @ '' nameservers='' @ join_with '','' (dc_Nameservers cfg) @
                   '' domain='' @ dc_Domain cfg @ '' search='' @ join_with '','' (dc_SearchDomains cfg))
                  (Some ''dns_update'') (sv\<lparr>sv_store := s\<rparr>), Reply cfg)))"

record networkMigrationRequest =
  nm_NetworkCIDR :: string
  nm_NetworkCIDR6 :: string
  nm_Confirm :: string

definition networkMigrationConfirm :: string where
  "networkMigrationConfirm = ''REASSIGN OVERLAY NETWORK''"

definition parseNetworkMigrationTarget ::
  "(string \<Rightarrow> string) \<Rightarrow> networkMigrationRequest \<Rightarrow> (nat \<times> string) + prefix \<times> prefix" where
  "parseNetworkMigrationTarget prefixErr q =
     (case parseNetwork4 (nm_NetworkCIDR q) of
        None \<Rightarrow> Inl (400, prefixErr (nm_NetworkCIDR q))
      | Some target4 \<Rightarrow>
          (case parseNetwork6 (nm_NetworkCIDR6 q) of
             None \<Rightarrow> Inl (400, prefixErr (nm_NetworkCIDR6 q))
           | Some target6 \<Rightarrow> Inr (target4, target6)))"

definition handlePreviewNetworkMigration ::
  "env \<Rightarrow> (string \<Rightarrow> string) \<Rightarrow> networkMigrationRequest body \<Rightarrow> server \<Rightarrow> server \<times> NetworkMigrationPlan response" where
  "handlePreviewNetworkMigration env prefixErr req sv =
     (case bindE req (parseNetworkMigrationTarget prefixErr) of
        Inl (status, m) \<Rightarrow> (sv, Error status m)
      | Inr (target4, target6) \<Rightarrow>
          (case PreviewNetworkMigration target4 target6 (sv_store sv) of
             Inl e \<Rightarrow> (sv, Error 400 (e_errText env e))
           | Inr plan \<Rightarrow> (sv, Reply plan)))"

definition migration_detail :: "NetworkMigrationPlan \<Rightarrow> string" where
  "migration_detail plan =
     NetworkCIDR (pl_Current plan) @ '' -> '' @ NetworkCIDR (pl_Target plan) @ '', '' @
     NetworkCIDR6 (pl_Current plan) @ '' -> '' @ NetworkCIDR6 (pl_Target plan) @
     '', peers='' @ Itoa (int (length (pl_Changes plan)))"

definition handleApplyNetworkMigration ::
  "env \<Rightarrow> (string \<Rightarrow> string) \<Rightarrow> time \<Rightarrow> networkMigrationRequest body \<Rightarrow> request \<Rightarrow> server
   \<Rightarrow> server \<times> NetworkMigrationPlan response" where
  "handleApplyNetworkMigration env prefixErr now req r sv =
     (case req of
        Inl (status, m) \<Rightarrow> (sv, Error status m)
      | Inr q \<Rightarrow>
          if nm_Confirm q \<noteq> networkMigrationConfirm
          then (sv, Error 400 (''confirm must be '' @ [CHR 0x22] @ networkMigrationConfirm @ [CHR 0x22]))
          else case parseNetworkMigrationTarget prefixErr q of
              Inl (status, m) \<Rightarrow> (sv, Error status m)
            | Inr (target4, target6) \<Rightarrow>
                (case ApplyNetworkMigration target4 target6 (sv_store sv) of
                   Inl e \<Rightarrow> (sv, Error 400 (e_errText env e))
                 | Inr (s, plan) \<Rightarrow>
                     (record_change now r ''network_migrate'' (migration_detail plan) (Some ''network_migrate'')
                        (setNetworkConfig (NetworkCIDR (pl_Target plan), NetworkCIDR6 (pl_Target plan)) (sv\<lparr>sv_store := s\<rparr>)),
                      Reply plan)))"

record setupKeyRequest =
  kq_Name :: string
  kq_MaxUses :: int
  kq_ExpiresIn :: string

definition handleCreateSetupKey ::
  "env \<Rightarrow> (string \<Rightarrow> duration option) \<Rightarrow> time \<Rightarrow> string \<Rightarrow> setupKeyRequest body \<Rightarrow> request \<Rightarrow> server
   \<Rightarrow> server \<times> string response" where
  "handleCreateSetupKey env parseDuration now raw req r sv =
     (case req of
        Inl (status, m) \<Rightarrow> (sv, Error status m)
      | Inr q \<Rightarrow>
          (case (if kq_ExpiresIn q = [] then Some 0 else parseDuration (kq_ExpiresIn q)) of
             None \<Rightarrow> (sv, Error 400 (''expires_in must be a Go duration (e.g. '' @ [CHR 0x22] @ ''24h'' @ [CHR 0x22] @ '')''))
           | Some expiresIn \<Rightarrow>
               (case CreateNamedSetupKey now raw (kq_Name q) (kq_MaxUses q) expiresIn (sv_store sv) of
                  Inl _ \<Rightarrow> (sv, Error 500 ''internal error'')
                | Inr (s, key) \<Rightarrow>
                    (record_change now r ''setup_key_create''
                       (''name='' @ e_quote env (kq_Name q) @ '' max_uses='' @ Itoa (kq_MaxUses q) @
                        '' expires_in='' @ e_quote env (kq_ExpiresIn q)) None (sv\<lparr>sv_store := s\<rparr>), Reply key))))"

definition handleRevoke ::
  "(int \<Rightarrow> store \<Rightarrow> store_error + store) \<Rightarrow> string \<Rightarrow> time \<Rightarrow> string \<Rightarrow> request \<Rightarrow> server \<Rightarrow> server \<times> string response" where
  "handleRevoke revoke kind now pathID r sv =
     (case ParseInt pathID of
        None \<Rightarrow> (sv, Error 400 ''invalid id'')
      | Some i \<Rightarrow>
          (case revoke i (sv_store sv) of
             Inl e \<Rightarrow> (sv, if e = ErrNotFound then Error 404 ''not found or already revoked''
                           else Error 500 ''internal error'')
           | Inr s \<Rightarrow>
               (record_change now r ''revoke'' (kind @ '' id='' @ Itoa i)
                  (if kind = ''peer'' then Some ''peer_revoke'' else None) (sv\<lparr>sv_store := s\<rparr>), Reply ''revoked'')))"

definition handleRevokeSetupKey :: "time \<Rightarrow> string \<Rightarrow> request \<Rightarrow> server \<Rightarrow> server \<times> string response" where
  "handleRevokeSetupKey now = handleRevoke (RevokeSetupKey now) ''setup key'' now"

definition handleRevokePeer :: "time \<Rightarrow> string \<Rightarrow> request \<Rightarrow> server \<Rightarrow> server \<times> string response" where
  "handleRevokePeer now = handleRevoke (RevokePeer now) ''peer'' now"

definition handleRemovePeer :: "time \<Rightarrow> string \<Rightarrow> request \<Rightarrow> server \<Rightarrow> server \<times> string response" where
  "handleRemovePeer now pathID r sv =
     (case ParseInt pathID of
        None \<Rightarrow> (sv, Error 400 ''invalid id'')
      | Some i \<Rightarrow>
          (case RemovePeer i (sv_store sv) of
             Inl e \<Rightarrow> (sv, if e = ErrNotFound then Error 404 ''peer not found or not revoked''
                           else Error 500 ''internal error'')
           | Inr s \<Rightarrow>
               (record_change now r ''peer_remove'' (''peer id='' @ Itoa i) (Some ''peer_remove'')
                  (sv\<lparr>sv_store := s\<rparr>), Reply ''removed'')))"

definition handleUpdatePeerAddress ::
  "env \<Rightarrow> time \<Rightarrow> string \<Rightarrow> (string \<times> string) body \<Rightarrow> request \<Rightarrow> server \<Rightarrow> server \<times> peerJSON response" where
  "handleUpdatePeerAddress env now pathID req r sv =
     (case ParseInt pathID of
        None \<Rightarrow> (sv, Error 400 ''invalid id'')
      | Some i \<Rightarrow>
          (case req of
             Inl (status, m) \<Rightarrow> (sv, Error status m)
           | Inr (assignedIP, assignedIP6) \<Rightarrow>
               (case UpdatePeerAddress i assignedIP assignedIP6 (sv_store sv) of
                  Inl e \<Rightarrow> (sv, if e = ErrNotFound then Error 404 ''peer not found or revoked''
                                else if e = ErrAddressInUse then Error 409 (e_errText env e)
                                else Error 400 (e_errText env e))
                | Inr (s, peer) \<Rightarrow>
                    (record_change now r ''peer_address_update''
                       (''peer id='' @ Itoa i @ '' assigned_ip='' @ pi_AssignedIP peer @
                        '' assigned_ip6='' @ pi_AssignedIP6 peer) (Some ''peer_address_update'') (sv\<lparr>sv_store := s\<rparr>),
                     Reply (peerInfoJSON now peer)))))"

definition peerRefName :: "int \<Rightarrow> string \<Rightarrow> string" where
  "peerRefName i hostname =
     (if hostname = [] then ''id='' @ Itoa i else ''id='' @ Itoa i @ '' ('' @ hostname @ '')'')"

definition exit_detail :: "int \<Rightarrow> int \<Rightarrow> ExitAssignment \<Rightarrow> string" where
  "exit_detail i exit a =
     (if exit \<noteq> 0
      then ''peer '' @ peerRefName i (PeerHostname a) @ '' now exits via '' @ peerRefName exit (ExitHostname a)
      else ''peer '' @ peerRefName i (PeerHostname a) @ '' cleared its exit node'')"

definition is_invalid :: "store_error \<Rightarrow> bool" where
  "is_invalid e = (case e of ErrInvalid _ \<Rightarrow> True | _ \<Rightarrow> False)"

definition handleSetExitNode ::
  "env \<Rightarrow> time \<Rightarrow> string \<Rightarrow> int body \<Rightarrow> request \<Rightarrow> server \<Rightarrow> server \<times> (int \<times> int) response" where
  "handleSetExitNode env now pathID req r sv =
     (case ParseInt pathID of
        None \<Rightarrow> (sv, Error 400 ''invalid id'')
      | Some i \<Rightarrow>
          (case req of
             Inl (status, m) \<Rightarrow> (sv, Error status m)
           | Inr exit \<Rightarrow>
               (case SetExitNode i exit (sv_store sv) of
                  Inl e \<Rightarrow> (sv, if is_invalid e then Error 400 (e_errText env e) else Error 500 ''internal error'')
                | Inr (s, a) \<Rightarrow>
                    (record_change now r ''peer_exit_node_update'' (exit_detail i exit a)
                       (Some ''peer_exit_node_update'') (sv\<lparr>sv_store := s\<rparr>), Reply (i, exit)))))"

subsection \<open>Access rules (acl.go)\<close>

definition defaultPolicyName :: "server \<Rightarrow> string" where
  "defaultPolicyName sv = (if DefaultAllow (sv_store sv) then ''allow'' else ''deny'')"

definition handleListACL :: "server \<Rightarrow> server \<times> (string \<times> ACLRule list) response" where
  "handleListACL sv = (sv, Reply (defaultPolicyName sv, ListACLRules (sv_store sv)))"

record aclExportJSON =
  ex_Version :: int
  ex_ExportedAt :: time
  ex_DefaultPolicy :: string
  ex_Rules :: "ACLRule list"
  ex_RuleCount :: int

definition handleExportACL :: "time \<Rightarrow> server \<Rightarrow> server \<times> aclExportJSON response" where
  "handleExportACL now sv =
     (let out = ListACLRules (sv_store sv)
      in (sv, Reply \<lparr>ex_Version = 1, ex_ExportedAt = now, ex_DefaultPolicy = defaultPolicyName sv,
                     ex_Rules = out, ex_RuleCount = int (length out)\<rparr>))"

record aclImportRequest =
  im_Replace :: "bool option"
  im_Rules :: "ACLRule list"

definition import_rule :: "ACLRule \<Rightarrow> ACLRule" where
  "import_rule x = ACLRule_zero\<lparr>ar_SrcPeerID := ar_SrcPeerID x, ar_DstPeerID := ar_DstPeerID x, ar_Name := ar_Name x,
     ar_Protocol := ar_Protocol x, ar_PortMin := ar_PortMin x, ar_PortMax := ar_PortMax x\<rparr>"

definition handleImportACL ::
  "env \<Rightarrow> time \<Rightarrow> aclImportRequest body \<Rightarrow> request \<Rightarrow> server \<Rightarrow> server \<times> (string \<times> ACLRule list) response" where
  "handleImportACL env now req r sv =
     (case req of
        Inl (status, m) \<Rightarrow> (sv, Error status m)
      | Inr q \<Rightarrow>
          let replace = coalesce (im_Replace q) True
          in case ImportACLRules now (map import_rule (im_Rules q)) replace (sv_store sv) of
               Inl e \<Rightarrow> (sv, Error 400 (e_errText env e))
             | Inr (s, n) \<Rightarrow>
                 let sv' = record_change now r ''acl_import'' (''rules='' @ Itoa (int n) @ '' replace='' @ show_bool replace)
                             (Some ''acl_import'') (sv\<lparr>sv_store := s\<rparr>)
                 in (sv', Reply (defaultPolicyName sv', ListACLRules (sv_store sv'))))"

definition peerRef :: "int option \<Rightarrow> string" where
  "peerRef i = (case i of None \<Rightarrow> ''any'' | Some i \<Rightarrow> Itoa i)"

definition portRange :: "int option \<Rightarrow> int option \<Rightarrow> string" where
  "portRange portMin portMax =
     (if portMin = None \<and> portMax = None then ''any''
      else if portMin = portMax then peerRef portMin
      else peerRef portMin @ ''-'' @ peerRef portMax)"

definition handleCreateACL ::
  "env \<Rightarrow> time \<Rightarrow> ACLRule body \<Rightarrow> request \<Rightarrow> server \<Rightarrow> server \<times> int response" where
  "handleCreateACL env now req r sv =
     (case req of
        Inl (status, m) \<Rightarrow> (sv, Error status m)
      | Inr q \<Rightarrow>
          (case CreateACLRuleDetailed now (import_rule q) (sv_store sv) of
             Inl _ \<Rightarrow> (sv, Error 400 ''could not create rule (check peers, protocol, and port range)'')
           | Inr (s, i) \<Rightarrow>
               let proto = (if ar_Protocol q = [] then ''any'' else ar_Protocol q)
               in (record_change now r ''acl_create''
                     (''rule id='' @ Itoa i @ '' name='' @ e_quote env (ar_Name q) @ '' src='' @ peerRef (ar_SrcPeerID q) @
                      '' dst='' @ peerRef (ar_DstPeerID q) @ '' proto='' @ e_quote env proto @
                      '' ports='' @ portRange (ar_PortMin q) (ar_PortMax q)) (Some ''acl_create'') (sv\<lparr>sv_store := s\<rparr>),
                   Reply i)))"

definition handleDeleteACL :: "time \<Rightarrow> string \<Rightarrow> request \<Rightarrow> server \<Rightarrow> server \<times> string response" where
  "handleDeleteACL now pathID r sv =
     (case ParseInt pathID of
        None \<Rightarrow> (sv, Error 400 ''invalid id'')
      | Some i \<Rightarrow>
          (case DeleteACLRule i (sv_store sv) of
             Inl e \<Rightarrow> (sv, if e = ErrNotFound then Error 404 ''not found'' else Error 500 ''internal error'')
           | Inr s \<Rightarrow>
               (record_change now r ''acl_delete'' (''rule id='' @ Itoa i) (Some ''acl_delete'')
                  (sv\<lparr>sv_store := s\<rparr>), Reply ''deleted'')))"

subsection \<open>Relay pairs (relay.go)\<close>

text \<open>The embedded relay. Port A serves the smaller key.\<close>

definition handleRelayPair ::
  "env \<Rightarrow> time \<Rightarrow> string body \<Rightarrow> request \<Rightarrow> server \<Rightarrow> server \<times> string response" where
  "handleRelayPair env now req r sv =
     (case bearer r of
        None \<Rightarrow> (sv, Error 401 ''unauthorized'')
      | Some token \<Rightarrow>
          (case AuthenticatePeer (e_sha256 env) now token (sv_store sv) of
             Inl e \<Rightarrow>
               if is_unauthorized e
               then (audit now r anonymous ''relay_pair_rejected'' 401 (e_errText env e) sv, Error 401 ''unauthorized'')
               else (sv, Error 500 ''internal error'')
           | Inr (peerID, overlayIP) \<Rightarrow>
               (case sv_relay sv of
                  None \<Rightarrow> (sv, Error 503 ''no relay configured'')
                | Some relay \<Rightarrow>
                    (case req of
                       Inl (status, m) \<Rightarrow> (sv, Error status m)
                     | Inr target \<Rightarrow>
                         if target = [] then (sv, Error 400 ''peer_public_key is required'')
                         else case RelayPairKeys peerID target (sv_store sv) of
                             Inl _ \<Rightarrow> (sv, Error 500 ''internal error'')
                           | Inr (selfKey, targetOK) \<Rightarrow>
                               if \<not> targetOK then (sv, Error 404 ''unknown or revoked target peer'')
                               else case Allocate (e_os env) now (relayPairID (e_sha256 env) selfKey target) relay of
                                   Inl e \<Rightarrow> (sv, if e = ErrPortsExhausted then Error 503 ''relay port range exhausted''
                                                 else Error 502 ''relay unavailable'')
                                 | Inr (relay', portA, portB) \<Rightarrow>
                                     let port = (if target < selfKey then portB else portA);
                                         endpoint = JoinHostPort (sv_relayHost sv) (Itoa (int port))
                                     in (audit now r (peerID, overlayIP) ''relay_pair'' 200 (''udp relay via '' @ endpoint)
                                           (sv\<lparr>sv_relay := Some relay'\<rparr>), Reply endpoint)))))"

subsection \<open>What a recorded change leaves\<close>

text \<open>A broadcast only writes messages; a change recorded without a peer always appends its audit row.\<close>

lemma broadcast_eq:
  "broadcast msg sv = sv\<lparr>sv_sent := sv_sent sv @
     map (\<lambda>c. (sc_conn c, msg)) (filter (\<lambda>c. sv_alive sv (sc_conn c)) (map snd (sv_clients sv)))\<rparr>"
proof -
  have "fold (\<lambda>c sv. fst (write_client c msg sv)) cs sv = sv\<lparr>sv_sent := sv_sent sv @
     map (\<lambda>c. (sc_conn c, msg)) (filter (\<lambda>c. sv_alive sv (sc_conn c)) cs)\<rparr>" for cs
    by (induction cs arbitrary: sv) (auto simp: write_client_def)
  then show ?thesis by (simp add: broadcast_def)
qed

definition change_row :: "time \<Rightarrow> request \<Rightarrow> string \<Rightarrow> string \<Rightarrow> server \<Rightarrow> audit_row" where
  "change_row now r event detail sv =
     new_audit_row now \<lparr>ae_Event = event, ae_PeerID = 0, ae_OverlayIP = [], ae_RemoteIP = clientIP sv r,
       ae_ForwardedFor = rq_XFF r, ae_UserAgent = rq_UserAgent r, ae_Method = rq_Method r, ae_Path = rq_Path r,
       ae_Status = 200, ae_Detail = detail\<rparr> (next_rowid (map a_id (audit_log (st_db (sv_store sv)))))"

lemma audit_anonymous:
  "audit now r anonymous event 200 detail sv =
     sv\<lparr>sv_store := (sv_store sv)\<lparr>st_db := (st_db (sv_store sv))\<lparr>audit_log :=
       audit_log (st_db (sv_store sv)) @ [change_row now r event detail sv]\<rparr>\<rparr>\<rparr>"
  by (simp add: audit_def Logs.Audit_def Let_def change_row_def ensureE_def nullable_int_def ref_ok_def)

lemma record_change_store:
  "sv_store (record_change now r event detail reason sv) =
     (sv_store sv)\<lparr>st_db := (st_db (sv_store sv))\<lparr>audit_log :=
       audit_log (st_db (sv_store sv)) @ [change_row now r event detail sv]\<rparr>\<rparr>"
  by (simp add: record_change_def audit_anonymous signalSync_def broadcast_eq split: option.split)

lemma record_change_fields [simp]:
  "sv_networkCIDR (record_change now r event detail reason sv) = sv_networkCIDR sv"
  "sv_network6CIDR (record_change now r event detail reason sv) = sv_network6CIDR sv"
  "sv_pskMaster (record_change now r event detail reason sv) = sv_pskMaster sv"
  "sv_keepalive (record_change now r event detail reason sv) = sv_keepalive sv"
  by (simp_all add: record_change_def audit_anonymous signalSync_def broadcast_eq split: option.split)

lemma record_change_inv:
  assumes "store_inv (sv_store sv)"
  shows "store_inv (sv_store (record_change now r event detail reason sv))"
proof -
  define e where "e = \<lparr>ae_Event = event, ae_PeerID = 0, ae_OverlayIP = [], ae_RemoteIP = clientIP sv r,
       ae_ForwardedFor = rq_XFF r, ae_UserAgent = rq_UserAgent r, ae_Method = rq_Method r, ae_Path = rq_Path r,
       ae_Status = 200, ae_Detail = detail\<rparr>"
  have "Logs.Audit now e (sv_store sv) = Inr (sv_store (record_change now r event detail reason sv))"
    by (simp add: record_change_store Logs.Audit_def Let_def change_row_def e_def ensureE_def nullable_int_def ref_ok_def)
  then show ?thesis by (rule Audit_inv [OF assms])
qed

subsection \<open>Export and import\<close>

text \<open>A stored rule that is exported and imported again is the same row but for its id and date.\<close>

lemma exported_rule:
  assumes "acl_rule_ok ids x"
  shows "importable ids (import_rule (scan_rule d x))"
    "rule_row now i (import_rule (scan_rule d x)) =
       x\<lparr>r_id := i, r_name := nullable (coalesce (r_name x) []), r_created_at := format_time now\<rparr>"
proof -
  have ok: "service_ok (r_protocol x) (r_port_min x) (r_port_max x)" using assms by (simp add: acl_rule_ok_def)
  then have "normalizeACLService (r_protocol x) (r_port_min x) (r_port_max x) =
      Inr (r_protocol x, r_port_min x, r_port_max x)"
    using service_keywords [of "r_protocol x"]
    by (simp only: normalize_eq [OF refl refl] service_ok_ports if_False simp_thms)
  with assms show "importable ids (import_rule (scan_rule d x))"
    "rule_row now i (import_rule (scan_rule d x)) =
       x\<lparr>r_id := i, r_name := nullable (coalesce (r_name x) []), r_created_at := format_time now\<rparr>"
    by (auto simp: importable_def rule_row_def import_rule_def scan_rule_def ACLRule_zero_def acl_rule_ok_def)
qed

definition rule_content :: "ACLRule \<Rightarrow> ACLRule" where
  "rule_content x = x\<lparr>ar_ID := 0, ar_CreatedAt := []\<rparr>"

lemma exported_rows:
  assumes "list_all (acl_rule_ok ids) rules"
  shows "map (rule_content \<circ> scan_rule d) (rows_from now i (map (import_rule \<circ> scan_rule d) rules)) =
    map (rule_content \<circ> scan_rule d) rules"
  using assms
proof (induction rules arbitrary: i)
  case (Cons x rules)
  then show ?case
    by (simp add: exported_rule(2) [where ids = ids])
      (auto simp: rule_content_def scan_rule_def nullable_def)
qed simp

lemma content_connects:
  assumes "map (rule_content \<circ> scan_rule d) rules' = map (rule_content \<circ> scan_rule d) rules"
  shows "list_ex (acl_connects a b) rules' \<longleftrightarrow> list_ex (acl_connects a b) rules"
proof -
  define hits where "hits x \<longleftrightarrow> (case ar_SrcPeerID x of None \<Rightarrow> True | Some i \<Rightarrow> i = a \<or> i = b) \<and>
     (case ar_DstPeerID x of None \<Rightarrow> True | Some i \<Rightarrow> i = a \<or> i = b)" for x :: ACLRule
  have "acl_connects a b = hits \<circ> (rule_content \<circ> scan_rule d)"
    by (rule ext) (simp add: acl_connects_def hits_def rule_content_def scan_rule_def)
  then have "list_ex (acl_connects a b) rs \<longleftrightarrow> list_ex hits (map (rule_content \<circ> scan_rule d) rs)" for rs
    by (induction rs) auto
  with assms show ?thesis by simp
qed

text \<open>The two readers of the rules look at the rules and the peers only.\<close>

lemma rule_readers:
  assumes "peers d' = peers d"
  shows "scan_rule d' = scan_rule d"
    "(\<And>a b. list_ex (acl_connects a b) (acl_rules d') \<longleftrightarrow> list_ex (acl_connects a b) (acl_rules d)) \<Longrightarrow>
     listVisible d' self = listVisible d self"
proof -
  have p: "peer_by_id i d' = peer_by_id i d" for i by (simp add: peer_by_id_def assms)
  then have "rule_label v d' = rule_label v d" for v by (simp add: rule_label_def cong: option.case_cong)
  then show "scan_rule d' = scan_rule d" by (intro ext) (simp add: scan_rule_def)
  show "listVisible d' self = listVisible d self"
    if "\<And>a b. list_ex (acl_connects a b) (acl_rules d') \<longleftrightarrow> list_ex (acl_connects a b) (acl_rules d)"
  proof
    fix b
    have "visible d' b self = visible d b self" by (rule ext) (simp add: visible_def exit_of_def p that)
    then show "listVisible d' self b = listVisible d self b" by (simp add: listVisible_def assms)
  qed
qed

lemma ListACLRules_sorted:
  "store_inv s \<Longrightarrow> ListACLRules s = map (scan_rule (st_db s)) (acl_rules (st_db s))"
  using acl_rules_inv [OF store_invD(1)] by (simp add: ListACLRules_def sort_key_id rowids_def)

text \<open>The rules of one store imported into another one with the same peers.\<close>

lemma reimported:
  assumes "store_inv s" "store_inv t" "peers (st_db t) = peers (st_db s)"
  obtains t' n where "ImportACLRules now (map import_rule (ListACLRules s)) True t = Inr (t', n)" "store_inv t'"
    "map rule_content (ListACLRules t') = map rule_content (ListACLRules s)"
    "\<And>self. listVisible (st_db t') self = listVisible (st_db s) self" "DefaultAllow t' = DefaultAllow t"
proof -
  let ?d = "st_db s"
  let ?in = "map (import_rule \<circ> scan_rule ?d) (acl_rules ?d)"
  have ok: "list_all (acl_rule_ok (map p_id (peers ?d))) (acl_rules ?d)"
    using acl_rules_inv [OF store_invD(1) [OF assms(1)]] by auto
  have imp: "list_all (importable (map p_id (peers (st_db t)))) ?in"
    using ok by (auto simp: list_all_iff assms(3) intro: exported_rule(1))
  define t' where "t' = t\<lparr>st_db := imported now ?in True (st_db t)\<rparr>"
  have inv: "store_inv t'" unfolding t'_def by (rule imported_inv [OF assms(2) imp])
  have d': "acl_rules (st_db t') = rows_from now 1 ?in" "peers (st_db t') = peers ?d"
    by (simp_all add: t'_def imported_def next_rowid_def assms(3))
  note same = exported_rows [OF ok, of ?d now 1]
  have "map rule_content (ListACLRules t') = map rule_content (ListACLRules s)"
    using same by (simp add: ListACLRules_sorted inv assms(1) d'(1) rule_readers(1) [OF d'(2)])
  moreover have "listVisible (st_db t') self = listVisible ?d self" for self
    by (rule rule_readers(2) [OF d'(2)]) (simp only: d'(1) content_connects [OF same])
  ultimately show thesis using that inv imp by (simp add: ImportACLRules_eq ListACLRules_sorted assms(1) t'_def)
qed

text \<open>
  C20: An exported policy can be restored. Importing the rules of an export, replacing the table,
  succeeds on any server \<open>sv2\<close> with the same peers, whatever rules it has by then: it stores and
  answers with the exported rules in the same order but for new ids and dates, reports the default
  policy of \<open>sv2\<close>, which an import leaves alone, and leaves every peer seeing exactly whom it saw,
  under either default policy, when the export was taken.
\<close>

theorem acl_export_import:
  assumes "store_inv (sv_store sv)" "handleExportACL now sv = (sv, Reply doc)"
    and "store_inv (sv_store sv2)" "peers (st_db (sv_store sv2)) = peers (st_db (sv_store sv))"
  shows "\<exists>sv' rules. handleImportACL env now' (Inr \<lparr>im_Replace = None, im_Rules = ex_Rules doc\<rparr>) r sv2 =
      (sv', Reply (defaultPolicyName sv2, rules)) \<and>
    rules = ListACLRules (sv_store sv') \<and> map rule_content rules = map rule_content (ex_Rules doc) \<and>
    (\<forall>self. listVisible (st_db (sv_store sv')) self = listVisible (st_db (sv_store sv)) self)"
proof -
  obtain s' n where run: "ImportACLRules now' (map import_rule (ListACLRules (sv_store sv))) True (sv_store sv2) = Inr (s', n)"
    and s': "map rule_content (ListACLRules s') = map rule_content (ListACLRules (sv_store sv))"
      "\<And>self. listVisible (st_db s') self = listVisible (st_db (sv_store sv)) self" "DefaultAllow s' = DefaultAllow (sv_store sv2)"
    using reimported [OF assms(1,3,4)] by metis
  define sv' where "sv' = record_change now' r ''acl_import'' (''rules='' @ Itoa (int n) @ '' replace='' @ show_bool True)
    (Some ''acl_import'') (sv2\<lparr>sv_store := s'\<rparr>)"
  have kept: "peers (st_db (sv_store sv')) = peers (st_db s')" "acl_rules (st_db (sv_store sv')) = acl_rules (st_db s')"
      "DefaultAllow (sv_store sv') = DefaultAllow s'"
    by (simp_all add: sv'_def record_change_store)
  have list: "ListACLRules (sv_store sv') = ListACLRules s'" "listVisible (st_db (sv_store sv')) = listVisible (st_db s')"
    by (simp_all add: ListACLRules_def kept rule_readers(1) [OF kept(1)] fun_eq_iff rule_readers(2) [OF kept(1)])
  have doc: "ex_Rules doc = ListACLRules (sv_store sv)"
    using assms(2) by (auto simp: handleExportACL_def Let_def)
  have "handleImportACL env now' (Inr \<lparr>im_Replace = None, im_Rules = ex_Rules doc\<rparr>) r sv2 =
      (sv', Reply (defaultPolicyName sv', ListACLRules (sv_store sv')))"
    by (simp only: handleImportACL_def sum.case aclImportRequest.simps coalesce.simps Let_def doc run prod.case sv'_def)
  then show ?thesis using s' by (auto simp: doc list defaultPolicyName_def kept(3))
qed

definition demo_wg_env :: env where
  "demo_wg_env = \<lparr>e_sha256 = (\<lambda>_. ''h''), e_argon2 = demo_argon,
     e_wg = \<lparr>ParseKey = Some, KeyString = StdEncode, PublicKeyOf = (\<lambda>k. k)\<rparr>, e_resolves = (\<lambda>_. True),
     e_errText = (\<lambda>_. []), e_quote = (\<lambda>s. s), e_os = \<lparr>os_busy = (\<lambda>_. False), os_ephemeral = (\<lambda>_. None)\<rparr>\<rparr>"

text \<open>The export of a server with one rule, imported after that rule has been deleted.\<close>

definition demo_emptied :: server where
  "demo_emptied = demo_server\<lparr>sv_store := demo_store2\<lparr>st_db := (st_db demo_store2)\<lparr>acl_rules := []\<rparr>\<rparr>\<rparr>"

lemma demo_emptied_inv: "store_inv (demo_store2\<lparr>st_db := (st_db demo_store2)\<lparr>acl_rules := []\<rparr>\<rparr>)"
  by code_simp

theorem acl_export_import_witness:
  "\<exists>sv' rules doc. handleExportACL 0 demo_server = (demo_server, Reply doc) \<and> length (ex_Rules doc) = 1 \<and>
     handleImportACL demo_wg_env 5 (Inr \<lparr>im_Replace = None, im_Rules = ex_Rules doc\<rparr>) demo_request demo_emptied =
       (sv', Reply (''deny'', rules)) \<and> length (ListACLRules (sv_store sv')) = 1"
proof -
  obtain doc where e: "handleExportACL 0 demo_server = (demo_server, Reply doc)"
    by (simp add: handleExportACL_def Let_def)
  have d: "length (ex_Rules doc) = 1" "defaultPolicyName demo_emptied = ''deny''"
    using e by (auto simp: handleExportACL_def Let_def ListACLRules_def defaultPolicyName_def demo_server_def demo_store2_def
        demo_emptied_def)
  have inv: "store_inv (sv_store demo_server)" "store_inv (sv_store demo_emptied)"
    "peers (st_db (sv_store demo_emptied)) = peers (st_db (sv_store demo_server))"
    by (simp_all add: demo_server_def demo_store2_inv demo_emptied_def demo_emptied_inv)
  from acl_export_import [OF inv(1) e inv(2,3), of demo_wg_env 5 demo_request] obtain sv' rules where
    i: "handleImportACL demo_wg_env 5 (Inr \<lparr>im_Replace = None, im_Rules = ex_Rules doc\<rparr>) demo_request demo_emptied =
       (sv', Reply (''deny'', rules))"
    "rules = ListACLRules (sv_store sv')" "map rule_content rules = map rule_content (ex_Rules doc)"
    unfolding d(2) by blast
  have "length (ListACLRules (sv_store sv')) = 1" using i(2,3) d(1) map_eq_imp_length_eq by metis
  with e d(1) i(1) show ?thesis by blast
qed

subsection \<open>The two ends of a relay pair\<close>

lemma audit_keeps [simp]:
  "peers (st_db (sv_store (audit now r rc event status detail sv))) = peers (st_db (sv_store sv))"
  "TokenTTL (sv_store (audit now r rc event status detail sv)) = TokenTTL (sv_store sv)"
  "sv_relay (audit now r rc event status detail sv) = sv_relay sv"
  "sv_relayHost (audit now r rc event status detail sv) = sv_relayHost sv"
  by (auto simp: audit_def Logs.Audit_def Let_def ensureE_def split: sum.split)

definition pair_endpoint :: "server \<Rightarrow> string \<Rightarrow> string \<Rightarrow> nat \<Rightarrow> nat \<Rightarrow> string" where
  "pair_endpoint sv self other portA portB = JoinHostPort (sv_relayHost sv) (Itoa (int (if other < self then portB else portA)))"

lemma handleRelayPair_eq:
  assumes "store_inv (sv_store sv)" "bearer r = Some token"
    "AuthenticatePeer (e_sha256 env) now token (sv_store sv) = Inr (p_id p, ip)" "p \<in> set (peers (st_db (sv_store sv)))"
    "q \<in> set (peers (st_db (sv_store sv)))" "p_revoked_at q = None" "p_public_key q \<noteq> []" "sv_relay sv = Some relay"
  shows "handleRelayPair env now (Inr (p_public_key q)) r sv =
    (case Allocate (e_os env) now (relayPairID (e_sha256 env) (p_public_key p) (p_public_key q)) relay of
       Inl e \<Rightarrow> (sv, if e = ErrPortsExhausted then Error 503 ''relay port range exhausted'' else Error 502 ''relay unavailable'')
     | Inr (relay', portA, portB) \<Rightarrow>
         let endpoint = pair_endpoint sv (p_public_key p) (p_public_key q) portA portB
         in (audit now r (p_id p, ip) ''relay_pair'' 200 (''udp relay via '' @ endpoint) (sv\<lparr>sv_relay := Some relay'\<rparr>), Reply endpoint))"
proof -
  have "distinct (map p_id (peers (st_db (sv_store sv))))"
    using store_invD(1) [OF assms(1)] by (simp add: db_inv_def rowids_distinct)
  then have "peer_by_id (p_id p) (st_db (sv_store sv)) = Some p" using assms(4) by (simp add: peer_by_id_Some)
  moreover have "filter (\<lambda>x. p_public_key x = p_public_key q \<and> p_revoked_at x = None) (peers (st_db (sv_store sv))) \<noteq> []"
    using assms(5,6) by (auto simp: filter_empty_conv)
  ultimately have keys: "RelayPairKeys (p_id p) (p_public_key q) (sv_store sv) = Inr (p_public_key p, True)"
    by (simp add: RelayPairKeys_def)
  show ?thesis unfolding handleRelayPair_def
    by (simp only: assms(2,3,7,8) keys option.case sum.case prod.case if_False not_True_eq_False Let_def pair_endpoint_def)
qed

lemma audit_inv: "store_inv (sv_store sv) \<Longrightarrow> store_inv (sv_store (audit now r rc event status detail sv))"
  using Audit_inv by (auto simp: audit_def Let_def split: sum.split)

lemma AuthenticatePeer_cong:
  assumes "peers (st_db s') = peers (st_db s)" "TokenTTL s' = TokenTTL s"
  shows "AuthenticatePeer sha256 now token s' = AuthenticatePeer sha256 now token s"
  unfolding AuthenticatePeer_def assms ..

lemma authenticated_active:
  assumes "store_inv s" "AuthenticatePeer sha256 now token s = Inr (p_id p, ip)" "p \<in> set (peers (st_db s))"
  shows "p_revoked_at p = None"
proof -
  have "distinct (map p_id (peers (st_db s)))" using store_invD(1) [OF assms(1)] by (simp add: db_inv_def rowids_distinct)
  with authenticate_Inr [OF assms(2)] assms(3) show ?thesis by (metis distinct_map_eqD)
qed

text \<open>
  C18: The two ends of a pair meet on one relay session. When an agent has been given its relay
  endpoint for another agent and that agent then asks for the first one, it is answered too: both
  endpoints belong to the same pair of the relay, the smaller key on port A and the larger on port B, and
  the ports differ, so that what one end sends reaches the port the other end listens behind.
\<close>

theorem relay_pair_meets:
  assumes "store_inv (sv_store sv)" "sv_relay sv = Some relay" "relay_inv relay" "os_ok (e_os env)"
    and "p \<in> set (peers (st_db (sv_store sv)))" "q \<in> set (peers (st_db (sv_store sv)))"
    and "p_public_key p < p_public_key q \<or> p_public_key q < p_public_key p" "[] \<notin> {p_public_key p, p_public_key q}"
    and "bearer r = Some t" "AuthenticatePeer (e_sha256 env) now t (sv_store sv) = Inr (p_id p, ip)"
    and "bearer r' = Some t'" "AuthenticatePeer (e_sha256 env) now' t' (sv_store sv) = Inr (p_id q, ip')"
    and "handleRelayPair env now (Inr (p_public_key q)) r sv = (sv1, Reply endpoint)"
  shows "\<exists>sv2 relay2 pair. let a = min (p_public_key p) (p_public_key q);
      at = (\<lambda>k. JoinHostPort (sv_relayHost sv) (Itoa (int (if k = a then pr_portA pair else pr_portB pair)))) in
    handleRelayPair env now' (Inr (p_public_key p)) r' sv1 = (sv2, Reply (at (p_public_key q))) \<and>
    endpoint = at (p_public_key p) \<and> sv_relay sv2 = Some relay2 \<and> pr_portA pair \<noteq> pr_portB pair \<and>
    map_of (rs_pairs relay2) (relayPairID (e_sha256 env) (p_public_key p) (p_public_key q)) = Some pair"
proof -
  let ?P = "p_public_key p" and ?Q = "p_public_key q"
  let ?id = "relayPairID (e_sha256 env) ?P ?Q"
  have act: "p_revoked_at p = None" "p_revoked_at q = None" and ne: "?P \<noteq> []" "?Q \<noteq> []"
    using authenticated_active assms(1,5,6,8,10,12) by auto
  note call1 = handleRelayPair_eq [OF assms(1,9,10,5,6) act(2) ne(2) assms(2)]
  obtain relay1 a b where al: "Allocate (e_os env) now ?id relay = Inr (relay1, a, b)"
    using assms(13) unfolding call1 by (auto simp: Let_def split: sum.splits if_splits)
  define sv0 where "sv0 = sv\<lparr>sv_relay := Some relay1\<rparr>"
  have sv1: "sv1 = audit now r (p_id p, ip) ''relay_pair'' 200 (''udp relay via '' @ endpoint) sv0"
    and e: "endpoint = pair_endpoint sv ?P ?Q a b"
    using assms(13) unfolding call1 al sv0_def by (auto simp: Let_def)
  obtain pair where pair: "map_of (rs_pairs relay1) ?id = Some pair" "pr_portA pair = a" "pr_portB pair = b" "a \<noteq> b"
    using Allocate_inv [OF assms(4,3) al] by blast
  have same: "peers (st_db (sv_store sv1)) = peers (st_db (sv_store sv))" "TokenTTL (sv_store sv1) = TokenTTL (sv_store sv)"
      "sv_relay sv1 = Some relay1" "sv_relayHost sv1 = sv_relayHost sv"
    unfolding sv1 by (simp_all add: sv0_def)
  have inv1: "store_inv (sv_store sv1)" unfolding sv1 by (rule audit_inv) (simp add: sv0_def assms(1))
  note call2 = handleRelayPair_eq [OF inv1 assms(11) _ _ _ act(1) ne(1) same(3), of env now' q ip',
      unfolded same AuthenticatePeer_cong [OF same(1,2)], OF assms(12,6,5)]
  let ?pair2 = "touch now' pair" and ?relay2 = "set_pair ?id (touch now' pair) relay1"
  have al2: "Allocate (e_os env) now' (relayPairID (e_sha256 env) ?Q ?P) relay1 = Inr (?relay2, a, b)"
    using pair by (simp add: relayPairID_commute [of _ ?Q ?P] Allocate_def)
  have ports: "(if ?Q < ?P then b else a) = (if ?P = min ?P ?Q then a else b)"
      "(if ?P < ?Q then b else a) = (if ?Q = min ?P ?Q then a else b)"
    using assms(7) by (auto simp: min_def)
  define sv2 where "sv2 = audit now' r' (p_id q, ip') ''relay_pair'' 200 (''udp relay via '' @ pair_endpoint sv1 ?Q ?P a b)
    (sv1\<lparr>sv_relay := Some ?relay2\<rparr>)"
  have "handleRelayPair env now' (Inr ?P) r' sv1 = (sv2, Reply (pair_endpoint sv1 ?Q ?P a b))"
    by (simp only: call2 al2 sum.case prod.case Let_def sv2_def)
  moreover have "sv_relay sv2 = Some ?relay2" by (simp add: sv2_def)
  moreover have "map_of (rs_pairs ?relay2) ?id = Some ?pair2" using pair by (simp add: map_of_set_pair)
  moreover have "pr_portA ?pair2 = a" "pr_portB ?pair2 = b" using pair by (simp_all add: touch_def)
  ultimately show ?thesis
    using pair(4) by (intro exI [of _ sv2] exI [of _ ?relay2] exI [of _ ?pair2])
      (simp add: Let_def e pair_endpoint_def same(4) ports)
qed

definition demo_pair_env :: env where
  "demo_pair_env = demo_wg_env\<lparr>e_sha256 := (\<lambda>x. x)\<rparr>"

definition demo_caller :: "string \<Rightarrow> request" where
  "demo_caller token = demo_request\<lparr>rq_Authorization := ''Bearer '' @ token\<rparr>"

definition demo_pair_relay :: relay_server where
  "demo_pair_relay = \<lparr>rs_cfg = \<lparr>PortMin = 40000, PortMax = 40001\<rparr>, rs_pairs = []\<rparr>"

lemma demo_allocates:
  "\<exists>relay'. Allocate (e_os demo_pair_env) t i demo_pair_relay = Inr (relay', 40000, 40001)"
  by (simp add: demo_pair_env_def demo_wg_env_def demo_pair_relay_def Allocate_def listenUDP_def held_def upt_conv_Cons Let_def)

theorem relay_pair_meets_witness:
  "\<exists>sv1 sv2 endpoint'. handleRelayPair demo_pair_env 0 (Inr ''pkB'') (demo_caller ''h'') (demo_server\<lparr>sv_relay := Some demo_pair_relay\<rparr>) =
      (sv1, Reply ''relay:40000'') \<and>
    handleRelayPair demo_pair_env 5 (Inr ''pkA'') (demo_caller ''i'') sv1 = (sv2, Reply endpoint')"
proof -
  let ?sv = "demo_server\<lparr>sv_relay := Some demo_pair_relay\<rparr>"
  have st: "sv_store ?sv = demo_store2" "store_inv demo_store2" "sv_relay ?sv = Some demo_pair_relay" "sv_relayHost ?sv = ''relay''"
    by (simp_all add: demo_server_def demo_store2_inv)
  have mem: "demo_peer \<in> set (peers (st_db demo_store2))" "demo_peer2 \<in> set (peers (st_db demo_store2))"
    by (simp_all add: demo_store2_def)
  have p: "p_public_key demo_peer = ''pkA''" "p_public_key demo_peer2 = ''pkB''" "p_id demo_peer = 1" "p_id demo_peer2 = 2"
      "p_revoked_at demo_peer2 = None"
    by (simp_all add: demo_peer_def demo_peer2_def)
  have auth: "AuthenticatePeer (e_sha256 demo_pair_env) 0 ''h'' demo_store2 = Inr (1, ''100.64.0.1'')"
      "AuthenticatePeer (e_sha256 demo_pair_env) 5 ''i'' demo_store2 = Inr (2, ''100.64.0.2'')"
    by code_simp+
  have tok: "bearer (demo_caller ''h'') = Some ''h''" "bearer (demo_caller ''i'') = Some ''i''" by code_simp+
  have less: "''pkA'' < ''pkB''" "\<not> ''pkB'' < ''pkA''" "min ''pkA'' ''pkB'' = ''pkA''" by code_simp+
  obtain relay' where al: "Allocate (e_os demo_pair_env) 0 (relayPairID (e_sha256 demo_pair_env) ''pkA'' ''pkB'') demo_pair_relay =
      Inr (relay', 40000, 40001)" using demo_allocates by blast
  have e: "pair_endpoint ?sv ''pkA'' ''pkB'' 40000 40001 = ''relay:40000''" by code_simp
  obtain sv1 where c1: "handleRelayPair demo_pair_env 0 (Inr ''pkB'') (demo_caller ''h'') ?sv = (sv1, Reply ''relay:40000'')"
    using handleRelayPair_eq [of ?sv "demo_caller ''h''" "''h''" demo_pair_env 0 demo_peer "''100.64.0.1''" demo_peer2 demo_pair_relay]
      st mem tok auth p al e by (auto simp: Let_def)
  have os: "os_ok (e_os demo_pair_env)" "relay_inv demo_pair_relay"
    by (simp_all add: os_ok_def demo_pair_env_def demo_wg_env_def relay_inv_def demo_pair_relay_def held_def)
  have "\<exists>sv2 relay2 pair. let a = min (p_public_key demo_peer) (p_public_key demo_peer2);
      at = (\<lambda>k. JoinHostPort (sv_relayHost ?sv) (Itoa (int (if k = a then pr_portA pair else pr_portB pair)))) in
    handleRelayPair demo_pair_env 5 (Inr (p_public_key demo_peer)) (demo_caller ''i'') sv1 =
      (sv2, Reply (at (p_public_key demo_peer2))) \<and>
    ''relay:40000'' = at (p_public_key demo_peer) \<and> sv_relay sv2 = Some relay2 \<and> pr_portA pair \<noteq> pr_portB pair \<and>
    map_of (rs_pairs relay2) (relayPairID (e_sha256 demo_pair_env) (p_public_key demo_peer) (p_public_key demo_peer2)) = Some pair"
    by (rule relay_pair_meets [where ip = "''100.64.0.1''" and ip' = "''100.64.0.2''"]) (use st mem tok auth p os less c1 in simp_all)
  with c1 show ?thesis by (auto simp: Let_def p)
qed

end
