(* ===== verification/DeviceConfig.thy ===== *)
theory DeviceConfig
  imports AdminApi
begin

section \<open>Devices without an agent\<close>

text \<open>
  mobile.go of cmd/server and internal/keyseal: registering a plain WireGuard device behind a gateway
  agent, sealing the private key the server generated for it, and showing its configuration again.
  AES-GCM is the parameter \<open>aead\<close>; the subkey is derived from the master secret with the HKDF of
  \<open>Punch\<close>. The drawn values (private key, nonce, the setup key and token of the row) are the record \<open>drawn\<close>.
\<close>

subsection \<open>Sealed keys (keyseal.go)\<close>

record aead =
  gcm_Seal :: "string \<Rightarrow> string \<Rightarrow> string \<Rightarrow> string \<Rightarrow> string"
  gcm_Open :: "string \<Rightarrow> string \<Rightarrow> string \<Rightarrow> string \<Rightarrow> string option"

definition gcm_NonceSize :: nat where
  "gcm_NonceSize = 12"

definition sealing_key :: "(string \<Rightarrow> string) \<Rightarrow> string \<Rightarrow> string" where
  "sealing_key sha256 master = hkdf_key32 sha256 master ''wgmesh-device-key:v1''"

definition Seal :: "aead \<Rightarrow> string \<Rightarrow> string \<Rightarrow> string \<Rightarrow> string \<Rightarrow> string" where
  "Seal c key nonce binding plaintext = StdEncode (nonce @ gcm_Seal c key nonce plaintext binding)"

definition Open :: "aead \<Rightarrow> string \<Rightarrow> string \<Rightarrow> string \<Rightarrow> string option" where
  "Open c key binding sealed =
     (case StdDecode sealed of
        None \<Rightarrow> None
      | Some raw \<Rightarrow>
          if length raw < gcm_NonceSize then None
          else gcm_Open c key (take gcm_NonceSize raw) (drop gcm_NonceSize raw) binding)"

text \<open>What the documentation of \<open>cipher.AEAD\<close> promises: opening with the same arguments reverses sealing.\<close>

definition aead_ok :: "aead \<Rightarrow> bool" where
  "aead_ok c \<longleftrightarrow> (\<forall>key nonce plaintext binding. length nonce = gcm_NonceSize \<longrightarrow>
     gcm_Open c key nonce (gcm_Seal c key nonce plaintext binding) binding = Some plaintext)"

lemma Open_Seal:
  assumes "aead_ok c" "length nonce = gcm_NonceSize"
  shows "Open c key binding (Seal c key nonce binding plaintext) = Some plaintext"
  using assms by (simp add: Open_def Seal_def StdDecode_Encode aead_ok_def)

subsection \<open>Requests (mobile.go)\<close>

record createMobilePeerRequest =
  mr_Name :: string
  mr_PublicKey :: string
  mr_PrivateKey :: string
  mr_GatewayPublicKey :: string
  mr_GatewayEndpoint :: string

record mobilePeerResponse =
  mp_Peer :: peerJSON
  mp_Config :: string
  mp_PrivateKey :: string
  mp_PresharedKey :: string
  mp_Warnings :: "string list"

record drawn =
  dr_privateKey :: string
  dr_nonce :: string
  dr_rawKey :: string
  dr_rawToken :: string

definition parseMobileKeys ::
  "wgtypes \<Rightarrow> string \<Rightarrow> string \<Rightarrow> string \<Rightarrow> (nat \<times> string) + string \<times> string \<times> bool" where
  "parseMobileKeys wg generatedKey rawPrivate rawPublic =
     (let rawPrivate = TrimSpace rawPrivate; rawPublic = TrimSpace rawPublic
      in if rawPrivate = [] \<and> rawPublic = []
         then Inr (generatedKey, KeyString wg (PublicKeyOf wg generatedKey), True)
         else if rawPrivate = []
         then (if ParseKey wg rawPublic = None then Inl (400, ''public_key must be a WireGuard public key'')
               else Inl (400, ''private_key is required when public_key is supplied so an importable mobile config can be returned''))
         else case ParseKey wg rawPrivate of
             None \<Rightarrow> Inl (400, ''private_key must be a WireGuard private key'')
           | Some key \<Rightarrow>
               let derived = KeyString wg (PublicKeyOf wg key)
               in if rawPublic \<noteq> [] \<and> rawPublic \<noteq> derived then Inl (400, ''public_key does not match private_key'')
                  else Inr (key, derived, False))"

definition validateMobileEndpoint :: "string \<Rightarrow> string option" where
  "validateMobileEndpoint endpoint =
     (let endpoint = TrimSpace endpoint
      in if endpoint = [] then Some ''gateway_endpoint is required''
         else case SplitHostPort endpoint of
             None \<Rightarrow> Some ''gateway_endpoint must be host:port, with IPv6 hosts in brackets''
           | Some (host, portRaw) \<Rightarrow>
               if TrimSpace host = [] then Some ''gateway_endpoint host is required''
               else case ParseInt portRaw of
                   None \<Rightarrow> Some ''gateway_endpoint port must be between 1 and 65535''
                 | Some port \<Rightarrow>
                     if port < 1 \<or> 65535 < port then Some ''gateway_endpoint port must be between 1 and 65535''
                     else None)"

definition gatewayLabel :: "PeerInfo \<Rightarrow> string" where
  "gatewayLabel g =
     (if pi_Hostname g \<noteq> [] then pi_Hostname g
      else let key = pi_PublicKey g;
               key = (if 12 < length key then take 12 key @ map byte [226, 128, 166] else key)
           in ''peer '' @ Itoa (pi_ID g) @ '' ('' @ key @ '')'')"

definition activePeerByPublicKey :: "string \<Rightarrow> store \<Rightarrow> PeerInfo option" where
  "activePeerByPublicKey publicKey s =
     List.find (\<lambda>p. pi_PublicKey p = publicKey \<and> pi_RevokedAt p = []) (ListPeers s)"

definition newline :: string where
  "newline = [byte 10]"

definition mobileWireGuardConfig ::
  "server \<Rightarrow> PeerInfo \<Rightarrow> string \<Rightarrow> string \<Rightarrow> string \<Rightarrow> string \<Rightarrow> DNSConfig \<Rightarrow> string" where
  "mobileWireGuardConfig sv peer privateKey gatewayPublicKey pairPSK endpoint dnsCfg =
     (let addresses = [pi_AssignedIP peer @ ''/32''] @
            (if pi_AssignedIP6 peer \<noteq> [] then [pi_AssignedIP6 peer @ ''/128''] else []);
          (cidr, cidr6) = currentNetworkConfig sv;
          allowed = [cidr] @ (if cidr6 \<noteq> [] then [cidr6] else [])
      in ''[Interface]'' @ newline @
         ''PrivateKey = '' @ privateKey @ newline @
         ''Address = '' @ join_with '', '' addresses @ newline @
         (if dc_Enabled dnsCfg \<and> dc_Nameservers dnsCfg \<noteq> []
          then ''DNS = '' @ join_with '', '' (dc_Nameservers dnsCfg) @ newline else []) @
         newline @
         ''[Peer]'' @ newline @
         ''PublicKey = '' @ gatewayPublicKey @ newline @
         ''PresharedKey = '' @ pairPSK @ newline @
         ''Endpoint = '' @ TrimSpace endpoint @ newline @
         ''AllowedIPs = '' @ join_with '', '' allowed @ newline @
         ''PersistentKeepalive = '' @ Itoa (keepaliveOrDefault sv) @ newline)"

definition staticPeerWarnings :: "env \<Rightarrow> server \<Rightarrow> PeerInfo \<Rightarrow> PeerInfo \<Rightarrow> string list" where
  "staticPeerWarnings env sv peer gateway =
     [''Mobile/static WireGuard peers cannot use wgmesh WebSocket relay or live signal sync; the selected gateway endpoint must be reachable over UDP.'',
      ''Traffic is routed (not NAT'' @ [CHR 0x27] @ ''d) through gateway peer '' @ e_quote env (gatewayLabel gateway) @
      '', so this mobile keeps its overlay source IP '' @ pi_AssignedIP peer @
      '' end-to-end. That agent must run on Linux with IP forwarding permitted (it is enabled automatically).''] @
     (if DefaultAllow (sv_store sv) then []
      else [''Your ACL default policy is deny; add an ACL rule that allows this mobile peer to the gateway/services it should reach.''])"

subsection \<open>Handlers\<close>

definition create_device ::
  "env \<Rightarrow> aead \<Rightarrow> time \<Rightarrow> drawn \<Rightarrow> createMobilePeerRequest \<Rightarrow> string \<Rightarrow> string \<Rightarrow> bool \<Rightarrow> PeerInfo \<Rightarrow> request \<Rightarrow> server
   \<Rightarrow> server \<times> mobilePeerResponse response" where
  "create_device env c now dr q privateKey publicKey generated gateway r sv =
     (let key = sealing_key (e_sha256 env) (sv_pskMaster sv);
          sealedKey = (if generated then Seal c key (dr_nonce dr) publicKey (KeyString (e_wg env) privateKey) else [])
      in case CreateStaticPeer (e_sha256 env) now (dr_rawKey dr) (dr_rawToken dr)
                \<lparr>sp_PublicKey = publicKey, sp_Hostname = mr_Name q, sp_GatewayPeerID = pi_ID gateway,
                 sp_PrivateKeyEnc = sealedKey, sp_GatewayEndpoint = TrimSpace (mr_GatewayEndpoint q)\<rparr> (sv_store sv) of
           Inl e \<Rightarrow> (sv, Error (if e = ErrPeerExists then 409 else 400) (e_errText env e))
         | Inr (s, peer) \<Rightarrow>
             let sv1 = sv\<lparr>sv_store := s\<rparr>;
                 pairKey = KeyString (e_wg env) (DerivePairKey (e_sha256 env) (sv_pskMaster sv) publicKey (pi_PublicKey gateway))
             in case CurrentDNSConfig s of
                  Inl _ \<Rightarrow> (sv1, Error 500 ''internal error'')
                | Inr dnsCfg \<Rightarrow>
                    (record_change now r ''mobile_peer_create''
                       (''peer id='' @ Itoa (pi_ID peer) @ '' gateway_peer='' @ Itoa (pi_ID gateway) @
                        '' endpoint='' @ mr_GatewayEndpoint q @ '' stored_key='' @ show_bool generated)
                       (Some ''mobile_peer_create'') sv1,
                     Reply \<lparr>mp_Peer = peerInfoJSON now peer,
                            mp_Config = mobileWireGuardConfig sv1 peer (KeyString (e_wg env) privateKey)
                              (pi_PublicKey gateway) pairKey (mr_GatewayEndpoint q) dnsCfg,
                            mp_PrivateKey = KeyString (e_wg env) privateKey, mp_PresharedKey = pairKey,
                            mp_Warnings = staticPeerWarnings env sv1 peer gateway @
                              (if generated then []
                               else [''You supplied the private key, so the control plane did not store it; this config cannot be shown again.''])\<rparr>))"

definition handleCreateMobilePeer ::
  "env \<Rightarrow> aead \<Rightarrow> time \<Rightarrow> drawn \<Rightarrow> createMobilePeerRequest body \<Rightarrow> request \<Rightarrow> server
   \<Rightarrow> server \<times> mobilePeerResponse response" where
  "handleCreateMobilePeer env c now dr req r sv =
     (case req of
        Inl (status, m) \<Rightarrow> (sv, Error status m)
      | Inr q \<Rightarrow>
          (case parseMobileKeys (e_wg env) (dr_privateKey dr) (mr_PrivateKey q) (mr_PublicKey q) of
             Inl (status, m) \<Rightarrow> (sv, Error status m)
           | Inr (privateKey, publicKey, generated) \<Rightarrow>
               let gatewayKey = TrimSpace (mr_GatewayPublicKey q)
               in if ParseKey (e_wg env) gatewayKey = None
                  then (sv, Error 400 ''gateway_public_key must be a WireGuard public key'')
                  else case validateMobileEndpoint (mr_GatewayEndpoint q) of
                      Some m \<Rightarrow> (sv, Error 400 m)
                    | None \<Rightarrow>
                        (case activePeerByPublicKey gatewayKey (sv_store sv) of
                           None \<Rightarrow> (sv, Error 400 ''gateway_public_key must match an active peer'')
                         | Some gateway \<Rightarrow>
                             if pi_PeerType gateway \<noteq> ''agent''
                             then (sv, Error 400 ''gateway_public_key must be a wgmesh agent, not a static/mobile peer'')
                             else create_device env c now dr q privateKey publicKey generated gateway r sv)))"

definition show_device ::
  "env \<Rightarrow> aead \<Rightarrow> time \<Rightarrow> PeerInfo \<Rightarrow> string \<Rightarrow> request \<Rightarrow> server \<Rightarrow> server \<times> mobilePeerResponse response" where
  "show_device env c now peer privateKey r sv =
     (case Peer (pi_GatewayPeerID peer) (sv_store sv) of
        Inl _ \<Rightarrow> (sv, Error 500 ''internal error'')
      | Inr gateway \<Rightarrow>
          let pairKey = KeyString (e_wg env) (DerivePairKey (e_sha256 env) (sv_pskMaster sv) (pi_PublicKey peer) (pi_PublicKey gateway))
          in case CurrentDNSConfig (sv_store sv) of
               Inl _ \<Rightarrow> (sv, Error 500 ''internal error'')
             | Inr dnsCfg \<Rightarrow>
                 (record_change now r ''mobile_peer_config_view''
                    (''peer id='' @ Itoa (pi_ID peer) @ '' gateway_peer='' @ Itoa (pi_ID gateway)) None sv,
                  Reply \<lparr>mp_Peer = peerInfoJSON now peer,
                         mp_Config = mobileWireGuardConfig sv peer privateKey (pi_PublicKey gateway) pairKey
                           (pi_GatewayEndpoint peer) dnsCfg,
                         mp_PrivateKey = [], mp_PresharedKey = pairKey,
                         mp_Warnings = staticPeerWarnings env sv peer gateway\<rparr>))"

definition handleStaticPeerConfig ::
  "env \<Rightarrow> aead \<Rightarrow> time \<Rightarrow> string \<Rightarrow> request \<Rightarrow> server \<Rightarrow> server \<times> mobilePeerResponse response" where
  "handleStaticPeerConfig env c now pathID r sv =
     (case ParseInt pathID of
        None \<Rightarrow> (sv, Error 400 ''invalid id'')
      | Some i \<Rightarrow>
          (case Peer i (sv_store sv) of
             Inl e \<Rightarrow> (sv, if e = ErrNotFound then Error 404 ''peer not found'' else Error 500 ''internal error'')
           | Inr peer \<Rightarrow>
               if pi_PeerType peer \<noteq> ''static''
               then (sv, Error 400 ''peer is a wgmesh agent, not a static WireGuard device'')
               else if pi_RevokedAt peer \<noteq> [] then (sv, Error 409 ''peer is revoked; its config would not connect'')
               else if pi_GatewayPeerID peer = 0
               then (sv, Error 409 ''peer has no gateway; its gateway agent was removed'')
               else case SealedPrivateKey i (sv_store sv) of
                   Inl e \<Rightarrow> (sv, if e = ErrNoStoredConfig
                       then Error 409 ''no stored key for this peer: it predates config storage, or its private key was supplied by the operator''
                       else Error 500 ''internal error'')
                 | Inr sealed \<Rightarrow>
                     (case Open c (sealing_key (e_sha256 env) (sv_pskMaster sv)) (pi_PublicKey peer) sealed of
                        None \<Rightarrow> (sv, Error 409 ''stored key cannot be decrypted; the network preshared key file may have changed since this peer was created'')
                      | Some privateKey \<Rightarrow> show_device env c now peer privateKey r sv)))"

subsection \<open>Showing a configuration again\<close>

text \<open>The row a registration leaves and what the lookups of the view find.\<close>

lemma CreateStaticPeer_row:
  assumes "store_inv s" "CreateStaticPeer sha256 now rawKey rawToken spec s = Inr (s', info)"
  obtains row where "peers (st_db s') = peers (st_db s) @ [row]" "peer_by_id (pi_ID info) (st_db s') = Some row"
    "getPeerInfo (pi_ID info) (st_db s') = Inr info" "p_public_key row = TrimSpace (sp_PublicKey spec)"
    "p_peer_type row = ''static''" "p_revoked_at row = None" "p_gateway_peer_id row = Some (sp_GatewayPeerID spec)"
    "p_private_key_enc row = nullable (sp_PrivateKeyEnc spec)" "p_gateway_endpoint row = nullable (sp_GatewayEndpoint spec)"
    "0 < sp_GatewayPeerID spec" "settings (st_db s') = settings (st_db s)" "DefaultAllow s' = DefaultAllow s"
proof -
  from assms(2) obtain ip ip6 where
    s': "s' = s\<lparr>st_db := with_static sha256 now rawKey rawToken spec (st_db s) ip ip6\<rparr>"
    by (rule CreateStaticPeer_Inr)
  have info: "getPeerInfo (next_rowid (map p_id (peers (st_db s)))) (st_db s') = Inr info" "0 < sp_GatewayPeerID spec"
    using assms(2) by (auto simp: CreateStaticPeer_def Let_def go_simps newAuthToken_def split: if_splits)
  obtain row where row: "peers (st_db s') = peers (st_db s) @ [row]" "p_id row = next_rowid (map p_id (peers (st_db s)))"
    "p_public_key row = TrimSpace (sp_PublicKey spec)" "p_peer_type row = ''static''" "p_revoked_at row = None"
    "p_gateway_peer_id row = Some (sp_GatewayPeerID spec)"
    "p_private_key_enc row = nullable (sp_PrivateKeyEnc spec)" "p_gateway_endpoint row = nullable (sp_GatewayEndpoint spec)"
    unfolding s' by (simp add: with_static_def Let_def static_row_def)
  have "distinct (map p_id (peers (st_db s')))"
    using store_invD(1) [OF CreateStaticPeer_inv [OF assms]] by (simp add: db_inv_def rowids_distinct)
  then have found: "peer_by_id (p_id row) (st_db s') = Some row" by (simp add: peer_by_id_Some row(1))
  have "pi_ID info = p_id row" using info(1) found row(2) by (auto simp: getPeerInfo_def scan_info_def)
  with found info row that show thesis by (simp add: s' with_static_def Let_def)
qed

lemma activePeerByPublicKey_peer:
  assumes "store_inv s" "activePeerByPublicKey key s = Some g"
  obtains p where "peer_by_id (pi_ID g) (st_db s) = Some p" "g = scan_info p"
proof -
  have "g \<in> set (ListPeers s)" using assms(2) by (auto simp: activePeerByPublicKey_def dest: find_Some_mem)
  then obtain p where p: "p \<in> set (peers (st_db s))" "g = scan_info p" by (auto simp: ListPeers_def)
  have "distinct (map p_id (peers (st_db s)))"
    using store_invD(1) [OF assms(1)] by (simp add: db_inv_def rowids_distinct)
  with p that show thesis by (simp add: peer_by_id_Some scan_info_def)
qed

lemma create_device_Reply:
  assumes "create_device env c now dr q privateKey publicKey generated gateway r sv = (sv', Reply out)"
  obtains s peer dnsCfg event detail where
    "CreateStaticPeer (e_sha256 env) now (dr_rawKey dr) (dr_rawToken dr)
       \<lparr>sp_PublicKey = publicKey, sp_Hostname = mr_Name q, sp_GatewayPeerID = pi_ID gateway,
        sp_PrivateKeyEnc = (if generated then Seal c (sealing_key (e_sha256 env) (sv_pskMaster sv)) (dr_nonce dr) publicKey
          (KeyString (e_wg env) privateKey) else []),
        sp_GatewayEndpoint = TrimSpace (mr_GatewayEndpoint q)\<rparr> (sv_store sv) = Inr (s, peer)"
    "CurrentDNSConfig s = Inr dnsCfg"
    "sv' = record_change now r event detail (Some event) (sv\<lparr>sv_store := s\<rparr>)"
    "mp_Peer out = peerInfoJSON now peer" "mp_PrivateKey out = KeyString (e_wg env) privateKey"
    "mp_PresharedKey out = KeyString (e_wg env) (DerivePairKey (e_sha256 env) (sv_pskMaster sv) publicKey (pi_PublicKey gateway))"
    "mp_Config out = mobileWireGuardConfig (sv\<lparr>sv_store := s\<rparr>) peer (KeyString (e_wg env) privateKey)
       (pi_PublicKey gateway) (mp_PresharedKey out) (mr_GatewayEndpoint q) dnsCfg"
  using assms that by (auto simp: create_device_def Let_def split: sum.splits)

lemma mobile_config_cong:
  assumes "sv_networkCIDR sv' = sv_networkCIDR sv" "sv_network6CIDR sv' = sv_network6CIDR sv"
    "sv_keepalive sv' = sv_keepalive sv" "TrimSpace e' = TrimSpace e"
    "pi_AssignedIP peer' = pi_AssignedIP peer" "pi_AssignedIP6 peer' = pi_AssignedIP6 peer"
  shows "mobileWireGuardConfig sv' peer' k g psk e' dns = mobileWireGuardConfig sv peer k g psk e dns"
  using assms by (simp add: mobileWireGuardConfig_def currentNetworkConfig_def keepaliveOrDefault_def)

text \<open>What a registration with a generated key has done when it is answered.\<close>

lemma generated_device:
  assumes "\<And>k. KeyString (e_wg env) k = StdEncode k" "store_inv (sv_store sv)"
    and "TrimSpace (mr_PrivateKey q) = []" "TrimSpace (mr_PublicKey q) = []"
    and "handleCreateMobilePeer env c now dr (Inr q) r sv = (sv', Reply out)"
  obtains gateway p s peer dns event detail row publicKey sealed where
    "sealed = Seal c (sealing_key (e_sha256 env) (sv_pskMaster sv)) (dr_nonce dr) publicKey (StdEncode (dr_privateKey dr))"
    "peer_by_id (pi_ID gateway) (st_db s) = Some p" "gateway = scan_info p" "0 < pi_ID gateway"
    "CurrentDNSConfig s = Inr dns" "sv' = record_change now r event detail (Some event) (sv\<lparr>sv_store := s\<rparr>)"
    "peer_by_id (pi_ID peer) (st_db s) = Some row" "getPeerInfo (pi_ID peer) (st_db s) = Inr peer"
    "p_public_key row = publicKey" "p_peer_type row = ''static''" "p_revoked_at row = None"
    "p_gateway_peer_id row = Some (pi_ID gateway)" "p_private_key_enc row = nullable sealed"
    "p_gateway_endpoint row = nullable (TrimSpace (mr_GatewayEndpoint q))" "mp_Peer out = peerInfoJSON now peer"
    "mp_PrivateKey out = StdEncode (dr_privateKey dr)"
    "mp_PresharedKey out = KeyString (e_wg env) (DerivePairKey (e_sha256 env) (sv_pskMaster sv) publicKey (pi_PublicKey gateway))"
    "mp_Config out = mobileWireGuardConfig (sv\<lparr>sv_store := s\<rparr>) peer (StdEncode (dr_privateKey dr))
       (pi_PublicKey gateway) (mp_PresharedKey out) (mr_GatewayEndpoint q) dns"
proof -
  define publicKey where "publicKey = StdEncode (PublicKeyOf (e_wg env) (dr_privateKey dr))"
  have pub: "TrimSpace publicKey = publicKey"
    unfolding publicKey_def by (rule TrimSpace_visible [OF StdEncode_visible])
  obtain gateway where gw: "activePeerByPublicKey (TrimSpace (mr_GatewayPublicKey q)) (sv_store sv) = Some gateway"
    and dev: "create_device env c now dr q (dr_privateKey dr) publicKey True gateway r sv = (sv', Reply out)"
    using assms(5) by (auto simp: handleCreateMobilePeer_def parseMobileKeys_def Let_def assms(1,3,4) publicKey_def
        split: sum.splits option.splits if_splits)
  let ?sealed = "Seal c (sealing_key (e_sha256 env) (sv_pskMaster sv)) (dr_nonce dr) publicKey (StdEncode (dr_privateKey dr))"
  let ?spec = "\<lparr>sp_PublicKey = publicKey, sp_Hostname = mr_Name q, sp_GatewayPeerID = pi_ID gateway,
     sp_PrivateKeyEnc = ?sealed, sp_GatewayEndpoint = TrimSpace (mr_GatewayEndpoint q)\<rparr>"
  obtain s peer dns event detail where
    st: "CreateStaticPeer (e_sha256 env) now (dr_rawKey dr) (dr_rawToken dr) ?spec (sv_store sv) = Inr (s, peer)"
    and dns: "CurrentDNSConfig s = Inr dns"
    and sv': "sv' = record_change now r event detail (Some event) (sv\<lparr>sv_store := s\<rparr>)"
    and out: "mp_Peer out = peerInfoJSON now peer" "mp_PrivateKey out = KeyString (e_wg env) (dr_privateKey dr)"
      "mp_PresharedKey out = KeyString (e_wg env) (DerivePairKey (e_sha256 env) (sv_pskMaster sv) publicKey (pi_PublicKey gateway))"
      "mp_Config out = mobileWireGuardConfig (sv\<lparr>sv_store := s\<rparr>) peer (KeyString (e_wg env) (dr_privateKey dr))
       (pi_PublicKey gateway) (mp_PresharedKey out) (mr_GatewayEndpoint q) dns"
    using dev by (rule create_device_Reply) (simp add: assms(1))
  from CreateStaticPeer_row [OF assms(2) st] obtain row where
    rows: "peers (st_db s) = peers (st_db (sv_store sv)) @ [row]" "peer_by_id (pi_ID peer) (st_db s) = Some row"
    and info: "getPeerInfo (pi_ID peer) (st_db s) = Inr peer"
    and row: "p_public_key row = publicKey" "p_peer_type row = ''static''" "p_revoked_at row = None"
      "p_gateway_peer_id row = Some (pi_ID gateway)" "p_private_key_enc row = nullable ?sealed"
      "p_gateway_endpoint row = nullable (TrimSpace (mr_GatewayEndpoint q))" "0 < pi_ID gateway"
    by (auto simp: pub)
  obtain p where p: "peer_by_id (pi_ID gateway) (st_db (sv_store sv)) = Some p" "gateway = scan_info p"
    using activePeerByPublicKey_peer [OF assms(2) gw] .
  then have gwp: "peer_by_id (pi_ID gateway) (st_db s) = Some p" by (simp add: peer_by_id_def rows(1) find_app)
  show thesis
    by (rule that [OF refl gwp p(2) row(7) dns sv' rows(2) info row(1-6) out(1) out(2) [unfolded assms(1)] out(3)
        out(4) [unfolded assms(1)]])
qed

text \<open>The view of a device whose key was sealed under the network key the server has.\<close>

lemma view_of_device:
  assumes "aead_ok c" "length nonce = gcm_NonceSize" "ParseInt pathID = Some i"
    and "peer_by_id i (st_db (sv_store sv)) = Some dev" "p_peer_type dev = ''static''" "p_revoked_at dev = None"
    and "p_private_key_enc dev =
      nullable (Seal c (sealing_key (e_sha256 env) (sv_pskMaster sv)) nonce (p_public_key dev) privateKey)"
    and "p_gateway_endpoint dev = nullable (TrimSpace endpoint)"
    and "p_gateway_peer_id dev = Some j" "0 < j" "peer_by_id j (st_db (sv_store sv)) = Some gw"
    and "CurrentDNSConfig (sv_store sv) = Inr dns"
  shows "\<exists>sv' shown. handleStaticPeerConfig env c now pathID r sv = (sv', Reply shown) \<and>
    mp_PresharedKey shown =
      KeyString (e_wg env) (DerivePairKey (e_sha256 env) (sv_pskMaster sv) (p_public_key dev) (p_public_key gw)) \<and>
    mp_Config shown = mobileWireGuardConfig sv (scan_info dev) privateKey (p_public_key gw) (mp_PresharedKey shown) endpoint dns"
proof -
  define sealed where "sealed = Seal c (sealing_key (e_sha256 env) (sv_pskMaster sv)) nonce (p_public_key dev) privateKey"
  define info where "info x = (scan_info x)\<lparr>pi_AdvertiseExitNode := False, pi_ExitNodePeerID := 0, pi_AgentVersion := []\<rparr>" for x
  have "sealed \<noteq> []" unfolding sealed_def Seal_def by (rule StdEncode_ne) (use assms(2) in \<open>auto simp: gcm_NonceSize_def\<close>)
  then have found: "SealedPrivateKey i (sv_store sv) = Inr sealed"
    using find_conj [OF assms(4) [unfolded peer_by_id_def], of "\<lambda>p. p_peer_type p = ''static''"] assms(5,7)
    by (simp add: SealedPrivateKey_def nullable_def sealed_def)
  have fields: "pi_PublicKey (info dev) = p_public_key dev" "pi_PeerType (info dev) = ''static''"
      "pi_RevokedAt (info dev) = []" "pi_GatewayPeerID (info dev) = j" "pi_GatewayEndpoint (info dev) = TrimSpace endpoint"
      "pi_PublicKey (info gw) = p_public_key gw"
    using assms(5,6,8,9) by (auto simp: scan_info_def nullable_def info_def)
  have looked: "Peer i (sv_store sv) = Inr (info dev)" "Peer j (sv_store sv) = Inr (info gw)"
    using assms(4,11) by (simp_all add: Peer_def getPeerInfo_def info_def)
  have "mobileWireGuardConfig sv (info dev) k g psk (TrimSpace endpoint) d =
      mobileWireGuardConfig sv (scan_info dev) k g psk endpoint d" for k g psk d
    by (rule mobile_config_cong) (simp_all add: info_def)
  with assms(10) show ?thesis
    by (simp add: handleStaticPeerConfig_def show_device_def assms(3,12) looked fields found sealed_def Let_def
        Open_Seal [OF assms(1,2)])
qed

text \<open>The columns of a device's row that its configuration can be rebuilt from, and may not change for it.\<close>

definition same_device :: "peer \<Rightarrow> peer \<Rightarrow> bool" where
  "same_device dev dev2 \<longleftrightarrow>
     p_public_key dev2 = p_public_key dev \<and> p_peer_type dev2 = p_peer_type dev \<and> p_revoked_at dev2 = p_revoked_at dev \<and>
     p_gateway_peer_id dev2 = p_gateway_peer_id dev \<and> p_private_key_enc dev2 = p_private_key_enc dev \<and>
     p_gateway_endpoint dev2 = p_gateway_endpoint dev"

text \<open>
  C17: A configuration can be shown again. When the server generated the key of a device, then on
  any later server \<open>sv2\<close> with the same network key, on which the device is still registered and not
  revoked, its gateway still has its key and the DNS settings can be read, the view of the device is
  answered: the sealed key opens to the private key handed out at the registration, the
  preshared key, the gateway's key and the endpoint are those of the registration, and the address, the
  networks, the keepalive and the DNS settings are the current ones. If these did not change either, it
  is the configuration that was handed out.
\<close>

theorem device_config_shown_again:
  assumes "aead_ok c" "length (dr_nonce dr) = gcm_NonceSize" "\<And>k. KeyString (e_wg env) k = StdEncode k"
    and "store_inv (sv_store sv)" "TrimSpace (mr_PrivateKey q) = []" "TrimSpace (mr_PublicKey q) = []"
    and "handleCreateMobilePeer env c now dr (Inr q) r sv = (sv', Reply out)"
    and "ParseInt pathID = Some (pj_ID (mp_Peer out))"
    and "peer_by_id (pj_ID (mp_Peer out)) (st_db (sv_store sv')) = Some dev"
      "peer_by_id (pj_ID (mp_Peer out)) (st_db (sv_store sv2)) = Some dev2" "same_device dev dev2"
    and "p_gateway_peer_id dev = Some j" "peer_by_id j (st_db (sv_store sv')) = Some gw"
      "peer_by_id j (st_db (sv_store sv2)) = Some gw2" "p_public_key gw2 = p_public_key gw"
    and "sv_pskMaster sv2 = sv_pskMaster sv" "CurrentDNSConfig (sv_store sv2) = Inr dns2"
  shows "\<exists>sv'' shown. handleStaticPeerConfig env c now' pathID r' sv2 = (sv'', Reply shown) \<and>
    mp_PresharedKey shown = mp_PresharedKey out \<and>
    mp_Config shown = mobileWireGuardConfig sv2 (scan_info dev2) (mp_PrivateKey out) (p_public_key gw)
      (mp_PresharedKey out) (mr_GatewayEndpoint q) dns2 \<and>
    (p_assigned_ip dev2 = p_assigned_ip dev \<and> p_assigned_ip6 dev2 = p_assigned_ip6 dev \<and>
     currentNetworkConfig sv2 = currentNetworkConfig sv' \<and> sv_keepalive sv2 = sv_keepalive sv' \<and>
     CurrentDNSConfig (sv_store sv') = Inr dns2 \<longrightarrow> mp_Config shown = mp_Config out)"
proof -
  obtain gateway p s peer dns event detail row publicKey sealed where
    sealed_eq: "sealed = Seal c (sealing_key (e_sha256 env) (sv_pskMaster sv)) (dr_nonce dr) publicKey (StdEncode (dr_privateKey dr))"
    and gw: "peer_by_id (pi_ID gateway) (st_db s) = Some p" "gateway = scan_info p" "0 < pi_ID gateway"
    and dns: "CurrentDNSConfig s = Inr dns" and sv': "sv' = record_change now r event detail (Some event) (sv\<lparr>sv_store := s\<rparr>)"
    and found: "peer_by_id (pi_ID peer) (st_db s) = Some row" "getPeerInfo (pi_ID peer) (st_db s) = Inr peer"
    and row: "p_public_key row = publicKey" "p_peer_type row = ''static''" "p_revoked_at row = None"
      "p_gateway_peer_id row = Some (pi_ID gateway)" "p_private_key_enc row = nullable sealed"
      "p_gateway_endpoint row = nullable (TrimSpace (mr_GatewayEndpoint q))"
    and out: "mp_Peer out = peerInfoJSON now peer" "mp_PrivateKey out = StdEncode (dr_privateKey dr)"
      "mp_PresharedKey out = KeyString (e_wg env) (DerivePairKey (e_sha256 env) (sv_pskMaster sv) publicKey (pi_PublicKey gateway))"
      "mp_Config out = mobileWireGuardConfig (sv\<lparr>sv_store := s\<rparr>) peer (StdEncode (dr_privateKey dr))
       (pi_PublicKey gateway) (mp_PresharedKey out) (mr_GatewayEndpoint q) dns"
    by (rule generated_device [OF assms(3-7)])
  have i: "pj_ID (mp_Peer out) = pi_ID peer" by (simp add: out(1) peerInfoJSON_def split: prod.splits)
  have kept: "peer_by_id n (st_db (sv_store sv')) = peer_by_id n (st_db s)" "CurrentDNSConfig (sv_store sv') = Inr dns" for n
    using dns by (simp_all add: peer_by_id_def CurrentDNSConfig_def loadDNSConfig_def sv' record_change_store)
  have dev: "dev = row" "j = pi_ID gateway" "gw = p"
    using assms(9,12,13) found gw(1) row(4) by (auto simp: i kept)
  have peer: "pi_AssignedIP peer = pi_AssignedIP (scan_info row)" "pi_AssignedIP6 peer = pi_AssignedIP6 (scan_info row)"
    using found by (auto simp: getPeerInfo_def)
  have key: "pi_PublicKey gateway = p_public_key gw" using gw(2) dev(3) by (simp add: scan_info_def)
  have dev2: "p_public_key dev2 = publicKey" "p_peer_type dev2 = ''static''" "p_revoked_at dev2 = None"
      "p_gateway_peer_id dev2 = Some (pi_ID gateway)" "p_private_key_enc dev2 = nullable sealed"
      "p_gateway_endpoint dev2 = nullable (TrimSpace (mr_GatewayEndpoint q))"
    using assms(11) row unfolding same_device_def dev by simp_all
  have same: "mobileWireGuardConfig sv2 (scan_info dev2) k g psk e dns2 = mobileWireGuardConfig (sv\<lparr>sv_store := s\<rparr>) peer k g psk e dns"
    if "p_assigned_ip dev2 = p_assigned_ip dev" "p_assigned_ip6 dev2 = p_assigned_ip6 dev"
      "currentNetworkConfig sv2 = currentNetworkConfig sv'" "sv_keepalive sv2 = sv_keepalive sv'"
      "CurrentDNSConfig (sv_store sv') = Inr dns2" for k g psk e
  proof -
    have "dns2 = dns" using that(5) kept(2) by simp
    then show ?thesis
      using that(1-4) by (auto intro!: mobile_config_cong simp: dev peer sv' scan_info_def currentNetworkConfig_def)
  qed
  have "\<exists>sv'' shown. handleStaticPeerConfig env c now' pathID r' sv2 = (sv'', Reply shown) \<and>
      mp_PresharedKey shown = mp_PresharedKey out \<and>
      mp_Config shown = mobileWireGuardConfig sv2 (scan_info dev2) (mp_PrivateKey out) (p_public_key gw)
        (mp_PresharedKey out) (mr_GatewayEndpoint q) dns2"
    using view_of_device [OF assms(1,2,8,10) dev2(2,3) _ dev2(6,4) gw(3) assms(14) [unfolded dev(2)] assms(17)] dev2(1,5)
    by (fastforce simp: assms(15,16) sealed_eq out(2,3) key)
  then show ?thesis using same out(2,4) key by metis
qed

definition demo_aead :: aead where
  "demo_aead = \<lparr>gcm_Seal = (\<lambda>_ _ plaintext _. plaintext), gcm_Open = (\<lambda>_ _ ciphertext _. Some ciphertext)\<rparr>"

definition demo_drawn :: drawn where
  "demo_drawn = \<lparr>dr_privateKey = ''key'', dr_nonce = ''123456789012'', dr_rawKey = ''r'', dr_rawToken = ''t''\<rparr>"

definition demo_device :: createMobilePeerRequest where
  "demo_device = \<lparr>mr_Name = ''phone'', mr_PublicKey = [], mr_PrivateKey = [], mr_GatewayPublicKey = ''pkB'',
     mr_GatewayEndpoint = ''gw.example:51820 ''\<rparr>"

lemma demo_static_created:
  assumes "sp_PublicKey spec = StdEncode ''key''" "sp_GatewayPeerID spec = 2"
  shows "\<exists>s info. CreateStaticPeer (\<lambda>_. ''h'') 0 ''r'' ''t'' spec demo_store2 = Inr (s, info) \<and> pi_ID info = 3 \<and>
    settings (st_db s) = (\<lambda>_. None)"
proof -
  have t: "TrimSpace (sp_PublicKey spec) = StdEncode ''key''"
    unfolding assms(1) by (rule TrimSpace_visible [OF StdEncode_visible])
  have ne: "StdEncode ''key'' \<noteq> ''pkA''" "StdEncode ''key'' \<noteq> ''pkB''" "StdEncode ''key'' \<noteq> []" by code_simp+
  have k: "randomStaticSetupKey ''r'' \<notin> sk_key ` set (setup_keys (st_db demo_store2))"
    by (simp add: randomStaticSetupKey_def demo_store2_def demo_store_def demo_key_def)
  have f: "least_free (st_network demo_store2) (map p_assigned_ip (peers (st_db demo_store2))) 3" by code_simp
  let ?ip = "addr_String (nth_host (st_network demo_store2) 3)"
  let ?d = "with_static (\<lambda>_. ''h'') 0 ''r'' ''t'' spec (st_db demo_store2) ?ip []"
  have "CreateStaticPeer (\<lambda>_. ''h'') 0 ''r'' ''t'' spec demo_store2 =
    (if TrimSpace (sp_PublicKey spec) \<in> p_public_key ` set (peers (st_db demo_store2)) then Inl ErrPeerExists
     else let d' = ?d in bindE (getPeerInfo (next_rowid (map p_id (peers (st_db demo_store2)))) d')
       (\<lambda>info. Inr (demo_store2\<lparr>st_db := d'\<rparr>, info)))"
    by (rule CreateStaticPeer_effect [OF demo_store2_inv, where g = demo_peer2 and i = 3 and j = 0])
      (use t ne k f assms in \<open>simp_all add: demo_store2_def demo_store_def demo_peer_def demo_peer2_def v6Enabled_def network6_def\<close>)
  moreover have "TrimSpace (sp_PublicKey spec) \<notin> p_public_key ` set (peers (st_db demo_store2))"
    unfolding t using ne by (simp add: demo_store2_def demo_store_def demo_peer_def demo_peer2_def)
  moreover have "next_rowid (map p_id (peers (st_db demo_store2))) = 3"
    by (simp add: demo_store2_def demo_store_def demo_peer_def demo_peer2_def next_rowid_def)
  moreover have "peers ?d = peers (st_db demo_store2) @ [static_row 0 spec 3 2 ?ip []
      (HashToken (\<lambda>_. ''h'') (RawURLEncode ''t''))]"
    by (simp add: with_static_def Let_def demo_store2_def demo_store_def demo_peer_def demo_peer2_def demo_key_def
        next_rowid_def)
  ultimately show ?thesis
    by (simp add: getPeerInfo_def peer_by_id_def scan_info_def with_static_def Let_def demo_store2_def demo_store_def
        demo_peer_def demo_peer2_def empty_db_def)
qed

lemma demo_device_created:
  "\<exists>sv' out. handleCreateMobilePeer demo_wg_env demo_aead 0 demo_drawn (Inr demo_device) demo_request demo_server =
     (sv', Reply out) \<and> pj_ID (mp_Peer out) = 3"
proof -
  let ?sealed = "Seal demo_aead (sealing_key (\<lambda>_. ''h'') ''m'') ''123456789012'' (StdEncode ''key'') (StdEncode ''key'')"
  let ?spec = "\<lparr>sp_PublicKey = StdEncode ''key'', sp_Hostname = ''phone'', sp_GatewayPeerID = 2,
      sp_PrivateKeyEnc = ?sealed, sp_GatewayEndpoint = TrimSpace ''gw.example:51820 ''\<rparr>"
  obtain s info where cs: "CreateStaticPeer (\<lambda>_. ''h'') 0 ''r'' ''t'' ?spec demo_store2 = Inr (s, info)"
    "pi_ID info = 3" "settings (st_db s) = (\<lambda>_. None)"
    using demo_static_created [of ?spec] unfolding StaticPeer.simps by blast
  have "\<not> isl (loadDNSConfig empty_db)" by code_simp
  then obtain dns where dns: "loadDNSConfig (st_db s) = Inr dns"
    using cs(3) by (cases "loadDNSConfig empty_db") (auto simp: loadDNSConfig_def empty_db_def)
  have texts: "TrimSpace [] = []" "TrimSpace ''pkB'' = ''pkB''" "validateMobileEndpoint ''gw.example:51820 '' = None"
    by code_simp+
  have gw: "activePeerByPublicKey ''pkB'' demo_store2 = Some (scan_info demo_peer2)"
    by (simp add: activePeerByPublicKey_def ListPeers_def demo_store2_def demo_store_def demo_peer_def demo_peer2_def scan_info_def)
  have g: "pi_ID (scan_info demo_peer2) = 2" "pi_PeerType (scan_info demo_peer2) = ''agent''"
    by (simp_all add: scan_info_def demo_peer2_def demo_peer_def)
  show ?thesis
    using cs(1,2) dns
    by (simp add: handleCreateMobilePeer_def parseMobileKeys_def create_device_def demo_wg_env_def demo_device_def
        demo_drawn_def demo_server_def texts gw g Let_def CurrentDNSConfig_def peerInfoJSON_def split: prod.split)
qed

text \<open>The device is looked at after the overlay network has changed.\<close>

theorem device_config_shown_again_witness:
  "\<exists>sv' out sv'' shown dev (gw :: peer) dns.
     handleCreateMobilePeer demo_wg_env demo_aead 0 demo_drawn (Inr demo_device) demo_request demo_server = (sv', Reply out) \<and>
     handleStaticPeerConfig demo_wg_env demo_aead 5 ''3'' demo_request (sv'\<lparr>sv_networkCIDR := ''10.9.0.0/16''\<rparr>) =
       (sv'', Reply shown) \<and>
     mp_Config shown = mobileWireGuardConfig (sv'\<lparr>sv_networkCIDR := ''10.9.0.0/16''\<rparr>) (scan_info dev) (mp_PrivateKey out)
       (p_public_key gw) (mp_PresharedKey out) (mr_GatewayEndpoint demo_device) dns"
proof -
  obtain sv' out where c: "handleCreateMobilePeer demo_wg_env demo_aead 0 demo_drawn (Inr demo_device) demo_request
      demo_server = (sv', Reply out)" and i: "pj_ID (mp_Peer out) = 3"
    using demo_device_created by blast
  have texts: "TrimSpace [] = []" "ParseInt ''3'' = Some 3" by code_simp+
  have wg: "KeyString (e_wg demo_wg_env) k = StdEncode k" for k by (simp add: demo_wg_env_def)
  have inv: "store_inv (sv_store demo_server)" by (simp add: demo_server_def demo_store2_inv)
  have blank: "TrimSpace (mr_PrivateKey demo_device) = []" "TrimSpace (mr_PublicKey demo_device) = []"
    by (simp_all add: demo_device_def texts)
  obtain dev gw dns where rows: "peer_by_id 3 (st_db (sv_store sv')) = Some dev"
      "p_gateway_peer_id dev = Some (p_id gw)" "peer_by_id (p_id gw) (st_db (sv_store sv')) = Some gw"
      "CurrentDNSConfig (sv_store sv') = Inr dns" "sv_pskMaster sv' = sv_pskMaster demo_server"
  proof (rule generated_device [OF wg inv blank c])
    fix gateway p s peer dns event detail row publicKey sealed
    assume gw: "peer_by_id (pi_ID gateway) (st_db s) = Some p" "gateway = scan_info p"
      and dns: "CurrentDNSConfig s = Inr dns"
      and sv': "sv' = record_change 0 demo_request event detail (Some event) (demo_server\<lparr>sv_store := s\<rparr>)"
      and row: "peer_by_id (pi_ID peer) (st_db s) = Some row" "p_gateway_peer_id row = Some (pi_ID gateway)"
      and out: "mp_Peer out = peerInfoJSON 0 peer"
    have "pi_ID peer = 3" using i out by (simp add: peerInfoJSON_def split: prod.splits)
    moreover have "pi_ID gateway = p_id p" using gw(2) by (simp add: scan_info_def)
    ultimately show thesis
      using that [of row p dns] gw(1) dns row
      by (simp add: peer_by_id_def CurrentDNSConfig_def loadDNSConfig_def sv' record_change_store)
  qed
  let ?sv2 = "sv'\<lparr>sv_networkCIDR := ''10.9.0.0/16''\<rparr>"
  have "\<exists>sv'' shown. handleStaticPeerConfig demo_wg_env demo_aead 5 ''3'' demo_request ?sv2 = (sv'', Reply shown) \<and>
      mp_PresharedKey shown = mp_PresharedKey out \<and>
      mp_Config shown = mobileWireGuardConfig ?sv2 (scan_info dev) (mp_PrivateKey out) (p_public_key gw)
        (mp_PresharedKey out) (mr_GatewayEndpoint demo_device) dns \<and>
      (p_assigned_ip dev = p_assigned_ip dev \<and> p_assigned_ip6 dev = p_assigned_ip6 dev \<and>
       currentNetworkConfig ?sv2 = currentNetworkConfig sv' \<and> sv_keepalive ?sv2 = sv_keepalive sv' \<and>
       CurrentDNSConfig (sv_store sv') = Inr dns \<longrightarrow> mp_Config shown = mp_Config out)"
    by (rule device_config_shown_again [OF _ _ wg inv blank c, where j = "p_id gw" and ?gw2.0 = gw])
      (simp_all add: demo_aead_def aead_ok_def demo_drawn_def gcm_NonceSize_def same_device_def texts i rows)
  then show ?thesis using c by blast
qed

end
