(* ===== verification/AdminRuns.thy ===== *)
theory AdminRuns
  imports DeviceConfig
begin

section \<open>Histories of admin requests\<close>

text \<open>
  The admin routes of main.go as one dispatcher: every call that can change the server, behind
  \<open>requireAdmin\<close>. Shown here: when a request is all or nothing, that what it does is audited, and that
  no sequence of requests separates the networks the server announces from those it allocates from.
\<close>

record api =
  ap_env :: env
  ap_aead :: aead
  ap_parseDuration :: "string \<Rightarrow> duration option"
  ap_prefixErr :: "string \<Rightarrow> string"

datatype admin_call =
    CallCreateMobile "createMobilePeerRequest body"
  | CallStaticConfig string
  | CallUpdateAddress string "(string \<times> string) body"
  | CallSetExitNode string "int body"
  | CallRevokePeer string
  | CallRemovePeer string
  | CallCreateSetupKey "setupKeyRequest body"
  | CallRevokeSetupKey string
  | CallPreviewNetwork "networkMigrationRequest body"
  | CallApplyNetwork "networkMigrationRequest body"
  | CallUpdateDNS "DNSConfig body"
  | CallImportACL "aclImportRequest body"
  | CallCreateACL "ACLRule body"
  | CallDeleteACL string
  | CallCreateUser "(string \<times> string) body"
  | CallDeleteUser string

definition answered :: "server \<times> 'a response \<Rightarrow> server \<times> unit response" where
  "answered x = (case x of (sv, Reply _) \<Rightarrow> (sv, Reply ()) | (sv, Error status m) \<Rightarrow> (sv, Error status m))"

text \<open>\<open>raw\<close> are the random bytes a call draws for a setup key or a password salt.\<close>

fun admin_handler :: "api \<Rightarrow> time \<Rightarrow> string \<Rightarrow> drawn \<Rightarrow> admin_call \<Rightarrow> request \<Rightarrow> server \<Rightarrow> server \<times> unit response" where
  "admin_handler A now raw dr (CallCreateMobile req) r sv = answered (handleCreateMobilePeer (ap_env A) (ap_aead A) now dr req r sv)"
| "admin_handler A now raw dr (CallStaticConfig i) r sv = answered (handleStaticPeerConfig (ap_env A) (ap_aead A) now i r sv)"
| "admin_handler A now raw dr (CallUpdateAddress i req) r sv = answered (handleUpdatePeerAddress (ap_env A) now i req r sv)"
| "admin_handler A now raw dr (CallSetExitNode i req) r sv = answered (handleSetExitNode (ap_env A) now i req r sv)"
| "admin_handler A now raw dr (CallRevokePeer i) r sv = answered (handleRevokePeer now i r sv)"
| "admin_handler A now raw dr (CallRemovePeer i) r sv = answered (handleRemovePeer now i r sv)"
| "admin_handler A now raw dr (CallCreateSetupKey req) r sv =
     answered (handleCreateSetupKey (ap_env A) (ap_parseDuration A) now raw req r sv)"
| "admin_handler A now raw dr (CallRevokeSetupKey i) r sv = answered (handleRevokeSetupKey now i r sv)"
| "admin_handler A now raw dr (CallPreviewNetwork req) r sv =
     answered (handlePreviewNetworkMigration (ap_env A) (ap_prefixErr A) req sv)"
| "admin_handler A now raw dr (CallApplyNetwork req) r sv =
     answered (handleApplyNetworkMigration (ap_env A) (ap_prefixErr A) now req r sv)"
| "admin_handler A now raw dr (CallUpdateDNS req) r sv = answered (handleUpdateDNS (ap_env A) now req r sv)"
| "admin_handler A now raw dr (CallImportACL req) r sv = answered (handleImportACL (ap_env A) now req r sv)"
| "admin_handler A now raw dr (CallCreateACL req) r sv = answered (handleCreateACL (ap_env A) now req r sv)"
| "admin_handler A now raw dr (CallDeleteACL i) r sv = answered (handleDeleteACL now i r sv)"
| "admin_handler A now raw dr (CallCreateUser req) r sv = answered (handleCreateUser (ap_env A) raw now req r sv)"
| "admin_handler A now raw dr (CallDeleteUser i) r sv = answered (handleDeleteUser (ap_env A) now i r sv)"

definition admin_request :: "api \<Rightarrow> time \<Rightarrow> string \<Rightarrow> drawn \<Rightarrow> admin_call \<Rightarrow> request \<Rightarrow> server \<Rightarrow> server \<times> unit response" where
  "admin_request A now raw dr call = requireAdmin (ap_env A) now (admin_handler A now raw dr call)"

subsection \<open>One request\<close>

text \<open>The event a successful call is audited under; a preview is not audited.\<close>

fun call_event :: "admin_call \<Rightarrow> string option" where
  "call_event (CallCreateMobile _) = Some ''mobile_peer_create''"
| "call_event (CallStaticConfig _) = Some ''mobile_peer_config_view''"
| "call_event (CallUpdateAddress _ _) = Some ''peer_address_update''"
| "call_event (CallSetExitNode _ _) = Some ''peer_exit_node_update''"
| "call_event (CallRevokePeer _) = Some ''revoke''"
| "call_event (CallRemovePeer _) = Some ''peer_remove''"
| "call_event (CallCreateSetupKey _) = Some ''setup_key_create''"
| "call_event (CallRevokeSetupKey _) = Some ''revoke''"
| "call_event (CallPreviewNetwork _) = None"
| "call_event (CallApplyNetwork _) = Some ''network_migrate''"
| "call_event (CallUpdateDNS _) = Some ''dns_update''"
| "call_event (CallImportACL _) = Some ''acl_import''"
| "call_event (CallCreateACL _) = Some ''acl_create''"
| "call_event (CallDeleteACL _) = Some ''acl_delete''"
| "call_event (CallCreateUser _) = Some ''user_create''"
| "call_event (CallDeleteUser _) = Some ''user_delete''"

definition audit_length :: "store \<Rightarrow> nat" where
  "audit_length s = length (audit_log (st_db s))"

text \<open>
  What a handler of the interface promises: a refusal leaves the server as it is, a success
  is the audited version of a server \<open>sv1\<close> in which only the store and the announced networks differ.
\<close>

definition networks_agree :: "server \<Rightarrow> bool" where
  "networks_agree sv \<longleftrightarrow> sv_networkCIDR sv = prefix_String (network4 (sv_store sv)) \<and>
     sv_network6CIDR sv = cidr6_text (network6 (sv_store sv))"

definition server_inv :: "server \<Rightarrow> bool" where
  "server_inv sv \<longleftrightarrow> store_inv (sv_store sv) \<and> networks_agree sv"

definition audited :: "time \<Rightarrow> request \<Rightarrow> string \<Rightarrow> server \<Rightarrow> server \<Rightarrow> bool" where
  "audited now r event sv sv' \<longleftrightarrow>
     (\<exists>kept row. audit_log (st_db (sv_store sv')) = kept @ [row] \<and> length kept = audit_length (sv_store sv) \<and>
        a_event row = event \<and> a_at row = format_time now \<and> a_status row = 200 \<and> a_remote_ip row = nullable (clientIP sv r))"

lemma record_change_audited:
  assumes "audit_length (sv_store sv1) = audit_length (sv_store sv)" "clientIP sv1 r = clientIP sv r"
  shows "audited now r event sv (record_change now r event detail reason sv1)"
  using assms by (auto simp: audited_def record_change_store change_row_def new_audit_row_def audit_length_def)

lemma record_change_None: "audit now r anonymous event 200 detail sv = record_change now r event detail None sv"
  by (simp add: record_change_def)

lemma record_change_server_inv:
  "server_inv sv \<Longrightarrow> server_inv (record_change now r event detail reason sv)"
  using record_change_inv [of sv] by (simp add: server_inv_def networks_agree_def record_change_store network4_def network6_def)

lemma trusts_store [simp]: "trustsXFFFrom (sv\<lparr>sv_store := s\<rparr>) host = trustsXFFFrom sv host"
  by (cases "ParseAddr host") (simp_all add: trustsXFFFrom_def)

lemma clientIP_store [simp]: "clientIP (sv\<lparr>sv_store := s\<rparr>) r = clientIP sv r"
  unfolding clientIP_def trusts_store ..

definition change_ok :: "time \<Rightarrow> request \<Rightarrow> string \<Rightarrow> server \<Rightarrow> server \<Rightarrow> bool" where
  "change_ok now r event sv sv' \<longleftrightarrow> audited now r event sv sv' \<and> (server_inv sv \<longrightarrow> server_inv sv')"

definition handler_ok :: "time \<Rightarrow> request \<Rightarrow> string \<Rightarrow> server \<Rightarrow> server \<times> 'a response \<Rightarrow> bool" where
  "handler_ok now r event sv out \<longleftrightarrow>
     (case out of (sv', Error _ _) \<Rightarrow> sv' = sv | (sv', Reply _) \<Rightarrow> change_ok now r event sv sv')"

lemma handler_ok_simps [simp]:
  "handler_ok now r event sv (sv', Error status m) \<longleftrightarrow> sv' = sv"
  "handler_ok now r event sv (sv', Reply x) \<longleftrightarrow> change_ok now r event sv sv'"
  "handler_ok now r event sv (answered out) \<longleftrightarrow> handler_ok now r event sv out"
  by (auto simp: handler_ok_def answered_def split: prod.split response.split)

text \<open>
  The contract of a store operation towards its handler: it keeps the invariant, the number of
  audit rows and the networks.
\<close>

locale store_change =
  fixes op :: "store \<Rightarrow> store_error + store \<times> 'x"
  assumes keeps: "store_inv s \<Longrightarrow> op s = Inr (s', x) \<Longrightarrow>
    store_inv s' \<and> audit_length s' = audit_length s \<and> st_network s' = st_network s \<and> Network6 s' = Network6 s"
begin

lemma committed:
  assumes "store_inv (sv_store sv)" "op (sv_store sv) = Inr (s, x)"
  shows "change_ok now r event sv (record_change now r event detail reason (sv\<lparr>sv_store := s\<rparr>))"
proof -
  note k = keeps [OF assms]
  have "server_inv (sv\<lparr>sv_store := s\<rparr>)" if "server_inv sv"
    using that k by (simp add: server_inv_def networks_agree_def network4_def network6_def)
  then show ?thesis
    using k by (auto simp: change_ok_def intro: record_change_audited record_change_server_inv)
qed

lemma committed_unaudited:
  assumes "server_inv sv" "op (sv_store sv) = Inr (s, x)"
  shows "server_inv (sv\<lparr>sv_store := s\<rparr>)"
  using keeps [OF _ assms(2)] assms(1) by (simp add: server_inv_def networks_agree_def network4_def network6_def)

end

lemma store_changeI:
  assumes "\<And>s s' x. store_inv s \<Longrightarrow> op s = Inr (s', x) \<Longrightarrow> store_inv s'"
    and "\<And>s s' x. op s = Inr (s', x) \<Longrightarrow>
      audit_length s' = audit_length s \<and> st_network s' = st_network s \<and> Network6 s' = Network6 s"
  shows "store_change op"
  using assms by unfold_locales blast

text \<open>Operations that return a store only.\<close>

definition with_unit :: "(store \<Rightarrow> store_error + store) \<Rightarrow> store \<Rightarrow> store_error + store \<times> unit" where
  "with_unit f s = bindE (f s) (\<lambda>s'. Inr (s', ()))"

lemma with_unit_Inr: "with_unit f s = Inr (s', x) \<longleftrightarrow> f s = Inr s'"
  by (auto simp: with_unit_def bindE_eq_Inr)

lemma upsert_audit [simp]: "audit_log (upsertSetting k v d) = audit_log d"
  by (simp add: upsertSetting_def)

interpretation update_dns: store_change "UpdateDNSConfig cfg" for cfg
  by (rule store_changeI, erule (1) UpdateDNSConfig_inv)
    (auto simp: UpdateDNSConfig_def bindE_eq_Inr saveDNSConfig_def audit_length_def)

interpretation create_key: store_change "CreateNamedSetupKey now raw name maxUses expiresIn" for now raw name maxUses expiresIn
  by (rule store_changeI, erule (1) CreateNamedSetupKey_inv)
    (auto simp: CreateNamedSetupKey_def Let_def go_simps audit_length_def)

interpretation revoke_key: store_change "with_unit (RevokeSetupKey now i)" for now i
  by (rule store_changeI)
    (auto simp: with_unit_Inr intro: RevokeSetupKey_inv,
     auto simp: with_unit_Inr RevokeSetupKey_def Let_def go_simps audit_length_def split: if_splits)

interpretation revoke_peer: store_change "with_unit (RevokePeer now i)" for now i
  by (rule store_changeI)
    (auto simp: with_unit_Inr intro: RevokePeer_inv,
     auto simp: with_unit_Inr RevokePeer_def Let_def go_simps audit_length_def split: if_splits)

interpretation remove_peer: store_change "with_unit (RemovePeer i)" for i
  by (rule store_changeI)
    (auto simp: with_unit_Inr intro: RemovePeer_inv,
     auto simp: with_unit_Inr RemovePeer_def cascade_peer_def audit_length_def split: if_splits)

interpretation update_address: store_change "UpdatePeerAddress i ip ip6" for i ip ip6
  by (rule store_changeI, erule (1) UpdatePeerAddress_inv)
    (auto simp: UpdatePeerAddress_def Let_def go_simps audit_length_def split: if_splits)

interpretation set_exit: store_change "SetExitNode i exit" for i exit
  by (rule store_changeI, erule (1) SetExitNode_inv)
    (auto simp: SetExitNode_def Let_def go_simps audit_length_def split: if_splits prod.splits)

interpretation create_static: store_change "CreateStaticPeer sha256 now rawKey rawToken spec" for sha256 now rawKey rawToken spec
  by (rule store_changeI, erule (1) CreateStaticPeer_inv)
    (auto elim!: CreateStaticPeer_Inr simp: with_static_def Let_def audit_length_def)

interpretation import_acl: store_change "ImportACLRules now rules replace" for now rules replace
  by (rule store_changeI, erule (1) ImportACLRules_inv)
    (auto simp: ImportACLRules_eq imported_def Let_def audit_length_def)

interpretation create_acl: store_change "CreateACLRuleDetailed now rule" for now rule
  by (rule store_changeI, erule (1) CreateACLRuleDetailed_inv)
    (auto simp: CreateACLRuleDetailed_def bindE_eq_Inr insertACLRule_eq audit_length_def)

interpretation delete_acl: store_change "with_unit (DeleteACLRule i)" for i
  by (rule store_changeI)
    (auto simp: with_unit_Inr intro: DeleteACLRule_inv,
     auto simp: with_unit_Inr DeleteACLRule_def Let_def audit_length_def split: if_splits)

interpretation create_user: store_change "CreateLocalUser ag salt now name password" for ag salt now name password
  by (rule store_changeI, erule (1) CreateLocalUser_inv)
    (auto simp: CreateLocalUser_def insert_user_def Let_def go_simps audit_length_def split: sum.splits)

interpretation delete_user: store_change "with_unit (DeleteUser i)" for i
  by (rule store_changeI)
    (auto simp: with_unit_Inr intro: DeleteUser_inv,
     auto simp: with_unit_Inr DeleteUser_def Let_def go_simps audit_length_def)

subsection \<open>Every handler keeps the contract\<close>

named_theorems handlers \<open>the contract of each handler\<close>

lemma update_dns_ok [handlers]:
  assumes "store_inv (sv_store sv)"
  shows "handler_ok now r ''dns_update'' sv (handleUpdateDNS env now req r sv)"
  by (auto simp: handleUpdateDNS_def split: sum.split option.split intro!: update_dns.committed [OF assms])

lemma create_key_ok [handlers]:
  assumes "store_inv (sv_store sv)"
  shows "handler_ok now r ''setup_key_create'' sv (handleCreateSetupKey env parseDuration now raw req r sv)"
  by (auto simp: handleCreateSetupKey_def split: sum.split option.split intro!: create_key.committed [OF assms])

lemma revoke_key_ok [handlers]:
  assumes "store_inv (sv_store sv)"
  shows "handler_ok now r ''revoke'' sv (handleRevokeSetupKey now i r sv)"
  by (auto simp: handleRevokeSetupKey_def handleRevoke_def split: sum.split option.split intro!: revoke_key.committed [unfolded with_unit_Inr, OF assms])

lemma revoke_peer_ok [handlers]:
  assumes "store_inv (sv_store sv)"
  shows "handler_ok now r ''revoke'' sv (handleRevokePeer now i r sv)"
  by (auto simp: handleRevokePeer_def handleRevoke_def split: sum.split option.split intro!: revoke_peer.committed [unfolded with_unit_Inr, OF assms])

lemma remove_peer_ok [handlers]:
  assumes "store_inv (sv_store sv)"
  shows "handler_ok now r ''peer_remove'' sv (handleRemovePeer now i r sv)"
  by (auto simp: handleRemovePeer_def split: sum.split option.split intro!: remove_peer.committed [unfolded with_unit_Inr, OF assms])

lemma update_address_ok [handlers]:
  assumes "store_inv (sv_store sv)"
  shows "handler_ok now r ''peer_address_update'' sv (handleUpdatePeerAddress env now i req r sv)"
  by (auto simp: handleUpdatePeerAddress_def split: sum.split option.split intro!: update_address.committed [OF assms])

lemma set_exit_ok [handlers]:
  assumes "store_inv (sv_store sv)"
  shows "handler_ok now r ''peer_exit_node_update'' sv (handleSetExitNode env now i req r sv)"
  by (auto simp: handleSetExitNode_def split: sum.split option.split intro!: set_exit.committed [OF assms])

lemma import_acl_ok [handlers]:
  assumes "store_inv (sv_store sv)"
  shows "handler_ok now r ''acl_import'' sv (handleImportACL env now req r sv)"
  by (auto simp: handleImportACL_def Let_def split: sum.split option.split intro!: import_acl.committed [OF assms])

lemma create_acl_ok [handlers]:
  assumes "store_inv (sv_store sv)"
  shows "handler_ok now r ''acl_create'' sv (handleCreateACL env now req r sv)"
  by (auto simp: handleCreateACL_def Let_def split: sum.split option.split intro!: create_acl.committed [OF assms])

lemma delete_acl_ok [handlers]:
  assumes "store_inv (sv_store sv)"
  shows "handler_ok now r ''acl_delete'' sv (handleDeleteACL now i r sv)"
  by (auto simp: handleDeleteACL_def split: sum.split option.split intro!: delete_acl.committed [unfolded with_unit_Inr, OF assms])

lemma create_user_ok [handlers]:
  assumes "store_inv (sv_store sv)"
  shows "handler_ok now r ''user_create'' sv (handleCreateUser env salt now req r sv)"
  by (auto simp: handleCreateUser_def record_change_None split: sum.split option.split intro!: create_user.committed [OF assms])

lemma delete_user_ok [handlers]:
  assumes "store_inv (sv_store sv)"
  shows "handler_ok now r ''user_delete'' sv (handleDeleteUser env now i r sv)"
  by (auto simp: handleDeleteUser_def record_change_None split: sum.split option.split intro!: delete_user.committed [unfolded with_unit_Inr, OF assms])

lemma parsed_target:
  assumes "parseNetworkMigrationTarget prefixErr q = Inr (target4, target6)"
  shows "overlay_net target4" "overlay_net target6" "Is4 (prefix_Addr target4)" "Is6 (prefix_Addr target6)"
proof -
  obtain p4 p6 where p: "ParsePrefix (nm_NetworkCIDR q) = Some p4" "Is4 (prefix_Addr p4)" "target4 = Masked p4"
      "ParsePrefix (nm_NetworkCIDR6 q) = Some p6" "Is6 (prefix_Addr p6)" "target6 = Masked p6"
    using assms by (auto simp: parseNetworkMigrationTarget_def parseNetwork4_def parseNetwork6_def
        split: option.splits Option.bind_splits if_splits)
  then have v: "prefix_IsValid p4" "prefix_IsValid p6" using ParsePrefix_plain by (auto simp: plain_prefix_def)
  then show "overlay_net target4" "overlay_net target6" using p(3,6) by (simp_all add: Masked_overlay_net)
  show "Is4 (prefix_Addr target4)" "Is6 (prefix_Addr target6)"
    using v p(2,3,5,6) by (cases p4 rule: Masked.cases; cases p6 rule: Masked.cases; simp)+
qed

lemma migrate_ok [handlers]:
  assumes "store_inv (sv_store sv)"
  shows "handler_ok now r ''network_migrate'' sv (handleApplyNetworkMigration env prefixErr now req r sv)"
proof -
  have "change_ok now r ''network_migrate'' sv (record_change now r ''network_migrate'' (migration_detail plan) reason
      (setNetworkConfig (NetworkCIDR (pl_Target plan), NetworkCIDR6 (pl_Target plan)) (sv\<lparr>sv_store := s\<rparr>)))"
    if t: "parseNetworkMigrationTarget prefixErr q = Inr (target4, target6)"
      and a: "ApplyNetworkMigration target4 target6 (sv_store sv) = Inr (s, plan)" for q target4 target6 s plan reason
  proof -
    note o = parsed_target [OF t]
    have v: "prefix_IsValid target4" "prefix_IsValid target6" using o(1,2) by (simp_all add: overlay_net_def)
    have s: "s = migration_result target4 target6 (sv_store sv)"
      using ApplyNetworkMigration_result(1) [OF assms v a] o(1,2) by (simp add: Masked_id)
    have plan: "pl_Target plan = \<lparr>NetworkCIDR = prefix_String target4, NetworkCIDR6 = prefix_String target6\<rparr>"
      using a o(1,2) by (auto simp: ApplyNetworkMigration_def buildNetworkMigrationPlan_def Let_def bindE_eq_Inr Masked_id)
    let ?sv1 = "setNetworkConfig (NetworkCIDR (pl_Target plan), NetworkCIDR6 (pl_Target plan)) (sv\<lparr>sv_store := s\<rparr>)"
    have "server_inv ?sv1"
      using ApplyNetworkMigration_inv [OF assms v o(3,4) a] v plan
      by (simp add: server_inv_def networks_agree_def setNetworkConfig_def s migration_result_def network4_def network6_def cidr6_text_def)
    moreover have "clientIP ?sv1 r = clientIP sv r"
      by (simp add: clientIP_def trustsXFFFrom_def setNetworkConfig_def split: option.split)
    moreover have "audit_length (sv_store ?sv1) = audit_length (sv_store sv)"
      by (simp add: setNetworkConfig_def s migration_result_def audit_length_def)
    ultimately show ?thesis by (auto simp: change_ok_def intro: record_change_audited record_change_server_inv)
  qed
  then show ?thesis by (auto simp: handleApplyNetworkMigration_def split: sum.split)
qed

lemma static_config_ok [handlers]:
  "handler_ok now r ''mobile_peer_config_view'' sv (handleStaticPeerConfig env c now i r sv)"
  by (auto simp: handleStaticPeerConfig_def show_device_def Let_def change_ok_def split: sum.split option.split
      intro!: record_change_audited record_change_server_inv)

lemma create_device_server_inv:
  assumes "server_inv sv" "handleCreateMobilePeer env c now dr req r sv = (sv', out)"
  shows "server_inv sv'"
  using assms create_static.committed_unaudited [OF assms(1)]
  by (auto simp: handleCreateMobilePeer_def create_device_def Let_def split: sum.splits option.splits if_splits
      intro!: record_change_server_inv)

text \<open>
  The one way out that is neither: the device is committed before the DNS settings are read, and
  when these cannot be read the answer is an error.
\<close>

lemma create_device_ok:
  assumes "store_inv (sv_store sv)"
  shows "handler_ok now r ''mobile_peer_create'' sv (handleCreateMobilePeer env c now dr req r sv) \<or>
    (\<exists>spec s peer m. CreateStaticPeer (e_sha256 env) now (dr_rawKey dr) (dr_rawToken dr) spec (sv_store sv) = Inr (s, peer) \<and>
       isl (CurrentDNSConfig (sv_store sv)) \<and>
       handleCreateMobilePeer env c now dr req r sv = (sv\<lparr>sv_store := s\<rparr>, Error 500 m))"
proof -
  have dns: "CurrentDNSConfig s = CurrentDNSConfig (sv_store sv)"
    if "CreateStaticPeer sha256 now' rawKey rawToken spec (sv_store sv) = Inr (s, info)"
    for s info sha256 now' rawKey rawToken spec
    using that by (auto elim!: CreateStaticPeer_Inr simp: CurrentDNSConfig_def loadDNSConfig_def with_static_def Let_def)
  have dev: "handler_ok now r ''mobile_peer_create'' sv (create_device env c now dr q k k' g gw r sv) \<or>
      (\<exists>spec s peer m. CreateStaticPeer (e_sha256 env) now (dr_rawKey dr) (dr_rawToken dr) spec (sv_store sv) = Inr (s, peer) \<and>
         isl (CurrentDNSConfig (sv_store sv)) \<and>
         create_device env c now dr q k k' g gw r sv = (sv\<lparr>sv_store := s\<rparr>, Error 500 m))" for q k k' g gw
  proof -
    let ?spec = "\<lparr>sp_PublicKey = k', sp_Hostname = mr_Name q, sp_GatewayPeerID = pi_ID gw,
      sp_PrivateKeyEnc = (if g then Seal c (sealing_key (e_sha256 env) (sv_pskMaster sv)) (dr_nonce dr) k'
        (KeyString (e_wg env) k) else []), sp_GatewayEndpoint = TrimSpace (mr_GatewayEndpoint q)\<rparr>"
    show ?thesis
    proof (cases "CreateStaticPeer (e_sha256 env) now (dr_rawKey dr) (dr_rawToken dr) ?spec (sv_store sv)")
      case (Inl e)
      then show ?thesis by (simp add: create_device_def Let_def)
    next
      case (Inr x)
      obtain s peer where x: "x = (s, peer)" by (cases x)
      note s = Inr [unfolded x]
      show ?thesis
      proof (cases "CurrentDNSConfig (sv_store sv)")
        case (Inl e)
        then have "create_device env c now dr q k k' g gw r sv = (sv\<lparr>sv_store := s\<rparr>, Error 500 ''internal error'')"
          using s dns [OF s] by (simp add: create_device_def Let_def)
        with s Inl show ?thesis by auto
      next
        case (Inr d)
        then show ?thesis using s dns [OF s] create_static.committed [OF assms s] by (simp add: create_device_def Let_def)
      qed
    qed
  qed
  show ?thesis
    using dev by (simp add: handleCreateMobilePeer_def Let_def split: sum.split option.split)
qed

lemma preview_unchanged: "fst (handlePreviewNetworkMigration env prefixErr req sv) = sv"
  by (auto simp: handlePreviewNetworkMigration_def split: sum.split)

lemma answered_fst [simp]: "fst (answered out) = fst out"
  by (auto simp: answered_def split: prod.split response.split)

lemma admin_handler_ok:
  assumes "store_inv (sv_store sv)" "call_event call = Some event" "\<And>req. call \<noteq> CallCreateMobile req"
  shows "handler_ok now r event sv (admin_handler A now raw dr call r sv)"
  using assms by (cases call) (auto intro: handlers)

text \<open>
  C16: What a request to the admin interface does is on record, and with one exception it is all or
  nothing. Whoever is neither the bearer of the admin token nor signed in is refused. A request
  that is answered leaves one audit row more, dated now, with the event of the call, status 200 and the
  address it came from; a preview, which is not audited, changes nothing. A refused request, for whatever
  reason, leaves the whole server as it was, except that the registration of a device commits the
  device before it reads the DNS settings: if they cannot be read, the answer is 500, the device is
  stored, and nothing else is changed, so that the device is neither audited nor signalled.
\<close>

theorem admin_request_recorded:
  assumes "store_inv (sv_store sv)"
    and "admin_request A now raw dr call r sv = (sv', resp)"
  shows "case resp of
      Error status _ \<Rightarrow> sv' = sv \<or>
        (\<exists>req spec s peer. call = CallCreateMobile req \<and> isl (CurrentDNSConfig (sv_store sv)) \<and> status = 500 \<and>
           CreateStaticPeer (e_sha256 (ap_env A)) now (dr_rawKey dr) (dr_rawToken dr) spec (sv_store sv) = Inr (s, peer) \<and>
           sv' = sv\<lparr>sv_store := s\<rparr>)
    | Reply _ \<Rightarrow> (bearer r = Some (sv_adminToken sv) \<or> validUISession (ap_env A) now r sv) \<and>
        (case call_event call of None \<Rightarrow> sv' = sv | Some event \<Rightarrow> audited now r event sv sv')"
proof (cases "bearer r = Some (sv_adminToken sv) \<or> validUISession (ap_env A) now r sv")
  case False
  then show ?thesis using assms(2) by (auto simp: admin_request_def requireAdmin_def)
next
  case True
  then have h: "admin_handler A now raw dr call r sv = (sv', resp)"
    using assms(2) by (auto simp: admin_request_def requireAdmin_def)
  have recorded: ?thesis if "handler_ok now r event sv (sv', resp)" "call_event call = Some event" for event
    using that True by (cases resp) (auto simp: change_ok_def)
  consider (preview) req where "call = CallPreviewNetwork req" | (device) req where "call = CallCreateMobile req"
    | (other) event where "call_event call = Some event" "\<And>req. call \<noteq> CallCreateMobile req"
    by (cases call) auto
  then show ?thesis
  proof cases
    case preview
    then have "sv' = sv" using h preview_unchanged [of "ap_env A" "ap_prefixErr A" req sv] answered_fst
      by (metis admin_handler.simps(9) fst_conv)
    with True preview show ?thesis by (simp split: response.split)
  next
    case device
    with h have a: "answered (handleCreateMobilePeer (ap_env A) (ap_aead A) now dr req r sv) = (sv', resp)" by simp
    from create_device_ok [OF assms(1), of now r "ap_env A" "ap_aead A" dr req] show ?thesis
    proof (elim disjE exE conjE)
      assume "handler_ok now r ''mobile_peer_create'' sv (handleCreateMobilePeer (ap_env A) (ap_aead A) now dr req r sv)"
      then have "handler_ok now r ''mobile_peer_create'' sv (sv', resp)" unfolding a [symmetric] by simp
      then show ?thesis by (rule recorded) (simp add: device)
    next
      fix spec s peer m
      assume "CreateStaticPeer (e_sha256 (ap_env A)) now (dr_rawKey dr) (dr_rawToken dr) spec (sv_store sv) = Inr (s, peer)"
        and "isl (CurrentDNSConfig (sv_store sv))"
        and "handleCreateMobilePeer (ap_env A) (ap_aead A) now dr req r sv = (sv\<lparr>sv_store := s\<rparr>, Error 500 m)"
      moreover from this(3) a have "sv' = sv\<lparr>sv_store := s\<rparr>" "resp = Error 500 m" by (simp_all add: answered_def)
      ultimately show ?thesis using device by auto
    qed
  next
    case other
    then show ?thesis using recorded admin_handler_ok [OF assms(1) other, of now r A raw dr] h by simp
  qed
qed

definition demo_api :: api where
  "demo_api = \<lparr>ap_env = demo_wg_env, ap_aead = demo_aead, ap_parseDuration = (\<lambda>_. None), ap_prefixErr = (\<lambda>s. s)\<rparr>"

lemma demo_admin_revokes:
  "\<exists>sv'. admin_request demo_api 5 [] demo_drawn (CallRevokePeer ''2'') (demo_caller ''secret'') demo_server = (sv', Reply ())"
proof -
  have "bearer (demo_caller ''secret'') = Some ''secret''" "ParseInt ''2'' = Some 2" by code_simp+
  moreover have "\<not> isl (RevokePeer 5 2 demo_store2)" by code_simp
  ultimately show ?thesis
    by (cases "RevokePeer 5 2 demo_store2")
      (auto simp: admin_request_def requireAdmin_def handleRevokePeer_def handleRevoke_def answered_def demo_server_def)
qed

theorem admin_request_recorded_witness:
  "\<exists>sv'. admin_request demo_api 5 [] demo_drawn (CallRevokePeer ''2'') (demo_caller ''secret'') demo_server = (sv', Reply ()) \<and>
    audited 5 (demo_caller ''secret'') ''revoke'' demo_server sv'"
proof -
  obtain sv' where a: "admin_request demo_api 5 [] demo_drawn (CallRevokePeer ''2'') (demo_caller ''secret'') demo_server =
      (sv', Reply ())" using demo_admin_revokes by blast
  with admin_request_recorded [OF _ a] show ?thesis by (simp add: demo_server_def demo_store2_inv)
qed

subsection \<open>Sequences of requests\<close>

record admin_step =
  as_now :: time
  as_raw :: string
  as_drawn :: drawn
  as_call :: admin_call
  as_request :: request

definition serve :: "api \<Rightarrow> admin_step \<Rightarrow> server \<Rightarrow> server" where
  "serve A x sv = fst (admin_request A (as_now x) (as_raw x) (as_drawn x) (as_call x) (as_request x) sv)"

lemma handler_server_inv:
  assumes "server_inv sv" "handler_ok now r event sv out"
  shows "server_inv (fst out)"
  using assms by (cases out; cases "snd out") (auto simp: handler_ok_def change_ok_def)

lemma serve_inv:
  assumes "server_inv sv"
  shows "server_inv (serve A x sv)"
proof -
  have inv: "store_inv (sv_store sv)" using assms by (simp add: server_inv_def)
  have "server_inv (fst (admin_handler A now raw dr call r sv))" for now raw dr call r
  proof (cases call)
    case (CallCreateMobile req)
    then show ?thesis
      using create_device_server_inv [OF assms, of "ap_env A" "ap_aead A" now dr req r] by (simp add: prod_eq_iff)
  next
    case (CallPreviewNetwork req)
    then show ?thesis using assms by (simp add: preview_unchanged)
  qed (auto intro!: handler_server_inv [OF assms] handlers inv)
  then show ?thesis using assms by (simp add: serve_def admin_request_def requireAdmin_def Let_def)
qed

text \<open>
  C19: Whatever sequence of admin requests a server has answered, migrations of the overlay among
  them, the database is well formed and the networks the server announces to agents are the ones it
  allocates addresses from.
\<close>

theorem admin_networks_agree:
  assumes "server_inv sv"
  shows "store_inv (sv_store (fold (serve A) steps sv)) \<and>
    sv_networkCIDR (fold (serve A) steps sv) = prefix_String (network4 (sv_store (fold (serve A) steps sv))) \<and>
    sv_network6CIDR (fold (serve A) steps sv) = cidr6_text (network6 (sv_store (fold (serve A) steps sv)))"
proof -
  have "server_inv (fold (serve A) steps sv)"
    using assms by (induction steps arbitrary: sv) (auto intro: serve_inv)
  then show ?thesis by (simp add: server_inv_def networks_agree_def)
qed

theorem admin_networks_agree_witness:
  "store_inv (sv_store (fold (serve demo_api) [\<lparr>as_now = 5, as_raw = [], as_drawn = demo_drawn,
     as_call = CallRevokePeer ''2'', as_request = demo_caller ''secret''\<rparr>] demo_server))"
proof -
  have "prefix_String (network4 demo_store2) = ''100.64.0.0/10''" "cidr6_text (network6 demo_store2) = []" by code_simp+
  then have "server_inv demo_server"
    by (simp add: server_inv_def networks_agree_def demo_server_def demo_store2_inv)
  from admin_networks_agree [OF this] show ?thesis by blast
qed

end
