(* ===== verification/WsHub.thy ===== *)
theory WsHub
  imports Runs "HOL-Library.AList"
begin

section \<open>The connection relay (WebSocket and QUIC)\<close>

text \<open>
  internal/relay/wshub.go: the hub that cross-forwards frames between the two members of a pair.
  A \<open>FrameConn\<close> is an interface value compared by identity, here a number. The map of
  pairs and the map of members are association lists with distinct keys; the order of a Go map's
  iteration does not matter because a pair has at most two members. \<open>Serve\<close> runs in one
  goroutine per connection: its join, each frame it reads and its final leave are the steps, each
  atomic under the hub's mutex, and \<open>h_sessions\<close> are the goroutines now inside \<open>Serve\<close>.
\<close>

type_synonym conn = nat
type_synonym members = "(string \<times> conn) list"

record WSHub =
  h_pairs :: "(string \<times> members) list"
  h_closed :: "conn list"

datatype hub_error = errPairFull

definition NewWSHub :: WSHub where
  "NewWSHub = \<lparr>h_pairs = [], h_closed = []\<rparr>"

definition members_of :: "string \<Rightarrow> WSHub \<Rightarrow> members" where
  "members_of pairID h = (case map_of (h_pairs h) pairID of None \<Rightarrow> [] | Some ms \<Rightarrow> ms)"

definition other_member :: "string \<Rightarrow> members \<Rightarrow> conn option" where
  "other_member memberID ms = map_option snd (List.find (\<lambda>(i, c). i \<noteq> memberID) ms)"

definition join :: "string \<Rightarrow> string \<Rightarrow> conn \<Rightarrow> WSHub \<Rightarrow> hub_error + WSHub \<times> conn option" where
  "join pairID memberID conn h =
     (let ms = members_of pairID h
      in if map_of ms memberID = None \<and> 2 \<le> length ms then Inl errPairFull
         else let old = (case map_of ms memberID of None \<Rightarrow> [] | Some c \<Rightarrow> [c]);
                  ms' = AList.update memberID conn ms
              in Inr (h\<lparr>h_pairs := AList.update pairID ms' (h_pairs h), h_closed := h_closed h @ old\<rparr>,
                      other_member memberID ms'))"

definition leave :: "string \<Rightarrow> string \<Rightarrow> conn \<Rightarrow> WSHub \<Rightarrow> WSHub" where
  "leave pairID memberID conn h =
     (case map_of (h_pairs h) pairID of
        None \<Rightarrow> h
      | Some ms \<Rightarrow>
          let ms' = (if map_of ms memberID = Some conn then AList.delete memberID ms else ms)
          in if ms' = [] then h\<lparr>h_pairs := AList.delete pairID (h_pairs h)\<rparr>
             else h\<lparr>h_pairs := AList.update pairID ms' (h_pairs h)\<rparr>)"

definition MemberCount :: "string \<Rightarrow> WSHub \<Rightarrow> nat" where
  "MemberCount pairID h = length (members_of pairID h)"

definition hub_peer :: "string \<Rightarrow> string \<Rightarrow> WSHub \<Rightarrow> conn option" where
  "hub_peer pairID memberID h = other_member memberID (members_of pairID h)"

subsection \<open>Sessions\<close>

type_synonym session = "string \<times> string \<times> conn"

record hub_state =
  hs_hub :: WSHub
  hs_sessions :: "session list"

datatype hub_event =
    EvJoin session
  | EvRefused session
  | EvFrame session string "conn option"
  | EvLeave session

text \<open>
  The steps of the goroutines inside \<open>Serve\<close>. A new connection is a new identity. A frame is
  written to whoever is the other member when it was read, or dropped.
\<close>

inductive serve_step :: "hub_state \<Rightarrow> hub_event \<Rightarrow> hub_state \<Rightarrow> bool" where
  serve_join: "join p m c (hs_hub s) = Inr (h', other) \<Longrightarrow> \<forall>(q, n, d) \<in> set (hs_sessions s). d \<noteq> c \<Longrightarrow>
    serve_step s (EvJoin (p, m, c)) (s\<lparr>hs_hub := h', hs_sessions := (p, m, c) # hs_sessions s\<rparr>)"
| serve_refused: "join p m c (hs_hub s) = Inl errPairFull \<Longrightarrow> serve_step s (EvRefused (p, m, c)) s"
| serve_frame: "(p, m, c) \<in> set (hs_sessions s) \<Longrightarrow> out = hub_peer p m (hs_hub s) \<Longrightarrow>
    serve_step s (EvFrame (p, m, c) frame out) s"
| serve_leave: "(p, m, c) \<in> set (hs_sessions s) \<Longrightarrow>
    serve_step s (EvLeave (p, m, c))
      (s\<lparr>hs_hub := leave p m c (hs_hub s), hs_sessions := remove1 (p, m, c) (hs_sessions s)\<rparr>)"

text \<open>
  What the hub keeps: a pair is listed once and only while it has members, a member once,
  two members at most, and every listed connection belongs to a goroutine serving exactly that
  member of that pair.
\<close>

definition hub_inv :: "hub_state \<Rightarrow> bool" where
  "hub_inv s \<longleftrightarrow>
     distinct (map fst (h_pairs (hs_hub s))) \<and>
     list_all (\<lambda>(p, ms). ms \<noteq> [] \<and> distinct (map fst ms) \<and> length ms \<le> 2 \<and>
        list_all (\<lambda>(m, c). (p, m, c) \<in> set (hs_sessions s)) ms) (h_pairs (hs_hub s)) \<and>
     distinct (map (snd \<circ> snd) (hs_sessions s))"

definition pair_ok :: "session list \<Rightarrow> string \<Rightarrow> members \<Rightarrow> bool" where
  "pair_ok ss p ms \<longleftrightarrow> distinct (map fst ms) \<and> length ms \<le> 2 \<and> (\<forall>m c. map_of ms m = Some c \<longrightarrow> (p, m, c) \<in> set ss)"

lemma hub_inv_iff:
  "hub_inv s \<longleftrightarrow> distinct (map fst (h_pairs (hs_hub s))) \<and> distinct (map (snd \<circ> snd) (hs_sessions s)) \<and>
     (\<forall>p ms. map_of (h_pairs (hs_hub s)) p = Some ms \<longrightarrow> ms \<noteq> [] \<and> pair_ok (hs_sessions s) p ms)"
proof (cases "distinct (map fst (h_pairs (hs_hub s)))")
  case True
  have "list_all (\<lambda>(m, c). (p, m, c) \<in> set ss) ms \<longleftrightarrow> (\<forall>m c. map_of ms m = Some c \<longrightarrow> (p, m, c) \<in> set ss)"
    if "distinct (map fst ms)" for p ms and ss :: "session list"
    using that by (auto simp: list_all_iff map_of_eq_Some_iff)
  then show ?thesis
    using True by (auto simp: hub_inv_def pair_ok_def list_all_iff map_of_eq_Some_iff)
qed (simp add: hub_inv_def)

subsection \<open>Preservation\<close>

lemma length_alist_update: "length (AList.update k v xs) = (if map_of xs k = None then Suc (length xs) else length xs)"
  by (induction xs) auto

lemma members_of_ok:
  assumes "hub_inv s"
  shows "pair_ok (hs_sessions s) p (members_of p (hs_hub s))"
  using assms by (auto simp: hub_inv_iff members_of_def pair_ok_def split: option.splits)

lemma pair_ok_mono: "pair_ok ss p ms \<Longrightarrow> set ss \<subseteq> set ss' \<Longrightarrow> pair_ok ss' p ms"
  by (auto simp: pair_ok_def)

lemma join_Inr:
  assumes "join p m c h = Inr (h', other)"
  shows "h_pairs h' = AList.update p (AList.update m c (members_of p h)) (h_pairs h) \<and>
    other = other_member m (AList.update m c (members_of p h)) \<and>
    (map_of (members_of p h) m = None \<longrightarrow> length (members_of p h) < 2)"
  using assms by (auto simp: join_def Let_def split: if_splits)

lemma alist_update_ne: "AList.update k v xs \<noteq> []"
  by (cases xs) auto

lemma join_preserves:
  assumes "hub_inv s" "join p m c (hs_hub s) = Inr (h', other)" "\<forall>(q, n, d) \<in> set (hs_sessions s). d \<noteq> c"
  shows "hub_inv (s\<lparr>hs_hub := h', hs_sessions := (p, m, c) # hs_sessions s\<rparr>)"
proof -
  have c: "c \<notin> set (map (snd \<circ> snd) (hs_sessions s))" using assms(3) by (auto simp: image_iff)
  let ?ms = "members_of p (hs_hub s)" and ?ss = "(p, m, c) # hs_sessions s"
  note j = join_Inr [OF assms(2)]
  have ok: "pair_ok (hs_sessions s) p ?ms" by (rule members_of_ok [OF assms(1)])
  have new: "pair_ok ?ss p (AList.update m c ?ms)"
    using ok j by (auto simp: pair_ok_def distinct_update length_alist_update update_conv' split: if_splits)
  have "pair_ok ?ss q ms" if "map_of (h_pairs h') q = Some ms" for q ms
  proof (cases "q = p")
    case False
    then have "pair_ok (hs_sessions s) q ms"
      using that j assms(1) by (auto simp: update_conv' hub_inv_iff)
    then show ?thesis by (rule pair_ok_mono) auto
  qed (use that j new in \<open>auto simp: update_conv'\<close>)
  moreover have "ms \<noteq> []" if "map_of (h_pairs h') q = Some ms" for q ms
    using that j assms(1) by (auto simp: update_conv' hub_inv_iff alist_update_ne split: if_splits)
  ultimately show ?thesis
    using assms(1) c j by (auto simp: hub_inv_iff distinct_update)
qed

lemma leave_preserves:
  assumes "hub_inv s" "(p, m, c) \<in> set (hs_sessions s)"
  shows "hub_inv (s\<lparr>hs_hub := leave p m c (hs_hub s), hs_sessions := remove1 (p, m, c) (hs_sessions s)\<rparr>)"
proof -
  let ?ss = "remove1 (p, m, c) (hs_sessions s)"
  have d: "distinct (hs_sessions s)" using assms(1) by (auto simp: hub_inv_iff distinct_map)
  have ss: "set ?ss = set (hs_sessions s) - {(p, m, c)}" by (rule set_remove1_eq [OF d])
  have other: "pair_ok ?ss q ms" if "pair_ok (hs_sessions s) q ms" "q = p \<longrightarrow> map_of ms m \<noteq> Some c" for q ms
    using that unfolding pair_ok_def ss by auto
  have same: "pair_ok ?ss p (if map_of ms m = Some c then AList.delete m ms else ms)" if "pair_ok (hs_sessions s) p ms" for ms
  proof (cases "map_of ms m = Some c")
    case True
    have "length (AList.delete m ms) \<le> length ms" by (simp add: AList.delete_eq)
    with that True show ?thesis
      unfolding pair_ok_def ss by (auto simp: distinct_delete delete_conv' split: if_splits)
  qed (use that other in auto)
  have "distinct (map (snd \<circ> snd) ?ss)"
    using assms(1) by (auto simp: hub_inv_iff distinct_map inj_on_def dest: notin_set_remove1 distinct_remove1)
  moreover have "distinct (map fst (h_pairs (leave p m c (hs_hub s))))"
    using assms(1) by (auto simp: hub_inv_iff leave_def Let_def distinct_update distinct_delete split: option.split)
  moreover have "ms \<noteq> [] \<and> pair_ok ?ss q ms" if q: "map_of (h_pairs (leave p m c (hs_hub s))) q = Some ms" for q ms
  proof (cases "map_of (h_pairs (hs_hub s)) p")
    case None
    then have "map_of (h_pairs (hs_hub s)) q = Some ms" "q \<noteq> p" using q by (auto simp: leave_def)
    then show ?thesis using assms(1) other by (auto simp: hub_inv_iff)
  next
    case (Some ms0)
    let ?ms' = "if map_of ms0 m = Some c then AList.delete m ms0 else ms0"
    have "pair_ok (hs_sessions s) p ms0" using assms(1) Some by (auto simp: hub_inv_iff)
    with q Some assms(1) same [of ms0] other show ?thesis
      by (cases "?ms' = []"; cases "q = p")
        (auto simp: leave_def Let_def update_conv' delete_conv' hub_inv_iff split: if_splits)
  qed
  ultimately show ?thesis by (auto simp: hub_inv_iff)
qed

interpretation hub_sys: preserved serve_step hub_inv
proof
  fix s e t assume "hub_inv s" "serve_step s e t"
  from this(2,1) show "hub_inv t"
    by cases (auto intro!: join_preserves leave_preserves)
qed

subsection \<open>Properties\<close>

definition hub_start :: hub_state where
  "hub_start = \<lparr>hs_hub = NewWSHub, hs_sessions = []\<rparr>"

lemma hub_start_inv: "hub_inv hub_start"
  by (simp add: hub_inv_def hub_start_def NewWSHub_def)

text \<open>A frame's receiver is the other member's connection, and that member is being served.\<close>

lemma hub_peer_session:
  assumes "hub_inv s" "hub_peer p m (hs_hub s) = Some d"
  shows "\<exists>m'. m' \<noteq> m \<and> (p, m', d) \<in> set (hs_sessions s)"
proof -
  from assms(2) obtain m' where "(m', d) \<in> set (members_of p (hs_hub s))" "m' \<noteq> m"
    by (auto simp: hub_peer_def other_member_def dest!: find_Some_mem)
  then show ?thesis
    using members_of_ok [OF assms(1), of p] by (auto simp: pair_ok_def map_of_eq_Some_iff)
qed

definition joined :: "hub_event list \<Rightarrow> session \<Rightarrow> bool" where
  "joined es x \<longleftrightarrow> EvJoin x \<in> set es"

text \<open>
  Every session goes back to its join, and every frame to the joins of both ends. The trace
  \<open>past\<close> is what happened before the run.
\<close>

lemma serve_run_joined:
  assumes "run serve_step s es t" "hub_inv s" "\<forall>x \<in> set (hs_sessions s). joined past x"
    and "EvFrame (p, m, c) frame (Some d) \<in> set es"
  shows "joined (past @ es) (p, m, c) \<and> (\<exists>m'. m' \<noteq> m \<and> joined (past @ es) (p, m', d))"
  using assms
proof (induction arbitrary: past rule: run.induct)
  case (run_Cons s e t es u)
  have t: "hub_inv t" by (rule hub_sys.step_preserves [OF run_Cons.prems(1) run_Cons.hyps(1)])
  have j: "\<forall>x \<in> set (hs_sessions t). joined (past @ [e]) x"
    using run_Cons.hyps(1) run_Cons.prems(2)
    by cases (auto simp: joined_def dest: notin_set_remove1)
  show ?case
  proof (cases "e = EvFrame (p, m, c) frame (Some d)")
    case True
    with run_Cons.hyps(1) have "(p, m, c) \<in> set (hs_sessions s)" "hub_peer p m (hs_hub s) = Some d"
      by (auto elim: serve_step.cases)
    then show ?thesis
      using hub_peer_session [OF run_Cons.prems(1), of p m d] run_Cons.prems(2) by (auto simp: joined_def)
  next
    case False
    with run_Cons.prems(3) run_Cons.IH [OF t j] show ?thesis by simp
  qed
qed simp

text \<open>
  C32: Frames stay inside their pair. Whatever connections join, reconnect and leave in whatever
  order, a frame read from a member's connection is written, if at all, to a connection on
  which another member joined the very same pair; never back to its sender's side.
\<close>

theorem hub_isolation:
  assumes "run serve_step hub_start es s" "EvFrame (p, m, c) frame (Some d) \<in> set es"
  shows "EvJoin (p, m, c) \<in> set es \<and> (\<exists>m'. m' \<noteq> m \<and> EvJoin (p, m', d) \<in> set es)"
  using serve_run_joined [OF assms(1) hub_start_inv, of "[]"] assms(2) by (auto simp: joined_def hub_start_def)

definition demo_hub_run :: "hub_event list" where
  "demo_hub_run = [EvJoin (''ab'', ''a'', 1), EvJoin (''ab'', ''b'', 2), EvRefused (''ab'', ''c'', 3),
     EvFrame (''ab'', ''a'', 1) ''hi'' (Some 2), EvJoin (''ab'', ''b'', 4), EvLeave (''ab'', ''b'', 2),
     EvFrame (''ab'', ''a'', 1) ''again'' (Some 4)]"

definition demo_hub_end :: hub_state where
  "demo_hub_end = \<lparr>hs_hub = \<lparr>h_pairs = [(''ab'', [(''a'', 1), (''b'', 4)])], h_closed = [2]\<rparr>,
     hs_sessions = [(''ab'', ''b'', 4), (''ab'', ''a'', 1)]\<rparr>"

lemma demo_hub_ran: "run serve_step hub_start demo_hub_run demo_hub_end"
proof -
  let ?s1 = "\<lparr>hs_hub = \<lparr>h_pairs = [(''ab'', [(''a'', 1)])], h_closed = []\<rparr>, hs_sessions = [(''ab'', ''a'', 1)]\<rparr>"
  let ?s2 = "\<lparr>hs_hub = \<lparr>h_pairs = [(''ab'', [(''a'', 1), (''b'', 2)])], h_closed = []\<rparr>,
     hs_sessions = [(''ab'', ''b'', 2), (''ab'', ''a'', 1)]\<rparr>"
  let ?s3 = "\<lparr>hs_hub = \<lparr>h_pairs = [(''ab'', [(''a'', 1), (''b'', 4)])], h_closed = [2]\<rparr>,
     hs_sessions = [(''ab'', ''b'', 4), (''ab'', ''b'', 2), (''ab'', ''a'', 1)]\<rparr>"
  note defs = join_def leave_def members_of_def other_member_def hub_peer_def NewWSHub_def hub_start_def
  have 1: "serve_step hub_start (EvJoin (''ab'', ''a'', 1)) ?s1"
    using serve_join [of "''ab''" "''a''" 1 hub_start] by (simp add: defs)
  have 2: "serve_step ?s1 (EvJoin (''ab'', ''b'', 2)) ?s2"
    using serve_join [of "''ab''" "''b''" 2 ?s1] by (simp add: defs)
  have 3: "serve_step ?s2 (EvRefused (''ab'', ''c'', 3)) ?s2"
    using serve_refused [of "''ab''" "''c''" 3 ?s2] by (simp add: defs)
  have 4: "serve_step ?s2 (EvFrame (''ab'', ''a'', 1) ''hi'' (Some 2)) ?s2"
    by (rule serve_frame) (simp_all add: defs)
  have 5: "serve_step ?s2 (EvJoin (''ab'', ''b'', 4)) ?s3"
    using serve_join [of "''ab''" "''b''" 4 ?s2] by (simp add: defs)
  have 6: "serve_step ?s3 (EvLeave (''ab'', ''b'', 2)) demo_hub_end"
    using serve_leave [of "''ab''" "''b''" 2 ?s3] by (simp add: defs demo_hub_end_def)
  have 7: "serve_step demo_hub_end (EvFrame (''ab'', ''a'', 1) ''again'' (Some 4)) demo_hub_end"
    by (rule serve_frame) (simp_all add: defs demo_hub_end_def)
  show ?thesis
    unfolding demo_hub_run_def
    using 1 2 3 4 5 6 7 run_Nil [of serve_step demo_hub_end] by (meson run_Cons)
qed

theorem hub_isolation_witness:
  "run serve_step hub_start demo_hub_run demo_hub_end \<and>
   (\<exists>m'. m' \<noteq> ''a'' \<and> EvJoin (''ab'', m', 4) \<in> set demo_hub_run)"
  using hub_isolation [OF demo_hub_ran, of "''ab''" "''a''" 1 "''again''" 4] demo_hub_ran by (simp add: demo_hub_run_def)

text \<open>
  The hub stays bounded and leaks nothing: in every reachable state a pair has at most two
  members, every listed pair is served by some goroutine, and a stale connection's
  departure does not disconnect the member that has reconnected.
\<close>

theorem hub_bounded:
  assumes "run serve_step hub_start es s"
  shows "MemberCount p (hs_hub s) \<le> 2 \<and>
    fst ` set (h_pairs (hs_hub s)) \<subseteq> fst ` set (hs_sessions s) \<and>
    (\<forall>c c'. map_of (members_of p (hs_hub s)) m = Some c' \<and> c \<noteq> c' \<longrightarrow>
       map_of (members_of p (leave p m c (hs_hub s))) m = Some c')"
proof -
  have i: "hub_inv s" by (rule hub_sys.run_preserves [OF assms hub_start_inv])
  have "fst x \<in> fst ` set (hs_sessions s)" if x: "x \<in> set (h_pairs (hs_hub s))" for x
  proof -
    obtain q ms where q: "x = (q, ms)" by (cases x)
    then have "ms \<noteq> []" "list_all (\<lambda>(m, c). (q, m, c) \<in> set (hs_sessions s)) ms"
      using i x by (auto simp: hub_inv_def list_all_iff)
    then show ?thesis using q by (cases ms) force+
  qed
  moreover have "map_of (members_of p (leave p m c (hs_hub s))) m = Some c'"
    if "map_of (members_of p (hs_hub s)) m = Some c'" "c \<noteq> c'" for c c'
    using that by (auto simp: members_of_def leave_def Let_def update_conv' split: option.splits)
  ultimately show ?thesis
    using members_of_ok [OF i, of p] by (auto simp: MemberCount_def pair_ok_def)
qed

theorem hub_bounded_witness:
  "MemberCount ''ab'' (hs_hub demo_hub_end) \<le> 2 \<and>
   map_of (members_of ''ab'' (leave ''ab'' ''b'' 2 (hs_hub demo_hub_end))) ''b'' = Some 4"
proof -
  have "map_of (members_of ''ab'' (hs_hub demo_hub_end)) ''b'' = Some 4"
    by (simp add: demo_hub_end_def members_of_def)
  with hub_bounded [OF demo_hub_ran, of "''ab''" "''b''"] show ?thesis by simp
qed

end
