(* ===== verification/Routes.thy ===== *)
theory Routes
  imports ConfigSync
begin

section \<open>Routes of the overlay\<close>

text \<open>
  What the peer list of a sync payload (\<open>buildPeerEntries\<close>, cmd/server/main.go) means for
  WireGuard's cryptokey routing, and that the two ends of a pair are configured alike. A
  WireGuard device gives each AllowedIP to one peer only, silently taking it from any other, so
  an address listed twice would be reached through whichever entry came last.
\<close>

subsection \<open>What a peer list is built from\<close>

text \<open>
  The rows an agent sees: each with its own id and addresses, none of them the agent itself,
  and only a static peer behind a gateway.
\<close>

definition rows_ok :: "PeerRow \<Rightarrow> PeerRow list \<Rightarrow> bool" where
  "rows_ok self others \<longleftrightarrow>
     distinct (map ID others) \<and> inj_on PublicKey (set others) \<and> inj_on AssignedIP (set others) \<and>
     inj_on AssignedIP6 {x \<in> set others. AssignedIP6 x \<noteq> []} \<and>
     list_all (\<lambda>x. 0 < ID x \<and> ID x \<noteq> ID self) others"

lemma distinct_col_inj:
  assumes "distinct (col k rows)" "r \<in> set rows" "r' \<in> set rows" "k r = Some v" "k r' = Some v"
  shows "r = r'"
  using assms
proof (induction rows)
  case (Cons a rows)
  have "distinct (col k rows)"
    using Cons.prems(1) by (cases "k a") (simp_all add: col_def List.map_filter_simps)
  moreover have "k a = Some v \<Longrightarrow> r'' \<in> set rows \<Longrightarrow> k r'' \<noteq> Some v" for r''
    using Cons.prems(1) set_col [of v k rows] by (auto simp: col_def List.map_filter_simps)
  ultimately show ?case using Cons by auto
qed simp

lemma PeersForID_rows:
  assumes "store_inv s" "PeersForID i s = Inr (self, others)"
  shows "rows_ok self others"
proof -
  obtain p where p: "peer_by_id i (st_db s) = Some p" "self = (scan_peer p)\<lparr>Hostname := []\<rparr>"
    and o: "others = listVisible (st_db s) i (DefaultAllow s)"
    using assms(2) by (auto simp: PeersForID_def split: option.splits)
  have inv: "rowids (map p_id (peers (st_db s)))" "peers_ok (map sk_id (setup_keys (st_db s))) (peers (st_db s))"
    using assms(1) by (simp_all add: store_inv_def db_inv_def)
  note ok = inv(2) [unfolded peers_ok_def]
  have i: "p_id p = i" using p(1) by (auto simp: peer_by_id_def dest: find_Some_mem)
  have mem: "\<exists>q \<in> set (peers (st_db s)). x = scan_peer q \<and> p_id q \<noteq> i" if "x \<in> set others" for x
    using that unfolding o listVisible_mem by (auto simp: visible_def)
  have "distinct (map ID others)"
    using ok by (auto simp: o listVisible_def comp_def distinct_map inj_on_def)
  moreover have "inj_on f (set others)" if "\<And>q. f (scan_peer q) = g q" "distinct (map g (peers (st_db s)))"
    for f :: "PeerRow \<Rightarrow> string" and g
  proof (rule inj_onI)
    fix x y assume xy: "x \<in> set others" "y \<in> set others" "f x = f y"
    obtain q where q: "q \<in> set (peers (st_db s))" "x = scan_peer q" using mem [OF xy(1)] by blast
    obtain r where r: "r \<in> set (peers (st_db s))" "y = scan_peer r" using mem [OF xy(2)] by blast
    have "q = r" using xy(3) q r that by (auto dest: distinct_map_eqD)
    then show "x = y" using q r by simp
  qed
  from this [of PublicKey p_public_key] this [of AssignedIP p_assigned_ip]
  have "inj_on PublicKey (set others)" "inj_on AssignedIP (set others)"
    using ok by (simp_all add: scan_peer_def)
  moreover have "inj_on AssignedIP6 {x \<in> set others. AssignedIP6 x \<noteq> []}"
  proof (rule inj_onI)
    fix x y assume xy: "x \<in> {x \<in> set others. AssignedIP6 x \<noteq> []}" "y \<in> {x \<in> set others. AssignedIP6 x \<noteq> []}"
      "AssignedIP6 x = AssignedIP6 y"
    then obtain q r where qr: "q \<in> set (peers (st_db s))" "r \<in> set (peers (st_db s))" "x = scan_peer q" "y = scan_peer r"
      using mem by blast
    obtain t where t: "p_assigned_ip6 q = Some t" "p_assigned_ip6 r = Some t"
      using xy qr(3,4) by (cases "p_assigned_ip6 q"; cases "p_assigned_ip6 r") (simp_all add: scan_peer_def)
    have "q = r" using ok by (intro distinct_col_inj [OF _ qr(1,2) t]) simp
    then show "x = y" using qr by simp
  qed
  moreover have "list_all (\<lambda>x. 0 < ID x \<and> ID x \<noteq> ID self) others"
    using mem inv(1) i p(2) unfolding list_all_iff rowids_def by (fastforce simp: list_all_iff)
  ultimately show ?thesis by (simp add: rows_ok_def)
qed

subsection \<open>Every address through one entry\<close>

text \<open>The peers whose addresses an entry carries, and the peers that some entry carries.\<close>

definition carried :: "PeerRow list \<Rightarrow> PeerRow \<Rightarrow> PeerRow list" where
  "carried others x = (if is_static x then [x] else x # mobilesByGateway others (ID x))"

definition routed :: "PeerRow \<Rightarrow> PeerRow list \<Rightarrow> PeerRow set" where
  "routed self others =
     {x \<in> set others. direct_peer self x \<or> (\<exists>g \<in> set others. \<not> is_static g \<and> ID g = GatewayPeerID x)}"

definition exit_entry :: "PeerRow \<Rightarrow> PeerRow list \<Rightarrow> bool" where
  "exit_entry self others \<longleftrightarrow> (\<exists>x \<in> set others. is_exit self x \<and> \<not> is_static x)"

lemma peer_entry_AllowedIPs:
  "pc_AllowedIPs (peer_entry env sv self others x) =
     concat (map allowedIPsForPeer (carried others x)) @ (if is_exit self x \<and> \<not> is_static x then default_routes else [])"
  by (simp add: peer_entry_def Let_def carried_def)

lemma mobiles_mem:
  "m \<in> set (mobilesByGateway others g) \<longleftrightarrow> m \<in> set others \<and> is_static m \<and> GatewayPeerID m \<noteq> 0 \<and> GatewayPeerID m = g"
  by (auto simp: mobilesByGateway_def)

lemma distinct_concat_map:
  assumes "distinct xs" "\<And>x. x \<in> set xs \<Longrightarrow> distinct (f x)"
    and "\<And>x y z. x \<in> set xs \<Longrightarrow> y \<in> set xs \<Longrightarrow> z \<in> set (f x) \<Longrightarrow> z \<in> set (f y) \<Longrightarrow> x = y"
  shows "distinct (concat (map f xs))"
  using assms by (induction xs) auto

lemma distinct_concat_mapD:
  assumes "distinct (concat (map f xs))" "x \<in> set xs"
  shows "distinct (f x)"
  using assms by (induction xs) auto

lemma distinct_concat_map_inj:
  assumes "distinct (concat (map f xs))" "x \<in> set xs" "y \<in> set xs" "t \<in> set (f x)" "t \<in> set (f y)"
  shows "x = y"
  using assms by (induction xs) auto

lemma carried_cover:
  assumes "rows_ok self others"
  shows "distinct (concat (map (carried others) (filter (direct_peer self) others)))"
    and "set (concat (map (carried others) (filter (direct_peer self) others))) = routed self others"
proof -
  have dist: "distinct (map ID others)" and self: "\<And>x. x \<in> set others \<Longrightarrow> 0 < ID x \<and> ID x \<noteq> ID self"
    using assms by (auto simp: rows_ok_def list_all_iff)
  have id: "x = y" if "x \<in> set others" "y \<in> set others" "ID x = ID y" for x y
    using that dist by (auto dest: distinct_map_eqD)
  have mobile: "\<not> direct_peer self m" if "m \<in> set (mobilesByGateway others (ID x))" "x \<in> set others" for m x
    using that self by (auto simp: mobiles_mem direct_peer_def)
  show "distinct (concat (map (carried others) (filter (direct_peer self) others)))"
  proof (rule distinct_concat_map)
    show "distinct (filter (direct_peer self) others)" using dist by (simp add: distinct_map)
    show "distinct (carried others x)" if "x \<in> set (filter (direct_peer self) others)" for x
      using that dist mobile by (auto simp: carried_def distinct_map mobilesByGateway_def)
    show "x = y" if "x \<in> set (filter (direct_peer self) others)" "y \<in> set (filter (direct_peer self) others)"
      "z \<in> set (carried others x)" "z \<in> set (carried others y)" for x y z
      using that mobile id by (auto simp: carried_def mobiles_mem split: if_splits)
  qed
  show "set (concat (map (carried others) (filter (direct_peer self) others))) = routed self others"
  proof (intro subset_antisym subsetI)
    fix z assume "z \<in> set (concat (map (carried others) (filter (direct_peer self) others)))"
    then show "z \<in> routed self others"
      by (auto simp: carried_def routed_def mobiles_mem split: if_splits)
  next
    fix z assume z: "z \<in> routed self others"
    show "z \<in> set (concat (map (carried others) (filter (direct_peer self) others)))"
    proof (cases "direct_peer self z")
      case True
      then show ?thesis using z by (auto simp: carried_def routed_def intro!: bexI [of _ z])
    next
      case False
      then obtain g where "g \<in> set others" "\<not> is_static g" "ID g = GatewayPeerID z"
        using z by (auto simp: routed_def)
      then show ?thesis using z False by (auto simp: carried_def routed_def mobiles_mem direct_peer_def intro!: bexI [of _ g])
    qed
  qed
qed

lemma routes_apart:
  assumes "t \<in> set (allowedIPsForPeer x)"
  shows "t \<notin> set default_routes" and "distinct (allowedIPsForPeer x)"
  using assms
  by (auto simp: allowedIPsForPeer_def default_routes_def append_eq_append_conv_if dest!: arg_cong [where f = last] split: if_splits)

lemma allowed_inj:
  assumes "rows_ok self others" "x \<in> set others" "y \<in> set others"
    and "t \<in> set (allowedIPsForPeer x)" "t \<in> set (allowedIPsForPeer y)"
  shows "x = y"
proof -
  have ne: "a @ ''/32'' \<noteq> b @ ''/128''" for a b :: string
    by (auto dest!: arg_cong [where f = last])
  have "AssignedIP x = AssignedIP y \<or> AssignedIP6 x = AssignedIP6 y \<and> AssignedIP6 x \<noteq> [] \<and> AssignedIP6 y \<noteq> []"
    using assms(4,5) ne [of "AssignedIP x"] ne [of "AssignedIP y"] not_sym [OF ne]
    by (auto simp: allowedIPsForPeer_def split: if_splits)
  then show ?thesis using assms(1-3) by (auto simp: rows_ok_def dest: inj_onD)
qed

lemma one_exit:
  assumes "rows_ok self others" "x \<in> set others" "y \<in> set others" "is_exit self x" "is_exit self y"
  shows "x = y"
  using assms by (auto simp: rows_ok_def is_exit_def dest: distinct_map_eqD)

lemma default_routes_distinct: "distinct default_routes"
  by (simp add: default_routes_def)

lemma concat_map_concat: "concat (map (\<lambda>x. concat (map f (g x))) xs) = concat (map f (concat (map g xs)))"
  by (induction xs) auto

lemma entries_routes:
  fixes env :: env and sv :: server
  assumes ok: "rows_ok self others"
  defines "ips \<equiv> concat (map pc_AllowedIPs (buildPeerEntries env sv self others))"
  shows "distinct ips" and "set ips = (\<Union>x \<in> routed self others. set (allowedIPsForPeer x)) \<union>
    (if exit_entry self others then set default_routes else {})"
proof -
  define D where "D = filter (direct_peer self) others"
  define E where "E x = (if is_exit self x \<and> \<not> is_static x then default_routes else [])" for x
  define A where "A x = concat (map allowedIPsForPeer (carried others x))" for x
  have ips: "ips = concat (map (\<lambda>x. A x @ E x) D)"
    by (simp add: ips_def buildPeerEntries_def D_def comp_def peer_entry_AllowedIPs A_def E_def)
  note cover = carried_cover [OF ok, folded D_def]
  have routed: "routed self others \<subseteq> set others" by (auto simp: routed_def)
  have "distinct (concat (map allowedIPsForPeer (concat (map (carried others) D))))"
  proof (rule distinct_concat_map [OF cover(1)])
    show "distinct (allowedIPsForPeer x)" for x
      using routes_apart(2) [of "hd (allowedIPsForPeer x)" x] by (simp add: allowedIPsForPeer_def)
    show "x = y" if "x \<in> set (concat (map (carried others) D))" "y \<in> set (concat (map (carried others) D))"
      "t \<in> set (allowedIPsForPeer x)" "t \<in> set (allowedIPsForPeer y)" for x y t
      using that routed unfolding cover(2) by (blast intro: allowed_inj [OF ok])
  qed
  then have dA: "distinct (concat (map A D))" unfolding A_def concat_map_concat .
  have sA: "set (concat (map A D)) = (\<Union>x \<in> routed self others. set (allowedIPsForPeer x))"
    unfolding A_def concat_map_concat cover(2) [symmetric] by simp
  have AE: "t \<notin> set default_routes" if "t \<in> set (A x)" for t x
    using that routes_apart(1) by (auto simp: A_def)
  have dD: "distinct D" using ok by (simp add: D_def rows_ok_def distinct_map)
  show "distinct ips"
    unfolding ips
  proof (rule distinct_concat_map [OF dD])
    show "distinct (A x @ E x)" if "x \<in> set D" for x
      using distinct_concat_mapD [OF dA that] AE default_routes_distinct by (auto simp: E_def)
    show "x = y" if "x \<in> set D" "y \<in> set D" "t \<in> set (A x @ E x)" "t \<in> set (A y @ E y)" for x y t
      using that distinct_concat_map_inj [OF dA that(1,2)] AE one_exit [OF ok, of x y] by (auto simp: E_def D_def split: if_splits)
  qed
  have "set ips = set (concat (map A D)) \<union> set (concat (map E D))" by (auto simp: ips)
  moreover have "set (concat (map E D)) = (if exit_entry self others then set default_routes else {})"
    by (auto simp: E_def D_def exit_entry_def direct_peer_def split: if_splits)
  ultimately show "set ips = (\<Union>x \<in> routed self others. set (allowedIPsForPeer x)) \<union>
      (if exit_entry self others then set default_routes else {})"
    using sA by simp
qed

text \<open>
  C8: In the peer list built for an agent no AllowedIP occurs twice, so WireGuard's routing
  table does not depend on the order of the entries. It holds exactly the addresses of the
  visible peers that are direct or whose gateway agent is visible, and the two default routes
  exactly when the assigned exit node is among the visible agents.
\<close>

theorem sync_routes:
  assumes "store_inv s" "PeersForID i s = Inr (self, others)"
  shows "distinct (concat (map pc_AllowedIPs (buildPeerEntries env sv self others))) \<and>
    set (concat (map pc_AllowedIPs (buildPeerEntries env sv self others))) =
      (\<Union>x \<in> routed self others. set (allowedIPsForPeer x)) \<union>
      (if exit_entry self others then set default_routes else {})"
  using entries_routes [OF PeersForID_rows [OF assms]] by blast

theorem sync_routes_witness:
  "\<exists>self others. PeersForID 1 demo_store2 = Inr (self, others) \<and>
     (\<forall>env sv. distinct (concat (map pc_AllowedIPs (buildPeerEntries env sv self others))) \<and>
     ''100.64.0.2/32'' \<in> set (concat (map pc_AllowedIPs (buildPeerEntries env sv self others))))"
proof -
  define self where "self = (scan_peer demo_peer)\<lparr>Hostname := []\<rparr>"
  define others where "others = [scan_peer demo_peer2]"
  have p: "PeersForID 1 demo_store2 = Inr (self, others)"
    unfolding self_def others_def by code_simp
  have "scan_peer demo_peer2 \<in> routed self others"
    by (simp add: routed_def others_def direct_peer_def is_static_def scan_peer_def demo_peer2_def demo_peer_def)
  moreover have "''100.64.0.2/32'' \<in> set (allowedIPsForPeer (scan_peer demo_peer2))"
    by (simp add: allowedIPsForPeer_def scan_peer_def demo_peer2_def)
  ultimately show ?thesis
    using p sync_routes [OF demo_store2_inv p] by blast
qed

subsection \<open>Both ends are configured alike\<close>

text \<open>What the two ends of a tunnel must agree on, and the key an entry is for.\<close>

definition pair_settings :: "PeerConfigResponse \<Rightarrow> string option \<times> int" where
  "pair_settings e = (pc_PresharedKey e, pc_PunchEpoch e)"

lemma peer_entry_settings:
  "pc_PublicKey (peer_entry env sv self others x) = PublicKey x"
  "pair_settings (peer_entry env sv self others x) =
     (Some (KeyString (e_wg env) (DerivePairKey (e_sha256 env) (sv_pskMaster sv) (PublicKey self) (PublicKey x))),
      current_epoch env (PublicKey self) (PublicKey x) sv)"
  by (simp_all add: peer_entry_def pair_settings_def Let_def)

lemma pair_settings_commute:
  assumes "PublicKey self' = PublicKey x" "PublicKey x' = PublicKey self"
  shows "pair_settings (peer_entry env sv self others x) = pair_settings (peer_entry env sv self' others' x')"
  unfolding peer_entry_settings(2) assms current_epoch_def
  using DerivePairKey_commute [of "e_sha256 env" "sv_pskMaster sv" "PublicKey self" "PublicKey x"]
    relayPairID_commute [of "e_sha256 env" "PublicKey self" "PublicKey x"]
  by simp

lemma filter_singleton:
  assumes "distinct xs" "\<And>x. x \<in> set xs \<Longrightarrow> P x \<Longrightarrow> x = a" "P a"
  shows "filter P xs = (if a \<in> set xs then [a] else [])"
  using assms
proof (induction xs)
  case (Cons x xs)
  then have IH: "filter P xs = (if a \<in> set xs then [a] else [])" by auto
  show ?case
  proof (cases "P x")
    case True
    with Cons.prems have "x = a" by auto
    with Cons.prems(1,3) IH show ?thesis by simp
  next
    case False
    with Cons.prems(3) IH show ?thesis by auto
  qed
qed simp

lemma entries_for:
  assumes inv: "store_inv s" and rows: "PeersForID (p_id p) s = Inr (self, others)"
    and q: "q \<in> set (peers (st_db s))" "p_peer_type q = ''agent''"
  shows "filter (\<lambda>e. pc_PublicKey e = p_public_key q) (buildPeerEntries env sv self others) =
    (if visible (st_db s) (DefaultAllow s) (p_id p) q then [peer_entry env sv self others (scan_peer q)] else [])"
proof -
  have ok: "rows_ok self others" by (rule PeersForID_rows [OF inv rows])
  have ids: "distinct (map p_id (peers (st_db s)))" "distinct (map p_public_key (peers (st_db s)))"
    using inv by (auto simp: store_inv_def db_inv_def peers_ok_def rowids_distinct)
  have others: "others = listVisible (st_db s) (p_id p) (DefaultAllow s)"
    using rows by (auto simp: PeersForID_def split: option.splits)
  have direct: "direct_peer self (scan_peer q)"
    using q(2) by (simp add: direct_peer_def is_static_def scan_peer_def)
  have "x = scan_peer q" if "x \<in> set others" "PublicKey x = p_public_key q" for x
    using that q(1) ids(2) unfolding others listVisible_mem
    by (auto simp: scan_peer_def dest: distinct_map_eqD)
  then have "filter (\<lambda>x. PublicKey x = p_public_key q) (filter (direct_peer self) others) =
      (if scan_peer q \<in> set others then [scan_peer q] else [])"
    using ok direct by (subst filter_singleton [where a = "scan_peer q"])
      (auto simp: rows_ok_def distinct_map scan_peer_def)
  then show ?thesis
    using scan_peer_mem [OF ids(1) q(1)]
    by (simp add: buildPeerEntries_def filter_map comp_def peer_entry_settings(1) others)
qed

text \<open>
  C33: Two active agents are configured alike: either both have an entry for the other or
  neither has, and where they have, the two entries carry the same preshared key and the same
  punch epoch.
\<close>

theorem entries_agree:
  assumes "store_inv s" "p \<in> set (peers (st_db s))" "q \<in> set (peers (st_db s))"
    and "p_revoked_at p = None" "p_revoked_at q = None" "p_peer_type p = ''agent''" "p_peer_type q = ''agent''"
    and "PeersForID (p_id p) s = Inr (sp, op)" "PeersForID (p_id q) s = Inr (sq, oq)"
  shows "map pair_settings (filter (\<lambda>e. pc_PublicKey e = p_public_key q) (buildPeerEntries env sv sp op)) =
    map pair_settings (filter (\<lambda>e. pc_PublicKey e = p_public_key p) (buildPeerEntries env sv sq oq))"
proof -
  have d: "db_inv (st_db s)" "distinct (map p_id (peers (st_db s)))"
    using assms(1) by (auto simp: store_inv_def db_inv_def rowids_distinct)
  have "PublicKey sp = p_public_key p" "PublicKey sq = p_public_key q"
    using assms(8,9) peer_by_id_Some [OF d(2), of "p_id p" p] peer_by_id_Some [OF d(2), of "p_id q" q] assms(2,3)
    by (auto simp: PeersForID_def scan_peer_def)
  then have "pair_settings (peer_entry env sv sp op (scan_peer q)) = pair_settings (peer_entry env sv sq oq (scan_peer p))"
    by (intro pair_settings_commute) (simp_all add: scan_peer_def)
  then show ?thesis
    unfolding entries_for [OF assms(1,8,3,7)] entries_for [OF assms(1,9,2,6)]
    using visible_symmetric [OF d(1) assms(2-7)] by simp
qed

theorem entries_agree_witness:
  "\<exists>sp op sq oq. PeersForID 1 demo_store2 = Inr (sp, op) \<and> PeersForID 2 demo_store2 = Inr (sq, oq) \<and>
     (\<forall>env sv. map pair_settings (filter (\<lambda>e. pc_PublicKey e = ''pkB'') (buildPeerEntries env sv sp op)) =
     map pair_settings (filter (\<lambda>e. pc_PublicKey e = ''pkA'') (buildPeerEntries env sv sq oq)))"
proof -
  have p: "PeersForID 1 demo_store2 = Inr ((scan_peer demo_peer)\<lparr>Hostname := []\<rparr>, [scan_peer demo_peer2])"
    and q: "PeersForID 2 demo_store2 = Inr ((scan_peer demo_peer2)\<lparr>Hostname := []\<rparr>, [scan_peer demo_peer])"
    by code_simp+
  show ?thesis
    using entries_agree [OF demo_store2_inv, of demo_peer demo_peer2] p q
    by (simp add: demo_store2_def demo_store_def demo_peer_def demo_peer2_def)
qed

end
