(* ===== verification/WgDevice.thy ===== *)
theory WgDevice
  imports Routes "HOL-Library.Multiset"
begin

section \<open>The agent's WireGuard device\<close>

text \<open>
  cmd/agent/sync.go and the parsing half of cmd/agent/main.go: an entry of the sync payload
  becomes a \<open>wgtypes.PeerConfig\<close>, and \<open>syncPeers\<close> computes the changes that bring the
  device to the desired peer list. The device itself is behind \<open>wgBackend\<close>: what
  \<open>ConfigureDevice\<close> does is a parameter of the properties, with the documented meaning of a
  \<open>PeerConfig\<close> (\<open>wg_apply\<close>) as the hypothesis.
\<close>

type_synonym wg_key = string

record wgPeer =
  wp_PublicKey :: wg_key
  wp_PresharedKey :: wg_key
  wp_Endpoint :: "addr_port option"
  wp_Keepalive :: duration
  wp_LastHandshake :: "time option"
  wp_RxBytes :: int
  wp_TxBytes :: int
  wp_AllowedIPs :: "prefix list"

record PeerConfig =
  cf_PublicKey :: wg_key
  cf_Remove :: bool
  cf_UpdateOnly :: bool
  cf_PresharedKey :: "wg_key option"
  cf_Endpoint :: "addr_port option"
  cf_Keepalive :: "duration option"
  cf_ReplaceAllowedIPs :: bool
  cf_AllowedIPs :: "prefix list"

type_synonym device = "wgPeer list"

text \<open>\<open>wgtypes.Key{}\<close>: what a peer without a preshared key has.\<close>

definition zero_key :: wg_key where
  "zero_key = replicate 32 (byte 0)"

definition lookup_peer :: "device \<Rightarrow> wg_key \<Rightarrow> wgPeer option" where
  "lookup_peer dev k = List.find (\<lambda>p. wp_PublicKey p = k) dev"

subsection \<open>Parsing an entry\<close>

text \<open>\<open>net.ParseCIDR\<close>: the network of the text, host bits cleared.\<close>

definition ParseCIDR :: "string \<Rightarrow> prefix option" where
  "ParseCIDR s =
     (case Cut CHR ''/'' s of
        None \<Rightarrow> None
      | Some (a, m) \<Rightarrow>
          (case ParseAddr a of
             None \<Rightarrow> None
           | Some ip \<Rightarrow>
               if addr_Zone ip \<noteq> [] \<or> m = [] \<or> \<not> list_all is_digit m \<or> BitLen ip < dec_val m then None
               else Some (Masked (Prefix ip (dec_val m)))))"

datatype agent_error = AgentErr string

definition parse_allowed :: "string \<Rightarrow> prefix list \<Rightarrow> agent_error + prefix list" where
  "parse_allowed cidr allowed =
     (case ParseCIDR cidr of
        None \<Rightarrow> Inl (AgentErr ''parse allowed CIDR'')
      | Some n \<Rightarrow> Inr (allowed @ [n]))"

definition entry_endpoint :: "PeerConfigResponse \<Rightarrow> string" where
  "entry_endpoint p =
     (case pc_EndpointCandidates p of
        c # _ \<Rightarrow> ec_Endpoint c
      | [] \<Rightarrow> (case pc_Endpoint p of None \<Rightarrow> [] | Some e \<Rightarrow> e))"

definition resolve_entry :: "(string \<Rightarrow> addr_port option) \<Rightarrow> string \<Rightarrow> agent_error + addr_port option" where
  "resolve_entry resolve endpoint =
     (if endpoint = [] then Inr None
      else case resolve endpoint of
             None \<Rightarrow> Inl (AgentErr ''resolve endpoint'')
           | Some a \<Rightarrow> Inr (Some a))"

definition parse_psk :: "(string \<Rightarrow> wg_key option) \<Rightarrow> string option \<Rightarrow> agent_error + wg_key option" where
  "parse_psk parseKey p =
     (case p of
        None \<Rightarrow> Inr None
      | Some t \<Rightarrow> (case parseKey t of
            None \<Rightarrow> Inl (AgentErr ''parse preshared key'')
          | Some k \<Rightarrow> Inr (Some k)))"

definition peerConfigFromProto ::
  "(string \<Rightarrow> wg_key option) \<Rightarrow> (string \<Rightarrow> addr_port option) \<Rightarrow> PeerConfigResponse \<Rightarrow> agent_error + PeerConfig" where
  "peerConfigFromProto parseKey resolve p =
     (case parseKey (pc_PublicKey p) of
        None \<Rightarrow> Inl (AgentErr ''parse peer public key'')
      | Some publicKey \<Rightarrow>
          bindE (resolve_entry resolve (entry_endpoint p)) (\<lambda>udpAddr.
          bindE (foldE parse_allowed (pc_AllowedIPs p) []) (\<lambda>allowed.
          bindE (parse_psk parseKey (pc_PresharedKey p)) (\<lambda>psk.
            Inr \<lparr>cf_PublicKey = publicKey, cf_Remove = False, cf_UpdateOnly = False, cf_PresharedKey = psk,
                 cf_Endpoint = udpAddr,
                 cf_Keepalive = map_option (\<lambda>n. n * second) (pc_PersistentKeepaliveInterval p),
                 cf_ReplaceAllowedIPs = False, cf_AllowedIPs = allowed\<rparr>))))"

subsection \<open>Reconciling the peer list\<close>

definition sameAllowedIPs :: "prefix list \<Rightarrow> prefix list \<Rightarrow> bool" where
  "sameAllowedIPs a b =
     (if length a \<noteq> length b then False
      else join_with '','' (sort (map prefix_String a)) = join_with '','' (sort (map prefix_String b)))"

definition peerNeedsUpdate :: "wgPeer \<Rightarrow> PeerConfig \<Rightarrow> bool" where
  "peerNeedsUpdate cur want =
     (if \<not> sameAllowedIPs (wp_AllowedIPs cur) (cf_AllowedIPs want) then True
      else let wantPSK = (case cf_PresharedKey want of None \<Rightarrow> zero_key | Some k \<Rightarrow> k)
      in if wp_PresharedKey cur \<noteq> wantPSK then True
         else case cf_Keepalive want of None \<Rightarrow> False | Some d \<Rightarrow> wp_Keepalive cur \<noteq> d)"

definition endpointStale :: "wgPeer \<Rightarrow> PeerConfig \<Rightarrow> bool" where
  "endpointStale cur want =
     (wp_LastHandshake cur = None \<and>
      (case cf_Endpoint want of
         None \<Rightarrow> False
       | Some e \<Rightarrow> (case wp_Endpoint cur of None \<Rightarrow> True | Some e' \<Rightarrow> addr_port_String e' \<noteq> addr_port_String e)))"

definition want_changes :: "device \<Rightarrow> PeerConfig \<Rightarrow> PeerConfig list" where
  "want_changes dev want =
     (case lookup_peer dev (cf_PublicKey want) of
        None \<Rightarrow> [want]
      | Some cur \<Rightarrow>
          if \<not> peerNeedsUpdate cur want \<and> \<not> endpointStale cur want then []
          else [want\<lparr>cf_UpdateOnly := True, cf_ReplaceAllowedIPs := True,
                  cf_Endpoint := (if endpointStale cur want then cf_Endpoint want else None)\<rparr>])"

definition removal :: "wg_key \<Rightarrow> PeerConfig" where
  "removal k = \<lparr>cf_PublicKey = k, cf_Remove = True, cf_UpdateOnly = False, cf_PresharedKey = None, cf_Endpoint = None,
     cf_Keepalive = None, cf_ReplaceAllowedIPs = False, cf_AllowedIPs = []\<rparr>"

text \<open>
  The two maps of \<open>syncPeers\<close> are keyed by public key, a later entry replacing an earlier one;
  Go iterates them in any order. \<open>sync_changes\<close> lists the changes in one order.
\<close>

fun last_by_key :: "PeerConfig list \<Rightarrow> PeerConfig list" where
  "last_by_key [] = []"
| "last_by_key (c # cs) = (if cf_PublicKey c \<in> cf_PublicKey ` set cs then last_by_key cs else c # last_by_key cs)"

definition sync_changes :: "device \<Rightarrow> PeerConfig list \<Rightarrow> PeerConfig list" where
  "sync_changes dev desired =
     map removal (filter (\<lambda>k. k \<notin> cf_PublicKey ` set desired) (map wp_PublicKey dev)) @
     concat (map (want_changes dev) (last_by_key desired))"

definition syncPeers ::
  "(PeerConfig list \<Rightarrow> device \<Rightarrow> agent_error + device) \<Rightarrow> PeerConfig list \<Rightarrow> device \<Rightarrow> agent_error + device" where
  "syncPeers configure desired dev =
     (let changes = sync_changes dev desired
      in if changes = [] then Inr dev else configure changes dev)"

subsection \<open>What a PeerConfig does\<close>

text \<open>
  The documented effect of one \<open>PeerConfig\<close> on a device (wgctrl's wgtypes, wg(8)): fields
  that are nil are kept, an update of an absent peer is ignored, and an allowed IP belongs to
  one peer, the one it was given to last.
\<close>

definition blank_peer :: "wg_key \<Rightarrow> wgPeer" where
  "blank_peer k = \<lparr>wp_PublicKey = k, wp_PresharedKey = zero_key, wp_Endpoint = None, wp_Keepalive = 0,
     wp_LastHandshake = None, wp_RxBytes = 0, wp_TxBytes = 0, wp_AllowedIPs = []\<rparr>"

definition keep_ips :: "(prefix \<Rightarrow> bool) \<Rightarrow> wgPeer \<Rightarrow> wgPeer" where
  "keep_ips P p = p\<lparr>wp_AllowedIPs := filter P (wp_AllowedIPs p)\<rparr>"

definition set_peer :: "PeerConfig \<Rightarrow> wgPeer \<Rightarrow> wgPeer" where
  "set_peer c p =
     (let old = (if cf_ReplaceAllowedIPs c then [] else wp_AllowedIPs p)
      in p\<lparr>wp_PresharedKey := (case cf_PresharedKey c of None \<Rightarrow> wp_PresharedKey p | Some k \<Rightarrow> k),
           wp_Endpoint := (case cf_Endpoint c of None \<Rightarrow> wp_Endpoint p | Some e \<Rightarrow> Some e),
           wp_Keepalive := (case cf_Keepalive c of None \<Rightarrow> wp_Keepalive p | Some d \<Rightarrow> d),
           wp_AllowedIPs := old @ filter (\<lambda>n. n \<notin> set old) (remdups (cf_AllowedIPs c))\<rparr>)"

definition wg_apply :: "PeerConfig \<Rightarrow> device \<Rightarrow> device" where
  "wg_apply c dev =
     (let k = cf_PublicKey c; here = (k \<in> wp_PublicKey ` set dev)
      in if cf_Remove c then filter (\<lambda>p. wp_PublicKey p \<noteq> k) dev
         else if \<not> here \<and> cf_UpdateOnly c then dev
         else map (\<lambda>p. if wp_PublicKey p = k then set_peer c p else keep_ips (\<lambda>n. n \<notin> set (cf_AllowedIPs c)) p)
                (if here then dev else dev @ [blank_peer k]))"

lemma wp_key_simps [simp]:
  "wp_PublicKey (set_peer c p) = wp_PublicKey p" "wp_PublicKey (keep_ips P p) = wp_PublicKey p"
  "wp_PublicKey (blank_peer k) = k"
  by (simp_all add: set_peer_def keep_ips_def blank_peer_def Let_def)

lemma lookup_peer_simps [simp]:
  "lookup_peer [] k = None"
  "lookup_peer (p # dev) k = (if wp_PublicKey p = k then Some p else lookup_peer dev k)"
  by (simp_all add: lookup_peer_def)

lemma lookup_peer_None: "lookup_peer dev k = None \<longleftrightarrow> k \<notin> wp_PublicKey ` set dev"
  by (induction dev) auto

lemma lookup_peer_append:
  "lookup_peer (d @ e) k = (case lookup_peer d k of None \<Rightarrow> lookup_peer e k | Some p \<Rightarrow> Some p)"
  by (induction d) auto

lemma lookup_peer_map:
  assumes "\<And>p. wp_PublicKey (f p) = wp_PublicKey p"
  shows "lookup_peer (map f dev) k = map_option f (lookup_peer dev k)"
  using assms by (induction dev) auto

lemma lookup_peer_filter:
  "lookup_peer (filter (\<lambda>p. wp_PublicKey p \<noteq> k') dev) k = (if k = k' then None else lookup_peer dev k)"
  by (induction dev) auto

lemma lookup_peer_key: "lookup_peer dev k = Some p \<Longrightarrow> wp_PublicKey p = k"
  by (induction dev) (auto split: if_splits)

lemma lookup_apply_same:
  assumes "cf_PublicKey c = k"
  shows "lookup_peer (wg_apply c dev) k =
    (if cf_Remove c then None
     else case lookup_peer dev k of
            None \<Rightarrow> if cf_UpdateOnly c then None else Some (set_peer c (blank_peer k))
          | Some p \<Rightarrow> Some (set_peer c p))"
proof (cases "lookup_peer dev k")
  case None
  then have "k \<notin> wp_PublicKey ` set dev" using lookup_peer_None [of dev k] by simp
  with None assms show ?thesis
    by (simp add: wg_apply_def Let_def lookup_peer_filter lookup_peer_map lookup_peer_append)
next
  case (Some p)
  then have "k \<in> wp_PublicKey ` set dev" using lookup_peer_None [of dev k] by auto
  with Some assms lookup_peer_key [OF Some] show ?thesis
    by (simp add: wg_apply_def Let_def lookup_peer_filter lookup_peer_map)
qed

lemma lookup_apply_other:
  assumes "cf_PublicKey c \<noteq> k"
  obtains P where "lookup_peer (wg_apply c dev) k = map_option (keep_ips P) (lookup_peer dev k)"
    and "\<And>n. n \<notin> set (cf_AllowedIPs c) \<Longrightarrow> P n"
proof (cases "cf_Remove c \<or> cf_PublicKey c \<notin> wp_PublicKey ` set dev \<and> cf_UpdateOnly c")
  case True
  have "keep_ips (\<lambda>n. True) p = p" for p by (simp add: keep_ips_def)
  then have "map_option (keep_ips (\<lambda>n. True)) = id" by (simp add: option.map_id fun_eq_iff map_option_case split: option.splits)
  with True assms show thesis
    by (intro that [of "\<lambda>n. True"]) (auto simp: wg_apply_def Let_def lookup_peer_filter)
next
  case False
  let ?P = "\<lambda>n. n \<notin> set (cf_AllowedIPs c)"
  have "lookup_peer (wg_apply c dev) k =
      map_option (\<lambda>p. if wp_PublicKey p = cf_PublicKey c then set_peer c p else keep_ips ?P p) (lookup_peer dev k)"
    using False assms by (auto simp: wg_apply_def Let_def lookup_peer_map lookup_peer_append split: option.splits)
  also have "\<dots> = map_option (keep_ips ?P) (lookup_peer dev k)"
    using assms lookup_peer_key [of dev k] by (cases "lookup_peer dev k") auto
  finally show thesis by (rule that) simp
qed

lemma fold_apply_other:
  assumes "k \<notin> cf_PublicKey ` set cs"
  obtains P where "lookup_peer (fold wg_apply cs dev) k = map_option (keep_ips P) (lookup_peer dev k)"
    and "\<And>n. n \<notin> (\<Union>c \<in> set cs. set (cf_AllowedIPs c)) \<Longrightarrow> P n"
  using assms
proof (induction cs arbitrary: dev thesis)
  case Nil
  have "keep_ips (\<lambda>n. True) p = p" for p by (simp add: keep_ips_def)
  then show ?case by (intro Nil(1) [of "\<lambda>n. True"]) (simp_all add: map_option_case split: option.splits)
next
  case (Cons c cs)
  from Cons.prems(2) have ne: "cf_PublicKey c \<noteq> k" "k \<notin> cf_PublicKey ` set cs" by auto
  obtain P where P: "lookup_peer (wg_apply c dev) k = map_option (keep_ips P) (lookup_peer dev k)"
    "\<And>n. n \<notin> set (cf_AllowedIPs c) \<Longrightarrow> P n"
    by (rule lookup_apply_other [OF ne(1)]) blast
  obtain Q where Q: "lookup_peer (fold wg_apply cs (wg_apply c dev)) k = map_option (keep_ips Q) (lookup_peer (wg_apply c dev) k)"
    "\<And>n. n \<notin> (\<Union>c \<in> set cs. set (cf_AllowedIPs c)) \<Longrightarrow> Q n"
    by (rule Cons.IH [OF _ ne(2)]) blast
  have "keep_ips Q (keep_ips P p) = keep_ips (\<lambda>n. P n \<and> Q n) p" for p
    by (simp add: keep_ips_def conj_commute)
  then have "lookup_peer (fold wg_apply (c # cs) dev) k = map_option (keep_ips (\<lambda>n. P n \<and> Q n)) (lookup_peer dev k)"
    using P(1) Q(1) by (simp add: option.map_comp comp_def)
  then show ?case by (rule Cons.prems(1)) (use P(2) Q(2) in auto)
qed

subsection \<open>Reaching the desired configuration\<close>

text \<open>
  What the control plane decides for a peer, read off a device and off the desired list. The
  endpoint is not part of it: WireGuard's roaming owns it.
\<close>

type_synonym settings = "wg_key \<times> duration \<times> prefix set"

definition device_settings :: "device \<Rightarrow> wg_key \<Rightarrow> settings option" where
  "device_settings dev k =
     map_option (\<lambda>p. (wp_PresharedKey p, wp_Keepalive p, set (wp_AllowedIPs p))) (lookup_peer dev k)"

definition desired_settings :: "PeerConfig list \<Rightarrow> wg_key \<Rightarrow> settings option" where
  "desired_settings desired k =
     map_option (\<lambda>c. (the (cf_PresharedKey c), the (cf_Keepalive c), set (cf_AllowedIPs c)))
       (List.find (\<lambda>c. cf_PublicKey c = k) desired)"

definition desired_ok :: "PeerConfig list \<Rightarrow> bool" where
  "desired_ok desired \<longleftrightarrow>
     distinct (map cf_PublicKey desired) \<and> distinct (concat (map cf_AllowedIPs desired)) \<and>
     list_all (\<lambda>c. \<not> cf_Remove c \<and> \<not> cf_UpdateOnly c \<and> cf_PresharedKey c \<noteq> None \<and> cf_Keepalive c \<noteq> None \<and>
       list_all plain_prefix (cf_AllowedIPs c)) desired"

definition device_ok :: "device \<Rightarrow> bool" where
  "device_ok dev \<longleftrightarrow> distinct (map wp_PublicKey dev) \<and> list_all (\<lambda>p. list_all plain_prefix (wp_AllowedIPs p)) dev"

lemma prefix_String_inj: "plain_prefix p \<Longrightarrow> plain_prefix q \<Longrightarrow> prefix_String p = prefix_String q \<Longrightarrow> p = q"
  by (metis ParsePrefix_String option.inject)

lemma prefix_String_no_comma:
  assumes "plain_prefix p"
  shows "CHR '','' \<notin> set (prefix_String p)"
proof -
  obtain a b where p: "p = Prefix a b" using assms by (cases p) (auto simp: plain_prefix_def)
  then have a: "addr_IsValid a" "addr_Zone a = []" using assms by (auto simp: plain_prefix_def)
  have "list_all addr_char (addr_String a)"
  proof (cases a)
    case (V6 w z)
    with a addr_char_print6 [of w] show ?thesis by (simp add: print6_def)
  qed (use a addr_char_print4 in auto)
  then have "CHR '','' \<notin> set (addr_String a)"
    by (auto simp: list_all_iff addr_char_def is_hex_def hex_val1_def)
  moreover have "CHR '','' \<notin> set (dec b)" using dec_digits [of "CHR '',''" b] by (auto simp: is_digit_def)
  ultimately show ?thesis using assms p by (simp add: plain_prefix_def)
qed

lemma sameAllowedIPs_iff:
  assumes "list_all plain_prefix a" "list_all plain_prefix b"
  shows "sameAllowedIPs a b \<longleftrightarrow> mset a = mset b"
proof
  assume same: "sameAllowedIPs a b"
  have split: "split_on CHR '','' (join_with '','' (sort (map prefix_String x))) = sort (map prefix_String x)"
    if "list_all plain_prefix x" "x \<noteq> []" for x
  proof (rule split_join)
    show "sort (map prefix_String x) \<noteq> []" using that(2) by (metis length_0_conv length_map length_sort)
    show "\<forall>w \<in> set (sort (map prefix_String x)). CHR '','' \<notin> set w"
      using that(1) prefix_String_no_comma by (auto simp: list_all_iff)
  qed
  have "sort (map prefix_String a) = sort (map prefix_String b)"
  proof (cases "a = []")
    case False
    with same have b: "b \<noteq> []" by (auto simp: sameAllowedIPs_def split: if_splits)
    have "join_with '','' (sort (map prefix_String a)) = join_with '','' (sort (map prefix_String b))"
      using same unfolding sameAllowedIPs_def by (rule contrapos_pp) simp
    from arg_cong [OF this, of "split_on CHR '',''"] show ?thesis
      unfolding split [OF assms(1) False] split [OF assms(2) b] .
  qed (use same in \<open>auto simp: sameAllowedIPs_def split: if_splits\<close>)
  then have "image_mset prefix_String (mset a) = image_mset prefix_String (mset b)"
    by (metis mset_map mset_sort)
  moreover have "image_mset (the \<circ> ParsePrefix) (image_mset prefix_String (mset x)) = mset x" if "list_all plain_prefix x" for x
    using that ParsePrefix_String by (induction x) (auto simp: comp_def)
  ultimately show "mset a = mset b" using assms by metis
next
  assume m: "mset a = mset b"
  then have "mset (map prefix_String a) = mset (map prefix_String b)" by simp
  then have "sort (map prefix_String a) = sort (map prefix_String b)"
    by (intro properties_for_sort) simp_all
  with m show "sameAllowedIPs a b" by (auto simp: sameAllowedIPs_def dest: mset_eq_length)
qed

lemma last_by_key_distinct: "distinct (map cf_PublicKey cs) \<Longrightarrow> last_by_key cs = cs"
  by (induction cs) auto

lemma want_changes_cases:
  assumes "c \<in> set (want_changes dev want)"
  shows "cf_PublicKey c = cf_PublicKey want" "cf_AllowedIPs c = cf_AllowedIPs want"
    "cf_Remove c = cf_Remove want" "cf_PresharedKey c = cf_PresharedKey want" "cf_Keepalive c = cf_Keepalive want"
  using assms by (auto simp: want_changes_def split: option.splits if_splits)

lemma want_changes_short: "length (want_changes dev want) \<le> 1"
  by (simp add: want_changes_def split: option.splits)

lemma distinct_keys_concat:
  assumes "distinct (map k ws)" "\<And>w. length (f w) \<le> 1" "\<And>w c. c \<in> set (f w) \<Longrightarrow> g c = k w"
  shows "distinct (map g (concat (map f ws)))" and "g ` set (concat (map f ws)) \<subseteq> k ` set ws"
proof -
  have one: "distinct (map g (f w))" for w
    using assms(2) [of w] by (cases "f w") auto
  show sub: "g ` set (concat (map f ws)) \<subseteq> k ` set ws" using assms(3) by auto
  show "distinct (map g (concat (map f ws)))"
    using assms(1) one assms(3) by (induction ws) (auto simp: map_concat)
qed

lemma sync_changes_mem:
  assumes "desired_ok desired"
  shows "c \<in> set (sync_changes dev desired) \<longleftrightarrow>
    (\<exists>k \<in> wp_PublicKey ` set dev. k \<notin> cf_PublicKey ` set desired \<and> c = removal k) \<or>
    (\<exists>want \<in> set desired. c \<in> set (want_changes dev want))"
  using assms by (auto simp: sync_changes_def desired_ok_def last_by_key_distinct)

lemma sync_changes_keys:
  assumes "device_ok dev" "desired_ok desired"
  shows "distinct (map cf_PublicKey (sync_changes dev desired))"
proof -
  have d: "distinct (map wp_PublicKey dev)" "distinct (map cf_PublicKey desired)"
    using assms by (auto simp: device_ok_def desired_ok_def)
  have [simp]: "map cf_PublicKey (map removal ks) = ks" for ks by (induction ks) (auto simp: removal_def)
  have c: "distinct (map cf_PublicKey (concat (map (want_changes dev) desired)))"
    "cf_PublicKey ` set (concat (map (want_changes dev) desired)) \<subseteq> cf_PublicKey ` set desired"
    using distinct_keys_concat [of cf_PublicKey desired "want_changes dev" cf_PublicKey] d(2) want_changes_short
      want_changes_cases(1) by blast+
  show ?thesis
    using d(1) c unfolding sync_changes_def last_by_key_distinct [OF d(2)] map_append distinct_append
    by (auto simp del: map_map)
qed

lemma desired_apart:
  assumes "desired_ok desired" "v \<in> set desired" "w \<in> set desired" "cf_PublicKey v \<noteq> cf_PublicKey w"
  shows "set (cf_AllowedIPs v) \<inter> set (cf_AllowedIPs w) = {}"
proof (rule ccontr)
  assume "set (cf_AllowedIPs v) \<inter> set (cf_AllowedIPs w) \<noteq> {}"
  then obtain n where "n \<in> set (cf_AllowedIPs v)" "n \<in> set (cf_AllowedIPs w)" by blast
  moreover have "distinct (concat (map cf_AllowedIPs desired))" using assms(1) by (simp add: desired_ok_def)
  ultimately have "v = w" using assms(2,3) by (auto intro: distinct_concat_map_inj)
  with assms(4) show False by simp
qed

lemma changes_apart:
  assumes "desired_ok desired" "want \<in> set desired" "c \<in> set (sync_changes dev desired)"
    and "cf_PublicKey c \<noteq> cf_PublicKey want" "n \<in> set (cf_AllowedIPs want)"
  shows "n \<notin> set (cf_AllowedIPs c)"
  using assms(3) unfolding sync_changes_mem [OF assms(1)]
  using assms(4,5) desired_apart [OF assms(1) _ assms(2)] want_changes_cases(1,2)
  by (fastforce simp: removal_def)

lemma set_peer_simps [simp]:
  "wp_PresharedKey (set_peer c p) = (case cf_PresharedKey c of None \<Rightarrow> wp_PresharedKey p | Some k \<Rightarrow> k)"
  "wp_Keepalive (set_peer c p) = (case cf_Keepalive c of None \<Rightarrow> wp_Keepalive p | Some d \<Rightarrow> d)"
  "wp_Endpoint (set_peer c p) = (case cf_Endpoint c of None \<Rightarrow> wp_Endpoint p | Some e \<Rightarrow> Some e)"
  "wp_LastHandshake (set_peer c p) = wp_LastHandshake p"
  by (simp_all add: set_peer_def Let_def)

lemma keep_ips_simps [simp]:
  "wp_PresharedKey (keep_ips P p) = wp_PresharedKey p" "wp_Keepalive (keep_ips P p) = wp_Keepalive p"
  "wp_Endpoint (keep_ips P p) = wp_Endpoint p" "wp_LastHandshake (keep_ips P p) = wp_LastHandshake p"
  "wp_AllowedIPs (keep_ips P p) = filter P (wp_AllowedIPs p)"
  by (simp_all add: keep_ips_def)

lemma blank_peer_simps [simp]:
  "wp_AllowedIPs (blank_peer k) = []" "wp_Endpoint (blank_peer k) = None" "wp_LastHandshake (blank_peer k) = None"
  by (simp_all add: blank_peer_def)

text \<open>What the device holds for a wanted peer afterwards.\<close>

definition synced :: "wgPeer option \<Rightarrow> PeerConfig \<Rightarrow> wgPeer \<Rightarrow> bool" where
  "synced before want p \<longleftrightarrow>
     Some (wp_PresharedKey p) = cf_PresharedKey want \<and> Some (wp_Keepalive p) = cf_Keepalive want \<and>
     mset (wp_AllowedIPs p) = mset (cf_AllowedIPs want) \<and>
     (case before of
        None \<Rightarrow> wp_LastHandshake p = None \<and> wp_Endpoint p = cf_Endpoint want
      | Some p0 \<Rightarrow> wp_LastHandshake p = wp_LastHandshake p0 \<and>
          wp_Endpoint p = (if endpointStale p0 want then cf_Endpoint want else wp_Endpoint p0))"

lemma synced_keep:
  assumes "synced before want p" "\<And>n. n \<in> set (cf_AllowedIPs want) \<Longrightarrow> P n"
  shows "synced before want (keep_ips P p)"
proof -
  have "set (wp_AllowedIPs p) = set (cf_AllowedIPs want)"
    using assms(1) unfolding synced_def by (metis set_mset_mset)
  then have "filter P (wp_AllowedIPs p) = wp_AllowedIPs p" using assms(2) by (intro filter_True) auto
  then show ?thesis using assms(1) by (simp add: synced_def split: option.splits)
qed

lemma synced_set_peer:
  assumes "distinct (cf_AllowedIPs want)" "cf_PresharedKey want \<noteq> None" "cf_Keepalive want \<noteq> None"
    and "c \<in> set (want_changes dev want)" "before = lookup_peer dev (cf_PublicKey want)"
    and "p = (case before of None \<Rightarrow> blank_peer (cf_PublicKey want) | Some p0 \<Rightarrow> keep_ips P p0)"
  shows "synced before want (set_peer c p)"
  using assms
  by (cases before)
    (auto simp: synced_def want_changes_def set_peer_def Let_def endpointStale_def distinct_remdups_id split: option.splits if_splits)

lemma synced_unchanged:
  assumes "\<not> peerNeedsUpdate p0 want" "\<not> endpointStale p0 want"
    and "list_all plain_prefix (wp_AllowedIPs p0)" "list_all plain_prefix (cf_AllowedIPs want)"
    and "cf_PresharedKey want \<noteq> None" "cf_Keepalive want \<noteq> None"
  shows "synced (Some p0) want p0"
  using assms sameAllowedIPs_iff [OF assms(3,4)]
  by (auto simp: synced_def peerNeedsUpdate_def Let_def split: if_splits)

lemma desired_okD:
  assumes "desired_ok desired" "want \<in> set desired"
  shows "distinct (cf_AllowedIPs want)" "\<not> cf_Remove want" "\<not> cf_UpdateOnly want" "cf_PresharedKey want \<noteq> None"
    "cf_Keepalive want \<noteq> None" "list_all plain_prefix (cf_AllowedIPs want)"
  using assms distinct_concat_mapD [of cf_AllowedIPs desired want] by (auto simp: desired_ok_def list_all_iff)

lemma set_peer_change:
  assumes "desired_ok desired" "want \<in> set desired" "c \<in> set (want_changes dev want)"
    and "before = lookup_peer dev (cf_PublicKey want)"
    and "lookup_peer dev1 (cf_PublicKey want) = map_option (keep_ips P) before"
  shows "\<exists>p. lookup_peer (wg_apply c dev1) (cf_PublicKey want) = Some p \<and> synced before want p"
proof -
  note w = desired_okD [OF assms(1,2)] and c = want_changes_cases [OF assms(3)]
  define p where "p = (case before of None \<Rightarrow> blank_peer (cf_PublicKey want) | Some p0 \<Rightarrow> keep_ips P p0)"
  have "cf_UpdateOnly c = (before \<noteq> None)"
    using assms(3,4) w(3) by (auto simp: want_changes_def split: option.splits if_splits)
  then have "lookup_peer (wg_apply c dev1) (cf_PublicKey want) = Some (set_peer c p)"
    unfolding lookup_apply_same [OF c(1)] assms(5) p_def using c(3) w(2) by (cases before) auto
  moreover have "synced before want (set_peer c p)"
    by (rule synced_set_peer [OF w(1,4,5) assms(3,4)]) (simp add: p_def)
  ultimately show ?thesis by blast
qed

lemma sync_wanted:
  assumes ok: "device_ok dev" "desired_ok desired" and cs: "mset cs = mset (sync_changes dev desired)"
    and want: "want \<in> set desired"
  shows "\<exists>p. lookup_peer (fold wg_apply cs dev) (cf_PublicKey want) = Some p \<and>
    synced (lookup_peer dev (cf_PublicKey want)) want p"
proof -
  let ?k = "cf_PublicKey want" and ?before = "lookup_peer dev (cf_PublicKey want)"
  have set: "set cs = set (sync_changes dev desired)" using cs by (metis set_mset_mset)
  have dist: "distinct (map cf_PublicKey cs)"
    using sync_changes_keys [OF ok] cs by (metis mset_map mset_eq_imp_distinct_iff)
  have apart: "n \<notin> (\<Union>c \<in> set xs. set (cf_AllowedIPs c))"
    if "set xs \<subseteq> set cs" "?k \<notin> cf_PublicKey ` set xs" "n \<in> set (cf_AllowedIPs want)" for xs n
  proof
    assume "n \<in> (\<Union>c \<in> set xs. set (cf_AllowedIPs c))"
    then obtain c where "c \<in> set xs" "n \<in> set (cf_AllowedIPs c)" by blast
    moreover from this have "cf_PublicKey c \<noteq> ?k" using that(2) by (metis image_eqI)
    ultimately show False using that(1,3) changes_apart [OF ok(2) want, of c dev n] set by blast
  qed
  show ?thesis
  proof (cases "\<exists>c \<in> set cs. cf_PublicKey c = ?k")
    case True
    then obtain c where c: "c \<in> set cs" "cf_PublicKey c = ?k" by blast
    then obtain as bs where split: "cs = as @ c # bs" by (meson split_list)
    have ne: "?k \<notin> cf_PublicKey ` set as" "?k \<notin> cf_PublicKey ` set bs" using dist c(2) by (auto simp: split)
    have mine: "c \<in> set (want_changes dev want)"
    proof -
      obtain v where "v \<in> set desired" "c \<in> set (want_changes dev v)"
        using c want unfolding set sync_changes_mem [OF ok(2)] by (auto simp: removal_def)
      moreover from this have "v = want"
        using c(2) want want_changes_cases(1) ok(2) by (metis desired_ok_def distinct_map_eqD)
      ultimately show ?thesis by simp
    qed
    obtain P where P: "lookup_peer (fold wg_apply as dev) ?k = map_option (keep_ips P) ?before"
      by (rule fold_apply_other [OF ne(1)]) blast
    obtain p where p: "lookup_peer (wg_apply c (fold wg_apply as dev)) ?k = Some p" "synced ?before want p"
      using set_peer_change [OF ok(2) want mine refl P] by blast
    obtain Q where Q: "lookup_peer (fold wg_apply bs (wg_apply c (fold wg_apply as dev))) ?k =
        map_option (keep_ips Q) (lookup_peer (wg_apply c (fold wg_apply as dev)) ?k)"
      "\<And>n. n \<notin> (\<Union>c \<in> set bs. set (cf_AllowedIPs c)) \<Longrightarrow> Q n"
      by (rule fold_apply_other [OF ne(2)]) blast
    have "synced ?before want (keep_ips Q p)"
    proof (rule synced_keep [OF p(2)])
      fix n assume n: "n \<in> set (cf_AllowedIPs want)"
      have "set bs \<subseteq> set cs" by (auto simp: split)
      from apart [OF this ne(2) n] show "Q n" by (rule Q(2))
    qed
    then show ?thesis using Q(1) p(1) by (simp add: split)
  next
    case False
    then have ne: "?k \<notin> cf_PublicKey ` set cs" by auto
    have "c \<notin> set (want_changes dev want)" for c
    proof
      assume c: "c \<in> set (want_changes dev want)"
      then have "c \<in> set cs" unfolding set sync_changes_mem [OF ok(2)] using want by (intro disjI2 bexI)
      with False want_changes_cases(1) [OF c] show False by blast
    qed
    then have "want_changes dev want = []" by (metis list.set_intros(1) neq_Nil_conv)
    then obtain p0 where p0: "?before = Some p0" "\<not> peerNeedsUpdate p0 want" "\<not> endpointStale p0 want"
      by (auto simp: want_changes_def split: option.splits if_splits)
    have plain: "list_all plain_prefix (wp_AllowedIPs p0)"
      using ok(1) p0(1) find_Some_mem [of _ dev p0] by (auto simp: device_ok_def list_all_iff lookup_peer_def)
    obtain Q where Q: "lookup_peer (fold wg_apply cs dev) ?k = map_option (keep_ips Q) ?before"
      "\<And>n. n \<notin> (\<Union>c \<in> set cs. set (cf_AllowedIPs c)) \<Longrightarrow> Q n"
      by (rule fold_apply_other [OF ne]) blast
    have "synced ?before want (keep_ips Q p0)"
      unfolding p0(1) using synced_unchanged [OF p0(2,3) plain] desired_okD [OF ok(2) want] apart [OF order_refl ne] Q(2)
      by (intro synced_keep) auto
    then show ?thesis using Q(1) p0(1) by simp
  qed
qed

lemma sync_unwanted:
  assumes ok: "device_ok dev" "desired_ok desired" and cs: "mset cs = mset (sync_changes dev desired)"
    and k: "k \<notin> cf_PublicKey ` set desired"
  shows "lookup_peer (fold wg_apply cs dev) k = None"
proof -
  have set: "set cs = set (sync_changes dev desired)" using cs by (metis set_mset_mset)
  have dist: "distinct (map cf_PublicKey cs)"
    using sync_changes_keys [OF ok] cs by (metis mset_map mset_eq_imp_distinct_iff)
  show ?thesis
  proof (cases "lookup_peer dev k")
    case None
    then have dev: "k \<notin> wp_PublicKey ` set dev" using lookup_peer_None [of dev k] by simp
    have "cf_PublicKey c \<noteq> k" if "c \<in> set cs" for c
      using that k dev want_changes_cases(1) unfolding set sync_changes_mem [OF ok(2)]
      by (force simp: removal_def)
    then have "k \<notin> cf_PublicKey ` set cs" by auto
    then obtain P where "lookup_peer (fold wg_apply cs dev) k = map_option (keep_ips P) (lookup_peer dev k)"
      using fold_apply_other [of k cs dev] by blast
    with None show ?thesis by simp
  next
    case (Some p)
    then have "k \<in> wp_PublicKey ` set dev" using lookup_peer_None [of dev k] by auto
    then have "removal k \<in> set cs" using k unfolding set sync_changes_mem [OF ok(2)] by blast
    then obtain as bs where split: "cs = as @ removal k # bs" by (meson split_list)
    then have "k \<notin> cf_PublicKey ` set bs" using dist by (auto simp: removal_def)
    then obtain P where "lookup_peer (fold wg_apply bs (wg_apply (removal k) (fold wg_apply as dev))) k =
        map_option (keep_ips P) (lookup_peer (wg_apply (removal k) (fold wg_apply as dev)) k)"
      by (rule fold_apply_other)
    moreover have "lookup_peer (wg_apply (removal k) (fold wg_apply as dev)) k = None"
      by (subst lookup_apply_same) (simp_all add: removal_def)
    ultimately show ?thesis by (simp add: split)
  qed
qed

lemma desired_find:
  assumes "desired_ok desired" "want \<in> set desired"
  shows "List.find (\<lambda>c. cf_PublicKey c = cf_PublicKey want) desired = Some want"
proof -
  have "distinct (map cf_PublicKey desired)" using assms(1) by (simp add: desired_ok_def)
  then show ?thesis using assms(2) by (induction desired) (auto simp: rev_image_eqI)
qed

lemma synced_settings:
  assumes "synced before want p"
  shows "(wp_PresharedKey p, wp_Keepalive p, set (wp_AllowedIPs p)) =
    (the (cf_PresharedKey want), the (cf_Keepalive want), set (cf_AllowedIPs want))"
proof -
  have "set (wp_AllowedIPs p) = set (cf_AllowedIPs want)"
    using assms unfolding synced_def by (metis set_mset_mset)
  then show ?thesis using assms by (auto simp: synced_def dest!: sym [of "Some _"])
qed

lemma synced_quiet:
  assumes "desired_ok desired" "want \<in> set desired" "synced before want p"
  shows "\<not> peerNeedsUpdate p want" "\<not> endpointStale p want"
proof -
  note w = desired_okD [OF assms(1,2)]
  have m: "mset (wp_AllowedIPs p) = mset (cf_AllowedIPs want)" using assms(3) by (simp add: synced_def)
  then have "set (wp_AllowedIPs p) = set (cf_AllowedIPs want)" by (metis set_mset_mset)
  then have "list_all plain_prefix (wp_AllowedIPs p)" using w(6) by (simp add: list_all_iff)
  with m w(6) have "sameAllowedIPs (wp_AllowedIPs p) (cf_AllowedIPs want)" by (simp add: sameAllowedIPs_iff)
  then show "\<not> peerNeedsUpdate p want"
    using assms(3) by (auto simp: peerNeedsUpdate_def synced_def Let_def split: option.splits)
  show "\<not> endpointStale p want"
    using assms(3) by (auto simp: endpointStale_def synced_def split: option.splits if_splits)
qed

lemma sync_quiet:
  assumes "device_ok dev" "desired_ok desired" "mset cs = mset (sync_changes dev desired)"
  shows "sync_changes (fold wg_apply cs dev) desired = []"
proof -
  have "c \<notin> set (sync_changes (fold wg_apply cs dev) desired)" for c
  proof
    assume "c \<in> set (sync_changes (fold wg_apply cs dev) desired)"
    then consider (gone) k where "k \<in> wp_PublicKey ` set (fold wg_apply cs dev)" "k \<notin> cf_PublicKey ` set desired"
      | (want) want where "want \<in> set desired" "c \<in> set (want_changes (fold wg_apply cs dev) want)"
      unfolding sync_changes_mem [OF assms(2)] by blast
    then show False
    proof cases
      case gone
      with sync_unwanted [OF assms gone(2)] show False by (simp add: lookup_peer_None)
    next
      case want
      with sync_wanted [OF assms want(1)] synced_quiet [OF assms(2) want(1)] show False
        by (auto simp: want_changes_def)
    qed
  qed
  then show ?thesis by (metis list.set_intros(1) neq_Nil_conv)
qed

lemma sync_settings:
  assumes "device_ok dev" "desired_ok desired" "mset cs = mset (sync_changes dev desired)"
  shows "device_settings (fold wg_apply cs dev) = desired_settings desired"
proof
  fix k
  show "device_settings (fold wg_apply cs dev) k = desired_settings desired k"
  proof (cases "k \<in> cf_PublicKey ` set desired")
    case True
    then obtain want where want: "want \<in> set desired" "k = cf_PublicKey want" by blast
    with sync_wanted [OF assms want(1)] obtain p where "lookup_peer (fold wg_apply cs dev) k = Some p"
      "synced (lookup_peer dev k) want p" by auto
    with synced_settings desired_find [OF assms(2) want(1)] want(2) show ?thesis
      by (simp add: device_settings_def desired_settings_def)
  next
    case False
    then have "List.find (\<lambda>c. cf_PublicKey c = k) desired = None" by (auto simp: find_None_all)
    then show ?thesis
      using sync_unwanted [OF assms False] by (simp add: device_settings_def desired_settings_def)
  qed
qed

text \<open>
  C9: Whatever order Go iterates its maps in, applying the changes of \<open>syncPeers\<close> brings the
  device to exactly the desired peers, each with the preshared key, the keepalive and the
  allowed IPs asked for, whatever the device held before; an established peer keeps the endpoint
  roaming gave it, and a second sync with the same list changes nothing. A backend that behaves
  as documented thus implements the abstract operation \<open>replace the configuration\<close>.
\<close>

theorem syncPeers_refines:
  assumes "device_ok dev" "desired_ok desired" "mset cs = mset (sync_changes dev desired)"
  shows "device_settings (fold wg_apply cs dev) = desired_settings desired \<and>
    {k. \<exists>p q. k \<in> cf_PublicKey ` set desired \<and> lookup_peer dev k = Some p \<and> wp_LastHandshake p \<noteq> None \<and>
        lookup_peer (fold wg_apply cs dev) k = Some q \<and> wp_Endpoint q \<noteq> wp_Endpoint p} = {} \<and>
    sync_changes (fold wg_apply cs dev) desired = []"
proof (intro conjI)
  show "device_settings (fold wg_apply cs dev) = desired_settings desired" by (rule sync_settings [OF assms])
  show "{k. \<exists>p q. k \<in> cf_PublicKey ` set desired \<and> lookup_peer dev k = Some p \<and> wp_LastHandshake p \<noteq> None \<and>
        lookup_peer (fold wg_apply cs dev) k = Some q \<and> wp_Endpoint q \<noteq> wp_Endpoint p} = {}"
    using sync_wanted [OF assms] by (fastforce simp: synced_def endpointStale_def)
qed (rule sync_quiet [OF assms])

text \<open>A device with one established and one vanished peer, and a list with a new one.\<close>

definition demo_wg_dev :: device where
  "demo_wg_dev =
     [\<lparr>wp_PublicKey = ''k1'', wp_PresharedKey = ''old'', wp_Endpoint = Some (V4 1, 51820), wp_Keepalive = 0,
       wp_LastHandshake = Some 5, wp_RxBytes = 0, wp_TxBytes = 0, wp_AllowedIPs = [Prefix (V4 1681915906) 32]\<rparr>,
      (blank_peer ''k2'')\<lparr>wp_AllowedIPs := [Prefix (V4 1681915907) 32]\<rparr>]"

definition demo_wg_desired :: "PeerConfig list" where
  "demo_wg_desired =
     [\<lparr>cf_PublicKey = ''k1'', cf_Remove = False, cf_UpdateOnly = False, cf_PresharedKey = Some ''psk'',
       cf_Endpoint = Some (V4 2, 1), cf_Keepalive = Some 25, cf_ReplaceAllowedIPs = False,
       cf_AllowedIPs = [Prefix (V4 1681915906) 32]\<rparr>,
      \<lparr>cf_PublicKey = ''k3'', cf_Remove = False, cf_UpdateOnly = False, cf_PresharedKey = Some ''psk'',
       cf_Endpoint = None, cf_Keepalive = Some 25, cf_ReplaceAllowedIPs = False,
       cf_AllowedIPs = [Prefix (V4 1681915907) 32]\<rparr>]"

theorem syncPeers_refines_witness:
  "device_settings (fold wg_apply (sync_changes demo_wg_dev demo_wg_desired) demo_wg_dev) ''k3'' =
     Some (''psk'', 25, {Prefix (V4 1681915907) 32})"
proof -
  have d: "device_ok demo_wg_dev" by code_simp
  have e: "desired_ok demo_wg_desired" by code_simp
  have "desired_settings demo_wg_desired ''k3'' = Some (''psk'', 25, {Prefix (V4 1681915907) 32})"
    by (simp add: desired_settings_def demo_wg_desired_def)
  then show ?thesis using syncPeers_refines [OF d e refl] by simp
qed

end
