(* ===== verification/AgentPaths.thy ===== *)
theory AgentPaths
  imports WgDevice
begin

section \<open>Direct and relayed paths of an agent\<close>

text \<open>
  cmd/agent/relay.go with the state of cmd/agent/telemetry.go it works on: how an agent falls
  back to a relay when a direct path goes silent, probes its way back, and damps the paths
  that will not hold. The maps of \<open>telemetryReporter\<close> keyed by public key are functions; an
  absent entry is the zero value the code reads (None for a zero time). What a step asks of the
  outside (does the device accept an endpoint, does a relay transport come up, is a proxy still
  alive) is the parameter \<open>path_env\<close>. The endpoints written to the device are recorded; a proxy
  that comes up (relayws.go, relayquic.go) has had its loopback address taken by the device.
\<close>

datatype relayTransport = relayAuto | relayWebSocket | relayUDP

datatype ws_result = NoWSRelay | WSFailed | WSProxy addr_port

record path_env =
  en_setEndpoint :: "wg_key \<Rightarrow> addr_port \<Rightarrow> bool"
  en_quic :: "wg_key \<Rightarrow> addr_port option"
  en_ws :: "wg_key \<Rightarrow> ws_result"
  en_udp :: "wg_key \<Rightarrow> agent_error + string"
  en_resolve :: "string \<Rightarrow> addr_port option"
  en_wsAlive :: "wg_key \<Rightarrow> bool"
  en_quicAlive :: "wg_key \<Rightarrow> bool"

record directProbe =
  dp_started :: time
  dp_confirmedAt :: "time option"
  dp_candidates :: "addr_port list"
  dp_index :: nat
  dp_relayEndpoint :: addr_port
  dp_interval :: duration
  dp_deadline :: "time option"
  dp_epoch :: int

record paths =
  pt_transport :: relayTransport
  pt_firstSeen :: "wg_key \<Rightarrow> time option"
  pt_lastInbound :: "wg_key \<Rightarrow> time option"
  pt_relayed :: "wg_key \<Rightarrow> bool"
  pt_relayedAt :: "wg_key \<Rightarrow> time option"
  pt_relayEndpoints :: "wg_key \<Rightarrow> addr_port option"
  pt_directProbes :: "wg_key \<Rightarrow> directProbe option"
  pt_lastPunchEpoch :: "wg_key \<Rightarrow> int"
  pt_directFailures :: "wg_key \<Rightarrow> int"
  pt_lastCandidates :: "wg_key \<Rightarrow> string"
  pt_wsProxies :: "wg_key \<Rightarrow> bool"
  pt_quicProxies :: "wg_key \<Rightarrow> bool"
  pt_pathKinds :: "wg_key \<Rightarrow> string"
  pt_quicUnavailable :: "wg_key \<Rightarrow> bool"
  pt_directSince :: "wg_key \<Rightarrow> time option"
  pt_directFlaps :: "wg_key \<Rightarrow> int"
  pt_holdDownUntil :: "wg_key \<Rightarrow> time option"
  pt_relayBroken :: bool
  pt_directProbeOff :: bool
  pt_written :: "(wg_key \<times> addr_port) list"

subsection \<open>Timing\<close>

definition directStaleAfter :: duration where "directStaleAfter = 90 * second"
definition directProbeInterval :: duration where "directProbeInterval = 20 * second"
definition coordinatedProbeInterval :: duration where "coordinatedProbeInterval = 8 * second"
definition coordinatedProbeWindow :: duration where "coordinatedProbeWindow = 45 * second"
definition directProbationMin :: duration where "directProbationMin = 20 * second"
definition directProbationTimeout :: duration where "directProbationTimeout = 60 * second"
definition directRetryAfter :: duration where "directRetryAfter = 5 * minute"
definition directStableTenure :: duration where "directStableTenure = 10 * minute"
definition flapHoldDownBase :: duration where "flapHoldDownBase = 2 * minute"

definition directRetryInterval :: "int \<Rightarrow> duration" where
  "directRetryInterval failures =
     (let failures = (if failures < 0 then 0 else failures);
          failures = (if 3 < failures then 3 else failures);
          d = directRetryAfter * 2 ^ nat failures
      in if 30 * minute < d then 30 * minute else d)"

definition flapHoldDown :: "int \<Rightarrow> duration" where
  "flapHoldDown flaps = (if flaps < 1 then 0 else flapHoldDownBase * 2 ^ nat (min (flaps - 1) 3))"

definition later :: "time option \<Rightarrow> time option \<Rightarrow> bool" where
  "later a b = (case a of None \<Rightarrow> False | Some x \<Rightarrow> (case b of None \<Rightarrow> True | Some y \<Rightarrow> y < x))"

definition directSilentFor :: "wgPeer \<Rightarrow> time \<Rightarrow> paths \<Rightarrow> duration" where
  "directSilentFor peer now t =
     (let last = pt_firstSeen t (wp_PublicKey peer);
          inbound = pt_lastInbound t (wp_PublicKey peer);
          last = (if later inbound last then inbound else last);
          last = (if later (wp_LastHandshake peer) last then wp_LastHandshake peer else last)
      in case last of None \<Rightarrow> 0 | Some x \<Rightarrow> now - x)"

definition candidateDigest :: "addr_port list \<Rightarrow> string" where
  "candidateDigest candidates =
     (if candidates = [] then [] else join_with '','' (sort (map addr_port_String candidates)))"

definition pathState :: "wg_key \<Rightarrow> paths \<Rightarrow> string" where
  "pathState peer t =
     (if pt_directProbes t peer \<noteq> None then ''probing-direct''
      else if pt_relayed t peer
           then (if pt_pathKinds t peer \<noteq> [] then pt_pathKinds t peer
                 else if pt_transport t = relayUDP then ''udp-relay'' else ''ws-relay'')
      else ''direct'')"

subsection \<open>Leaving and entering direct\<close>

definition noteDirectStintEnded :: "wg_key \<Rightarrow> time \<Rightarrow> paths \<Rightarrow> paths" where
  "noteDirectStintEnded key now t =
     (case pt_directSince t key of
        None \<Rightarrow> t
      | Some since \<Rightarrow>
          let t = t\<lparr>pt_directSince := (pt_directSince t)(key := None)\<rparr>
          in if directStableTenure \<le> now - since then t\<lparr>pt_directFlaps := (pt_directFlaps t)(key := 0)\<rparr>
             else let flaps = pt_directFlaps t key + 1
                  in t\<lparr>pt_directFlaps := (pt_directFlaps t)(key := flaps),
                       pt_holdDownUntil := (pt_holdDownUntil t)(key := Some (now + flapHoldDown flaps))\<rparr>)"

definition promoteDirect :: "wg_key \<Rightarrow> time \<Rightarrow> paths \<Rightarrow> paths" where
  "promoteDirect key now t =
     t\<lparr>pt_wsProxies := (pt_wsProxies t)(key := False), pt_quicProxies := (pt_quicProxies t)(key := False),
       pt_directProbes := (pt_directProbes t)(key := None), pt_relayed := (pt_relayed t)(key := False),
       pt_relayedAt := (pt_relayedAt t)(key := None), pt_relayEndpoints := (pt_relayEndpoints t)(key := None),
       pt_directFailures := (pt_directFailures t)(key := 0), pt_lastCandidates := (pt_lastCandidates t)(key := []),
       pt_pathKinds := (pt_pathKinds t)(key := []), pt_quicUnavailable := (pt_quicUnavailable t)(key := False),
       pt_firstSeen := (pt_firstSeen t)(key := Some now), pt_directSince := (pt_directSince t)(key := Some now),
       pt_holdDownUntil := (pt_holdDownUntil t)(key := None)\<rparr>"

definition set_endpoint :: "path_env \<Rightarrow> wg_key \<Rightarrow> addr_port \<Rightarrow> paths \<Rightarrow> paths \<times> bool" where
  "set_endpoint env key e t =
     (if en_setEndpoint env key e then (t\<lparr>pt_written := pt_written t @ [(key, e)]\<rparr>, True) else (t, False))"

definition restoreRelayAfterProbe :: "path_env \<Rightarrow> wg_key \<Rightarrow> directProbe \<Rightarrow> time \<Rightarrow> paths \<Rightarrow> paths" where
  "restoreRelayAfterProbe env key probe now t =
     (case set_endpoint env key (dp_relayEndpoint probe) t of
        (t, False) \<Rightarrow> t
      | (t, True) \<Rightarrow> t\<lparr>pt_directProbes := (pt_directProbes t)(key := None),
                       pt_relayedAt := (pt_relayedAt t)(key := Some now),
                       pt_directFailures := (pt_directFailures t)(key := pt_directFailures t key + 1)\<rparr>)"

subsection \<open>Probing\<close>

definition startDirectProbe ::
  "path_env \<Rightarrow> wg_key \<Rightarrow> addr_port list \<Rightarrow> duration \<Rightarrow> duration \<Rightarrow> int \<Rightarrow> time \<Rightarrow> paths \<Rightarrow> paths" where
  "startDirectProbe env peer candidates interval window epoch now t =
     (case pt_relayEndpoints t peer of
        None \<Rightarrow> t
      | Some relayEndpoint \<Rightarrow>
          let probe = \<lparr>dp_started = now, dp_confirmedAt = None, dp_candidates = candidates, dp_index = 0,
                dp_relayEndpoint = relayEndpoint, dp_interval = interval,
                dp_deadline = (if 0 < window then Some (now + window) else None), dp_epoch = epoch\<rparr>
          in case set_endpoint env peer (candidates ! 0) t of
               (t, False) \<Rightarrow> t
             | (t, True) \<Rightarrow> t\<lparr>pt_directProbes := (pt_directProbes t)(peer := Some probe)\<rparr>)"

definition maybeRetryDirect ::
  "path_env \<Rightarrow> wg_key \<Rightarrow> addr_port list \<Rightarrow> int \<Rightarrow> time \<Rightarrow> paths \<Rightarrow> paths" where
  "maybeRetryDirect env peer candidates punchEpoch now t =
     (if pt_directProbeOff t then t
      else if candidates = [] \<or> \<not> pt_relayed t peer then t
      else
        let digest = candidateDigest candidates;
            t = (if digest \<noteq> pt_lastCandidates t peer
                 then t\<lparr>pt_lastCandidates := (pt_lastCandidates t)(peer := digest),
                        pt_directFailures := (pt_directFailures t)(peer := 0)\<rparr>
                 else t);
            fast = (0 < punchEpoch \<and> pt_lastPunchEpoch t peer < punchEpoch);
            t = (if fast then t\<lparr>pt_lastPunchEpoch := (pt_lastPunchEpoch t)(peer := punchEpoch)\<rparr> else t)
        in if (case pt_holdDownUntil t peer of None \<Rightarrow> False | Some until \<Rightarrow> now < until) then t
           else if pt_directProbes t peer \<noteq> None \<and> \<not> fast then t
           else if \<not> fast \<and> (case pt_relayedAt t peer of None \<Rightarrow> False
                  | Some at \<Rightarrow> now - at < directRetryInterval (pt_directFailures t peer)) then t
           else if fast
                then startDirectProbe env peer candidates coordinatedProbeInterval coordinatedProbeWindow punchEpoch now t
                else startDirectProbe env peer candidates directProbeInterval 0 punchEpoch now t)"

definition directEndpoint :: "wgPeer \<Rightarrow> directProbe \<Rightarrow> bool" where
  "directEndpoint peer probe =
     (case wp_Endpoint peer of
        None \<Rightarrow> False
      | Some e \<Rightarrow> addr_port_String e \<noteq> addr_port_String (dp_relayEndpoint probe))"

definition canRotate :: "directProbe \<Rightarrow> time \<Rightarrow> bool" where
  "canRotate probe now =
     (case dp_deadline probe of
        None \<Rightarrow> dp_index probe + 1 < length (dp_candidates probe)
      | Some deadline \<Rightarrow> now < deadline)"

definition next_candidate :: "directProbe \<Rightarrow> time \<Rightarrow> directProbe" where
  "next_candidate probe now =
     (let i = dp_index probe + 1
      in probe\<lparr>dp_index := (if length (dp_candidates probe) \<le> i then 0 else i), dp_started := now\<rparr>)"

definition checkDirectProbe :: "path_env \<Rightarrow> wgPeer \<Rightarrow> time \<Rightarrow> paths \<Rightarrow> paths" where
  "checkDirectProbe env peer now t =
     (let key = wp_PublicKey peer
      in case pt_directProbes t key of
           None \<Rightarrow> t
         | Some probe \<Rightarrow>
             (case dp_confirmedAt probe of
                None \<Rightarrow>
                  if later (wp_LastHandshake peer) (Some (dp_started probe)) \<and> directEndpoint peer probe
                  then t\<lparr>pt_directProbes := (pt_directProbes t)(key := Some (probe\<lparr>dp_confirmedAt := Some now\<rparr>))\<rparr>
                  else if now - dp_started probe < dp_interval probe then t
                  else if canRotate probe now
                  then let probe = next_candidate probe now
                       in case set_endpoint env key (dp_candidates probe ! dp_index probe) t of
                            (t, False) \<Rightarrow> t
                          | (t, True) \<Rightarrow> t\<lparr>pt_directProbes := (pt_directProbes t)(key := Some probe)\<rparr>
                  else restoreRelayAfterProbe env key probe now t
              | Some confirmedAt \<Rightarrow>
                  if directEndpoint peer probe \<and> later (pt_lastInbound t key) (Some (confirmedAt + directProbationMin))
                  then promoteDirect key now t
                  else if now - confirmedAt < directProbationTimeout then t
                  else restoreRelayAfterProbe env key probe now t))"

subsection \<open>Falling back to the relay\<close>

definition via_proxy :: "bool \<Rightarrow> wg_key \<Rightarrow> addr_port \<Rightarrow> paths \<Rightarrow> paths" where
  "via_proxy quic peer e t =
     (if quic then t\<lparr>pt_quicProxies := (pt_quicProxies t)(peer := True)\<rparr>
      else t\<lparr>pt_wsProxies := (pt_wsProxies t)(peer := True)\<rparr>)
     \<lparr>pt_relayEndpoints := (pt_relayEndpoints t)(peer := Some e),
      pt_pathKinds := (pt_pathKinds t)(peer := (if quic then ''quic-relay'' else ''ws-relay'')),
      pt_written := pt_written t @ [(peer, e)]\<rparr>"

definition try_ws :: "path_env \<Rightarrow> wg_key \<Rightarrow> paths \<Rightarrow> paths \<times> bool" where
  "try_ws env peer t =
     (case en_ws env peer of
        NoWSRelay \<Rightarrow> (t\<lparr>pt_relayBroken := True\<rparr>, False)
      | WSFailed \<Rightarrow> (t, False)
      | WSProxy e \<Rightarrow> (via_proxy False peer e t, True))"

definition try_udp :: "path_env \<Rightarrow> wg_key \<Rightarrow> paths \<Rightarrow> paths \<times> bool" where
  "try_udp env peer t =
     (case en_udp env peer of
        Inl _ \<Rightarrow> (t, False)
      | Inr endpoint \<Rightarrow>
          if endpoint = [] then (t\<lparr>pt_relayBroken := True\<rparr>, False)
          else case en_resolve env endpoint of
              None \<Rightarrow> (t, False)
            | Some udpAddr \<Rightarrow>
                (case set_endpoint env peer udpAddr t of
                   (t, False) \<Rightarrow> (t, False)
                 | (t, True) \<Rightarrow> (t\<lparr>pt_relayEndpoints := (pt_relayEndpoints t)(peer := Some udpAddr),
                                   pt_pathKinds := (pt_pathKinds t)(peer := ''udp-relay'')\<rparr>, True)))"

definition switchToRelay :: "path_env \<Rightarrow> wg_key \<Rightarrow> paths \<Rightarrow> paths \<times> bool" where
  "switchToRelay env peer t =
     (case pt_transport t of
        relayAuto \<Rightarrow>
          if pt_quicUnavailable t peer then try_ws env peer t
          else (case en_quic env peer of
              Some e \<Rightarrow> (via_proxy True peer e t, True)
            | None \<Rightarrow> try_ws env peer (t\<lparr>pt_quicUnavailable := (pt_quicUnavailable t)(peer := True)\<rparr>))
      | relayWebSocket \<Rightarrow> try_ws env peer t
      | relayUDP \<Rightarrow> try_udp env peer t)"

text \<open>Retiring the proxies whose pumps have stopped.\<close>

definition retire :: "(wg_key \<Rightarrow> bool) \<Rightarrow> paths \<Rightarrow> paths" where
  "retire dead t =
     t\<lparr>pt_relayed := (\<lambda>k. pt_relayed t k \<and> \<not> dead k),
       pt_relayedAt := (\<lambda>k. if dead k then None else pt_relayedAt t k),
       pt_relayEndpoints := (\<lambda>k. if dead k then None else pt_relayEndpoints t k),
       pt_directProbes := (\<lambda>k. if dead k then None else pt_directProbes t k),
       pt_pathKinds := (\<lambda>k. if dead k then [] else pt_pathKinds t k)\<rparr>"

definition retire_ws :: "path_env \<Rightarrow> paths \<Rightarrow> paths" where
  "retire_ws env t =
     (let dead = (\<lambda>k. pt_wsProxies t k \<and> \<not> en_wsAlive env k)
      in (retire dead t)\<lparr>pt_wsProxies := (\<lambda>k. pt_wsProxies t k \<and> \<not> dead k)\<rparr>)"

definition retire_quic :: "path_env \<Rightarrow> paths \<Rightarrow> paths" where
  "retire_quic env t =
     (let dead = (\<lambda>k. pt_quicProxies t k \<and> \<not> en_quicAlive env k)
      in (retire dead t)\<lparr>pt_quicProxies := (\<lambda>k. pt_quicProxies t k \<and> \<not> dead k),
            pt_quicUnavailable := (\<lambda>k. pt_quicUnavailable t k \<or> dead k)\<rparr>)"

definition check_peer :: "path_env \<Rightarrow> time \<Rightarrow> wgPeer \<Rightarrow> paths \<Rightarrow> paths" where
  "check_peer env now peer t =
     (let key = wp_PublicKey peer;
          t = checkDirectProbe env peer now t;
          t = (if pt_firstSeen t key = None then t\<lparr>pt_firstSeen := (pt_firstSeen t)(key := Some now)\<rparr> else t)
      in if pt_relayed t key \<or> pt_relayBroken t then t
         else if directSilentFor peer now t < directStaleAfter then t
         else case switchToRelay env key t of
                (t, False) \<Rightarrow> t
              | (t, True) \<Rightarrow>
                  noteDirectStintEnded key now
                    (t\<lparr>pt_relayed := (pt_relayed t)(key := True), pt_relayedAt := (pt_relayedAt t)(key := Some now)\<rparr>))"

definition checkHandshakes :: "path_env \<Rightarrow> device \<Rightarrow> time \<Rightarrow> paths \<Rightarrow> paths" where
  "checkHandshakes env dev now t = fold (check_peer env now) dev (retire_quic env (retire_ws env t))"

definition checkProbes :: "path_env \<Rightarrow> device \<Rightarrow> time \<Rightarrow> paths \<Rightarrow> paths" where
  "checkProbes env dev now t =
     fold (\<lambda>peer t. if pt_directProbes t (wp_PublicKey peer) \<noteq> None then checkDirectProbe env peer now t else t) dev t"

subsection \<open>One peer at a time\<close>

text \<open>What the reporter knows of one peer; every operation on a peer leaves the others alone.\<close>

record path_view =
  vw_relayed :: bool
  vw_relayedAt :: "time option"
  vw_relayEndpoint :: "addr_port option"
  vw_probe :: "directProbe option"
  vw_kind :: string
  vw_ws :: bool
  vw_quic :: bool
  vw_since :: "time option"
  vw_flaps :: int
  vw_hold :: "time option"

definition view :: "paths \<Rightarrow> wg_key \<Rightarrow> path_view" where
  "view t k = \<lparr>vw_relayed = pt_relayed t k, vw_relayedAt = pt_relayedAt t k,
     vw_relayEndpoint = pt_relayEndpoints t k, vw_probe = pt_directProbes t k, vw_kind = pt_pathKinds t k,
     vw_ws = pt_wsProxies t k, vw_quic = pt_quicProxies t k, vw_since = pt_directSince t k,
     vw_flaps = pt_directFlaps t k, vw_hold = pt_holdDownUntil t k\<rparr>"

definition probe_ok :: "time \<Rightarrow> path_view \<Rightarrow> directProbe \<Rightarrow> bool" where
  "probe_ok now v pr \<longleftrightarrow>
     vw_relayed v \<and> vw_relayEndpoint v = Some (dp_relayEndpoint pr) \<and>
     dp_index pr < length (dp_candidates pr) \<and> 0 < dp_interval pr \<and> dp_started pr \<le> now \<and>
     (\<forall>c. dp_confirmedAt pr = Some c \<longrightarrow> dp_started pr \<le> c \<and> c \<le> now) \<and>
     (\<forall>u. vw_hold v = Some u \<longrightarrow> u \<le> dp_started pr)"

definition view_ok :: "time \<Rightarrow> path_view \<Rightarrow> bool" where
  "view_ok now v \<longleftrightarrow>
     (\<forall>pr. vw_probe v = Some pr \<longrightarrow> probe_ok now v pr) \<and>
     (vw_relayed v \<longrightarrow> vw_relayEndpoint v \<noteq> None \<and> vw_relayedAt v \<noteq> None \<and>
        is_relay_state (vw_kind v) \<and> vw_since v = None) \<and>
     (vw_ws v \<longleftrightarrow> vw_relayed v \<and> vw_kind v = ''ws-relay'') \<and>
     (vw_quic v \<longleftrightarrow> vw_relayed v \<and> vw_kind v = ''quic-relay'') \<and> 0 \<le> vw_flaps v"

definition path_inv :: "time \<times> paths \<Rightarrow> bool" where
  "path_inv s \<longleftrightarrow> (\<forall>k. view_ok (fst s) (view (snd s) k))"

lemma view_ok_mono: "view_ok now v \<Longrightarrow> now \<le> now' \<Longrightarrow> view_ok now' v"
  unfolding view_ok_def probe_ok_def by (meson order_trans)

lemma set_endpoint_view [simp]: "view (fst (set_endpoint env key e t)) = view t"
  by (auto simp: set_endpoint_def view_def)

lemma set_endpoint_fields [simp]:
  "pt_directProbes (fst (set_endpoint env key e t)) = pt_directProbes t"
  "pt_relayedAt (fst (set_endpoint env key e t)) = pt_relayedAt t"
  "pt_directFailures (fst (set_endpoint env key e t)) = pt_directFailures t"
  "pt_relayEndpoints (fst (set_endpoint env key e t)) = pt_relayEndpoints t"
  "pt_pathKinds (fst (set_endpoint env key e t)) = pt_pathKinds t"
  by (auto simp: set_endpoint_def)

lemma restore_view:
  "view (restoreRelayAfterProbe env key probe now t) k = view t k \<or>
   k = key \<and> view (restoreRelayAfterProbe env key probe now t) k = (view t k)\<lparr>vw_probe := None, vw_relayedAt := Some now\<rparr>"
  by (auto simp: restoreRelayAfterProbe_def set_endpoint_def view_def)

lemma restore_ok: "view_ok now (view t k) \<Longrightarrow> view_ok now (view (restoreRelayAfterProbe env key probe now' t) k)"
  using restore_view [of env key probe now' t k]
proof (elim disjE conjE)
  assume "view_ok now (view t k)"
    and "view (restoreRelayAfterProbe env key probe now' t) k = (view t k)\<lparr>vw_probe := None, vw_relayedAt := Some now'\<rparr>"
  then show ?thesis by (simp add: view_ok_def)
qed simp

lemma promote_view:
  "view (promoteDirect key now t) k =
    (if k = key then \<lparr>vw_relayed = False, vw_relayedAt = None, vw_relayEndpoint = None, vw_probe = None, vw_kind = [],
       vw_ws = False, vw_quic = False, vw_since = Some now, vw_flaps = vw_flaps (view t k), vw_hold = None\<rparr>
     else view t k)"
  by (simp add: promoteDirect_def view_def)

lemma promote_ok: "view_ok now (view t k) \<Longrightarrow> view_ok now (view (promoteDirect key now' t) k)"
  by (cases "k = key") (simp_all add: promote_view view_ok_def)

text \<open>A probe put in place of the old one.\<close>

lemma set_probe_view:
  "view (t\<lparr>pt_directProbes := (pt_directProbes t)(key := x)\<rparr>) k =
    (if k = key then (view t k)\<lparr>vw_probe := x\<rparr> else view t k)"
  by (simp add: view_def)

lemma view_ok_probe:
  assumes "view_ok now v" "probe_ok now v pr"
  shows "view_ok now (v\<lparr>vw_probe := Some pr\<rparr>)"
  using assms by (simp add: view_ok_def probe_ok_def)

lemma view_ok_probeD: "view_ok now v \<Longrightarrow> vw_probe v = Some pr \<Longrightarrow> probe_ok now v pr"
  by (simp add: view_ok_def)

lemma confirm_ok: "probe_ok now v pr \<Longrightarrow> probe_ok now v (pr\<lparr>dp_confirmedAt := Some now\<rparr>)"
  by (simp add: probe_ok_def)

lemma next_ok:
  assumes "probe_ok now v pr" "dp_confirmedAt pr = None"
  shows "probe_ok now v (next_candidate pr now)"
  using assms by (force simp: probe_ok_def next_candidate_def Let_def)

lemma checkDirectProbe_ok:
  assumes "view_ok now (view t k)"
  shows "view_ok now (view (checkDirectProbe env peer now t) k)"
proof (cases "pt_directProbes t (wp_PublicKey peer)")
  case None
  then show ?thesis using assms by (simp add: checkDirectProbe_def)
next
  case (Some pr)
  let ?key = "wp_PublicKey peer"
  have put: "view_ok now (view (t'\<lparr>pt_directProbes := (pt_directProbes t')(?key := Some pr')\<rparr>) k)"
    if "view t' = view t" "k = ?key \<Longrightarrow> probe_ok now (view t k) pr'" for t' pr'
    using assms that unfolding set_probe_view by (auto intro: view_ok_probe)
  have ok: "k = ?key \<Longrightarrow> probe_ok now (view t k) pr"
    using view_ok_probeD [OF assms, of pr] Some by (simp add: view_def)
  show ?thesis
  proof (cases "dp_confirmedAt pr")
    case None
    have "view (fst (set_endpoint env ?key e t)) = view t" for e by simp
    then have rot: "view_ok now (view (case set_endpoint env ?key e t of (t, False) \<Rightarrow> t
        | (t, True) \<Rightarrow> t\<lparr>pt_directProbes := (pt_directProbes t)(?key := Some (next_candidate pr now))\<rparr>) k)" for e
      using assms put [OF _ next_ok [OF ok None]] by (simp add: set_endpoint_def view_def)
    show ?thesis
      using None Some assms put [OF refl confirm_ok [OF ok]] rot restore_ok [OF assms]
      by (simp add: checkDirectProbe_def Let_def)
  next
    case (Some c)
    with \<open>pt_directProbes t ?key = Some pr\<close> show ?thesis
      using assms promote_ok [OF assms] restore_ok [OF assms] by (simp add: checkDirectProbe_def Let_def)
  qed
qed

lemma relay_kinds [simp]: "is_relay_state ''quic-relay''" "is_relay_state ''ws-relay''" "is_relay_state ''udp-relay''"
  by (simp_all add: is_relay_state_def)

text \<open>Putting a peer on the relay: the fields \<open>switchToRelay\<close> sets when it succeeds.\<close>

definition on_relay :: "path_view \<Rightarrow> path_view \<Rightarrow> bool" where
  "on_relay v w \<longleftrightarrow> (\<exists>e kind. is_relay_state kind \<and>
     w = v\<lparr>vw_relayEndpoint := Some e, vw_kind := kind, vw_ws := kind = ''ws-relay'', vw_quic := kind = ''quic-relay''\<rparr>)"

lemma on_relayI:
  "w = v\<lparr>vw_relayEndpoint := Some e, vw_kind := kind, vw_ws := ws, vw_quic := quic\<rparr> \<Longrightarrow> is_relay_state kind \<Longrightarrow>
    ws = (kind = ''ws-relay'') \<Longrightarrow> quic = (kind = ''quic-relay'') \<Longrightarrow> on_relay v w"
  unfolding on_relay_def by blast

lemma via_proxy_view:
  assumes "\<not> pt_wsProxies t peer" "\<not> pt_quicProxies t peer"
  shows "on_relay (view t peer) (view (via_proxy q peer e t) peer)"
    and "k \<noteq> peer \<Longrightarrow> view (via_proxy q peer e t) k = view t k"
proof -
  have "view (via_proxy q peer e t) peer = (view t peer)\<lparr>vw_relayEndpoint := Some e,
      vw_kind := (if q then ''quic-relay'' else ''ws-relay''), vw_ws := \<not> q, vw_quic := q\<rparr>"
    using assms by (simp add: via_proxy_def view_def)
  then show "on_relay (view t peer) (view (via_proxy q peer e t) peer)"
    by (rule on_relayI) simp_all
qed (simp add: via_proxy_def view_def)

lemma try_ws_view:
  assumes "\<not> pt_wsProxies t peer" "\<not> pt_quicProxies t peer" "try_ws env peer t = (t', b)"
  shows "if b then on_relay (view t peer) (view t' peer) \<and> (\<forall>k. k \<noteq> peer \<longrightarrow> view t' k = view t k) else view t' = view t"
proof (cases "en_ws env peer")
  case (WSProxy e)
  then show ?thesis using assms(3) via_proxy_view [where q = False and e = e, OF assms(1,2)] by (auto simp: try_ws_def)
qed (use assms(3) in \<open>auto simp: try_ws_def view_def\<close>)

lemma try_udp_view:
  assumes "\<not> pt_wsProxies t peer" "\<not> pt_quicProxies t peer" "try_udp env peer t = (t', b)"
  shows "if b then on_relay (view t peer) (view t' peer) \<and> (\<forall>k. k \<noteq> peer \<longrightarrow> view t' k = view t k) else view t' = view t"
proof -
  consider "view t' = view t" "\<not> b"
    | e where "b" "view t' = (view t)(peer := (view t peer)\<lparr>vw_relayEndpoint := Some e, vw_kind := ''udp-relay''\<rparr>)"
    using assms(3)
    by (auto simp: try_udp_def set_endpoint_def view_def fun_eq_iff split: sum.splits option.splits if_splits)
  then show ?thesis
  proof cases
    case (2 e)
    have "(view t peer)\<lparr>vw_relayEndpoint := Some e, vw_kind := ''udp-relay''\<rparr> =
        (view t peer)\<lparr>vw_relayEndpoint := Some e, vw_kind := ''udp-relay'', vw_ws := False, vw_quic := False\<rparr>"
      using assms(1,2) by (simp add: view_def)
    then have "on_relay (view t peer) (view t' peer)"
      unfolding 2 fun_upd_same by (rule on_relayI) simp_all
    with 2 show ?thesis by simp
  qed simp
qed

lemma switchToRelay_view:
  assumes "\<not> pt_wsProxies t peer" "\<not> pt_quicProxies t peer" "switchToRelay env peer t = (t', b)"
  shows "if b then on_relay (view t peer) (view t' peer) \<and> (\<forall>k. k \<noteq> peer \<longrightarrow> view t' k = view t k) else view t' = view t"
proof (cases "pt_transport t")
  case relayAuto
  have u: "view (t\<lparr>pt_quicUnavailable := q\<rparr>) = view t" for q by (simp add: view_def fun_eq_iff)
  show ?thesis
    using relayAuto assms(3) try_ws_view [OF assms(1,2), of env t' b]
      via_proxy_view [where q = True and e = "the (en_quic env peer)", OF assms(1,2)]
      try_ws_view [of "t\<lparr>pt_quicUnavailable := (pt_quicUnavailable t)(peer := True)\<rparr>" peer env t' b] assms(1,2)
    by (cases "en_quic env peer") (auto simp: switchToRelay_def u split: if_splits)
next
  case relayWebSocket
  then show ?thesis using assms(3) try_ws_view [OF assms(1,2)] by (simp add: switchToRelay_def)
next
  case relayUDP
  then show ?thesis using assms(3) try_udp_view [OF assms(1,2)] by (simp add: switchToRelay_def)
qed

lemma noted_view:
  "view (noteDirectStintEnded key now t) k =
    (if k = key then (view t k)\<lparr>vw_since := None,
       vw_flaps := (case pt_directSince t key of None \<Rightarrow> pt_directFlaps t key
          | Some x \<Rightarrow> if directStableTenure \<le> now - x then 0 else pt_directFlaps t key + 1),
       vw_hold := (case pt_directSince t key of None \<Rightarrow> pt_holdDownUntil t key
          | Some x \<Rightarrow> if directStableTenure \<le> now - x then pt_holdDownUntil t key
               else Some (now + flapHoldDown (pt_directFlaps t key + 1)))\<rparr>
     else view t k)"
  by (simp add: noteDirectStintEnded_def view_def Let_def split: option.splits)

lemma relayed_view_ok:
  assumes "view_ok now v" "\<not> vw_relayed v" "on_relay v w" "0 \<le> flaps"
  shows "view_ok now (w\<lparr>vw_relayed := True, vw_relayedAt := Some x, vw_since := None, vw_flaps := flaps, vw_hold := h\<rparr>)"
  using assms by (auto simp: view_ok_def probe_ok_def on_relay_def)

lemma check_peer_ok:
  assumes "\<And>k. view_ok now (view t k)"
  shows "view_ok now (view (check_peer env now peer t) k)"
proof -
  define key where "key = wp_PublicKey peer"
  define t1 where "t1 = checkDirectProbe env peer now t"
  define t2 where "t2 = (if pt_firstSeen t1 key = None then t1\<lparr>pt_firstSeen := (pt_firstSeen t1)(key := Some now)\<rparr> else t1)"
  have ok: "view_ok now (view t2 k)" for k
    using checkDirectProbe_ok [OF assms] by (simp add: t2_def t1_def view_def)
  have check: "check_peer env now peer t =
      (if pt_relayed t2 key \<or> pt_relayBroken t2 \<or> directSilentFor peer now t2 < directStaleAfter then t2
       else case switchToRelay env key t2 of
         (t, False) \<Rightarrow> t
       | (t, True) \<Rightarrow> noteDirectStintEnded key now
           (t\<lparr>pt_relayed := (pt_relayed t)(key := True), pt_relayedAt := (pt_relayedAt t)(key := Some now)\<rparr>))"
    unfolding check_peer_def key_def [symmetric] t1_def [symmetric] t2_def [symmetric] Let_def by simp
  show ?thesis
  proof (cases "pt_relayed t2 key \<or> pt_relayBroken t2 \<or> directSilentFor peer now t2 < directStaleAfter")
    case True
    then show ?thesis using ok by (simp add: check)
  next
    case False
    then have off: "\<not> vw_relayed (view t2 key)" by (simp add: view_def)
    have no: "\<not> pt_wsProxies t2 key" "\<not> pt_quicProxies t2 key"
      using ok [of key] off by (auto simp: view_ok_def view_def)
    obtain t3 b where sw: "switchToRelay env key t2 = (t3, b)" by (cases "switchToRelay env key t2")
    note v = switchToRelay_view [OF no sw]
    show ?thesis
    proof (cases b)
      case False
      with v \<open>\<not> (pt_relayed t2 key \<or> _)\<close> sw ok show ?thesis by (simp add: check)
    next
      case True
      define t4 where "t4 = t3\<lparr>pt_relayed := (pt_relayed t3)(key := True), pt_relayedAt := (pt_relayedAt t3)(key := Some now)\<rparr>"
      have r: "check_peer env now peer t = noteDirectStintEnded key now t4"
        using True sw \<open>\<not> (pt_relayed t2 key \<or> _)\<close> by (simp add: check t4_def)
      have v4: "view t4 k = (if k = key then (view t3 k)\<lparr>vw_relayed := True, vw_relayedAt := Some now\<rparr> else view t3 k)" for k
        by (simp add: t4_def view_def)
      have "vw_flaps (view t3 key) = vw_flaps (view t2 key)" using v True by (auto simp: on_relay_def)
      then have fl: "0 \<le> pt_directFlaps t4 key" using ok [of key] by (simp add: t4_def view_def view_ok_def)
      show ?thesis
      proof (cases "k = key")
        case False
        then show ?thesis using ok v True by (simp add: r noted_view v4)
      next
        case k: True
        show ?thesis
          unfolding r noted_view v4 k
          using relayed_view_ok [OF ok off] v True fl by (auto split: option.splits)
      qed
    qed
  qed
qed

lemma retire_ws_ok: "view_ok now (view t k) \<Longrightarrow> view_ok now (view (retire_ws env t) k)"
  by (cases "pt_directProbes t k") (simp_all add: retire_ws_def retire_def view_def view_ok_def probe_ok_def Let_def)

lemma retire_quic_ok: "view_ok now (view t k) \<Longrightarrow> view_ok now (view (retire_quic env t) k)"
  by (cases "pt_directProbes t k") (simp_all add: retire_quic_def retire_def view_def view_ok_def probe_ok_def Let_def)

lemma checkHandshakes_ok:
  assumes "\<And>k. view_ok now (view t k)"
  shows "view_ok now (view (checkHandshakes env dev now t) k)"
proof -
  have "\<forall>k. view_ok now (view (fold (check_peer env now) dev t) k)" if "\<forall>k. view_ok now (view t k)" for t
    using that by (induction dev arbitrary: t) (simp_all add: check_peer_ok)
  then show ?thesis unfolding checkHandshakes_def using retire_ws_ok retire_quic_ok assms by blast
qed

lemma checkProbes_ok:
  assumes "view_ok now (view t k)"
  shows "view_ok now (view (checkProbes env dev now t) k)"
  unfolding checkProbes_def using assms
  by (induction dev arbitrary: t) (simp_all add: checkDirectProbe_ok)

lemma startDirectProbe_ok:
  assumes "view_ok now (view t k)" "candidates \<noteq> []" "0 < interval" "pt_relayed t peer"
    and "\<And>u. pt_holdDownUntil t peer = Some u \<Longrightarrow> u \<le> now"
  shows "view_ok now (view (startDirectProbe env peer candidates interval window epoch now t) k)"
proof (cases "pt_relayEndpoints t peer")
  case (Some e)
  have "k = peer \<Longrightarrow> probe_ok now (view t k) \<lparr>dp_started = now, dp_confirmedAt = None, dp_candidates = candidates, dp_index = 0,
      dp_relayEndpoint = e, dp_interval = interval, dp_deadline = d, dp_epoch = epoch\<rparr>" for d
    using assms Some by (simp add: probe_ok_def view_def)
  then have "view_ok now (view (t'\<lparr>pt_directProbes := (pt_directProbes t')(peer := Some \<lparr>dp_started = now,
      dp_confirmedAt = None, dp_candidates = candidates, dp_index = 0, dp_relayEndpoint = e, dp_interval = interval,
      dp_deadline = d, dp_epoch = epoch\<rparr>)\<rparr>) k)" if "view t' = view t" for t' d
    using assms(1) that unfolding set_probe_view by (auto intro: view_ok_probe)
  then show ?thesis
    using assms(1) Some by (simp add: startDirectProbe_def set_endpoint_def Let_def view_def)
qed (use assms(1) in \<open>simp add: startDirectProbe_def\<close>)

lemma probe_intervals_pos: "0 < coordinatedProbeInterval" "0 < directProbeInterval" "0 < coordinatedProbeWindow"
  by (simp_all add: coordinatedProbeInterval_def directProbeInterval_def coordinatedProbeWindow_def second_def)

lemma maybeRetryDirect_ok:
  assumes "view_ok now (view t k)"
  shows "view_ok now (view (maybeRetryDirect env peer candidates punchEpoch now t) k)"
proof (cases "pt_directProbeOff t \<or> candidates = [] \<or> \<not> pt_relayed t peer")
  case True
  then show ?thesis using assms by (auto simp: maybeRetryDirect_def)
next
  case False
  define t1 where "t1 = (if candidateDigest candidates \<noteq> pt_lastCandidates t peer
      then t\<lparr>pt_lastCandidates := (pt_lastCandidates t)(peer := candidateDigest candidates),
             pt_directFailures := (pt_directFailures t)(peer := 0)\<rparr> else t)"
  define fast where "fast = (0 < punchEpoch \<and> pt_lastPunchEpoch t1 peer < punchEpoch)"
  define t2 where "t2 = (if fast then t1\<lparr>pt_lastPunchEpoch := (pt_lastPunchEpoch t1)(peer := punchEpoch)\<rparr> else t1)"
  define held where "held = (case pt_holdDownUntil t2 peer of None \<Rightarrow> False | Some until \<Rightarrow> now < until)"
  have same: "view t2 = view t" "pt_relayed t2 = pt_relayed t"
    by (simp_all add: t2_def t1_def view_def fun_eq_iff)
  have ok: "view_ok now (view t2 k)" using assms same by simp
  have start: "view_ok now (view (startDirectProbe env peer candidates i w e now t2) k)" if "\<not> held" "0 < i" for i w e
    using False that same by (intro startDirectProbe_ok [OF ok]) (auto simp: held_def split: option.splits)
  have "maybeRetryDirect env peer candidates punchEpoch now t =
      (if held then t2
       else if pt_directProbes t2 peer \<noteq> None \<and> \<not> fast then t2
       else if \<not> fast \<and> (case pt_relayedAt t2 peer of None \<Rightarrow> False
              | Some at \<Rightarrow> now - at < directRetryInterval (pt_directFailures t2 peer)) then t2
       else if fast
            then startDirectProbe env peer candidates coordinatedProbeInterval coordinatedProbeWindow punchEpoch now t2
            else startDirectProbe env peer candidates directProbeInterval 0 punchEpoch now t2)"
    using False unfolding maybeRetryDirect_def Let_def t1_def [symmetric] fast_def [symmetric] t2_def [symmetric]
      held_def [symmetric] by simp
  then show ?thesis
    using ok start [OF _ probe_intervals_pos(1)] start [OF _ probe_intervals_pos(2)] by simp
qed

subsection \<open>Transitions\<close>

text \<open>
  The reporter's tickers and sync responses, serialised by \<open>syncMu\<close>: each step happens at
  a clock reading not before the last one, in whatever environment it finds.
\<close>

datatype path_event =
    EvHandshakes path_env device
  | EvProbes path_env device
  | EvRetry path_env wg_key "addr_port list" int
  | EvInbound wg_key

inductive path_step :: "time \<times> paths \<Rightarrow> path_event \<Rightarrow> time \<times> paths \<Rightarrow> bool" where
  step_handshakes: "now \<le> now' \<Longrightarrow> path_step (now, t) (EvHandshakes env dev) (now', checkHandshakes env dev now' t)"
| step_probes: "now \<le> now' \<Longrightarrow> path_step (now, t) (EvProbes env dev) (now', checkProbes env dev now' t)"
| step_retry: "now \<le> now' \<Longrightarrow> path_step (now, t) (EvRetry env k cs e) (now', maybeRetryDirect env k cs e now' t)"
| step_inbound: "now \<le> now' \<Longrightarrow>
    path_step (now, t) (EvInbound k) (now', t\<lparr>pt_lastInbound := (pt_lastInbound t)(k := Some now')\<rparr>)"

definition paths_start :: "relayTransport \<Rightarrow> bool \<Rightarrow> paths" where
  "paths_start transport enableDirectProbe =
     \<lparr>pt_transport = transport, pt_firstSeen = (\<lambda>_. None), pt_lastInbound = (\<lambda>_. None), pt_relayed = (\<lambda>_. False),
      pt_relayedAt = (\<lambda>_. None), pt_relayEndpoints = (\<lambda>_. None), pt_directProbes = (\<lambda>_. None),
      pt_lastPunchEpoch = (\<lambda>_. 0), pt_directFailures = (\<lambda>_. 0), pt_lastCandidates = (\<lambda>_. []),
      pt_wsProxies = (\<lambda>_. False), pt_quicProxies = (\<lambda>_. False), pt_pathKinds = (\<lambda>_. []),
      pt_quicUnavailable = (\<lambda>_. False), pt_directSince = (\<lambda>_. None), pt_directFlaps = (\<lambda>_. 0),
      pt_holdDownUntil = (\<lambda>_. None), pt_relayBroken = False, pt_directProbeOff = \<not> enableDirectProbe, pt_written = []\<rparr>"

lemma path_inv_start: "path_inv (now, paths_start transport p)"
  by (simp add: path_inv_def paths_start_def view_def view_ok_def)

interpretation path_sys: preserved path_step path_inv
proof
  fix s e s' assume inv: "path_inv s" and "path_step s e s'"
  from this(2) show "path_inv s'"
  proof cases
    case (step_handshakes now now' t env dev)
    with inv have "\<And>k. view_ok now' (view t k)" by (auto simp: path_inv_def intro: view_ok_mono)
    then show ?thesis using step_handshakes by (simp add: path_inv_def checkHandshakes_ok)
  next
    case (step_probes now now' t env dev)
    with inv have "\<And>k. view_ok now' (view t k)" by (auto simp: path_inv_def intro: view_ok_mono)
    then show ?thesis using step_probes by (simp add: path_inv_def checkProbes_ok)
  next
    case (step_retry now now' t env k cs e)
    with inv have "\<And>k. view_ok now' (view t k)" by (auto simp: path_inv_def intro: view_ok_mono)
    then show ?thesis using step_retry by (simp add: path_inv_def maybeRetryDirect_ok)
  next
    case (step_inbound now now' t k)
    with inv have "\<And>k. view_ok now' (view t k)" by (auto simp: path_inv_def intro: view_ok_mono)
    then show ?thesis using step_inbound by (simp add: path_inv_def view_def)
  qed
qed

subsection \<open>What holds of every path\<close>

lemma reached_view_ok:
  assumes "run path_step (now0, paths_start transport p) es (now, t)"
  shows "view_ok now (view t k)"
  using path_sys.run_preserves [OF assms path_inv_start] by (simp add: path_inv_def)

text \<open>
  C14: However the reporter's ticks and sync responses interleave, and whatever the relay, the
  device and the clock do: a peer that is being probed stays on a relay session whose endpoint the
  probe can go back to and points at one of its candidates, no peer has two proxies, and the path
  state reported for any peer is the path it is on: \<open>probing-direct\<close> exactly while a probe runs,
  \<open>ws-relay\<close> or \<open>quic-relay\<close> exactly while the peer's proxy of that kind carries it,
  \<open>udp-relay\<close> for a relayed peer without a proxy, and \<open>direct\<close> otherwise.
\<close>

theorem probe_keeps_relay:
  assumes "run path_step (now0, paths_start transport p) es (now, t)"
  shows "(\<forall>pr. pt_directProbes t k = Some pr \<longrightarrow>
      pt_relayed t k \<and> pt_relayEndpoints t k = Some (dp_relayEndpoint pr) \<and> dp_index pr < length (dp_candidates pr)) \<and>
    \<not> (pt_wsProxies t k \<and> pt_quicProxies t k) \<and>
    (pt_wsProxies t k \<or> pt_quicProxies t k \<longrightarrow> pt_relayed t k) \<and>
    pathState k t =
      (if pt_directProbes t k \<noteq> None then ''probing-direct''
       else if pt_wsProxies t k then ''ws-relay''
       else if pt_quicProxies t k then ''quic-relay''
       else if pt_relayed t k then ''udp-relay''
       else ''direct'')"
proof -
  have ok: "view_ok now (view t k)" by (rule reached_view_ok [OF assms])
  have kind: "pt_relayed t k \<Longrightarrow> pt_pathKinds t k \<in> set [''quic-relay'', ''ws-relay'', ''udp-relay'']"
    and ws: "pt_wsProxies t k \<longleftrightarrow> pt_relayed t k \<and> pt_pathKinds t k = ''ws-relay''"
    and quic: "pt_quicProxies t k \<longleftrightarrow> pt_relayed t k \<and> pt_pathKinds t k = ''quic-relay''"
    using ok by (simp_all add: view_ok_def view_def is_relay_state_def)
  have probe: "probe_ok now (view t k) pr" if "pt_directProbes t k = Some pr" for pr
    using ok that by (intro view_ok_probeD) (simp_all add: view_def)
  have state: "pathState k t =
      (if pt_directProbes t k \<noteq> None then ''probing-direct''
       else if pt_wsProxies t k then ''ws-relay''
       else if pt_quicProxies t k then ''quic-relay''
       else if pt_relayed t k then ''udp-relay''
       else ''direct'')"
    using kind unfolding pathState_def ws quic by auto
  show ?thesis unfolding state using probe ws quic by (auto simp: probe_ok_def view_def)
qed

text \<open>
  C12: Flap damping outranks everything: while a peer's hold-down lasts it is not probed, neither
  by the periodic retry nor by a coordinated punch, so the path it is on does not change.
\<close>

theorem hold_down_respected:
  assumes "run path_step (now0, paths_start transport p) es (now, t)" "pt_holdDownUntil t k = Some u" "now < u"
  shows "pt_directProbes t k = None \<and> pathState k t \<noteq> ''probing-direct''"
proof -
  have "pt_directProbes t k = None"
  proof (cases "pt_directProbes t k")
    case (Some pr)
    then have "probe_ok now (view t k) pr"
      using reached_view_ok [OF assms(1), of k] by (intro view_ok_probeD) (simp_all add: view_def)
    then have "u \<le> now" using assms(2) by (auto simp: probe_ok_def view_def)
    with assms(3) show ?thesis by simp
  qed
  moreover have "pt_pathKinds t k \<noteq> ''probing-direct''" if "pt_relayed t k"
  proof -
    have "is_relay_state (pt_pathKinds t k)"
      using reached_view_ok [OF assms(1), of k] that by (simp add: view_ok_def view_def)
    moreover have "\<not> is_relay_state ''probing-direct''" by code_simp
    ultimately show ?thesis by metis
  qed
  ultimately show ?thesis by (simp add: pathState_def)
qed

subsection \<open>A probe is decided\<close>












definition note_inbound :: "wg_key \<Rightarrow> time option \<Rightarrow> paths \<Rightarrow> paths" where
  "note_inbound key heard t =
     (case heard of None \<Rightarrow> t | Some at \<Rightarrow> t\<lparr>pt_lastInbound := (pt_lastInbound t)(key := Some at)\<rparr>)"


lemma note_inbound_fields [simp]:
  "pt_directProbes (note_inbound key heard t) = pt_directProbes t"
  "pt_relayed (note_inbound key heard t) = pt_relayed t"
  "pt_relayEndpoints (note_inbound key heard t) = pt_relayEndpoints t"
  "pt_written (note_inbound key heard t) = pt_written t"
  by (simp_all add: note_inbound_def split: option.splits)







definition last_written :: "wg_key \<Rightarrow> paths \<Rightarrow> addr_port option" where
  "last_written k t = (case rev (filter (\<lambda>w. fst w = k) (pt_written t)) of [] \<Rightarrow> None | w # _ \<Rightarrow> Some (snd w))"

lemma last_written_snoc [simp]: "pt_written t = ws @ [(k, e)] \<Longrightarrow> last_written k t = Some e"
  by (simp add: last_written_def)








subsection \<open>A concrete peer\<close>

definition demo_path_env :: path_env where
  "demo_path_env = \<lparr>en_setEndpoint = (\<lambda>_ _. True), en_quic = (\<lambda>_. None), en_ws = (\<lambda>_. WSProxy (V4 7, 1)),
     en_udp = (\<lambda>_. Inr []), en_resolve = (\<lambda>_. None), en_wsAlive = (\<lambda>_. True), en_quicAlive = (\<lambda>_. True)\<rparr>"


text \<open>
  One peer from start-up to a flap: silent for 90 seconds, relayed, probed, promoted, silent
  again.
\<close>

definition demo_seen :: wgPeer where
  "demo_seen = (blank_peer ''k'')\<lparr>wp_LastHandshake := Some (105 * second), wp_Endpoint := Some (V4 9, 2)\<rparr>"

definition demo_probing :: paths where
  "demo_probing =
     maybeRetryDirect demo_path_env ''k'' [(V4 9, 2)] 1 (100 * second)
       (checkHandshakes demo_path_env [blank_peer ''k''] (90 * second)
         (checkHandshakes demo_path_env [blank_peer ''k''] 0 (paths_start relayWebSocket True)))"

definition demo_confirmed :: paths where
  "demo_confirmed = checkProbes demo_path_env [demo_seen] (110 * second) demo_probing"

definition demo_flapped :: paths where
  "demo_flapped =
     checkHandshakes demo_path_env [demo_seen] (240 * second)
       (checkProbes demo_path_env [demo_seen] (136 * second)
         (demo_confirmed\<lparr>pt_lastInbound := (pt_lastInbound demo_confirmed)(''k'' := Some (135 * second))\<rparr>))"

lemma demo_probing_run:
  "run path_step (0, paths_start relayWebSocket True)
     [EvHandshakes demo_path_env [blank_peer ''k''], EvHandshakes demo_path_env [blank_peer ''k''],
      EvRetry demo_path_env ''k'' [(V4 9, 2)] 1] (100 * second, demo_probing)"
proof -
  have 1: "path_step (0, t) (EvHandshakes env dev) (0, checkHandshakes env dev 0 t)" for t env dev
    by (rule step_handshakes) simp
  have 2: "path_step (0, t) (EvHandshakes env dev) (90 * second, checkHandshakes env dev (90 * second) t)" for t env dev
    by (rule step_handshakes) (simp add: second_def)
  have 3: "path_step (90 * second, t) (EvRetry env k cs e) (100 * second, maybeRetryDirect env k cs e (100 * second) t)" for t env k cs e
    by (rule step_retry) (simp add: second_def)
  show ?thesis unfolding demo_probing_def by (meson 1 2 3 run_Cons run_Nil)
qed

lemma demo_flapped_run:
  "run path_step (0, paths_start relayWebSocket True)
     ([EvHandshakes demo_path_env [blank_peer ''k''], EvHandshakes demo_path_env [blank_peer ''k''],
       EvRetry demo_path_env ''k'' [(V4 9, 2)] 1] @
      [EvProbes demo_path_env [demo_seen], EvInbound ''k'', EvProbes demo_path_env [demo_seen],
       EvHandshakes demo_path_env [demo_seen]]) (240 * second, demo_flapped)"
proof -
  have 1: "path_step (100 * second, t) (EvProbes env dev) (110 * second, checkProbes env dev (110 * second) t)" for t env dev
    by (rule step_probes) (simp add: second_def)
  have 2: "path_step (110 * second, t) (EvInbound k) (135 * second, t\<lparr>pt_lastInbound := (pt_lastInbound t)(k := Some (135 * second))\<rparr>)"
    for t k by (rule step_inbound) (simp add: second_def)
  have 3: "path_step (135 * second, t) (EvProbes env dev) (136 * second, checkProbes env dev (136 * second) t)" for t env dev
    by (rule step_probes) (simp add: second_def)
  have 4: "path_step (136 * second, t) (EvHandshakes env dev) (240 * second, checkHandshakes env dev (240 * second) t)" for t env dev
    by (rule step_handshakes) (simp add: second_def)
  show ?thesis
    unfolding demo_flapped_def demo_confirmed_def
    by (rule run_append [OF demo_probing_run], rule run_Cons, rule 1, rule run_Cons, rule 2, rule run_Cons, rule 3,
        rule run_Cons, rule 4, rule run_Nil)
qed

theorem probe_keeps_relay_witness:
  "pt_directProbes demo_probing ''k'' \<noteq> None \<and> pt_relayed demo_probing ''k'' \<and>
   pathState ''k'' demo_probing = ''probing-direct''"
proof -
  have "pt_directProbes demo_probing ''k'' \<noteq> None" by code_simp
  with probe_keeps_relay [OF demo_probing_run, of "''k''"] show ?thesis by auto
qed

theorem hold_down_respected_witness:
  "pt_holdDownUntil demo_flapped ''k'' = Some (360 * second) \<and> pathState ''k'' demo_flapped \<noteq> ''probing-direct''"
proof -
  have h: "pt_holdDownUntil demo_flapped ''k'' = Some (360 * second)" by code_simp
  with hold_down_respected [OF demo_flapped_run h] show ?thesis by (simp add: second_def)
qed

end
