(* ===== verification/AgentTelemetry.thy ===== *)
theory AgentTelemetry
  imports AgentPaths
begin

section \<open>The agent's telemetry\<close>

text \<open>
  cmd/agent/telemetry.go, the measuring half: link counters read from the WireGuard device and
  flow counters read from connection tracking are turned into deltas, which wait in the
  reporter until a report carries them. The device reading, the flow dump and the key text are
  arguments. Flow counters are 64-bit words, as in the source.
\<close>

record linkCounters =
  lc_rx :: int
  lc_tx :: int

record flowKey =
  fk_protocol :: nat
  fk_src :: addr
  fk_srcPort :: nat
  fk_dst :: addr
  fk_dstPort :: nat

record flowCounters =
  fc_txBytes :: "64 word"
  fc_rxBytes :: "64 word"
  fc_txPackets :: "64 word"
  fc_rxPackets :: "64 word"

record ctFlow = flowKey +
  ct_counters :: flowCounters

record reporter =
  rp_prevLink :: "wg_key \<Rightarrow> linkCounters"
  rp_prevFlow :: "flowKey \<Rightarrow> flowCounters option"
  rp_pendingCounters :: "(wg_key \<times> PeerCounter) list"
  rp_pendingFlows :: "(flowKey \<times> FlowRecord) list"
  rp_network :: prefix
  rp_network6 :: prefix
  rp_paths :: paths

subsection \<open>Link counters\<close>

definition link_delta :: "int \<Rightarrow> int \<Rightarrow> int" where
  "link_delta cur prev = (if cur - prev < 0 then cur else cur - prev)"

definition pending_counter :: "(wg_key \<Rightarrow> string) \<Rightarrow> wg_key \<Rightarrow> reporter \<Rightarrow> PeerCounter" where
  "pending_counter keyText k r =
     (case map_of (rp_pendingCounters r) k of
        Some c \<Rightarrow> c
      | None \<Rightarrow> \<lparr>pc_PeerPublicKey = keyText k, pc_RxBytes = 0, pc_TxBytes = 0, pc_LastHandshakeAt = []\<rparr>)"

definition count_link :: "int \<Rightarrow> int \<Rightarrow> string \<Rightarrow> PeerCounter \<Rightarrow> PeerCounter" where
  "count_link deltaRx deltaTx handshake c =
     c\<lparr>pc_RxBytes := pc_RxBytes c + deltaRx, pc_TxBytes := pc_TxBytes c + deltaTx,
       pc_LastHandshakeAt := (if handshake \<noteq> [] then handshake else pc_LastHandshakeAt c)\<rparr>"

lemma count_link_simps [simp]:
  "pc_RxBytes (count_link dr dt h c) = pc_RxBytes c + dr"
  "pc_TxBytes (count_link dr dt h c) = pc_TxBytes c + dt"
  "pc_PeerPublicKey (count_link dr dt h c) = pc_PeerPublicKey c"
  by (simp_all add: count_link_def)

definition collect_peer :: "(wg_key \<Rightarrow> string) \<Rightarrow> time \<Rightarrow> wgPeer \<Rightarrow> reporter \<Rightarrow> reporter" where
  "collect_peer keyText now peer r =
     (let k = wp_PublicKey peer;
          prev = rp_prevLink r k;
          deltaRx = link_delta (wp_RxBytes peer) (lc_rx prev);
          deltaTx = link_delta (wp_TxBytes peer) (lc_tx prev);
          r = r\<lparr>rp_prevLink := (rp_prevLink r)(k := \<lparr>lc_rx = wp_RxBytes peer, lc_tx = wp_TxBytes peer\<rparr>)\<rparr>;
          r = (if 0 < deltaRx
               then r\<lparr>rp_paths := (rp_paths r)\<lparr>pt_lastInbound := (pt_lastInbound (rp_paths r))(k := Some now)\<rparr>\<rparr> else r);
          handshake = (case wp_LastHandshake peer of None \<Rightarrow> [] | Some t \<Rightarrow> format_rfc3339 t)
      in if deltaRx = 0 \<and> deltaTx = 0 \<and> handshake = [] then r
         else r\<lparr>rp_pendingCounters :=
           AList.update k (count_link deltaRx deltaTx handshake (pending_counter keyText k r)) (rp_pendingCounters r)\<rparr>)"

definition collectLinkCounters :: "(wg_key \<Rightarrow> string) \<Rightarrow> time \<Rightarrow> device \<Rightarrow> reporter \<Rightarrow> reporter" where
  "collectLinkCounters keyText now dev r = fold (collect_peer keyText now) dev r"

subsection \<open>Flows\<close>

definition ephemeralMin :: nat where "ephemeralMin = 32768"

definition orientFlow :: "addr \<Rightarrow> nat \<Rightarrow> addr \<Rightarrow> nat \<Rightarrow> addr \<times> addr \<times> nat \<times> bool" where
  "orientFlow src srcPort dst dstPort =
     (let srcEph = (ephemeralMin \<le> srcPort); dstEph = (ephemeralMin \<le> dstPort)
      in if srcEph \<and> \<not> dstEph then (src, dst, dstPort, False)
         else if dstEph \<and> \<not> srcEph then (dst, src, srcPort, True)
         else if dstPort \<le> srcPort then (src, dst, dstPort, False)
         else (dst, src, srcPort, True))"

definition counterDelta :: "64 word \<Rightarrow> 64 word \<Rightarrow> bool \<Rightarrow> 64 word" where
  "counterDelta cur prev known = (if \<not> known \<or> cur < prev then cur else cur - prev)"

definition overlayContains :: "addr \<Rightarrow> reporter \<Rightarrow> bool" where
  "overlayContains a r \<longleftrightarrow>
     Contains (rp_network r) a \<or> (prefix_IsValid (rp_network6 r) \<and> Contains (rp_network6 r) a)"

definition flow_delta :: "flowCounters \<Rightarrow> flowCounters option \<Rightarrow> flowCounters" where
  "flow_delta cur p =
     (let prev = (case p of None \<Rightarrow> \<lparr>fc_txBytes = 0, fc_rxBytes = 0, fc_txPackets = 0, fc_rxPackets = 0\<rparr> | Some x \<Rightarrow> x);
          known = (p \<noteq> None)
      in \<lparr>fc_txBytes = counterDelta (fc_txBytes cur) (fc_txBytes prev) known,
          fc_rxBytes = counterDelta (fc_rxBytes cur) (fc_rxBytes prev) known,
          fc_txPackets = counterDelta (fc_txPackets cur) (fc_txPackets prev) known,
          fc_rxPackets = counterDelta (fc_rxPackets cur) (fc_rxPackets prev) known\<rparr>)"

definition flip_counters :: "flowCounters \<Rightarrow> flowCounters" where
  "flip_counters c = \<lparr>fc_txBytes = fc_rxBytes c, fc_rxBytes = fc_txBytes c, fc_txPackets = fc_rxPackets c,
     fc_rxPackets = fc_txPackets c\<rparr>"

text \<open>\<open>int64(x)\<close> of a \<open>uint64\<close> is the signed reading of the same bits.\<close>

definition add_flow :: "flowCounters \<Rightarrow> FlowRecord \<Rightarrow> FlowRecord" where
  "add_flow d f = f\<lparr>fr_TxBytes := fr_TxBytes f + sint (fc_txBytes d), fr_TxPackets := fr_TxPackets f + sint (fc_txPackets d),
     fr_RxBytes := fr_RxBytes f + sint (fc_rxBytes d), fr_RxPackets := fr_RxPackets f + sint (fc_rxPackets d)\<rparr>"

definition no_traffic :: "flowCounters \<Rightarrow> bool" where
  "no_traffic d \<longleftrightarrow> fc_txBytes d = 0 \<and> fc_rxBytes d = 0 \<and> fc_txPackets d = 0 \<and> fc_rxPackets d = 0"

definition collect_flow :: "ctFlow \<Rightarrow> reporter \<Rightarrow> reporter" where
  "collect_flow f r =
     (if \<not> overlayContains (fk_src f) r \<and> \<not> overlayContains (fk_dst f) r then r
      else let key = flowKey.truncate f;
               cur = ct_counters f;
               delta = flow_delta cur (rp_prevFlow r key);
               r = r\<lparr>rp_prevFlow := (rp_prevFlow r)(key \<mapsto> cur)\<rparr>
      in if no_traffic delta then r
         else case orientFlow (fk_src f) (fk_srcPort f) (fk_dst f) (fk_dstPort f) of
             (client, server, serverPort, flipped) \<Rightarrow>
               let aggKey = \<lparr>fk_protocol = fk_protocol f, fk_src = client, fk_srcPort = 0, fk_dst = server, fk_dstPort = serverPort\<rparr>;
                   d = (if flipped then flip_counters delta else delta);
                   pending = (case map_of (rp_pendingFlows r) aggKey of
                       Some p \<Rightarrow> p
                     | None \<Rightarrow> \<lparr>fr_Protocol = int (fk_protocol f), fr_SrcIP = addr_String client, fr_SrcPort = 0,
                         fr_DstIP = addr_String server, fr_DstPort = int serverPort, fr_TxBytes = 0, fr_RxBytes = 0,
                         fr_TxPackets = 0, fr_RxPackets = 0\<rparr>)
               in r\<lparr>rp_pendingFlows := AList.update aggKey (add_flow d pending) (rp_pendingFlows r)\<rparr>)"

definition flow_seen :: "reporter \<Rightarrow> ctFlow list \<Rightarrow> flowKey \<Rightarrow> bool" where
  "flow_seen r fs key \<longleftrightarrow>
     list_ex (\<lambda>f. flowKey.truncate f = key \<and> (overlayContains (fk_src f) r \<or> overlayContains (fk_dst f) r)) fs"

definition collectFlows :: "ctFlow list \<Rightarrow> reporter \<Rightarrow> reporter" where
  "collectFlows fs r =
     (let r' = fold collect_flow fs r
      in r'\<lparr>rp_prevFlow := (\<lambda>key. if flow_seen r fs key then rp_prevFlow r' key else None)\<rparr>)"

definition collect :: "(wg_key \<Rightarrow> string) \<Rightarrow> time \<Rightarrow> device \<Rightarrow> ctFlow list option \<Rightarrow> reporter \<Rightarrow> reporter" where
  "collect keyText now dev fs r =
     (let r = collectLinkCounters keyText now dev r
      in case fs of None \<Rightarrow> r | Some fs \<Rightarrow> collectFlows fs r)"

text \<open>What a report carries, and what an accepted report clears.\<close>

definition pending_report :: "reporter \<Rightarrow> ReportRequest \<Rightarrow> ReportRequest" where
  "pending_report r q =
     q\<lparr>rr_Counters := map snd (rp_pendingCounters r), rr_Flows := map snd (rp_pendingFlows r)\<rparr>"

definition clear_pending :: "reporter \<Rightarrow> reporter" where
  "clear_pending r = r\<lparr>rp_pendingCounters := [], rp_pendingFlows := []\<rparr>"

subsection \<open>Nothing measured is lost\<close>

definition pend :: "(PeerCounter \<Rightarrow> int) \<Rightarrow> reporter \<Rightarrow> wg_key \<Rightarrow> int" where
  "pend f r k = (case map_of (rp_pendingCounters r) k of None \<Rightarrow> 0 | Some c \<Rightarrow> f c)"

text \<open>The pending list is a map, and each record names its peer.\<close>

definition pending_ok :: "(wg_key \<Rightarrow> string) \<Rightarrow> reporter \<Rightarrow> bool" where
  "pending_ok keyText r \<longleftrightarrow> distinct (map fst (rp_pendingCounters r)) \<and>
     list_all (\<lambda>(k, c). pc_PeerPublicKey c = keyText k) (rp_pendingCounters r)"

lemma collect_peer_pending:
  fixes peer :: wgPeer and r :: reporter
  defines "k \<equiv> wp_PublicKey peer"
  defines "dr \<equiv> link_delta (wp_RxBytes peer) (lc_rx (rp_prevLink r k))"
  defines "dt \<equiv> link_delta (wp_TxBytes peer) (lc_tx (rp_prevLink r k))"
  shows "rp_pendingCounters (collect_peer keyText now peer r) = rp_pendingCounters r \<and> dr = 0 \<and> dt = 0 \<or>
   (\<exists>h. rp_pendingCounters (collect_peer keyText now peer r) =
     AList.update k (count_link dr dt h (pending_counter keyText k r)) (rp_pendingCounters r))"
proof -
  have [simp]: "pending_counter keyText k (r\<lparr>rp_prevLink := x\<rparr>) = pending_counter keyText k r"
    "pending_counter keyText k (r\<lparr>rp_prevLink := x, rp_paths := y\<rparr>) = pending_counter keyText k r" for x y
    by (simp_all add: pending_counter_def)
  show ?thesis unfolding dr_def dt_def k_def collect_peer_def Let_def
    by (simp add: k_def [symmetric]) blast
qed

lemma collect_peer_pend:
  "pend pc_RxBytes (collect_peer keyText now peer r) k = pend pc_RxBytes r k +
     (if k = wp_PublicKey peer then link_delta (wp_RxBytes peer) (lc_rx (rp_prevLink r k)) else 0)"
  "pend pc_TxBytes (collect_peer keyText now peer r) k = pend pc_TxBytes r k +
     (if k = wp_PublicKey peer then link_delta (wp_TxBytes peer) (lc_tx (rp_prevLink r k)) else 0)"
  using collect_peer_pending [of keyText now peer r]
  by (auto simp: pend_def update_conv' pending_counter_def split: option.splits)

lemma collect_peer_prev:
  "rp_prevLink (collect_peer keyText now peer r) k =
    (if k = wp_PublicKey peer then \<lparr>lc_rx = wp_RxBytes peer, lc_tx = wp_TxBytes peer\<rparr> else rp_prevLink r k)"
  by (auto simp: collect_peer_def Let_def)

lemma collect_peer_ok:
  assumes "pending_ok keyText r"
  shows "pending_ok keyText (collect_peer keyText now peer r)"
proof -
  have key: "pc_PeerPublicKey (pending_counter keyText k r) = keyText k" for k
    using assms by (auto simp: pending_ok_def pending_counter_def list_all_iff split: option.splits dest!: map_of_SomeD)
  have upd: "set (AList.update k c xs) \<subseteq> insert (k, c) (set xs)" for k c and xs :: "(wg_key \<times> PeerCounter) list"
    by (induction xs) auto
  let ?k = "wp_PublicKey peer"
  let ?c = "\<lambda>h. count_link (link_delta (wp_RxBytes peer) (lc_rx (rp_prevLink r ?k)))
      (link_delta (wp_TxBytes peer) (lc_tx (rp_prevLink r ?k))) h (pending_counter keyText ?k r)"
  show ?thesis
    using collect_peer_pending [of keyText now peer r]
  proof (elim disjE exE conjE)
    fix h
    assume u: "rp_pendingCounters (collect_peer keyText now peer r) = AList.update ?k (?c h) (rp_pendingCounters r)"
    show ?thesis
      using assms upd [of ?k "?c h" "rp_pendingCounters r"] key
      unfolding pending_ok_def u by (auto simp: distinct_update list_all_iff)
  qed (use assms in \<open>simp add: pending_ok_def\<close>)
qed

lemma collectLinkCounters_effect:
  assumes "distinct (map wp_PublicKey dev)"
  shows "pend pc_RxBytes (collectLinkCounters keyText now dev r) k = pend pc_RxBytes r k +
      (case lookup_peer dev k of None \<Rightarrow> 0 | Some p \<Rightarrow> link_delta (wp_RxBytes p) (lc_rx (rp_prevLink r k)))"
    and "pend pc_TxBytes (collectLinkCounters keyText now dev r) k = pend pc_TxBytes r k +
      (case lookup_peer dev k of None \<Rightarrow> 0 | Some p \<Rightarrow> link_delta (wp_TxBytes p) (lc_tx (rp_prevLink r k)))"
    and "rp_prevLink (collectLinkCounters keyText now dev r) k =
      (case lookup_peer dev k of None \<Rightarrow> rp_prevLink r k | Some p \<Rightarrow> \<lparr>lc_rx = wp_RxBytes p, lc_tx = wp_TxBytes p\<rparr>)"
    and "pending_ok keyText r \<Longrightarrow> pending_ok keyText (collectLinkCounters keyText now dev r)"
proof -
  have none: "lookup_peer d k = None" if "k \<notin> wp_PublicKey ` set d" for d using that by (simp add: lookup_peer_None)
  show "pend pc_RxBytes (collectLinkCounters keyText now dev r) k = pend pc_RxBytes r k +
      (case lookup_peer dev k of None \<Rightarrow> 0 | Some p \<Rightarrow> link_delta (wp_RxBytes p) (lc_rx (rp_prevLink r k)))"
    using assms none unfolding collectLinkCounters_def
    by (induction dev arbitrary: r) (auto simp: collect_peer_pend collect_peer_prev split: option.splits)
  show "pend pc_TxBytes (collectLinkCounters keyText now dev r) k = pend pc_TxBytes r k +
      (case lookup_peer dev k of None \<Rightarrow> 0 | Some p \<Rightarrow> link_delta (wp_TxBytes p) (lc_tx (rp_prevLink r k)))"
    using assms none unfolding collectLinkCounters_def
    by (induction dev arbitrary: r) (auto simp: collect_peer_pend collect_peer_prev split: option.splits)
  show "rp_prevLink (collectLinkCounters keyText now dev r) k =
      (case lookup_peer dev k of None \<Rightarrow> rp_prevLink r k | Some p \<Rightarrow> \<lparr>lc_rx = wp_RxBytes p, lc_tx = wp_TxBytes p\<rparr>)"
    using assms none unfolding collectLinkCounters_def
    by (induction dev arbitrary: r) (auto simp: collect_peer_prev split: option.splits)
  show "pending_ok keyText r \<Longrightarrow> pending_ok keyText (collectLinkCounters keyText now dev r)"
    unfolding collectLinkCounters_def by (induction dev arbitrary: r) (auto intro: collect_peer_ok)
qed

lemma collect_flow_links [simp]:
  "rp_pendingCounters (collect_flow f r) = rp_pendingCounters r" "rp_prevLink (collect_flow f r) = rp_prevLink r"
  by (simp_all add: collect_flow_def Let_def split: prod.splits)

lemma collectFlows_links [simp]:
  "rp_pendingCounters (collectFlows fs r) = rp_pendingCounters r" "rp_prevLink (collectFlows fs r) = rp_prevLink r"
proof -
  have "rp_pendingCounters (fold collect_flow fs r) = rp_pendingCounters r \<and>
      rp_prevLink (fold collect_flow fs r) = rp_prevLink r" by (induction fs arbitrary: r) simp_all
  then show "rp_pendingCounters (collectFlows fs r) = rp_pendingCounters r" "rp_prevLink (collectFlows fs r) = rp_prevLink r"
    by (simp_all add: collectFlows_def Let_def)
qed

lemma collect_links:
  "pend f (collect keyText now dev fs r) k = pend f (collectLinkCounters keyText now dev r) k"
  "rp_prevLink (collect keyText now dev fs r) = rp_prevLink (collectLinkCounters keyText now dev r)"
  "pending_ok keyText (collect keyText now dev fs r) = pending_ok keyText (collectLinkCounters keyText now dev r)"
  by (cases fs; simp add: collect_def pend_def pending_ok_def Let_def)+

text \<open>
  One reporting interval, seen from both ends: the agent collects and posts; the server
  applies the report and the response arrives (\<open>Accepted\<close>), the request never reaches the
  store (\<open>Refused\<close>), or the server commits but its response is lost, so that the agent keeps
  its pending records and sends them again (\<open>Lost\<close>).
\<close>

datatype outcome = Accepted | Refused | Lost

record tick =
  tk_now :: time
  tk_dev :: device
  tk_flows :: "ctFlow list option"
  tk_rest :: ReportRequest
  tk_observed :: string
  tk_outcome :: outcome

definition tick_collect :: "(wg_key \<Rightarrow> string) \<Rightarrow> tick \<Rightarrow> reporter \<Rightarrow> reporter" where
  "tick_collect keyText e r = collect keyText (tk_now e) (tk_dev e) (tk_flows e) r"

definition tick_apply :: "int \<Rightarrow> tick \<Rightarrow> reporter \<Rightarrow> store \<Rightarrow> store_error + store" where
  "tick_apply i e r s = ApplyReport (tk_now e) i (tk_observed e) (pending_report r (tk_rest e)) s"

inductive report_step :: "(wg_key \<Rightarrow> string) \<Rightarrow> int \<Rightarrow> reporter \<times> store \<Rightarrow> tick \<Rightarrow> reporter \<times> store \<Rightarrow> bool"
  for keyText i where
  accepted: "tk_outcome e = Accepted \<Longrightarrow> r' = tick_collect keyText e r \<Longrightarrow> tick_apply i e r' s = Inr s' \<Longrightarrow>
    report_step keyText i (r, s) e (clear_pending r', s')"
| refused: "tk_outcome e = Refused \<Longrightarrow> r' = tick_collect keyText e r \<Longrightarrow>
    report_step keyText i (r, s) e (r', s)"
| lost: "tk_outcome e = Lost \<Longrightarrow> r' = tick_collect keyText e r \<Longrightarrow> tick_apply i e r' s = Inr s' \<Longrightarrow>
    report_step keyText i (r, s) e (r', s')"

inductive_cases report_stepE: "report_step keyText i (r, s) e (r', s')"

text \<open>
  What the interface counted: the sum over its readings of how much the counter grew, a
  reading below the last one being a counter that started again from zero.
\<close>

fun growth :: "int \<Rightarrow> int list \<Rightarrow> int" where
  "growth prev [] = 0"
| "growth prev (cur # rest) = (if cur < prev then cur else cur - prev) + growth cur rest"

definition readings :: "(wgPeer \<Rightarrow> int) \<Rightarrow> wg_key \<Rightarrow> tick list \<Rightarrow> int list" where
  "readings f k es = concat (map (\<lambda>e. case lookup_peer (tk_dev e) k of None \<Rightarrow> [] | Some p \<Rightarrow> [f p]) es)"

lemma readings_simps [simp]:
  "readings f k [] = []"
  "readings f k (e # es) = (case lookup_peer (tk_dev e) k of None \<Rightarrow> [] | Some p \<Rightarrow> [f p]) @ readings f k es"
  by (simp_all add: readings_def)

lemma pending_sum:
  assumes "pending_ok keyText r" "\<And>k'. ids (keyText k') = Some j \<longleftrightarrow> k' = k"
  shows "sum_list (map f (filter (\<lambda>c. ids (pc_PeerPublicKey c) = Some j) (map snd (rp_pendingCounters r)))) = pend f r k"
proof -
  have "distinct (map fst xs) \<Longrightarrow> list_all (\<lambda>(k, c). pc_PeerPublicKey c = keyText k) xs \<Longrightarrow>
     sum_list (map f (filter (\<lambda>c. ids (pc_PeerPublicKey c) = Some j) (map snd xs))) =
     (case map_of xs k of None \<Rightarrow> 0 | Some c \<Rightarrow> f c)" for xs :: "(wg_key \<times> PeerCounter) list"
  proof (induction xs)
    case (Cons x xs)
    moreover have "map_of xs k = None" if "fst x = k"
      using Cons.prems that by (simp add: map_of_eq_None_iff)
    ultimately show ?case using assms(2) by (cases x) auto
  qed simp
  then show ?thesis using assms(1) by (simp add: pending_ok_def pend_def)
qed

lemma ApplyReport_keeps:
  assumes "store_inv s" "list_ex (\<lambda>p. p_id p = i) (peers (st_db s))" "ApplyReport t i obs q s = Inr s'"
  shows "store_inv s' \<and> list_ex (\<lambda>p. p_id p = i) (peers (st_db s')) \<and>
    peerIDsByPublicKey (st_db s') = peerIDsByPublicKey (st_db s)"
proof -
  have a: "store_inv s'" "peers (st_db s') = update_where (\<lambda>p. p_id p = i) (touch_peer (format_time t) obs q) (peers (st_db s))"
    using ApplyReport_accounts [OF assms(1,2), of t obs q] assms(3) by auto
  have "map p_id (peers (st_db s')) = map p_id (peers (st_db s))" unfolding a by (simp add: map_update_where)
  then have "list_ex (\<lambda>p. p_id p = i) (peers (st_db s'))"
    using assms(2) by (metis (mono_tags, lifting) image_eqI image_iff image_set list_ex_iff)
  then show ?thesis using a by (simp add: peerIDsByPublicKey_def map_update_where)
qed

lemma peerIDs_inj:
  assumes "store_inv s" "peerIDsByPublicKey (st_db s) a = Some j" "peerIDsByPublicKey (st_db s) b = Some j"
  shows "a = b"
proof -
  have *: "\<exists>p \<in> set (peers (st_db s)). p_public_key p = x \<and> p_id p = j" if "peerIDsByPublicKey (st_db s) x = Some j" for x
    using map_of_SomeD [OF that [unfolded peerIDsByPublicKey_def]] by auto
  have "distinct (map p_id (peers (st_db s)))" using assms(1) by (simp add: store_inv_def db_inv_def rowids_def strict_sorted_iff)
  then show ?thesis using * [OF assms(2)] * [OF assms(3)] by (metis distinct_map inj_on_def)
qed

text \<open>One direction of a link: what is read from the interface, reported, and stored.\<close>

locale link_direction =
  fixes reported :: "PeerCounter \<Rightarrow> int" and counted :: "wgPeer \<Rightarrow> int"
    and last :: "linkCounters \<Rightarrow> int" and stored :: "link_stat \<Rightarrow> int"
  assumes collected: "distinct (map wp_PublicKey dev) \<Longrightarrow>
      pend reported (collectLinkCounters keyText now dev r) k = pend reported r k +
      (case lookup_peer dev k of None \<Rightarrow> 0 | Some p \<Rightarrow> link_delta (counted p) (last (rp_prevLink r k)))"
    and remembered: "last \<lparr>lc_rx = wp_RxBytes p, lc_tx = wp_TxBytes p\<rparr> = counted p"
    and applied: "store_inv s \<Longrightarrow> list_ex (\<lambda>p. p_id p = i) (peers (st_db s)) \<Longrightarrow> ApplyReport t i obs q s = Inr s' \<Longrightarrow>
      link_total stored (st_db s') (i, b) = link_total stored (st_db s) (i, b) +
        sum_list (map reported (filter (\<lambda>c. peerIDsByPublicKey (st_db s) (pc_PeerPublicKey c) = Some b) (rr_Counters q)))"
begin

definition account :: "int \<Rightarrow> int \<Rightarrow> wg_key \<Rightarrow> reporter \<times> store \<Rightarrow> int" where
  "account i j k c = link_total stored (st_db (snd c)) (i, j) + pend reported (fst c) k"

lemma tick_collect_effect:
  assumes "distinct (map wp_PublicKey (tk_dev e))"
  shows "pend reported (tick_collect keyText e r) k + growth (last (rp_prevLink (tick_collect keyText e r) k)) xs =
      pend reported r k + growth (last (rp_prevLink r k))
        ((case lookup_peer (tk_dev e) k of None \<Rightarrow> [] | Some p \<Rightarrow> [counted p]) @ xs)"
  using collected [OF assms, of keyText "tk_now e" r k] collectLinkCounters_effect(3) [OF assms, of keyText "tk_now e" r k]
  by (auto simp: tick_collect_def collect_links remembered link_delta_def split: option.splits)

lemma tick_apply_effect:
  assumes "inj keyText" "store_inv s" "list_ex (\<lambda>p. p_id p = i) (peers (st_db s))"
    and "peerIDsByPublicKey (st_db s) (keyText k) = Some j" "pending_ok keyText r" "tick_apply i e r s = Inr s'"
  shows "link_total stored (st_db s') (i, j) = link_total stored (st_db s) (i, j) + pend reported r k"
proof -
  have ids: "\<And>k'. peerIDsByPublicKey (st_db s) (keyText k') = Some j \<longleftrightarrow> k' = k"
    using peerIDs_inj [OF assms(2) assms(4)] assms(1,4) by (metis injD)
  show ?thesis
    using applied [OF assms(2,3) assms(6) [unfolded tick_apply_def], of j]
    by (simp add: pending_report_def pending_sum [where ids = "peerIDsByPublicKey (st_db s)", OF assms(5) ids, simplified])
qed

lemma pend_clear [simp]: "pend reported (clear_pending r) k = 0" "rp_prevLink (clear_pending r) = rp_prevLink r"
  by (simp_all add: pend_def clear_pending_def)

text \<open>
  One interval: what is stored and what is pending grow together by what the interface
  counted, and by what was sent before when only the response was lost.
\<close>

lemma report_step_account:
  assumes "report_step keyText i (r, s) e (r', s')" "inj keyText"
    and "store_inv s" "list_ex (\<lambda>p. p_id p = i) (peers (st_db s))"
    and "peerIDsByPublicKey (st_db s) (keyText k) = Some j" "pending_ok keyText r"
    and "distinct (map wp_PublicKey (tk_dev e))"
  shows "account i j k (r', s') + growth (last (rp_prevLink r' k)) xs =
      account i j k (r, s) + growth (last (rp_prevLink r k))
        ((case lookup_peer (tk_dev e) k of None \<Rightarrow> [] | Some p \<Rightarrow> [counted p]) @ xs) +
      (if tk_outcome e = Lost then pend reported r' k else 0)"
    and "pending_ok keyText r'"
    and "store_inv s' \<and> list_ex (\<lambda>p. p_id p = i) (peers (st_db s')) \<and> peerIDsByPublicKey (st_db s') (keyText k) = Some j"
proof -
  let ?c = "tick_collect keyText e r"
  have ok: "pending_ok keyText ?c"
    using collectLinkCounters_effect(4) [OF assms(7,6)] by (simp add: tick_collect_def collect_links)
  note collect = tick_collect_effect [OF assms(7), of keyText r k xs]
  have serve: "link_total stored (st_db s'') (i, j) = link_total stored (st_db s) (i, j) + pend reported ?c k \<and>
      store_inv s'' \<and> list_ex (\<lambda>p. p_id p = i) (peers (st_db s'')) \<and> peerIDsByPublicKey (st_db s'') (keyText k) = Some j"
    if "tick_apply i e ?c s = Inr s''" for s''
    using tick_apply_effect [OF assms(2-5) ok that] ApplyReport_keeps [OF assms(3,4) that [unfolded tick_apply_def]] assms(5)
    by simp
  have clear: "pending_ok keyText (clear_pending ?c)" by (simp add: pending_ok_def clear_pending_def)
  show "account i j k (r', s') + growth (last (rp_prevLink r' k)) xs =
      account i j k (r, s) + growth (last (rp_prevLink r k))
        ((case lookup_peer (tk_dev e) k of None \<Rightarrow> [] | Some p \<Rightarrow> [counted p]) @ xs) +
      (if tk_outcome e = Lost then pend reported r' k else 0)"
    using assms(1) collect serve by (elim report_stepE) (auto simp: account_def)
  show "pending_ok keyText r'" using assms(1) ok clear by (elim report_stepE) simp_all
  show "store_inv s' \<and> list_ex (\<lambda>p. p_id p = i) (peers (st_db s')) \<and> peerIDsByPublicKey (st_db s') (keyText k) = Some j"
    using assms(1,3-5) serve by (elim report_stepE) simp_all
qed

lemma pend_nonneg:
  assumes "report_step keyText i (r, s) e (r', s')" "distinct (map wp_PublicKey (tk_dev e))"
    and "0 \<le> pend reported r k" "\<And>p. p \<in> set (tk_dev e) \<Longrightarrow> 0 \<le> counted p"
  shows "0 \<le> pend reported r' k"
proof -
  have "p \<in> set (tk_dev e)" if "lookup_peer (tk_dev e) k = Some p" for p
    using that by (auto simp: lookup_peer_def find_Some_iff)
  then have "0 \<le> pend reported (tick_collect keyText e r) k"
    using collected [OF assms(2), of keyText "tk_now e" r k] assms(3,4)
    by (auto simp: tick_collect_def collect_links link_delta_def split: option.splits)
  then show ?thesis using assms(1) by (elim report_stepE) simp_all
qed

lemma report_run_account:
  assumes "run (report_step keyText i) (r, s) es (r', s')" "inj keyText"
    and "store_inv s" "list_ex (\<lambda>p. p_id p = i) (peers (st_db s))"
    and "peerIDsByPublicKey (st_db s) (keyText k) = Some j" "pending_ok keyText r" "0 \<le> pend reported r k"
    and "list_all (\<lambda>e. distinct (map wp_PublicKey (tk_dev e)) \<and> list_all (\<lambda>p. 0 \<le> counted p) (tk_dev e)) es"
  shows "account i j k (r, s) + growth (last (rp_prevLink r k)) (readings counted k es) \<le> account i j k (r', s')"
    and "list_all (\<lambda>e. tk_outcome e \<noteq> Lost) es \<Longrightarrow>
      account i j k (r', s') = account i j k (r, s) + growth (last (rp_prevLink r k)) (readings counted k es)"
proof -
  have "account i j k (r, s) + growth (last (rp_prevLink r k)) (readings counted k es) \<le> account i j k (r', s') \<and>
    (list_all (\<lambda>e. tk_outcome e \<noteq> Lost) es \<longrightarrow>
      account i j k (r', s') = account i j k (r, s) + growth (last (rp_prevLink r k)) (readings counted k es))"
    using assms(1,3-8)
  proof (induction es arbitrary: r s)
    case (Cons e es)
    obtain r1 s1 where step: "report_step keyText i (r, s) e (r1, s1)" "run (report_step keyText i) (r1, s1) es (r', s')"
      using Cons.prems(1) by (auto simp: run_Cons_iff)
    have d: "distinct (map wp_PublicKey (tk_dev e))" "\<And>p. p \<in> set (tk_dev e) \<Longrightarrow> 0 \<le> counted p"
      "list_all (\<lambda>e. distinct (map wp_PublicKey (tk_dev e)) \<and> list_all (\<lambda>p. 0 \<le> counted p) (tk_dev e)) es"
      using Cons.prems(7) by (auto simp: list_all_iff)
    note one = report_step_account [OF step(1) assms(2) Cons.prems(2-5) d(1)]
    have n: "0 \<le> pend reported r1 k" by (rule pend_nonneg [OF step(1) d(1) Cons.prems(6) d(2)])
    show ?case
      using Cons.IH [OF step(2) _ _ _ one(2) n d(3)] one(3) one(1) [of "readings counted k es"] n
      by (auto split: if_splits)
  qed (simp add: account_def)
  then show "account i j k (r, s) + growth (last (rp_prevLink r k)) (readings counted k es) \<le> account i j k (r', s')"
    and "list_all (\<lambda>e. tk_outcome e \<noteq> Lost) es \<Longrightarrow>
      account i j k (r', s') = account i j k (r, s) + growth (last (rp_prevLink r k)) (readings counted k es)"
    by blast+
qed

end

interpretation rx: link_direction pc_RxBytes wp_RxBytes lc_rx l_rx_bytes
proof
  fix s i t obs q s' b
  assume "store_inv s" "list_ex (\<lambda>p. p_id p = i) (peers (st_db s))" "ApplyReport t i obs q s = Inr s'"
  then show "link_total l_rx_bytes (st_db s') (i, b) = link_total l_rx_bytes (st_db s) (i, b) +
      sum_list (map pc_RxBytes (filter (\<lambda>c. peerIDsByPublicKey (st_db s) (pc_PeerPublicKey c) = Some b) (rr_Counters q)))"
    using ApplyReport_accounts [of s i t obs q] by auto
qed (simp_all add: collectLinkCounters_effect(1))

interpretation tx: link_direction pc_TxBytes wp_TxBytes lc_tx l_tx_bytes
proof
  fix s i t obs q s' b
  assume "store_inv s" "list_ex (\<lambda>p. p_id p = i) (peers (st_db s))" "ApplyReport t i obs q s = Inr s'"
  then show "link_total l_tx_bytes (st_db s') (i, b) = link_total l_tx_bytes (st_db s) (i, b) +
      sum_list (map pc_TxBytes (filter (\<lambda>c. peerIDsByPublicKey (st_db s) (pc_PeerPublicKey c) = Some b) (rr_Counters q)))"
    using ApplyReport_accounts [of s i t obs q] by auto
qed (simp_all add: collectLinkCounters_effect(2))

text \<open>
  C10: traffic accounting from the interface counters to the server's tables. However the
  reports of an agent fare, the totals the server stores for a link and what is still pending
  in the agent together cover every byte the interface counted since the agent started, counter
  resets included; and they are exactly those bytes unless a response was lost after the
  server had committed the report, in which case the resent records count again.
\<close>

theorem traffic_accounted:
  assumes "run (report_step keyText i) (r, s) es (r', s')" "inj keyText"
    and "store_inv s" "list_ex (\<lambda>p. p_id p = i) (peers (st_db s))"
    and "peerIDsByPublicKey (st_db s) (keyText k) = Some j"
    and "rp_pendingCounters r = []" "rp_prevLink r = (\<lambda>_. \<lparr>lc_rx = 0, lc_tx = 0\<rparr>)"
    and "list_all (\<lambda>e. distinct (map wp_PublicKey (tk_dev e)) \<and>
           list_all (\<lambda>p. 0 \<le> wp_RxBytes p \<and> 0 \<le> wp_TxBytes p) (tk_dev e)) es"
  shows "link_total l_rx_bytes (st_db s) (i, j) + growth 0 (readings wp_RxBytes k es) \<le>
      link_total l_rx_bytes (st_db s') (i, j) + pend pc_RxBytes r' k \<and>
    link_total l_tx_bytes (st_db s) (i, j) + growth 0 (readings wp_TxBytes k es) \<le>
      link_total l_tx_bytes (st_db s') (i, j) + pend pc_TxBytes r' k \<and>
    (list_all (\<lambda>e. tk_outcome e \<noteq> Lost) es \<longrightarrow>
      link_total l_rx_bytes (st_db s') (i, j) + pend pc_RxBytes r' k =
        link_total l_rx_bytes (st_db s) (i, j) + growth 0 (readings wp_RxBytes k es) \<and>
      link_total l_tx_bytes (st_db s') (i, j) + pend pc_TxBytes r' k =
        link_total l_tx_bytes (st_db s) (i, j) + growth 0 (readings wp_TxBytes k es))"
proof -
  have ok: "pending_ok keyText r" "pend f r k = 0" for f using assms(6) by (simp_all add: pending_ok_def pend_def)
  have rx: "list_all (\<lambda>e. distinct (map wp_PublicKey (tk_dev e)) \<and> list_all (\<lambda>p. 0 \<le> wp_RxBytes p) (tk_dev e)) es"
    and tx: "list_all (\<lambda>e. distinct (map wp_PublicKey (tk_dev e)) \<and> list_all (\<lambda>p. 0 \<le> wp_TxBytes p) (tk_dev e)) es"
    using assms(8) by (auto simp: list_all_iff)
  show ?thesis
    using rx.report_run_account [OF assms(1-5) ok(1) _ rx] tx.report_run_account [OF assms(1-5) ok(1) _ tx]
    by (simp add: ok(2) assms(7) rx.account_def tx.account_def)
qed

definition demo_wgpeer :: "int \<Rightarrow> int \<Rightarrow> wgPeer" where
  "demo_wgpeer rx tx = \<lparr>wp_PublicKey = ''pkB'', wp_PresharedKey = zero_key, wp_Endpoint = None, wp_Keepalive = 0, wp_LastHandshake = None,
     wp_RxBytes = rx, wp_TxBytes = tx, wp_AllowedIPs = []\<rparr>"

definition demo_tick :: "int \<Rightarrow> int \<Rightarrow> outcome \<Rightarrow> tick" where
  "demo_tick rx tx out = \<lparr>tk_now = 0, tk_dev = [demo_wgpeer rx tx], tk_flows = None, tk_rest = demo_report,
     tk_observed = [], tk_outcome = out\<rparr>"

definition demo_reporter :: reporter where
  "demo_reporter = \<lparr>rp_prevLink = (\<lambda>_. \<lparr>lc_rx = 0, lc_tx = 0\<rparr>), rp_prevFlow = (\<lambda>_. None), rp_pendingCounters = [],
     rp_pendingFlows = [], rp_network = Prefix (V4 1681915904) 10, rp_network6 = PrefixZero, rp_paths = paths_start relayAuto True\<rparr>"

text \<open>A refused report, then an accepted one after the interface was recreated: 40 and then 30 bytes received.\<close>

theorem traffic_accounted_witness:
  "\<exists>r' s'. run (report_step (\<lambda>k. k) 1) (demo_reporter, demo_store2) [demo_tick 40 1 Refused, demo_tick 30 3 Accepted] (r', s') \<and>
     link_total l_rx_bytes (st_db s') (1, 2) + pend pc_RxBytes r' ''pkB'' = 70 \<and>
     link_total l_tx_bytes (st_db s') (1, 2) + pend pc_TxBytes r' ''pkB'' = 3"
proof -
  have k: "list_ex (\<lambda>p. p_id p = 1) (peers (st_db demo_store2))"
    by (simp add: demo_store2_def demo_store_def demo_peer_def)
  have z: "link_total g (st_db demo_store2) k = 0" for g k
    by (simp add: link_total_def demo_store2_def demo_store_def empty_db_def)
  let ?a = "demo_tick 40 1 Refused" and ?b = "demo_tick 30 3 Accepted"
  define r1 where "r1 = tick_collect (\<lambda>k. k) ?a demo_reporter"
  define r2 where "r2 = tick_collect (\<lambda>k. k) ?b r1"
  obtain s' where s': "tick_apply 1 ?b r2 demo_store2 = Inr s'"
    using ApplyReport_accounts [OF demo_store2_inv k] unfolding tick_apply_def by blast
  have run: "run (report_step (\<lambda>k. k) 1) (demo_reporter, demo_store2) [?a, ?b] (clear_pending r2, s')"
  proof (rule run_Cons)
    show "report_step (\<lambda>k. k) 1 (demo_reporter, demo_store2) ?a (r1, demo_store2)"
      by (rule refused) (simp_all add: demo_tick_def r1_def)
    have "report_step (\<lambda>k. k) 1 (r1, demo_store2) ?b (clear_pending r2, s')"
      by (rule accepted [OF _ r2_def s']) (simp add: demo_tick_def)
    then show "run (report_step (\<lambda>k. k) 1) (r1, demo_store2) [?b] (clear_pending r2, s')"
      by (auto intro: run.intros)
  qed
  have key: "peerIDsByPublicKey (st_db demo_store2) ''pkB'' = Some 2" using demo_keys(1) by (simp add: demo_peer2_def)
  have rd: "growth 0 (readings wp_RxBytes ''pkB'' [?a, ?b]) = 70" "growth 0 (readings wp_TxBytes ''pkB'' [?a, ?b]) = 3"
    by (simp_all add: demo_tick_def demo_wgpeer_def)
  have all: "list_all (\<lambda>e. distinct (map wp_PublicKey (tk_dev e)) \<and>
      list_all (\<lambda>p. 0 \<le> wp_RxBytes p \<and> 0 \<le> wp_TxBytes p) (tk_dev e)) [?a, ?b]"
    "list_all (\<lambda>e. tk_outcome e \<noteq> Lost) [?a, ?b]"
    by (simp_all add: demo_tick_def demo_wgpeer_def)
  have "link_total l_rx_bytes (st_db s') (1, 2) + pend pc_RxBytes (clear_pending r2) ''pkB'' = 70 \<and>
     link_total l_tx_bytes (st_db s') (1, 2) + pend pc_TxBytes (clear_pending r2) ''pkB'' = 3"
    using traffic_accounted [OF run _ demo_store2_inv k key _ _ all(1)] all(2)
    unfolding rd z by (simp add: demo_reporter_def inj_def)
  then show ?thesis using run by blast
qed

end
