(* ===== verification/HostTables.thy ===== *)
theory HostTables
  imports GoParse NetipText "HOL-Library.AList"
begin

text \<open>
  What the agent does to its host. An action takes the state of the host and gives back
  whether it succeeded and the new state, or None when it never returns: a failing step does
  not undo the ones before it. The commands themselves are run by a program outside the
  repository, so every operation takes a parameter \<open>exec\<close>, a tool's name and its words; the
  second half of the theory states the documented behaviour of iptables and ip6tables
  (iptables(8), iptables-extensions(8)) for the commands the agent issues: what a command does
  to the tables, and what the tables do to a packet.
\<close>

subsection \<open>Actions\<close>

type_synonym 'h act = "'h \<Rightarrow> (bool \<times> 'h) option"
type_synonym 'h runner = "string \<Rightarrow> string list \<Rightarrow> 'h \<Rightarrow> bool \<times> 'h"

definition okA :: "'h act" where
  "okA h = Some (True, h)"

text \<open>\<open>if err := f(); err != nil \{ return err \}\<close>, then the rest.\<close>

definition thenA :: "'h act \<Rightarrow> 'h act \<Rightarrow> 'h act" where
  "thenA f g h = (case f h of None \<Rightarrow> None | Some (ok, h') \<Rightarrow> if ok then g h' else Some (False, h'))"

text \<open>\<open>_ = f()\<close>, or an error that is only logged.\<close>

definition tryA :: "'h act \<Rightarrow> 'h act" where
  "tryA f h = map_option (\<lambda>(ok, h'). (True, h')) (f h)"

text \<open>\<open>if f() == nil \{ return nil \}; return g()\<close>.\<close>

definition orA :: "'h act \<Rightarrow> 'h act \<Rightarrow> 'h act" where
  "orA f g h = (case f h of None \<Rightarrow> None | Some (ok, h') \<Rightarrow> if ok then Some (True, h') else g h')"

fun seqA :: "'h act list \<Rightarrow> 'h act" where
  "seqA [] = okA"
| "seqA (f # fs) = thenA f (seqA fs)"

definition cmdA :: "'h runner \<Rightarrow> string \<Rightarrow> string list \<Rightarrow> 'h act" where
  "cmdA exec tool args h = Some (exec tool args h)"

lemma okA_simp: "okA h = Some (True, h)" by (simp add: okA_def)

lemma thenA_Some: "f h = Some (True, h') \<Longrightarrow> thenA f g h = g h'"
  by (simp add: thenA_def)

lemma thenA_okA [simp]: "thenA okA g = g"
  by (rule ext) (simp add: thenA_def okA_def)

lemma thenA_assoc: "thenA (thenA f g) k = thenA f (thenA g k)"
  by (rule ext) (simp add: thenA_def split: option.splits)

lemma seqA_append: "seqA (fs @ gs) = thenA (seqA fs) (seqA gs)"
  by (induction fs) (simp_all add: thenA_assoc)

lemma thenA_eq_True:
  "thenA f g h = Some (True, h'') \<longleftrightarrow> (\<exists>h'. f h = Some (True, h') \<and> g h' = Some (True, h''))"
  by (auto simp: thenA_def split: option.splits)

lemma tryA_cmdA: "tryA (cmdA exec tool args) h = Some (True, snd (exec tool args h))"
  by (simp add: tryA_def cmdA_def split: prod.splits)

subsection \<open>The tables\<close>

type_synonym rule = "string list"
type_synonym tables = "((string \<times> string \<times> string) \<times> rule list) list"

definition chain :: "string \<Rightarrow> string \<Rightarrow> string \<Rightarrow> tables \<Rightarrow> rule list option" where
  "chain bin tab c T = map_of T (bin, tab, c)"

definition set_chain :: "string \<Rightarrow> string \<Rightarrow> string \<Rightarrow> rule list \<Rightarrow> tables \<Rightarrow> tables" where
  "set_chain bin tab c rs T = AList.update (bin, tab, c) rs T"

definition drop_chain :: "string \<Rightarrow> string \<Rightarrow> string \<Rightarrow> tables \<Rightarrow> tables" where
  "drop_chain bin tab c T = AList.delete (bin, tab, c) T"

text \<open>
  The words of a rule are options with their values: one value, two after \<open>--tcp-flags\<close>, and
  an option may be negated by a leading exclamation mark.
\<close>

fun target :: "rule \<Rightarrow> string" where
  "target (f # v # ws) =
     (if f = ''-j'' then v else if f = ''!'' \<or> f = ''--tcp-flags'' then target (tl ws) else target ws)"
| "target [_] = []"
| "target [] = []"

definition builtin_target :: "string \<Rightarrow> bool" where
  "builtin_target t \<longleftrightarrow> t \<in> set [''ACCEPT'', ''DROP'', ''MASQUERADE'', ''TCPMSS'']"

definition known_target :: "string \<Rightarrow> string \<Rightarrow> tables \<Rightarrow> rule \<Rightarrow> bool" where
  "known_target bin tab T r \<longleftrightarrow> builtin_target (target r) \<or> chain bin tab (target r) T \<noteq> None"

definition referenced :: "string \<Rightarrow> string \<Rightarrow> string \<Rightarrow> tables \<Rightarrow> bool" where
  "referenced bin tab c T \<longleftrightarrow>
     list_ex (\<lambda>((b, t, _), rs). b = bin \<and> t = tab \<and> list_ex (\<lambda>r. target r = c) rs) T"

text \<open>
  One command on one table, None when the tool reports an error; a failing command changes
  nothing. \<open>-I\<close> with a rule number inserts there, the agent only uses number 1.
\<close>

definition table_cmd :: "string \<Rightarrow> string \<Rightarrow> string list \<Rightarrow> tables \<Rightarrow> tables option" where
  "table_cmd bin tab args T =
     (case args of
        verb # c # spec \<Rightarrow>
          (case chain bin tab c T of
             None \<Rightarrow> if verb = ''-N'' then Some (set_chain bin tab c [] T) else None
           | Some rs \<Rightarrow>
               if verb = ''-F'' then Some (set_chain bin tab c [] T)
               else if verb = ''-X'' then
                 (if rs = [] \<and> \<not> referenced bin tab c T then Some (drop_chain bin tab c T) else None)
               else if verb = ''-A'' then
                 (if known_target bin tab T spec then Some (set_chain bin tab c (rs @ [spec]) T) else None)
               else if verb = ''-I'' then
                 (let r = (if take 1 spec = [''1''] then drop 1 spec else spec)
                  in if known_target bin tab T r then Some (set_chain bin tab c (r # rs) T) else None)
               else if verb = ''-D'' then
                 (if spec \<in> set rs then Some (set_chain bin tab c (remove1 spec rs) T) else None)
               else if verb = ''-C'' then (if spec \<in> set rs then Some T else None)
               else None)
      | _ \<Rightarrow> None)"

definition iptables :: "tables runner" where
  "iptables bin args T =
     (case (if take 1 args = [''-t''] then table_cmd bin (args ! 1) (drop 2 args) T
            else table_cmd bin ''filter'' args T) of
        None \<Rightarrow> (False, T)
      | Some T' \<Rightarrow> (True, T'))"

lemma chain_set_chain [simp]:
  "chain b t c (set_chain b' t' c' rs T) = (if b = b' \<and> t = t' \<and> c = c' then Some rs else chain b t c T)"
  by (auto simp: chain_def set_chain_def update_conv')

lemma chain_drop_chain [simp]:
  "chain b t c (drop_chain b' t' c' T) = (if b = b' \<and> t = t' \<and> c = c' then None else chain b t c T)"
  by (auto simp: chain_def drop_chain_def delete_conv')

text \<open>The commands the agent issues, one equation each.\<close>

named_theorems ipt

lemma ipt_N [ipt]:
  "iptables bin [''-N'', c] T =
     (if chain bin ''filter'' c T = None then (True, set_chain bin ''filter'' c [] T) else (False, T))"
  by (simp add: iptables_def table_cmd_def split: option.splits)

lemma ipt_F [ipt]:
  "iptables bin [''-F'', c] T =
     (if chain bin ''filter'' c T = None then (False, T) else (True, set_chain bin ''filter'' c [] T))"
  by (simp add: iptables_def table_cmd_def split: option.splits)

lemma ipt_X [ipt]:
  "iptables bin [''-X'', c] T =
     (if chain bin ''filter'' c T = Some [] \<and> \<not> referenced bin ''filter'' c T
      then (True, drop_chain bin ''filter'' c T) else (False, T))"
  by (simp add: iptables_def table_cmd_def split: option.splits)

lemma ipt_A [ipt]:
  "iptables bin (''-A'' # c # r) T =
     (case chain bin ''filter'' c T of
        None \<Rightarrow> (False, T)
      | Some rs \<Rightarrow> if known_target bin ''filter'' T r then (True, set_chain bin ''filter'' c (rs @ [r]) T) else (False, T))"
  by (simp add: iptables_def table_cmd_def split: option.splits)

lemma ipt_I [ipt]:
  assumes "take 1 r \<noteq> [''1'']"
  shows "iptables bin (''-I'' # c # r) T =
     (case chain bin ''filter'' c T of
        None \<Rightarrow> (False, T)
      | Some rs \<Rightarrow> if known_target bin ''filter'' T r then (True, set_chain bin ''filter'' c (r # rs) T) else (False, T))"
  using assms by (simp add: iptables_def table_cmd_def split: option.splits)

lemma ipt_I1 [ipt]:
  "iptables bin (''-I'' # c # ''1'' # r) T =
     (case chain bin ''filter'' c T of
        None \<Rightarrow> (False, T)
      | Some rs \<Rightarrow> if known_target bin ''filter'' T r then (True, set_chain bin ''filter'' c (r # rs) T) else (False, T))"
  by (simp add: iptables_def table_cmd_def split: option.splits)

lemma ipt_C [ipt]:
  "iptables bin (''-C'' # c # r) T =
     (case chain bin ''filter'' c T of None \<Rightarrow> (False, T) | Some rs \<Rightarrow> (r \<in> set rs, T))"
  by (simp add: iptables_def table_cmd_def split: option.splits)

lemma ipt_D [ipt]:
  "iptables bin (''-D'' # c # r) T =
     (case chain bin ''filter'' c T of
        None \<Rightarrow> (False, T)
      | Some rs \<Rightarrow> if r \<in> set rs then (True, set_chain bin ''filter'' c (remove1 r rs) T) else (False, T))"
  by (simp add: iptables_def table_cmd_def split: option.splits)

text \<open>Any sequence of appends of accepting and dropping rules to existing chains succeeds.\<close>

lemma append_all:
  assumes "\<And>c r. (c, r) \<in> set xs \<Longrightarrow> chain bin ''filter'' c T \<noteq> None \<and> builtin_target (target r)"
  shows "\<exists>T'. seqA (map (\<lambda>x. cmdA iptables bin (''-A'' # fst x # snd x)) xs) T = Some (True, T') \<and>
    (\<forall>b t c. chain b t c T' =
      (if b = bin \<and> t = ''filter'' then map_option (\<lambda>rs. rs @ map snd (filter (\<lambda>x. fst x = c) xs)) (chain b t c T)
       else chain b t c T))"
  using assms
proof (induction xs arbitrary: T)
  case Nil
  show ?case by (rule exI [of _ T]) (simp add: okA_simp option.map_ident)
next
  case (Cons x xs)
  obtain c r where x: "x = (c, r)" by (cases x)
  obtain rs where rs: "chain bin ''filter'' c T = Some rs" "builtin_target (target r)"
    using Cons.prems [of c r] x by auto
  let ?T = "set_chain bin ''filter'' c (rs @ [r]) T"
  have step: "cmdA iptables bin (''-A'' # c # r) T = Some (True, ?T)"
    using rs by (simp add: cmdA_def ipt known_target_def)
  have later: "chain bin ''filter'' c' ?T \<noteq> None \<and> builtin_target (target r')" if "(c', r') \<in> set xs" for c' r'
    using Cons.prems [of c' r'] that by simp
  from Cons.IH [OF later] obtain T' where T':
      "seqA (map (\<lambda>x. cmdA iptables bin (''-A'' # fst x # snd x)) xs) ?T = Some (True, T')"
    and ch: "\<forall>b t c. chain b t c T' =
      (if b = bin \<and> t = ''filter'' then map_option (\<lambda>rs. rs @ map snd (filter (\<lambda>x. fst x = c) xs)) (chain b t c ?T)
       else chain b t c ?T)" by blast
  have "chain b t c' T' = (if b = bin \<and> t = ''filter''
      then map_option (\<lambda>rs. rs @ map snd (filter (\<lambda>x. fst x = c') (x # xs))) (chain b t c' T) else chain b t c' T)" for b t c'
    using ch [rule_format, of b t c'] rs x by (cases "c = c'") auto
  moreover have "seqA (map (\<lambda>x. cmdA iptables bin (''-A'' # fst x # snd x)) (x # xs)) T = Some (True, T')"
    using T' step x by (simp add: thenA_def)
  ultimately show ?case by blast
qed

subsection \<open>What the tables do to a packet\<close>

record packet =
  pk_in :: string
  pk_out :: string
  pk_src :: addr
  pk_dst :: addr
  pk_proto :: string
  pk_dport :: int
  pk_tracked :: bool
  pk_syn :: bool

datatype fate = Accept | Drop

text \<open>A network or a single address, as \<open>-s\<close> and \<open>-d\<close> take it; a port or a range of ports.\<close>

definition in_net :: "string \<Rightarrow> addr \<Rightarrow> bool" where
  "in_net v a =
     (case ParsePrefix v of
        Some n \<Rightarrow> Contains n a
      | None \<Rightarrow> ParseAddr v = Some a)"

definition in_ports :: "string \<Rightarrow> int \<Rightarrow> bool" where
  "in_ports v port =
     (case Cut CHR '':'' v of
        None \<Rightarrow> port = int (dec_val v)
      | Some (a, b) \<Rightarrow> int (dec_val a) \<le> port \<and> port \<le> int (dec_val b))"

text \<open>
  One option and its value; the options that load a match or attach a comment match every
  packet. \<open>pk_tracked\<close>: the packet belongs or is related to a connection already tracked;
  \<open>pk_syn\<close>: it has the TCP flags the agent's rules ask for.
\<close>

definition field_matches :: "string \<Rightarrow> string \<Rightarrow> packet \<Rightarrow> bool" where
  "field_matches f v p =
     (if f = ''-i'' then pk_in p = v
      else if f = ''-o'' then pk_out p = v
      else if f = ''-s'' then in_net v (pk_src p)
      else if f = ''-d'' then in_net v (pk_dst p)
      else if f = ''-p'' then pk_proto p = v
      else if f = ''--dport'' then in_ports v (pk_dport p)
      else if f = ''--ctstate'' then pk_tracked p
      else True)"

fun rule_matches :: "rule \<Rightarrow> packet \<Rightarrow> bool" where
  "rule_matches (f # v # ws) p =
     (if f = ''-j'' then True
      else if f = ''!'' then \<not> field_matches v (hd ws) p \<and> rule_matches (tl ws) p
      else if f = ''--tcp-flags'' then pk_syn p \<and> rule_matches (tl ws) p
      else field_matches f v p \<and> rule_matches ws p)"
| "rule_matches [_] p = True"
| "rule_matches [] p = True"

text \<open>
  A chain is read from its first rule on. A matching rule decides, or jumps to a chain whose
  verdict counts, or reading goes on; at most \<open>n\<close> jumps deep. None: the chain decides nothing.
\<close>

fun verdict :: "nat \<Rightarrow> (string \<Rightarrow> rule list option) \<Rightarrow> rule list \<Rightarrow> packet \<Rightarrow> fate option" where
  "verdict n C [] p = None"
| "verdict n C (r # rs) p =
     (if \<not> rule_matches r p then verdict n C rs p
      else if target r = ''ACCEPT'' then Some Accept
      else if target r = ''DROP'' then Some Drop
      else case (n, C (target r)) of
             (Suc m, Some rs') \<Rightarrow> (case verdict m C rs' p of Some v \<Rightarrow> Some v | None \<Rightarrow> verdict n C rs p)
           | _ \<Rightarrow> verdict n C rs p)"

text \<open>The verdict on a packet that enters a chain of the filter table.\<close>

definition filter_verdict :: "string \<Rightarrow> string \<Rightarrow> tables \<Rightarrow> packet \<Rightarrow> fate option" where
  "filter_verdict bin c T p =
     (case chain bin ''filter'' c T of
        None \<Rightarrow> None
      | Some rs \<Rightarrow> verdict 1 (\<lambda>c'. chain bin ''filter'' c' T) rs p)"

lemma verdict_append:
  "verdict n C (xs @ ys) p = (case verdict n C xs p of Some v \<Rightarrow> Some v | None \<Rightarrow> verdict n C ys p)"
  by (induction xs) (auto split: nat.splits option.splits)

lemma verdict_accepts:
  assumes "\<And>r. r \<in> set rs \<Longrightarrow> target r = ''ACCEPT''"
  shows "verdict n C rs p = (if \<exists>r \<in> set rs. rule_matches r p then Some Accept else None)"
  using assms by (induction rs) auto

end
