(* ===== verification/AclFilter.thy ===== *)
theory AclFilter
  imports HostTables ConfigSync
begin

text \<open>
  The overlay firewall of the agent (\<open>cmd/agent/acl_linux.go\<close>): the policy of a sync response
  as three chains of the filter table in each address family. The lemmas compute the chains
  that a successful run leaves behind and what they do to a packet; the properties follow a
  rule from the server's table to the packets it lets through.
\<close>

definition aclInChain :: string where "aclInChain = ''WGMESH-ACL-IN''"
definition aclOutChain :: string where "aclOutChain = ''WGMESH-ACL-OUT''"
definition aclFwdChain :: string where "aclFwdChain = ''WGMESH-ACL-FWD''"

definition acl_chains :: "string list" where
  "acl_chains = [aclInChain, aclOutChain, aclFwdChain]"

lemmas acl_names = aclInChain_def aclOutChain_def aclFwdChain_def

subsection \<open>The words of a rule\<close>

definition acl_protoName :: "proto_ACLRule \<Rightarrow> bool \<Rightarrow> string option" where
  "acl_protoName r v6 =
     (let trimmed = ToLower (TrimSpace (pa_Protocol r));
          protoName = (if trimmed = [] then ''any'' else trimmed)
      in if protoName = ''icmp'' then (if v6 then None else Some ''icmp'')
         else if protoName = ''icmpv6'' then (if \<not> v6 then None else Some ''ipv6-icmp'')
         else if protoName \<in> set [''tcp'', ''udp'', ''any''] then Some protoName
         else None)"

definition acl_ends :: "proto_ACLRule \<Rightarrow> bool \<Rightarrow> (string \<times> string) option" where
  "acl_ends r v6 =
     (if v6 then
        (if pa_SrcIP r \<noteq> [] \<and> pa_SrcIP6 r = [] \<or> pa_DstIP r \<noteq> [] \<and> pa_DstIP6 r = [] then None
         else Some (pa_SrcIP6 r, pa_DstIP6 r))
      else if pa_SrcIP6 r \<noteq> [] \<and> pa_SrcIP r = [] \<or> pa_DstIP6 r \<noteq> [] \<and> pa_DstIP r = [] then None
      else Some (pa_SrcIP r, pa_DstIP r))"

definition acl_port :: "proto_ACLRule \<Rightarrow> string" where
  "acl_port r =
     (if 0 < pa_PortMax r \<and> pa_PortMax r \<noteq> pa_PortMin r
      then Itoa (pa_PortMin r) @ '':'' @ Itoa (pa_PortMax r) else Itoa (pa_PortMin r))"

definition aclRuleArgs :: "proto_ACLRule \<Rightarrow> bool \<Rightarrow> string list option" where
  "aclRuleArgs r v6 =
     (case acl_protoName r v6 of
        None \<Rightarrow> None
      | Some protoName \<Rightarrow>
          (case acl_ends r v6 of
             None \<Rightarrow> None
           | Some (src, dst) \<Rightarrow>
               Some ((if src \<noteq> [] then [''-s'', src] else []) @
                     (if dst \<noteq> [] then [''-d'', dst] else []) @
                     (if protoName \<noteq> ''any'' then [''-p'', protoName] else []) @
                     (if protoName \<in> set [''tcp'', ''udp''] \<and> 0 < pa_PortMin r then [''--dport'', acl_port r] else []) @
                     [''-j'', ''ACCEPT''])))"

subsection \<open>Installing and removing the chains\<close>

definition jump_rule :: "string \<Rightarrow> string \<Rightarrow> string \<Rightarrow> rule" where
  "jump_rule dirFlag iface aclChain = [dirFlag, iface, ''-j'', aclChain]"

definition ensureJump :: "'h runner \<Rightarrow> string \<Rightarrow> string \<Rightarrow> string \<Rightarrow> string \<Rightarrow> string \<Rightarrow> 'h act" where
  "ensureJump exec bin baseChain dirFlag iface aclChain =
     tryA (orA (cmdA exec bin (''-C'' # baseChain # jump_rule dirFlag iface aclChain))
               (cmdA exec bin (''-I'' # baseChain # jump_rule dirFlag iface aclChain)))"

definition acl_jumps :: "(string \<times> string \<times> string) list" where
  "acl_jumps = [(''INPUT'', ''-i'', aclInChain), (''OUTPUT'', ''-o'', aclOutChain), (''FORWARD'', ''-i'', aclFwdChain),
     (''FORWARD'', ''-o'', aclFwdChain)]"

definition disableOverlayACL :: "'h runner \<Rightarrow> string \<Rightarrow> string \<Rightarrow> 'h act" where
  "disableOverlayACL exec bin iface =
     seqA (map (\<lambda>(base, dir, acl). tryA (cmdA exec bin (''-D'' # base # jump_rule dir iface acl))) acl_jumps @
           map (\<lambda>c. tryA (cmdA exec bin [''-F'', c])) acl_chains @
           map (\<lambda>c. tryA (cmdA exec bin [''-X'', c])) acl_chains)"

definition append_cmd :: "'h runner \<Rightarrow> string \<Rightarrow> string \<times> rule \<Rightarrow> 'h act" where
  "append_cmd exec bin x = cmdA exec bin (''-A'' # fst x # snd x)"

definition established_rule :: rule where
  "established_rule = [''-m'', ''conntrack'', ''--ctstate'', ''ESTABLISHED,RELATED'', ''-j'', ''ACCEPT'']"

definition drop_rule :: rule where
  "drop_rule = [''-j'', ''DROP'']"

definition acl_appends :: "proto_ACLRule list \<Rightarrow> bool \<Rightarrow> (string \<times> rule) list" where
  "acl_appends rules v6 =
     map (\<lambda>c. (c, established_rule)) acl_chains @
     concat (map (\<lambda>r. case aclRuleArgs r v6 of None \<Rightarrow> [] | Some cmd \<Rightarrow> map (\<lambda>c. (c, cmd)) acl_chains) rules) @
     map (\<lambda>c. (c, drop_rule)) acl_chains"

definition acl_prepare :: "'h runner \<Rightarrow> string \<Rightarrow> string \<Rightarrow> 'h act" where
  "acl_prepare exec bin iface =
     seqA (map (\<lambda>c. tryA (cmdA exec bin [''-N'', c])) acl_chains @
           map (\<lambda>c. cmdA exec bin [''-F'', c]) acl_chains @
           map (\<lambda>(base, dir, acl). ensureJump exec bin base dir iface acl) acl_jumps)"

definition applyOverlayACLFamily :: "'h runner \<Rightarrow> string \<Rightarrow> string \<Rightarrow> proto_ACLRule list \<Rightarrow> bool \<Rightarrow> 'h act" where
  "applyOverlayACLFamily exec bin iface rules v6 =
     thenA (acl_prepare exec bin iface) (seqA (map (append_cmd exec bin) (acl_appends rules v6)))"

definition applyOverlayACL :: "'h runner \<Rightarrow> string \<Rightarrow> ACLPolicy option \<Rightarrow> 'h act" where
  "applyOverlayACL exec iface policy =
     (case policy of
        Some pol \<Rightarrow>
          if ap_DefaultPolicy pol \<noteq> ''deny''
          then seqA [disableOverlayACL exec ''iptables'' iface, disableOverlayACL exec ''ip6tables'' iface]
          else seqA [applyOverlayACLFamily exec ''iptables'' iface (ap_Rules pol) False,
                     applyOverlayACLFamily exec ''ip6tables'' iface (ap_Rules pol) True]
      | None \<Rightarrow> seqA [disableOverlayACL exec ''iptables'' iface, disableOverlayACL exec ''ip6tables'' iface])"

subsection \<open>The chains after a run\<close>

definition base_chains :: "string \<Rightarrow> tables \<Rightarrow> bool" where
  "base_chains bin T \<longleftrightarrow> list_all (\<lambda>c. chain bin ''filter'' c T \<noteq> None) [''INPUT'', ''OUTPUT'', ''FORWARD'']"

lemma new_chains:
  "\<exists>T'. seqA (map (\<lambda>c. tryA (cmdA iptables bin [''-N'', c])) cs) T = Some (True, T') \<and>
     (\<forall>b t c. chain b t c T' = (if b = bin \<and> t = ''filter'' \<and> c \<in> set cs \<and> chain b t c T = None then Some []
       else chain b t c T))"
proof (induction cs arbitrary: T)
  case Nil
  show ?case by (rule exI [of _ T]) (simp add: okA_simp)
next
  case (Cons c cs)
  let ?T = "snd (iptables bin [''-N'', c] T)"
  obtain T' where T': "seqA (map (\<lambda>c. tryA (cmdA iptables bin [''-N'', c])) cs) ?T = Some (True, T')"
    "\<forall>b t c'. chain b t c' T' = (if b = bin \<and> t = ''filter'' \<and> c' \<in> set cs \<and> chain b t c' ?T = None then Some []
      else chain b t c' ?T)"
    using Cons.IH by blast
  have "seqA (map (\<lambda>c. tryA (cmdA iptables bin [''-N'', c])) (c # cs)) T = Some (True, T')"
    using T'(1) by (simp add: thenA_def tryA_cmdA)
  moreover have "chain b t c' T' = (if b = bin \<and> t = ''filter'' \<and> c' \<in> set (c # cs) \<and> chain b t c' T = None then Some []
      else chain b t c' T)" for b t c'
    using T'(2) [rule_format, of b t c'] by (auto simp: ipt)
  ultimately show ?case by blast
qed

lemma flush_chains:
  assumes "\<And>c. c \<in> set cs \<Longrightarrow> chain bin ''filter'' c T \<noteq> None"
  shows "\<exists>T'. seqA (map (\<lambda>c. cmdA iptables bin [''-F'', c]) cs) T = Some (True, T') \<and>
     (\<forall>b t c. chain b t c T' = (if b = bin \<and> t = ''filter'' \<and> c \<in> set cs then Some [] else chain b t c T))"
  using assms
proof (induction cs arbitrary: T)
  case Nil
  show ?case by (rule exI [of _ T]) (simp add: okA_simp)
next
  case (Cons c cs)
  let ?T = "set_chain bin ''filter'' c [] T"
  have "chain bin ''filter'' c' ?T \<noteq> None" if "c' \<in> set cs" for c' using Cons.prems [of c'] that by simp
  from Cons.IH [OF this] obtain T' where T': "seqA (map (\<lambda>c. cmdA iptables bin [''-F'', c]) cs) ?T = Some (True, T')"
    "\<forall>b t c'. chain b t c' T' = (if b = bin \<and> t = ''filter'' \<and> c' \<in> set cs then Some [] else chain b t c' ?T)"
    by blast
  have "seqA (map (\<lambda>c. cmdA iptables bin [''-F'', c]) (c # cs)) T = Some (True, T')"
    using T'(1) Cons.prems [of c] by (simp add: thenA_def cmdA_def ipt)
  moreover have "chain b t c' T' = (if b = bin \<and> t = ''filter'' \<and> c' \<in> set (c # cs) then Some [] else chain b t c' T)" for b t c'
    using T'(2) [rule_format, of b t c'] by auto
  ultimately show ?case by blast
qed

lemma ensureJump_effect:
  assumes "chain bin ''filter'' base T = Some rs" "chain bin ''filter'' acl T \<noteq> None" "dir \<in> set [''-i'', ''-o'']"
  shows "ensureJump iptables bin base dir iface acl T =
    Some (True, if jump_rule dir iface acl \<in> set rs then T
      else set_chain bin ''filter'' base (jump_rule dir iface acl # rs) T)"
proof -
  have t: "target (jump_rule dir iface acl) = acl" "take 1 (jump_rule dir iface acl) \<noteq> [''1'']"
    using assms(3) by (auto simp: jump_rule_def)
  then have "known_target bin ''filter'' T (jump_rule dir iface acl)" using assms(2) by (simp add: known_target_def)
  then show ?thesis
    using assms(1) ipt_I [OF t(2), of bin base T]
    by (auto simp: ensureJump_def tryA_def orA_def cmdA_def ipt)
qed

lemma ensure_jumps:
  assumes "\<And>base dir acl. (base, dir, acl) \<in> set js \<Longrightarrow>
      chain bin ''filter'' base T \<noteq> None \<and> chain bin ''filter'' acl T \<noteq> None \<and> dir \<in> set [''-i'', ''-o'']"
  shows "\<exists>T'. seqA (map (\<lambda>(base, dir, acl). ensureJump iptables bin base dir iface acl) js) T = Some (True, T') \<and>
    (\<forall>b t c. (b, t, c) \<notin> (\<lambda>(base, _). (bin, ''filter'', base)) ` set js \<longrightarrow> chain b t c T' = chain b t c T) \<and>
    (\<forall>base rs. chain bin ''filter'' base T = Some rs \<longrightarrow>
       (\<exists>rs'. chain bin ''filter'' base T' = Some rs' \<and> set rs \<subseteq> set rs' \<and>
          (\<forall>dir acl. (base, dir, acl) \<in> set js \<longrightarrow> jump_rule dir iface acl \<in> set rs')))"
  using assms
proof (induction js arbitrary: T)
  case Nil
  show ?case by (rule exI [of _ T]) (simp add: okA_simp)
next
  case (Cons x js)
  obtain base dir acl where x: "x = (base, dir, acl)" by (cases x)
  obtain rs where rs: "chain bin ''filter'' base T = Some rs" "chain bin ''filter'' acl T \<noteq> None" "dir \<in> set [''-i'', ''-o'']"
    using Cons.prems [of base dir acl] x by auto
  let ?r = "jump_rule dir iface acl"
  let ?T = "if ?r \<in> set rs then T else set_chain bin ''filter'' base (?r # rs) T"
  have some: "chain b t c T \<noteq> None \<Longrightarrow> chain b t c ?T \<noteq> None" for b t c using rs(1) by auto
  have "chain bin ''filter'' b ?T \<noteq> None \<and> chain bin ''filter'' a ?T \<noteq> None \<and> d \<in> set [''-i'', ''-o'']"
    if "(b, d, a) \<in> set js" for b d a using Cons.prems [of b d a] that some by auto
  from Cons.IH [OF this] obtain T' where
    T': "seqA (map (\<lambda>(base, dir, acl). ensureJump iptables bin base dir iface acl) js) ?T = Some (True, T')"
    and same: "\<forall>b t c. (b, t, c) \<notin> (\<lambda>(base, _). (bin, ''filter'', base)) ` set js \<longrightarrow> chain b t c T' = chain b t c ?T"
    and jump: "\<forall>base rs. chain bin ''filter'' base ?T = Some rs \<longrightarrow>
       (\<exists>rs'. chain bin ''filter'' base T' = Some rs' \<and> set rs \<subseteq> set rs' \<and>
          (\<forall>dir acl. (base, dir, acl) \<in> set js \<longrightarrow> jump_rule dir iface acl \<in> set rs'))" by blast
  have "seqA (map (\<lambda>(base, dir, acl). ensureJump iptables bin base dir iface acl) (x # js)) T = Some (True, T')"
    using T' ensureJump_effect [OF rs] x by (simp add: thenA_def)
  moreover have "chain b t c T' = chain b t c T"
    if "(b, t, c) \<notin> (\<lambda>(base, _). (bin, ''filter'', base)) ` set (x # js)" for b t c
    using same [rule_format, of b t c] that x by auto
  moreover have "\<exists>rs'. chain bin ''filter'' c T' = Some rs' \<and> set old \<subseteq> set rs' \<and>
      (\<forall>dir acl. (c, dir, acl) \<in> set (x # js) \<longrightarrow> jump_rule dir iface acl \<in> set rs')"
    if "chain bin ''filter'' c T = Some old" for c old
  proof -
    let ?mid = "if c = base \<and> ?r \<notin> set rs then ?r # rs else old"
    have mid: "chain bin ''filter'' c ?T = Some ?mid" "set old \<subseteq> set ?mid" "c = base \<longrightarrow> ?r \<in> set ?mid"
      using that rs(1) by auto
    with jump obtain rs' where "chain bin ''filter'' c T' = Some rs'" "set ?mid \<subseteq> set rs'"
      "\<forall>dir acl. (c, dir, acl) \<in> set js \<longrightarrow> jump_rule dir iface acl \<in> set rs'" by blast
    with mid x show ?thesis by auto
  qed
  ultimately show ?case by blast
qed

text \<open>
  The chains of one family after a successful run, whatever was there before: what is
  established, the rules in order, then drop; and each is entered from its base chain.
\<close>

definition acl_chain :: "proto_ACLRule list \<Rightarrow> bool \<Rightarrow> rule list" where
  "acl_chain rules v6 = established_rule # concat (map (\<lambda>r. case aclRuleArgs r v6 of None \<Rightarrow> [] | Some cmd \<Rightarrow> [cmd]) rules) @ [drop_rule]"

definition acl_installed :: "string \<Rightarrow> string \<Rightarrow> proto_ACLRule list \<Rightarrow> bool \<Rightarrow> tables \<Rightarrow> bool" where
  "acl_installed bin iface rules v6 T \<longleftrightarrow>
     list_all (\<lambda>c. chain bin ''filter'' c T = Some (acl_chain rules v6)) acl_chains \<and>
     list_all (\<lambda>(base, dir, acl). case chain bin ''filter'' base T of
         None \<Rightarrow> False | Some rs \<Rightarrow> jump_rule dir iface acl \<in> set rs) acl_jumps"

lemma aclRuleArgs_target: "aclRuleArgs r v6 = Some cmd \<Longrightarrow> target cmd = ''ACCEPT''"
  by (auto simp: aclRuleArgs_def split: option.splits prod.splits if_splits)

lemma acl_appends_chain:
  "c \<in> set acl_chains \<Longrightarrow> map snd (filter (\<lambda>x. fst x = c) (acl_appends rules v6)) = acl_chain rules v6"
  "c \<notin> set acl_chains \<Longrightarrow> filter (\<lambda>x. fst x = c) (acl_appends rules v6) = []"
  "(c, r) \<in> set (acl_appends rules v6) \<Longrightarrow> c \<in> set acl_chains \<and> builtin_target (target r)"
proof -
  have one: "map snd (filter (\<lambda>x. fst x = c) (map (\<lambda>c. (c, r)) acl_chains)) = [r]" if "c \<in> set acl_chains" for r :: rule
    using that by (auto simp: acl_chains_def acl_names)
  show "map snd (filter (\<lambda>x. fst x = c) (acl_appends rules v6)) = acl_chain rules v6" if c: "c \<in> set acl_chains"
  proof -
    have "map snd (filter (\<lambda>x. fst x = c) (concat (map (\<lambda>r. case aclRuleArgs r v6 of None \<Rightarrow> []
        | Some cmd \<Rightarrow> map (\<lambda>c. (c, cmd)) acl_chains) rules))) =
        concat (map (\<lambda>r. case aclRuleArgs r v6 of None \<Rightarrow> [] | Some cmd \<Rightarrow> [cmd]) rules)"
      using one [OF c] by (induction rules) (auto split: option.splits)
    with one [OF c] show ?thesis by (simp add: acl_appends_def acl_chain_def)
  qed
  show "filter (\<lambda>x. fst x = c) (acl_appends rules v6) = []" if "c \<notin> set acl_chains"
    using that by (auto simp: acl_appends_def filter_empty_conv split: option.splits)
  show "c \<in> set acl_chains \<and> builtin_target (target r)" if "(c, r) \<in> set (acl_appends rules v6)"
    using that aclRuleArgs_target
    by (auto simp: acl_appends_def established_rule_def drop_rule_def builtin_target_def split: option.splits)
qed

lemma acl_prepared:
  assumes "base_chains bin T"
  shows "\<exists>T'. acl_prepare iptables bin iface T = Some (True, T') \<and>
    (\<forall>c \<in> set acl_chains. chain bin ''filter'' c T' = Some []) \<and>
    (\<forall>base dir acl. (base, dir, acl) \<in> set acl_jumps \<longrightarrow>
       base \<notin> set acl_chains \<and> (\<exists>rs. chain bin ''filter'' base T' = Some rs \<and> jump_rule dir iface acl \<in> set rs)) \<and>
    (\<forall>b t c. b \<noteq> bin \<longrightarrow> chain b t c T' = chain b t c T)"
proof -
  obtain T1 where T1: "seqA (map (\<lambda>c. tryA (cmdA iptables bin [''-N'', c])) acl_chains) T = Some (True, T1)"
    and c1: "\<forall>b t c. chain b t c T1 = (if b = bin \<and> t = ''filter'' \<and> c \<in> set acl_chains \<and> chain b t c T = None then Some []
       else chain b t c T)" using new_chains by blast
  have "\<And>c. c \<in> set acl_chains \<Longrightarrow> chain bin ''filter'' c T1 \<noteq> None" using c1 by simp
  from flush_chains [OF this] obtain T2 where T2: "seqA (map (\<lambda>c. cmdA iptables bin [''-F'', c]) acl_chains) T1 = Some (True, T2)"
    and c2: "\<forall>b t c. chain b t c T2 = (if b = bin \<and> t = ''filter'' \<and> c \<in> set acl_chains then Some [] else chain b t c T1)"
    by blast
  have base: "base \<notin> set acl_chains \<and> acl \<in> set acl_chains \<and> chain bin ''filter'' base T \<noteq> None \<and> dir \<in> set [''-i'', ''-o'']"
    if "(base, dir, acl) \<in> set acl_jumps" for base dir acl
    using that assms by (auto simp: acl_jumps_def acl_chains_def acl_names base_chains_def)
  have jumps: "chain bin ''filter'' base T2 \<noteq> None \<and> chain bin ''filter'' acl T2 \<noteq> None \<and> dir \<in> set [''-i'', ''-o'']"
    if "(base, dir, acl) \<in> set acl_jumps" for base dir acl using base [OF that] c1 c2 by auto
  from ensure_jumps [OF jumps] obtain T3 where
    T3: "seqA (map (\<lambda>(base, dir, acl). ensureJump iptables bin base dir iface acl) acl_jumps) T2 = Some (True, T3)"
    and c3: "\<forall>b t c. (b, t, c) \<notin> (\<lambda>(base, _). (bin, ''filter'', base)) ` set acl_jumps \<longrightarrow> chain b t c T3 = chain b t c T2"
    and j3: "\<forall>base rs. chain bin ''filter'' base T2 = Some rs \<longrightarrow>
       (\<exists>rs'. chain bin ''filter'' base T3 = Some rs' \<and> set rs \<subseteq> set rs' \<and>
          (\<forall>dir acl. (base, dir, acl) \<in> set acl_jumps \<longrightarrow> jump_rule dir iface acl \<in> set rs'))" by blast
  have "acl_prepare iptables bin iface T = Some (True, T3)"
    unfolding acl_prepare_def seqA_append using T1 T2 T3 by (simp add: thenA_def)
  moreover have "chain bin ''filter'' c T3 = Some []" if "c \<in> set acl_chains" for c
  proof -
    have "(bin, ''filter'', c) \<notin> (\<lambda>(base, _). (bin, ''filter'', base)) ` set acl_jumps" using base that by force
    then show ?thesis using c3 c2 that by simp
  qed
  moreover have "\<exists>rs. chain bin ''filter'' base T3 = Some rs \<and> jump_rule dir iface acl \<in> set rs"
    if "(base, dir, acl) \<in> set acl_jumps" for base dir acl
    using j3 jumps [OF that] that by blast
  moreover have "chain b t c T3 = chain b t c T" if "b \<noteq> bin" for b t c
  proof -
    have "(b, t, c) \<notin> (\<lambda>(base, _). (bin, ''filter'', base)) ` set acl_jumps" using that by auto
    then show ?thesis using c3 c2 c1 that by simp
  qed
  ultimately show ?thesis using base by blast
qed

lemma applyOverlayACLFamily_installs:
  assumes "base_chains bin T"
  shows "\<exists>T'. applyOverlayACLFamily iptables bin iface rules v6 T = Some (True, T') \<and>
    acl_installed bin iface rules v6 T' \<and> (\<forall>b t c. b \<noteq> bin \<longrightarrow> chain b t c T' = chain b t c T)"
proof -
  obtain T3 where T3: "acl_prepare iptables bin iface T = Some (True, T3)"
    and empty: "\<forall>c \<in> set acl_chains. chain bin ''filter'' c T3 = Some []"
    and jumps: "\<forall>base dir acl. (base, dir, acl) \<in> set acl_jumps \<longrightarrow>
       base \<notin> set acl_chains \<and> (\<exists>rs. chain bin ''filter'' base T3 = Some rs \<and> jump_rule dir iface acl \<in> set rs)"
    and c3: "\<forall>b t c. b \<noteq> bin \<longrightarrow> chain b t c T3 = chain b t c T"
    using acl_prepared [OF assms] by blast
  have "\<And>c r. (c, r) \<in> set (acl_appends rules v6) \<Longrightarrow> chain bin ''filter'' c T3 \<noteq> None \<and> builtin_target (target r)"
    using acl_appends_chain(3) empty by (metis option.distinct(1))
  from append_all [OF this] obtain T4 where
    T4: "seqA (map (append_cmd iptables bin) (acl_appends rules v6)) T3 = Some (True, T4)"
    and c4: "\<forall>b t c. chain b t c T4 = (if b = bin \<and> t = ''filter''
      then map_option (\<lambda>rs. rs @ map snd (filter (\<lambda>x. fst x = c) (acl_appends rules v6))) (chain b t c T3)
      else chain b t c T3)" unfolding append_cmd_def by blast
  have "applyOverlayACLFamily iptables bin iface rules v6 T = Some (True, T4)"
    unfolding applyOverlayACLFamily_def using T3 T4 by (simp add: thenA_def)
  moreover have "chain bin ''filter'' c T4 = Some (acl_chain rules v6)" if "c \<in> set acl_chains" for c
    using c4 empty that acl_appends_chain(1) [OF that] by simp
  moreover have "\<exists>rs. chain bin ''filter'' base T4 = Some rs \<and> jump_rule dir iface acl \<in> set rs"
    if "(base, dir, acl) \<in> set acl_jumps" for base dir acl
  proof -
    have "filter (\<lambda>x. fst x = base) (acl_appends rules v6) = []" using acl_appends_chain(2) jumps that by blast
    then have "chain bin ''filter'' base T4 = chain bin ''filter'' base T3" using c4 by (simp add: option.map_ident)
    then show ?thesis using jumps that by metis
  qed
  ultimately show ?thesis
    using c3 c4 by (intro exI [of _ T4]) (fastforce simp: acl_installed_def list_all_iff)
qed

subsection \<open>What the chains let through\<close>

definition words_permit :: "proto_ACLRule \<Rightarrow> bool \<Rightarrow> packet \<Rightarrow> bool" where
  "words_permit r v6 p \<longleftrightarrow> (\<exists>cmd. aclRuleArgs r v6 = Some cmd \<and> rule_matches cmd p)"

lemma acl_chain_verdict:
  assumes "\<not> pk_tracked p"
  shows "verdict n C (acl_chain rules v6) p = Some (if \<exists>r \<in> set rules. words_permit r v6 p then Accept else Drop)"
proof -
  let ?cmds = "concat (map (\<lambda>r. case aclRuleArgs r v6 of None \<Rightarrow> [] | Some cmd \<Rightarrow> [cmd]) rules)"
  have "verdict n C ?cmds p = (if \<exists>cmd \<in> set ?cmds. rule_matches cmd p then Some Accept else None)"
    using aclRuleArgs_target by (intro verdict_accepts) (auto split: option.splits)
  moreover have "(\<exists>cmd \<in> set ?cmds. rule_matches cmd p) \<longleftrightarrow> (\<exists>r \<in> set rules. words_permit r v6 p)"
    unfolding words_permit_def by (auto split: option.splits; metis)
  ultimately show ?thesis
    using assms by (simp add: acl_chain_def verdict_append established_rule_def drop_rule_def field_matches_def)
qed

lemma filter_verdict_installed:
  assumes "acl_installed bin iface rules v6 T" "c \<in> set acl_chains" "\<not> pk_tracked p"
  shows "filter_verdict bin c T p = Some (if \<exists>r \<in> set rules. words_permit r v6 p then Accept else Drop)"
  using assms acl_chain_verdict [OF assms(3)] by (simp add: filter_verdict_def acl_installed_def list_all_iff)

lemma words_permit_iff:
  assumes "acl_protoName r v6 = Some pn" "acl_ends r v6 = Some (src, dst)"
  shows "words_permit r v6 p \<longleftrightarrow> (src = [] \<or> in_net src (pk_src p)) \<and> (dst = [] \<or> in_net dst (pk_dst p)) \<and>
    (pn = ''any'' \<or> pk_proto p = pn) \<and>
    (pn \<in> set [''tcp'', ''udp''] \<and> 0 < pa_PortMin r \<longrightarrow> in_ports (acl_port r) (pk_dport p))"
  using assms by (auto simp: words_permit_def aclRuleArgs_def field_matches_def)

lemma Contains_zone: "Contains n a \<Longrightarrow> addr_Zone a = []"
  by (induction n a rule: Contains.induct) auto

lemma cut_last_None: "c \<notin> set s \<Longrightarrow> cut_last c s = None"
proof -
  assume "c \<notin> set s"
  then have tw: "takeWhile (\<lambda>x. x \<noteq> c) (rev s) = rev s" by (auto simp: takeWhile_eq_all_conv)
  show ?thesis unfolding cut_last_def tw Let_def by simp
qed

lemma in_net_host:
  assumes "host_text n t" "addr_IsValid a"
  shows "in_net t a \<longleftrightarrow> t = addr_String a"
proof -
  obtain h where h: "ParseAddr t = Some h" "addr_String h = t" "Contains n h"
    using assms(1) by (auto simp: host_text_def split: option.splits)
  have "list_all addr_char t"
    using h(2) Contains_zone [OF h(3)] Contains_valid [OF h(3)] addr_char_print4 addr_char_print6
    by (cases h) (auto simp: print6_def)
  then have "CHR ''/'' \<notin> set t" by (auto simp: list_all_iff addr_char_def is_hex_def hex_val1_def)
  then have "ParsePrefix t = None" by (simp add: ParsePrefix_def cut_last_None)
  then have "in_net t a \<longleftrightarrow> h = a" using h(1) by (simp add: in_net_def)
  also have "\<dots> \<longleftrightarrow> t = addr_String a" using h(1,2) ParseAddr_String [OF assms(2)] by (metis option.inject)
  finally show ?thesis .
qed

lemma in_ports_single: "0 < n \<Longrightarrow> in_ports (Itoa n) port \<longleftrightarrow> port = n"
proof -
  assume n: "0 < n"
  have "CHR '':'' \<notin> set (dec (nat n))" using dec_digits [of "CHR '':''" "nat n"] by (auto simp: is_digit_def)
  then have "Cut CHR '':'' (dec (nat n)) = None" by (auto simp: Cut_def dropWhile_eq_Nil_conv)
  with n show ?thesis by (simp add: in_ports_def Itoa_def)
qed

lemma in_ports_range: "0 < lo \<Longrightarrow> 0 < hi \<Longrightarrow> in_ports (Itoa lo @ '':'' @ Itoa hi) port \<longleftrightarrow> lo \<le> port \<and> port \<le> hi"
proof -
  assume n: "0 < lo" "0 < hi"
  have no: "CHR '':'' \<notin> set (dec (nat lo))" using dec_digits [of "CHR '':''" "nat lo"] by (auto simp: is_digit_def)
  have "dropWhile (\<lambda>x. x \<noteq> CHR '':'') (dec (nat lo) @ CHR '':'' # ys) = CHR '':'' # ys"
    "takeWhile (\<lambda>x. x \<noteq> CHR '':'') (dec (nat lo) @ CHR '':'' # ys) = dec (nat lo)" for ys
    using no by (subst dropWhile_append2 takeWhile_append2, auto)+
  with n show ?thesis by (simp add: in_ports_def Itoa_def Cut_def Let_def)
qed

lemma acl_port_in:
  assumes "1 \<le> pa_PortMin r" "pa_PortMin r \<le> pa_PortMax r"
  shows "in_ports (acl_port r) port \<longleftrightarrow> pa_PortMin r \<le> port \<and> port \<le> pa_PortMax r"
  using assms in_ports_single [of "pa_PortMin r" port] in_ports_range [of "pa_PortMin r" "pa_PortMax r" port]
  by (auto simp: acl_port_def)

subsection \<open>From the rules of the server to the packets of a host\<close>

text \<open>
  What a row of \<open>acl_rules\<close> means: each named end is the overlay address, in the family of the
  packet, of a peer that is not revoked; the service is the protocol and, where the row has
  them, the destination ports. The ports of a row for any protocol mean nothing to the agent,
  and \<open>service_permits\<close> takes such a row as it is enforced.
\<close>

definition end_permits :: "bool \<Rightarrow> store \<Rightarrow> int option \<Rightarrow> addr \<Rightarrow> bool" where
  "end_permits v6 s v a \<longleftrightarrow>
     (case v of
        None \<Rightarrow> True
      | Some i \<Rightarrow> list_ex (\<lambda>q. p_id q = i \<and> coalesce (p_revoked_at q) [] = [] \<and>
          (if v6 then p_assigned_ip6 q = Some (addr_String a) else p_assigned_ip q = addr_String a)) (peers (st_db s)))"

definition service_permits :: "bool \<Rightarrow> acl_rule \<Rightarrow> packet \<Rightarrow> bool" where
  "service_permits v6 r p \<longleftrightarrow>
     (if r_protocol r = ''icmp'' then \<not> v6 \<and> pk_proto p = ''icmp''
      else if r_protocol r = ''icmpv6'' then v6 \<and> pk_proto p = ''ipv6-icmp''
      else r_protocol r = ''any'' \<or> pk_proto p = r_protocol r) \<and>
     (r_protocol r = ''any'' \<or>
      (case (r_port_min r, r_port_max r) of (Some lo, Some hi) \<Rightarrow> lo \<le> pk_dport p \<and> pk_dport p \<le> hi | _ \<Rightarrow> True))"

definition row_permits :: "bool \<Rightarrow> store \<Rightarrow> packet \<Rightarrow> acl_rule \<Rightarrow> bool" where
  "row_permits v6 s p r \<longleftrightarrow>
     end_permits v6 s (r_src_peer_id r) (pk_src p) \<and> end_permits v6 s (r_dst_peer_id r) (pk_dst p) \<and> service_permits v6 r p"

lemma policy_end_peer:
  assumes "policy_end s (Some i) = Some (t, t6)"
  obtains q where "q \<in> set (peers (st_db s))" "p_id q = i" "coalesce (p_revoked_at q) [] = []"
    "t = p_assigned_ip q" "t6 = coalesce (p_assigned_ip6 q) []"
proof -
  obtain pi where "active_by_id s i = Some pi" "t = pi_AssignedIP pi" "t6 = pi_AssignedIP6 pi"
    using assms by (auto simp: policy_end_def)
  moreover have "pi \<in> set (ListPeers s) \<and> pi_RevokedAt pi = [] \<and> pi_ID pi = i"
    using calculation(1) find_Some_mem unfolding active_by_id_def by fastforce
  then obtain q where "q \<in> set (peers (st_db s))" "pi = scan_info q" "pi_RevokedAt pi = []" "pi_ID pi = i"
    by (auto simp: ListPeers_def)
  ultimately show thesis by (intro that [of q]) (simp_all add: scan_info_def)
qed

lemma policy_end_cases:
  assumes "store_inv s" "addr_IsValid a"
  shows "policy_end s v = None \<Longrightarrow> \<not> end_permits v6 s v a"
    and "policy_end s v = Some (t, t6) \<Longrightarrow> end_permits v6 s v a \<longleftrightarrow>
      (t = [] \<and> t6 = [] \<or> (if v6 then t6 \<noteq> [] \<and> in_net t6 a else t \<noteq> [] \<and> in_net t a))"
    and "policy_end s v = Some (t, t6) \<Longrightarrow> t = [] \<Longrightarrow> t6 = []"
proof -
  have rows: "distinct (map p_id (peers (st_db s)))"
    and host: "\<And>q. q \<in> set (peers (st_db s)) \<Longrightarrow> host_text (st_network s) (p_assigned_ip q)"
      "\<And>q x. q \<in> set (peers (st_db s)) \<Longrightarrow> p_assigned_ip6 q = Some x \<Longrightarrow> host_text (Network6 s) x"
    using assms(1) by (fastforce simp: store_inv_def db_inv_def rowids_distinct addrs_inv_def list_all_iff)+
  show "policy_end s v = None \<Longrightarrow> \<not> end_permits v6 s v a"
    by (auto simp: policy_end_def end_permits_def active_by_id_def ListPeers_def find_None_iff scan_info_def list_ex_iff
        split: option.splits)
  show "t = [] \<Longrightarrow> t6 = []" if "policy_end s v = Some (t, t6)"
  proof (cases v)
    case (Some i)
    with that show "t = [] \<Longrightarrow> t6 = []" using policy_end_peer [of s i t t6] host(1) host_text_ne by metis
  qed (use that in \<open>simp add: policy_end_def\<close>)
  show "end_permits v6 s v a \<longleftrightarrow>
      (t = [] \<and> t6 = [] \<or> (if v6 then t6 \<noteq> [] \<and> in_net t6 a else t \<noteq> [] \<and> in_net t a))"
    if e: "policy_end s v = Some (t, t6)"
  proof (cases v)
    case None
    with e show ?thesis by (simp add: policy_end_def end_permits_def)
  next
    case (Some i)
    with e obtain q where q: "q \<in> set (peers (st_db s))" "p_id q = i" "coalesce (p_revoked_at q) [] = []"
      "t = p_assigned_ip q" "t6 = coalesce (p_assigned_ip6 q) []" using policy_end_peer by blast
    have uniq: "q' = q" if "q' \<in> set (peers (st_db s))" "p_id q' = i" for q'
      using distinct_map_eqD [OF rows that(1) q(1)] that(2) q(2) by simp
    let ?here = "\<lambda>q. if v6 then p_assigned_ip6 q = Some (addr_String a) else p_assigned_ip q = addr_String a"
    have "end_permits v6 s v a \<longleftrightarrow>
        (\<exists>q' \<in> set (peers (st_db s)). p_id q' = i \<and> coalesce (p_revoked_at q') [] = [] \<and> ?here q')"
      by (simp add: end_permits_def list_ex_iff Some)
    also have "\<dots> \<longleftrightarrow> ?here q" using q(1-3) uniq by blast
    finally have "end_permits v6 s v a \<longleftrightarrow> ?here q" .
    moreover have "p_assigned_ip6 q = Some (addr_String a) \<longleftrightarrow> t6 \<noteq> [] \<and> in_net t6 a"
    proof (cases "p_assigned_ip6 q")
      case (Some x)
      with in_net_host [OF host(2) [OF q(1) Some] assms(2)] host_text_ne [OF host(2) [OF q(1) Some]] q(5)
      show ?thesis by simp
    qed (use q(5) in simp)
    moreover have "p_assigned_ip q = addr_String a \<longleftrightarrow> in_net t a" "t \<noteq> []"
      using in_net_host [OF host(1) [OF q(1)] assms(2)] host_text_ne [OF host(1) [OF q(1)]] q(4) by simp_all
    ultimately show ?thesis by simp
  qed
qed

lemma plain_protocol:
  assumes "pr \<in> set [''any'', ''tcp'', ''udp'', ''icmp'', ''icmpv6'']"
  shows "ToLower (TrimSpace pr) = pr" "pr \<noteq> []"
proof -
  have "list_all (\<lambda>pr. ToLower (TrimSpace pr) = pr \<and> pr \<noteq> []) [''any'', ''tcp'', ''udp'', ''icmp'', ''icmpv6'']" by code_simp
  with assms show "ToLower (TrimSpace pr) = pr" "pr \<noteq> []" unfolding list_all_iff by blast+
qed

lemma acl_protoName_plain:
  assumes "pa_Protocol x \<in> set [''any'', ''tcp'', ''udp'', ''icmp'', ''icmpv6'']"
  shows "acl_protoName x v6 =
    (if pa_Protocol x = ''icmp'' then if v6 then None else Some ''icmp''
     else if pa_Protocol x = ''icmpv6'' then if v6 then Some ''ipv6-icmp'' else None
     else Some (pa_Protocol x))"
  using assms plain_protocol [OF assms] by (auto simp: acl_protoName_def)

lemma acl_ends_permit:
  assumes "store_inv s" "addr_IsValid (pk_src p)" "addr_IsValid (pk_dst p)"
    and "policy_end s u = Some (pa_SrcIP x, pa_SrcIP6 x)" "policy_end s v = Some (pa_DstIP x, pa_DstIP6 x)"
  shows "end_permits v6 s u (pk_src p) \<and> end_permits v6 s v (pk_dst p) \<longleftrightarrow>
    (case acl_ends x v6 of
       None \<Rightarrow> False
     | Some (src, dst) \<Rightarrow> (src = [] \<or> in_net src (pk_src p)) \<and> (dst = [] \<or> in_net dst (pk_dst p)))"
  using policy_end_cases(2,3) [OF assms(1,2,4)] policy_end_cases(2,3) [OF assms(1,3,5)]
  by (cases v6) (auto simp: acl_ends_def)

lemma service_words:
  assumes "service_ok (r_protocol r) (r_port_min r) (r_port_max r)"
    and "pa_Protocol x = r_protocol r" "pa_PortMin x = coalesce (r_port_min r) 0" "pa_PortMax x = coalesce (r_port_max r) 0"
  shows "service_permits v6 r p \<longleftrightarrow>
    (case acl_protoName x v6 of
       None \<Rightarrow> False
     | Some pn \<Rightarrow> (pn = ''any'' \<or> pk_proto p = pn) \<and>
         (pn \<in> set [''tcp'', ''udp''] \<and> 0 < pa_PortMin x \<longrightarrow> in_ports (acl_port x) (pk_dport p)))"
proof -
  have five: "r_protocol r \<in> set [''any'', ''tcp'', ''udp'', ''icmp'', ''icmpv6'']" using assms(1) by (simp add: service_ok_def)
  then have pn: "acl_protoName x v6 =
      (if r_protocol r = ''icmp'' then if v6 then None else Some ''icmp''
       else if r_protocol r = ''icmpv6'' then if v6 then Some ''ipv6-icmp'' else None else Some (r_protocol r))"
    using acl_protoName_plain [of x v6] assms(2) by simp
  consider "r_port_min r = None" "r_port_max r = None"
    | lo hi where "r_port_min r = Some lo" "r_port_max r = Some hi" "r_protocol r \<notin> set [''icmp'', ''icmpv6'']" "1 \<le> lo" "lo \<le> hi"
    using assms(1) unfolding service_ok_def by (cases "r_port_min r"; cases "r_port_max r") simp_all
  then show ?thesis
  proof cases
    case 1
    with pn assms(3) show ?thesis by (simp add: service_permits_def)
  next
    case (2 lo hi)
    then consider "r_protocol r = ''any''" | "r_protocol r \<in> set [''tcp'', ''udp'']" using five by auto
    moreover have "in_ports (acl_port x) (pk_dport p) \<longleftrightarrow> lo \<le> pk_dport p \<and> pk_dport p \<le> hi"
      using 2 assms(3,4) acl_port_in [of x] by simp
    ultimately show ?thesis
      using 2 pn assms(3) by cases (auto simp: service_permits_def)
  qed
qed

lemma words_permit_skipped: "acl_protoName r v6 = None \<or> acl_ends r v6 = None \<Longrightarrow> \<not> words_permit r v6 p"
  by (cases "acl_protoName r v6"; cases "acl_ends r v6"; simp add: words_permit_def aclRuleArgs_def)

lemma policy_rule_permits:
  assumes "store_inv s" "r \<in> set (acl_rules (st_db s))" "addr_IsValid (pk_src p)" "addr_IsValid (pk_dst p)"
  shows "(\<exists>x \<in> set (policy_rule s (scan_rule (st_db s) r)). words_permit x v6 p) \<longleftrightarrow> row_permits v6 s p r"
proof -
  have ok: "service_ok (r_protocol r) (r_port_min r) (r_port_max r)"
    using assms(1,2) by (auto simp: store_inv_def db_inv_def refs_inv_def Let_def list_all_iff acl_rule_ok_def)
  show ?thesis
  proof (cases "policy_end s (r_src_peer_id r) = None \<or> policy_end s (r_dst_peer_id r) = None")
    case True
    then have "policy_rule s (scan_rule (st_db s) r) = []" by (auto simp: policy_rule_def scan_rule_def split: option.splits)
    moreover have "\<not> row_permits v6 s p r"
      using True policy_end_cases(1) [OF assms(1)] assms(3,4) by (auto simp: row_permits_def)
    ultimately show ?thesis by simp
  next
    case False
    then obtain a a6 b b6 where e: "policy_end s (r_src_peer_id r) = Some (a, a6)" "policy_end s (r_dst_peer_id r) = Some (b, b6)"
      by auto
    let ?x = "\<lparr>pa_SrcIP = a, pa_SrcIP6 = a6, pa_DstIP = b, pa_DstIP6 = b6, pa_Protocol = r_protocol r,
            pa_PortMin = coalesce (r_port_min r) 0, pa_PortMax = coalesce (r_port_max r) 0\<rparr>"
    have x: "policy_rule s (scan_rule (st_db s) r) = [?x]" using e by (simp add: policy_rule_def scan_rule_def)
    have ends: "end_permits v6 s (r_src_peer_id r) (pk_src p) \<and> end_permits v6 s (r_dst_peer_id r) (pk_dst p) \<longleftrightarrow>
      (case acl_ends ?x v6 of None \<Rightarrow> False
       | Some (src, dst) \<Rightarrow> (src = [] \<or> in_net src (pk_src p)) \<and> (dst = [] \<or> in_net dst (pk_dst p)))"
      by (rule acl_ends_permit [OF assms(1,3,4)]) (simp_all add: e)
    have serv: "service_permits v6 r p \<longleftrightarrow>
      (case acl_protoName ?x v6 of None \<Rightarrow> False
       | Some pn \<Rightarrow> (pn = ''any'' \<or> pk_proto p = pn) \<and>
         (pn \<in> set [''tcp'', ''udp''] \<and> 0 < pa_PortMin ?x \<longrightarrow> in_ports (acl_port ?x) (pk_dport p)))"
      by (rule service_words [OF ok]) simp_all
    have "words_permit ?x v6 p \<longleftrightarrow> row_permits v6 s p r"
    proof (cases "acl_protoName ?x v6 = None \<or> acl_ends ?x v6 = None")
      case True
      then have "\<not> words_permit ?x v6 p" by (rule words_permit_skipped)
      moreover have "\<not> (end_permits v6 s (r_src_peer_id r) (pk_src p) \<and> end_permits v6 s (r_dst_peer_id r) (pk_dst p)) \<or>
          \<not> service_permits v6 r p" using True unfolding ends serv by (elim disjE) simp_all
      then have "\<not> row_permits v6 s p r" unfolding row_permits_def by blast
      ultimately show ?thesis by blast
    next
      case False
      then obtain q src dst where f: "acl_protoName ?x v6 = Some q" "acl_ends ?x v6 = Some (src, dst)" by auto
      then show ?thesis
        unfolding row_permits_def conj_assoc [symmetric] ends serv words_permit_iff [OF f] f option.case prod.case by blast
    qed
    then show ?thesis by (simp add: x)
  qed
qed

lemma policy_permits:
  assumes "store_inv (sv_store sv)" "\<not> DefaultAllow (sv_store sv)" "addr_IsValid (pk_src p)" "addr_IsValid (pk_dst p)"
  shows "(\<exists>x \<in> set (ap_Rules (buildACLPolicy sv)). words_permit x v6 p) \<longleftrightarrow>
    list_ex (row_permits v6 (sv_store sv) p) (acl_rules (st_db (sv_store sv)))"
proof -
  let ?s = "sv_store sv"
  have "(\<exists>x \<in> set (ap_Rules (buildACLPolicy sv)). words_permit x v6 p) \<longleftrightarrow>
      (\<exists>r \<in> set (acl_rules (st_db ?s)). \<exists>x \<in> set (policy_rule ?s (scan_rule (st_db ?s) r)). words_permit x v6 p)"
    using assms(2) by (simp add: buildACLPolicy_def ListACLRules_def)
  also have "\<dots> \<longleftrightarrow> (\<exists>r \<in> set (acl_rules (st_db ?s)). row_permits v6 ?s p r)"
    using policy_rule_permits [OF assms(1) _ assms(3,4)] by auto
  finally show ?thesis by (simp add: list_ex_iff)
qed

text \<open>
  C6: The firewall is the rule table. After a sync of a default-deny mesh the agent has, in
  both address families, its three chains entered from INPUT, OUTPUT and FORWARD of the
  overlay interface, whatever the tables held before; and a packet that opens a connection
  passes each of them exactly when some stored rule permits it: its source and its destination are
  the overlay addresses of the rule's source and destination, peers that are not revoked, and its protocol
  and destination port are the rule's. A rule for any protocol permits every port, whatever
  ports it was given; the next property is about that.
\<close>

theorem acl_enforced:
  assumes "\<And>tool args T. exec tool args T = iptables tool args T"
    and "store_inv (sv_store sv)" "\<not> DefaultAllow (sv_store sv)"
    and "base_chains ''iptables'' T" "base_chains ''ip6tables'' T"
    and "addr_IsValid (pk_src p)" "addr_IsValid (pk_dst p)" "\<not> pk_tracked p" "c \<in> set acl_chains"
  shows "\<exists>T'. applyOverlayACL exec iface (Some (buildACLPolicy sv)) T = Some (True, T') \<and>
    acl_installed ''iptables'' iface (ap_Rules (buildACLPolicy sv)) False T' \<and>
    acl_installed ''ip6tables'' iface (ap_Rules (buildACLPolicy sv)) True T' \<and>
    filter_verdict ''iptables'' c T' p =
      Some (if list_ex (row_permits False (sv_store sv) p) (acl_rules (st_db (sv_store sv))) then Accept else Drop) \<and>
    filter_verdict ''ip6tables'' c T' p =
      Some (if list_ex (row_permits True (sv_store sv) p) (acl_rules (st_db (sv_store sv))) then Accept else Drop)"
proof -
  let ?pol = "buildACLPolicy sv"
  have exec: "exec = iptables" using assms(1) by (intro ext) simp
  have deny: "ap_DefaultPolicy ?pol = ''deny''" using assms(3) by (simp add: buildACLPolicy_def)
  obtain T1 where T1: "applyOverlayACLFamily iptables ''iptables'' iface (ap_Rules ?pol) False T = Some (True, T1)"
    "acl_installed ''iptables'' iface (ap_Rules ?pol) False T1" "\<forall>b t c. b \<noteq> ''iptables'' \<longrightarrow> chain b t c T1 = chain b t c T"
    using applyOverlayACLFamily_installs [OF assms(4)] by blast
  have "base_chains ''ip6tables'' T1" using assms(5) T1(3) by (simp add: base_chains_def)
  then obtain T2 where T2: "applyOverlayACLFamily iptables ''ip6tables'' iface (ap_Rules ?pol) True T1 = Some (True, T2)"
    "acl_installed ''ip6tables'' iface (ap_Rules ?pol) True T2" "\<forall>b t c. b \<noteq> ''ip6tables'' \<longrightarrow> chain b t c T2 = chain b t c T1"
    using applyOverlayACLFamily_installs by blast
  have v4: "acl_installed ''iptables'' iface (ap_Rules ?pol) False T2" using T1(2) T2(3) by (simp add: acl_installed_def)
  have "applyOverlayACL exec iface (Some ?pol) T = Some (True, T2)"
    using T1(1) T2(1) deny by (simp add: applyOverlayACL_def exec thenA_def okA_simp)
  then show ?thesis
    using v4 T2(2) filter_verdict_installed [OF v4 assms(9,8)] filter_verdict_installed [OF T2(2) assms(9,8)]
      policy_permits [OF assms(2,3,6,7)] by (intro exI [of _ T2]) simp
qed

text \<open>
  C35: A rule for any protocol loses its ports. The server accepts such a rule with a range of
  ports and keeps it, but the words the agent gives iptables are those of the rule without
  ports, so every port of every protocol is opened between its ends.
\<close>

theorem any_protocol_ignores_ports:
  assumes "1 \<le> lo" "lo \<le> hi" "hi \<le> 65535"
  shows "normalizeACLService ''any'' (Some lo) (Some hi) = Inr (''any'', Some lo, Some hi) \<and>
    aclRuleArgs (x\<lparr>pa_Protocol := ''any'', pa_PortMin := lo, pa_PortMax := hi\<rparr>) v6 =
      aclRuleArgs (x\<lparr>pa_Protocol := ''any'', pa_PortMin := 0, pa_PortMax := 0\<rparr>) v6"
proof -
  have "acl_protoName (x\<lparr>pa_Protocol := ''any'', pa_PortMin := a, pa_PortMax := b\<rparr>) v6 = Some ''any''" for a b
    by (subst acl_protoName_plain) simp_all
  moreover have "acl_ends (x\<lparr>pa_Protocol := ''any'', pa_PortMin := a, pa_PortMax := b\<rparr>) v6 = acl_ends x v6" for a b
    by (simp add: acl_ends_def)
  ultimately show ?thesis
    using assms plain_protocol [of "''any''"] by (simp add: aclRuleArgs_def normalizeACLService_def)
qed

subsection \<open>A run that fails\<close>

text \<open>iptables on a host where no rule can be appended, for want of a match module for instance.\<close>

definition no_append :: "tables runner" where
  "no_append tool args T = (if take 1 args = [''-A''] then (False, T) else iptables tool args T)"

lemma no_append_other: "take 1 args \<noteq> [''-A''] \<Longrightarrow> cmdA no_append tool args = cmdA iptables tool args"
  by (rule ext) (simp add: cmdA_def no_append_def)

lemma no_append_jump: "ensureJump no_append = ensureJump iptables"
  by (intro ext) (simp add: ensureJump_def no_append_other)

lemma no_append_prepare: "acl_prepare no_append = acl_prepare iptables"
  by (intro ext) (simp add: acl_prepare_def no_append_other no_append_jump)

text \<open>
  C36: The default-deny policy fails open. A run empties the three chains before it fills
  them again, and a run that stops half way leaves them as they are: on a host where no rule
  can be appended, the run reports its error and afterwards the policy's chains decide nothing,
  so that every packet is left to the rest of the tables, whatever the chains did before.
\<close>

theorem policy_fails_open:
  assumes "base_chains ''iptables'' T" "ap_DefaultPolicy pol = ''deny''" "c \<in> set acl_chains"
  shows "\<exists>T'. applyOverlayACL no_append iface (Some pol) T = Some (False, T') \<and> filter_verdict ''iptables'' c T' p = None"
proof -
  obtain T' where T': "acl_prepare iptables ''iptables'' iface T = Some (True, T')"
    "\<forall>c \<in> set acl_chains. chain ''iptables'' ''filter'' c T' = Some []" using acl_prepared [OF assms(1)] by blast
  obtain x xs where "acl_appends (ap_Rules pol) False = x # xs" by (simp add: acl_appends_def acl_chains_def)
  then have "applyOverlayACLFamily no_append ''iptables'' iface (ap_Rules pol) False T = Some (False, T')"
    using T'(1) by (simp add: applyOverlayACLFamily_def no_append_prepare thenA_def append_cmd_def cmdA_def no_append_def)
  then have "applyOverlayACL no_append iface (Some pol) T = Some (False, T')"
    using assms(2) by (simp add: applyOverlayACL_def thenA_def)
  moreover have "filter_verdict ''iptables'' c T' p = None" using T'(2) assms(3) by (simp add: filter_verdict_def)
  ultimately show ?thesis by blast
qed

definition demo_tables :: tables where
  "demo_tables = [((b, ''filter'', c), []). b \<leftarrow> [''iptables'', ''ip6tables''], c \<leftarrow> [''INPUT'', ''OUTPUT'', ''FORWARD'']]"

definition demo_packet :: packet where
  "demo_packet = \<lparr>pk_in = ''wg-int'', pk_out = [], pk_src = V4 1681915905, pk_dst = V4 1681915906, pk_proto = ''tcp'',
     pk_dport = 443, pk_tracked = False, pk_syn = True\<rparr>"

theorem acl_enforced_witness:
  "\<exists>T'. applyOverlayACL iptables ''wg-int'' (Some (buildACLPolicy demo_server)) demo_tables = Some (True, T') \<and>
     filter_verdict ''iptables'' aclInChain T' demo_packet = Some Accept \<and>
     filter_verdict ''ip6tables'' aclInChain T' demo_packet = Some Drop"
proof -
  have s: "sv_store demo_server = demo_store2" by (simp add: demo_server_def)
  have h: "\<not> DefaultAllow demo_store2"
    "base_chains ''iptables'' demo_tables" "base_chains ''ip6tables'' demo_tables"
    "addr_IsValid (pk_src demo_packet)" "addr_IsValid (pk_dst demo_packet)" "\<not> pk_tracked demo_packet"
    "aclInChain \<in> set acl_chains" by code_simp+
  have v: "list_ex (row_permits False demo_store2 demo_packet) (acl_rules (st_db demo_store2))"
    "\<not> list_ex (row_permits True demo_store2 demo_packet) (acl_rules (st_db demo_store2))" by code_simp+
  show ?thesis
    using acl_enforced [of iptables demo_server demo_tables demo_packet aclInChain "''wg-int''", OF refl] h v demo_store2_inv
    unfolding s by auto
qed

theorem any_protocol_ignores_ports_witness:
  "aclRuleArgs \<lparr>pa_SrcIP = ''100.64.0.1'', pa_SrcIP6 = [], pa_DstIP = ''100.64.0.2'', pa_DstIP6 = [], pa_Protocol = ''any'',
      pa_PortMin = 22, pa_PortMax = 22\<rparr> False = Some [''-s'', ''100.64.0.1'', ''-d'', ''100.64.0.2'', ''-j'', ''ACCEPT'']"
proof -
  let ?x = "\<lparr>pa_SrcIP = ''100.64.0.1'', pa_SrcIP6 = [], pa_DstIP = ''100.64.0.2'', pa_DstIP6 = [], pa_Protocol = ''any'',
      pa_PortMin = 22, pa_PortMax = 22\<rparr>"
  have "aclRuleArgs (?x\<lparr>pa_Protocol := ''any'', pa_PortMin := 0, pa_PortMax := 0\<rparr>) False =
      Some [''-s'', ''100.64.0.1'', ''-d'', ''100.64.0.2'', ''-j'', ''ACCEPT'']" by code_simp
  with any_protocol_ignores_ports [of 22 22 ?x False] show ?thesis by simp
qed

theorem policy_fails_open_witness:
  "\<exists>T'. applyOverlayACL no_append ''wg-int'' (Some (buildACLPolicy demo_server)) demo_tables = Some (False, T') \<and>
     filter_verdict ''iptables'' aclInChain T' demo_packet = None"
proof -
  have "base_chains ''iptables'' demo_tables" "ap_DefaultPolicy (buildACLPolicy demo_server) = ''deny''"
    "aclInChain \<in> set acl_chains" by code_simp+
  from policy_fails_open [OF this] show ?thesis by blast
qed

end
