(* ===== verification/Gateway.thy ===== *)
theory Gateway
  imports AclFilter WgDevice
begin

text \<open>
  What else the agent does to the tables of its host: the forwarding rules of a gateway
  (\<open>cmd/agent/gateway_linux.go\<close>), both roles of an exit node (\<open>exitnode_linux.go\<close>) and the
  MSS clamp (\<open>mss_linux.go\<close>). The host is a record of the calls the code makes: running a
  tool, reading its output, reading and writing a sysctl file, and netlink.
\<close>

subsection \<open>The host\<close>

record nlRule =
  ru_family :: nat
  ru_priority :: nat
  ru_table :: nat
  ru_mark :: nat
  ru_invert :: bool
  ru_suppress :: "nat option"

record nlRoute =
  ro_family :: nat
  ro_link :: int
  ro_table :: nat
  ro_dst :: prefix
  ro_scopeLink :: bool

datatype nl_result = NlOk | NlExist | NlNotExist | NlError

record 'h host =
  h_exec :: "'h runner"
  h_list :: "string \<Rightarrow> string list \<Rightarrow> 'h \<Rightarrow> string option"
  h_read :: "string \<Rightarrow> 'h \<Rightarrow> string option"
  h_write :: "string \<Rightarrow> string \<Rightarrow> 'h \<Rightarrow> bool \<times> 'h"
  h_link :: "string \<Rightarrow> 'h \<Rightarrow> int option"
  h_routeReplace :: "nlRoute \<Rightarrow> 'h \<Rightarrow> bool \<times> 'h"
  h_ruleAdd :: "nlRule \<Rightarrow> 'h \<Rightarrow> nl_result \<times> 'h"
  h_ruleDel :: "nlRule \<Rightarrow> 'h \<Rightarrow> nl_result \<times> 'h"
  h_routes :: "nat \<Rightarrow> nat \<Rightarrow> 'h \<Rightarrow> nlRoute list option"
  h_routeDel :: "nlRoute \<Rightarrow> 'h \<Rightarrow> bool \<times> 'h"

text \<open>\<open>strings.Contains\<close> and \<open>strings.Fields\<close>.\<close>

definition StrContains :: "string \<Rightarrow> string \<Rightarrow> bool" where
  "StrContains s sub = list_ex (\<lambda>i. HasPrefix (drop i s) sub) [0..<Suc (length s)]"

function fields_from :: "string \<Rightarrow> string \<Rightarrow> string list" where
  "fields_from cur s =
     (let word = (if cur = [] then [] else [cur])
      in case s of
           [] \<Rightarrow> word
         | c # rest \<Rightarrow>
             (case List.find (\<lambda>w. w \<noteq> [] \<and> take (length w) s = w) space_codes of
                None \<Rightarrow> fields_from (cur @ [c]) rest
              | Some w \<Rightarrow> word @ fields_from [] (drop (length w) s)))"
  by pat_completeness auto
termination
proof (relation "measure (\<lambda>(_, s). length s)", goal_cases)
  case (3 cur s word c rest w)
  then have "w \<noteq> []" by (auto dest: find_Some_mem)
  with 3 show ?case by (cases w) auto
qed auto

declare fields_from.simps [simp del]

definition Fields :: "string \<Rightarrow> string list" where
  "Fields s = fields_from [] s"

subsection \<open>Rules, ensured and deleted\<close>

text \<open>A rule of another table than the filter table starts with \<open>-t\<close> and the table.\<close>

definition rule_cmd :: "string \<Rightarrow> rule \<Rightarrow> string list" where
  "rule_cmd verb rule =
     (if take 1 rule = [''-t''] then [''-t'', rule ! 1, verb] @ drop 2 rule else verb # rule)"

definition ensureTablesRule :: "'h runner \<Rightarrow> string \<Rightarrow> rule \<Rightarrow> 'h act" where
  "ensureTablesRule exec bin rule =
     orA (cmdA exec bin (rule_cmd ''-C'' rule)) (cmdA exec bin (rule_cmd ''-I'' rule))"

definition ensureIPTablesRule :: "'h runner \<Rightarrow> rule \<Rightarrow> 'h act" where
  "ensureIPTablesRule exec rule =
     orA (cmdA exec ''iptables'' (rule_cmd ''-C'' rule)) (cmdA exec ''iptables'' (rule_cmd ''-I'' rule))"

text \<open>The loop deletes until a deletion fails; nothing in it bounds the number of rounds.\<close>

partial_function (option) deleteTablesRule :: "'h runner \<Rightarrow> string \<Rightarrow> rule \<Rightarrow> 'h act" where
  "deleteTablesRule exec bin rule h =
     (let r = exec bin (rule_cmd ''-D'' rule) h
      in if fst r then deleteTablesRule exec bin rule (snd r) else Some (True, snd r))"

definition deleteIPTablesRule :: "'h runner \<Rightarrow> rule \<Rightarrow> 'h act" where
  "deleteIPTablesRule exec rule = deleteTablesRule exec ''iptables'' rule"

subsection \<open>Gateway\<close>

definition gatewayRuleComment :: string where "gatewayRuleComment = ''wgmesh-gateway''"

definition ensureForwarding :: "'h host \<Rightarrow> string \<Rightarrow> 'h act" where
  "ensureForwarding H path h =
     (case h_read H path h of
        Some current \<Rightarrow> if TrimSpace current = ''1'' then Some (True, h) else Some (h_write H path (''1'' @ [byte 10]) h)
      | None \<Rightarrow> Some (h_write H path (''1'' @ [byte 10]) h))"

definition ip_forward :: string where "ip_forward = ''/proc/sys/net/ipv4/ip_forward''"
definition ip6_forward :: string where "ip6_forward = ''/proc/sys/net/ipv6/conf/all/forwarding''"

definition gatewayForwardRules :: "string \<Rightarrow> rule list" where
  "gatewayForwardRules iface =
     [[''FORWARD'', ''-i'', iface, ''-m'', ''comment'', ''--comment'', gatewayRuleComment, ''-j'', ''ACCEPT''],
      [''FORWARD'', ''-o'', iface, ''-m'', ''comment'', ''--comment'', gatewayRuleComment, ''-j'', ''ACCEPT'']]"

definition gatewayNATRule :: "string \<Rightarrow> prefix \<Rightarrow> rule" where
  "gatewayNATRule iface cidr =
     [''-t'', ''nat'', ''POSTROUTING'', ''-s'', prefix_String cidr, ''-o'', iface, ''-m'', ''comment'', ''--comment'',
      gatewayRuleComment, ''-j'', ''MASQUERADE'']"

definition parse_nat_part :: "string \<Rightarrow> agent_error + prefix" where
  "parse_nat_part part =
     (case ParsePrefix part of
        Some p \<Rightarrow> if Is4 (prefix_Addr (Masked p)) then Inr (Masked p) else Inl (AgentErr ''gateway NAT only supports IPv4'')
      | None \<Rightarrow>
          (case ParseAddr part of
             None \<Rightarrow> Inl (AgentErr ''parse gateway NAT CIDR'')
           | Some a \<Rightarrow>
               if \<not> Is4 a then Inl (AgentErr ''gateway NAT only supports IPv4'') else Inr (Masked (Prefix a 32))))"

definition add_nat_part :: "string \<Rightarrow> prefix list \<Rightarrow> agent_error + prefix list" where
  "add_nat_part raw out =
     (let part = TrimSpace raw
      in if part = [] then Inr out
         else bindE (parse_nat_part part) (\<lambda>p.
           Inr (if prefix_String p \<in> set (map prefix_String out) then out else out @ [p])))"

definition parseGatewayNATCIDRs :: "string \<Rightarrow> agent_error + prefix list" where
  "parseGatewayNATCIDRs raw =
     (let raw = TrimSpace raw in if raw = [] then Inr [] else foldE add_nat_part (split_on CHR '','' raw) [])"

definition ensureGatewayNATRules :: "'h runner \<Rightarrow> string \<Rightarrow> prefix list \<Rightarrow> 'h act" where
  "ensureGatewayNATRules exec iface cidrs =
     seqA (map (ensureIPTablesRule exec) (gatewayForwardRules iface) @
           map (\<lambda>cidr. ensureIPTablesRule exec (gatewayNATRule iface cidr)) cidrs)"

definition refreshGatewayNAT :: "'h runner \<Rightarrow> string \<Rightarrow> string \<Rightarrow> 'h act" where
  "refreshGatewayNAT exec iface rawCIDRs h =
     (case parseGatewayNATCIDRs rawCIDRs of
        Inl _ \<Rightarrow> Some (False, h)
      | Inr cidrs \<Rightarrow> if cidrs = [] then Some (True, h) else ensureGatewayNATRules exec iface cidrs h)"

text \<open>
  \<open>enableGatewayNAT\<close> also returns the function that undoes it; \<open>disableGatewayNAT\<close> is that
  function.
\<close>

definition enableGatewayNAT :: "'h host \<Rightarrow> string \<Rightarrow> string \<Rightarrow> 'h act" where
  "enableGatewayNAT H iface rawCIDRs h =
     (case parseGatewayNATCIDRs rawCIDRs of
        Inl _ \<Rightarrow> Some (False, h)
      | Inr cidrs \<Rightarrow>
          if cidrs = [] then Some (True, h)
          else thenA (tryA (ensureForwarding H ip_forward)) (ensureGatewayNATRules (h_exec H) iface cidrs) h)"

definition disableGatewayNAT :: "'h runner \<Rightarrow> string \<Rightarrow> prefix list \<Rightarrow> 'h act" where
  "disableGatewayNAT exec iface cidrs =
     seqA (map (\<lambda>cidr. deleteIPTablesRule exec (gatewayNATRule iface cidr)) cidrs @
           map (deleteIPTablesRule exec) (gatewayForwardRules iface))"

definition gatewayNeedsIPv6 :: "string list \<Rightarrow> bool" where
  "gatewayNeedsIPv6 routes = list_ex (\<lambda>r. StrContains r '':'') routes"

text \<open>The operations that keep a flag behind a pointer act on the host and the flag.\<close>

definition onHost :: "'h act \<Rightarrow> ('h \<times> bool) act" where
  "onHost f x = map_option (\<lambda>(ok, h). (ok, (h, snd x))) (f (fst x))"

definition setFlag :: "bool \<Rightarrow> ('h \<times> bool) act" where
  "setFlag b x = Some (True, (fst x, b))"

definition applyGatewayRoutes :: "'h host \<Rightarrow> string \<Rightarrow> string list \<Rightarrow> ('h \<times> bool) act" where
  "applyGatewayRoutes H iface routes x =
     (if routes = [] then
        (if snd x then thenA (onHost (seqA (map (deleteIPTablesRule (h_exec H)) (gatewayForwardRules iface)))) (setFlag False) x
         else Some (True, x))
      else thenA (onHost (seqA ([tryA (ensureForwarding H ip_forward)] @
                   (if gatewayNeedsIPv6 routes then [tryA (ensureForwarding H ip6_forward)] else []) @
                   map (ensureIPTablesRule (h_exec H)) (gatewayForwardRules iface)))) (setFlag True) x)"

subsection \<open>Exit node, client role\<close>

definition exitFwmark :: nat where "exitFwmark = 51821"
definition exitRouteTable :: nat where "exitRouteTable = 51821"
definition exitRulePrefSuppress :: nat where "exitRulePrefSuppress = 32764"
definition exitRulePrefFwmark :: nat where "exitRulePrefFwmark = 32765"

definition FAMILY_V4 :: nat where "FAMILY_V4 = 2"
definition FAMILY_V6 :: nat where "FAMILY_V6 = 10"
definition RT_TABLE_MAIN :: nat where "RT_TABLE_MAIN = 254"

definition exitFamilies :: "bool \<Rightarrow> nat list" where
  "exitFamilies v6 = (if v6 then [FAMILY_V4, FAMILY_V6] else [FAMILY_V4])"

definition exitSuppressRule :: "nat \<Rightarrow> nlRule" where
  "exitSuppressRule family = \<lparr>ru_family = family, ru_priority = exitRulePrefSuppress, ru_table = RT_TABLE_MAIN, ru_mark = 0,
     ru_invert = False, ru_suppress = Some 0\<rparr>"

definition exitFwmarkRule :: "nat \<Rightarrow> nlRule" where
  "exitFwmarkRule family = \<lparr>ru_family = family, ru_priority = exitRulePrefFwmark, ru_table = exitRouteTable, ru_mark = exitFwmark,
     ru_invert = True, ru_suppress = None\<rparr>"

definition exitDefaultRoute :: "nat \<Rightarrow> int \<Rightarrow> nlRoute" where
  "exitDefaultRoute family linkIndex =
     \<lparr>ro_family = family, ro_link = linkIndex, ro_table = exitRouteTable,
      ro_dst = (if family = FAMILY_V4 then Prefix (V4 0) 0 else Prefix (V6 0 []) 0), ro_scopeLink = (family = FAMILY_V4)\<rparr>"

definition add_rule :: "'h host \<Rightarrow> nlRule \<Rightarrow> 'h act" where
  "add_rule H rule h = (case h_ruleAdd H rule h of (r, h') \<Rightarrow> Some (r = NlOk \<or> r = NlExist, h'))"

definition del_rule :: "'h host \<Rightarrow> nlRule \<Rightarrow> 'h act" where
  "del_rule H rule h = Some (True, snd (h_ruleDel H rule h))"

definition del_routes :: "'h host \<Rightarrow> nat \<Rightarrow> 'h act" where
  "del_routes H family h =
     (case h_routes H family exitRouteTable h of
        None \<Rightarrow> Some (True, h)
      | Some routes \<Rightarrow> seqA (map (\<lambda>r. tryA (\<lambda>h. Some (h_routeDel H r h))) routes) h)"

definition teardownExitRoutes :: "'h host \<Rightarrow> 'h act" where
  "teardownExitRoutes H =
     seqA (concat (map (\<lambda>family. [del_rule H (exitFwmarkRule family), del_rule H (exitSuppressRule family), del_routes H family])
       [FAMILY_V4, FAMILY_V6]))"

definition install_family :: "'h host \<Rightarrow> int \<Rightarrow> nat \<Rightarrow> 'h act" where
  "install_family H linkIndex family =
     seqA [\<lambda>h. Some (h_routeReplace H (exitDefaultRoute family linkIndex) h), add_rule H (exitSuppressRule family),
           add_rule H (exitFwmarkRule family)]"

definition applyExitRoutes :: "'h host \<Rightarrow> string \<Rightarrow> bool \<Rightarrow> bool \<Rightarrow> ('h \<times> bool) act" where
  "applyExitRoutes H iface active v6 x =
     (if \<not> active then
        (if snd x then thenA (onHost (teardownExitRoutes H)) (setFlag False) x else Some (True, x))
      else case h_link H iface (fst x) of
             None \<Rightarrow> Some (False, x)
           | Some link \<Rightarrow>
               thenA (onHost (seqA (tryA (ensureForwarding H ''/proc/sys/net/ipv4/conf/all/src_valid_mark'') #
                        map (install_family H link) (exitFamilies v6)))) (setFlag True) x)"

subsection \<open>Exit node, exit role\<close>

definition exitChain :: string where "exitChain = ''WGMESH-EXIT''"
definition exitRuleComment :: string where "exitRuleComment = ''wgmesh-exit''"

definition exitChainRules :: "string \<Rightarrow> string \<Rightarrow> rule list" where
  "exitChainRules iface cidr =
     [[exitChain, ''-i'', iface, ''!'', ''-o'', iface, ''-s'', cidr, ''-j'', ''ACCEPT''],
      [exitChain, ''!'', ''-i'', iface, ''-o'', iface, ''-d'', cidr, ''-m'', ''conntrack'', ''--ctstate'', ''RELATED,ESTABLISHED'',
       ''-j'', ''ACCEPT'']]"

definition exitNATRule :: "string \<Rightarrow> string \<Rightarrow> rule" where
  "exitNATRule iface cidr =
     [''-t'', ''nat'', ''POSTROUTING'', ''-s'', cidr, ''!'', ''-o'', iface, ''-m'', ''comment'', ''--comment'', exitRuleComment,
      ''-j'', ''MASQUERADE'']"

definition first_forward :: "string \<Rightarrow> string" where
  "first_forward out =
     (case List.find (\<lambda>line. HasPrefix line ''-A FORWARD'') (split_on (byte 10) out) of None \<Rightarrow> [] | Some line \<Rightarrow> line)"

definition ensureExitJumpFirst :: "'h host \<Rightarrow> string \<Rightarrow> 'h act" where
  "ensureExitJumpFirst H bin h =
     (case h_list H bin [''-S'', ''FORWARD''] h of
        None \<Rightarrow> Some (False, h)
      | Some out \<Rightarrow>
          if StrContains (first_forward out) exitChain then Some (True, h)
          else thenA (deleteTablesRule (h_exec H) bin [''FORWARD'', ''-j'', exitChain])
                 (cmdA (h_exec H) bin [''-I'', ''FORWARD'', ''1'', ''-j'', exitChain]) h)"

definition ensureExitNATFamily :: "'h host \<Rightarrow> string \<Rightarrow> string \<Rightarrow> prefix \<Rightarrow> 'h act" where
  "ensureExitNATFamily H bin iface overlay =
     (if \<not> prefix_IsValid overlay then okA
      else let cidr = prefix_String (Masked overlay)
           in seqA ([tryA (cmdA (h_exec H) bin [''-N'', exitChain])] @
                    map (ensureTablesRule (h_exec H) bin) (exitChainRules iface cidr) @
                    [ensureExitJumpFirst H bin, ensureTablesRule (h_exec H) bin (exitNATRule iface cidr)]))"

definition delete_line :: "'h host \<Rightarrow> string \<Rightarrow> string \<Rightarrow> 'h act" where
  "delete_line H bin line =
     (if \<not> StrContains line exitRuleComment then okA
      else let args = Fields line
           in if length args < 2 \<or> hd args \<noteq> ''-A'' then okA
              else tryA (cmdA (h_exec H) bin ([''-t'', ''nat'', ''-D''] @ tl args)))"

definition delete_marked :: "'h host \<Rightarrow> string \<Rightarrow> 'h act" where
  "delete_marked H bin h =
     (case h_list H bin [''-t'', ''nat'', ''-S'', ''POSTROUTING''] h of
        None \<Rightarrow> Some (True, h)
      | Some out \<Rightarrow> seqA (map (delete_line H bin) (split_on (byte 10) out)) h)"

definition teardownExitNAT :: "'h host \<Rightarrow> 'h act" where
  "teardownExitNAT H =
     seqA (concat (map (\<lambda>bin. [deleteTablesRule (h_exec H) bin [''FORWARD'', ''-j'', exitChain], delete_marked H bin,
         tryA (cmdA (h_exec H) bin [''-F'', exitChain]), tryA (cmdA (h_exec H) bin [''-X'', exitChain])])
       [''iptables'', ''ip6tables'']))"

definition applyExitNodeNAT :: "'h host \<Rightarrow> string \<Rightarrow> bool \<Rightarrow> prefix \<Rightarrow> prefix \<Rightarrow> ('h \<times> bool) act" where
  "applyExitNodeNAT H iface active net4 net6 x =
     (if \<not> active then
        (if snd x then thenA (onHost (teardownExitNAT H)) (setFlag False) x else Some (True, x))
      else thenA (onHost (seqA ([tryA (ensureForwarding H ip_forward)] @
                   (if prefix_IsValid net6 then [tryA (ensureForwarding H ip6_forward)] else []) @
                   [ensureExitNATFamily H ''iptables'' iface net4] @
                   (if prefix_IsValid net6 then [ensureExitNATFamily H ''ip6tables'' iface net6] else [])))) (setFlag True) x)"

definition cleanupExitState :: "'h host \<Rightarrow> 'h act" where
  "cleanupExitState H = seqA [teardownExitRoutes H, teardownExitNAT H]"

subsection \<open>MSS clamp\<close>

definition mssRuleComment :: string where "mssRuleComment = ''wgmesh-mss''"

definition mssClampRules :: "string \<Rightarrow> rule list" where
  "mssClampRules iface =
     map (\<lambda>c. [''-t'', ''mangle'', c, ''-o'', iface, ''-p'', ''tcp'', ''--tcp-flags'', ''SYN,RST'', ''SYN'', ''-m'', ''comment'',
       ''--comment'', mssRuleComment, ''-j'', ''TCPMSS'', ''--clamp-mss-to-pmtu'']) [''FORWARD'', ''OUTPUT'']"

definition installMSSClamp :: "'h runner \<Rightarrow> string \<Rightarrow> string \<Rightarrow> 'h act" where
  "installMSSClamp exec bin iface =
     seqA (map (\<lambda>rule. orA (cmdA exec bin (rule_cmd ''-C'' rule)) (cmdA exec bin (rule_cmd ''-I'' rule))) (mssClampRules iface))"

definition removeMSSClamp :: "'h runner \<Rightarrow> string \<Rightarrow> string \<Rightarrow> 'h act" where
  "removeMSSClamp exec bin iface = seqA (map (deleteTablesRule exec bin) (mssClampRules iface))"

subsection \<open>Rules on the documented tables\<close>

text \<open>Where the words of a rule put it: its table, its chain, and the words kept there.\<close>

definition rule_ok :: "rule \<Rightarrow> bool" where
  "rule_ok rule \<longleftrightarrow> (if take 1 rule = [''-t''] then 2 < length rule else rule \<noteq> [])"

definition rule_place :: "rule \<Rightarrow> string \<times> string \<times> rule" where
  "rule_place rule =
     (if take 1 rule = [''-t''] then (rule ! 1, rule ! 2, drop 3 rule) else (''filter'', hd rule, tl rule))"

lemma rule_cmd_iptables:
  assumes "rule_ok rule" "rule_place rule = (tab, c, spec)" "verb \<noteq> ''-t''"
  shows "iptables bin (rule_cmd verb rule) T =
    (case table_cmd bin tab (verb # c # spec) T of None \<Rightarrow> (False, T) | Some T' \<Rightarrow> (True, T'))"
proof (cases "take 1 rule = [''-t'']")
  case True
  with assms(1) have "2 < length rule" by (simp add: rule_ok_def)
  then obtain a b d rest where "rule = a # b # d # rest" by (auto simp: numeral_2_eq_2 Suc_le_length_iff less_eq_Suc_le)
  with assms True show ?thesis by (auto simp: rule_cmd_def iptables_def rule_place_def)
next
  case False
  with assms show ?thesis by (cases rule) (auto simp: rule_ok_def rule_cmd_def iptables_def rule_place_def)
qed

lemma rule_cmd_D:
  assumes "rule_ok rule" "rule_place rule = (tab, c, spec)"
  shows "iptables bin (rule_cmd ''-D'' rule) T =
    (case chain bin tab c T of
       None \<Rightarrow> (False, T)
     | Some rs \<Rightarrow> if spec \<in> set rs then (True, set_chain bin tab c (remove1 spec rs) T) else (False, T))"
  by (simp add: rule_cmd_iptables [OF assms] table_cmd_def split: option.splits)

lemma rule_cmd_C:
  assumes "rule_ok rule" "rule_place rule = (tab, c, spec)"
  shows "iptables bin (rule_cmd ''-C'' rule) T =
    (case chain bin tab c T of None \<Rightarrow> (False, T) | Some rs \<Rightarrow> (spec \<in> set rs, T))"
  by (simp add: rule_cmd_iptables [OF assms] table_cmd_def split: option.splits)

lemma rule_cmd_I:
  assumes "rule_ok rule" "rule_place rule = (tab, c, spec)" "take 1 spec \<noteq> [''1'']"
  shows "iptables bin (rule_cmd ''-I'' rule) T =
    (case chain bin tab c T of
       None \<Rightarrow> (False, T)
     | Some rs \<Rightarrow> if known_target bin tab T spec then (True, set_chain bin tab c (spec # rs) T) else (False, T))"
  using assms(3) by (simp add: rule_cmd_iptables [OF assms(1,2)] table_cmd_def split: option.splits)

lemma removeAll_remove1: "removeAll x (remove1 x xs) = removeAll x xs"
  by (induction xs) auto

lemma delete_effect:
  assumes "rule_ok rule" "rule_place rule = (tab, c, spec)"
  shows "\<exists>T'. deleteTablesRule iptables bin rule T = Some (True, T') \<and>
    (\<forall>b t d. chain b t d T' = (if b = bin \<and> t = tab \<and> d = c then map_option (removeAll spec) (chain b t d T) else chain b t d T))"
proof (induction "case chain bin tab c T of None \<Rightarrow> 0 | Some rs \<Rightarrow> length rs" arbitrary: T rule: less_induct)
  case less
  note D = rule_cmd_D [OF assms, of bin T]
  show ?case
  proof (cases "\<exists>rs. chain bin tab c T = Some rs \<and> spec \<in> set rs")
    case True
    then obtain rs where rs: "chain bin tab c T = Some rs" "spec \<in> set rs" by blast
    let ?T = "set_chain bin tab c (remove1 spec rs) T"
    have "length (remove1 spec rs) < length rs" using rs(2) by (metis One_nat_def Suc_pred length_pos_if_in_set length_remove1 lessI)
    then obtain T' where T': "deleteTablesRule iptables bin rule ?T = Some (True, T')"
      "\<forall>b t d. chain b t d T' = (if b = bin \<and> t = tab \<and> d = c then map_option (removeAll spec) (chain b t d ?T) else chain b t d ?T)"
      using less [of ?T] rs(1) by auto
    have "deleteTablesRule iptables bin rule T = Some (True, T')"
      using T'(1) rs D by (subst deleteTablesRule.simps) simp
    then show ?thesis using T'(2) rs(1) by (intro exI [of _ T']) (auto simp: removeAll_remove1)
  next
    case False
    then have "iptables bin (rule_cmd ''-D'' rule) T = (False, T)" using D by (auto split: option.splits)
    then have "deleteTablesRule iptables bin rule T = Some (True, T)" by (subst deleteTablesRule.simps) simp
    then show ?thesis using False by (intro exI [of _ T]) (cases "chain bin tab c T"; auto)
  qed
qed

text \<open>
  C39: The deletion loops end. Deleting a rule from the tables as iptables keeps them returns,
  however many copies there are; afterwards no copy is left and every other rule is where it
  was, in its order.
\<close>

theorem deleteTablesRule_returns:
  assumes "\<And>tool args T. exec tool args T = iptables tool args T"
    and "rule_ok rule" "rule_place rule = (tab, c, spec)"
  shows "\<exists>T'. deleteTablesRule exec bin rule T = Some (True, T') \<and>
    (\<forall>b t d. chain b t d T' = (if b = bin \<and> t = tab \<and> d = c then map_option (removeAll spec) (chain b t d T) else chain b t d T))"
proof -
  have "exec = iptables" using assms(1) by (intro ext) simp
  with delete_effect [OF assms(2,3)] show ?thesis by simp
qed

text \<open>Ensuring a rule whose target exists: there when it was there, else first.\<close>

definition with_rule :: "rule \<Rightarrow> rule list \<Rightarrow> rule list" where
  "with_rule r rs = (if r \<in> set rs then rs else r # rs)"

lemma with_rule_mem [simp]: "set (with_rule r rs) = insert r (set rs)"
  by (auto simp: with_rule_def)

lemma ensure_effect:
  assumes "rule_ok rule" "rule_place rule = (tab, c, spec)" "take 1 spec \<noteq> [''1'']"
    and "chain bin tab c T = Some rs" "builtin_target (target spec)"
  shows "\<exists>T'. ensureTablesRule iptables bin rule T = Some (True, T') \<and>
    (\<forall>b t d. chain b t d T' = (if b = bin \<and> t = tab \<and> d = c then Some (with_rule spec rs) else chain b t d T))"
proof (cases "spec \<in> set rs")
  case True
  then have "ensureTablesRule iptables bin rule T = Some (True, T)"
    using assms(4) by (simp add: ensureTablesRule_def orA_def cmdA_def rule_cmd_C [OF assms(1,2)])
  with True assms(4) show ?thesis by (auto simp: with_rule_def)
next
  case False
  then have "ensureTablesRule iptables bin rule T = Some (True, set_chain bin tab c (spec # rs) T)"
    using assms(4,5)
    by (simp add: ensureTablesRule_def orA_def cmdA_def rule_cmd_C [OF assms(1,2)] rule_cmd_I [OF assms(1-3)] known_target_def)
  with False show ?thesis by (auto simp: with_rule_def)
qed

lemma ensureIPTablesRule_eq: "ensureIPTablesRule exec = ensureTablesRule exec ''iptables''"
  by (intro ext) (simp add: ensureIPTablesRule_def ensureTablesRule_def)

subsection \<open>The documented host\<close>

text \<open>
  \<open>-S\<close> prints the policy of a chain and then its rules in order, one to a line; a write to a
  sysctl file does not touch the tables.
\<close>

definition rule_text :: "string \<Rightarrow> rule \<Rightarrow> string" where
  "rule_text c r = ''-A '' @ c @ '' '' @ join_with '' '' r"

definition iptables_list :: "string \<Rightarrow> string list \<Rightarrow> tables \<Rightarrow> string option" where
  "iptables_list bin args T =
     (let (tab, rest) = (if take 1 args = [''-t''] then (args ! 1, drop 2 args) else (''filter'', args))
      in case rest of
           [verb, c] \<Rightarrow>
             if verb = ''-S'' then map_option (\<lambda>rs. concat (map (\<lambda>l. l @ [byte 10])
               ((''-P '' @ c @ '' ACCEPT'') # map (rule_text c) rs))) (chain bin tab c T)
             else None
         | _ \<Rightarrow> None)"

definition documented_host :: "tables host \<Rightarrow> bool" where
  "documented_host H \<longleftrightarrow> h_exec H = iptables \<and> h_list H = iptables_list \<and> (\<forall>path v T. snd (h_write H path v T) = T)"

lemma ensureForwarding_tables:
  assumes "documented_host H"
  shows "tryA (ensureForwarding H path) T = Some (True, T)"
proof -
  have "\<exists>a. h_write H path v T = (a, T)" for v using assms by (metis documented_host_def prod.collapse)
  then obtain a where "h_write H path (''1'' @ [byte 10]) T = (a, T)" by blast
  then show ?thesis by (auto simp: ensureForwarding_def tryA_def split: option.splits)
qed

subsection \<open>A gateway and the default-deny chains\<close>

lemma gateway_rules_place:
  assumes "rule \<in> set (gatewayForwardRules iface)"
  shows "rule_ok rule \<and> rule_place rule = (''filter'', ''FORWARD'', tl rule) \<and> take 1 (tl rule) \<noteq> [''1''] \<and>
    target (tl rule) = ''ACCEPT''"
  using assms by (auto simp: gatewayForwardRules_def rule_ok_def rule_place_def)

definition gw_in :: "string \<Rightarrow> rule" where
  "gw_in iface = tl (gatewayForwardRules iface ! 0)"

definition gw_out :: "string \<Rightarrow> rule" where
  "gw_out iface = tl (gatewayForwardRules iface ! 1)"

lemma gateway_forward_installed:
  assumes "chain ''iptables'' ''filter'' ''FORWARD'' T = Some rs"
  shows "\<exists>T'. seqA (map (ensureIPTablesRule iptables) (gatewayForwardRules iface)) T = Some (True, T') \<and>
    (\<forall>b t d. chain b t d T' = (if b = ''iptables'' \<and> t = ''filter'' \<and> d = ''FORWARD''
      then Some (with_rule (gw_out iface) (with_rule (gw_in iface) rs)) else chain b t d T))"
proof -
  define ri where "ri = gatewayForwardRules iface ! 0"
  define ro where "ro = gatewayForwardRules iface ! 1"
  have rules: "gatewayForwardRules iface = [ri, ro]" by (simp add: gatewayForwardRules_def ri_def ro_def)
  have i: "rule_ok ri" "rule_place ri = (''filter'', ''FORWARD'', gw_in iface)" "take 1 (gw_in iface) \<noteq> [''1'']"
    "builtin_target (target (gw_in iface))"
    using gateway_rules_place [of ri iface] by (simp_all add: gw_in_def gatewayForwardRules_def builtin_target_def ri_def)
  have o': "rule_ok ro" "rule_place ro = (''filter'', ''FORWARD'', gw_out iface)" "take 1 (gw_out iface) \<noteq> [''1'']"
    "builtin_target (target (gw_out iface))"
    using gateway_rules_place [of ro iface] by (simp_all add: gw_out_def gatewayForwardRules_def builtin_target_def ro_def)
  obtain T1 where T1: "ensureTablesRule iptables ''iptables'' ri T = Some (True, T1)"
    "\<forall>b t d. chain b t d T1 = (if b = ''iptables'' \<and> t = ''filter'' \<and> d = ''FORWARD'' then Some (with_rule (gw_in iface) rs) else chain b t d T)"
    using ensure_effect [OF i(1-3) assms i(4)] by blast
  have "chain ''iptables'' ''filter'' ''FORWARD'' T1 = Some (with_rule (gw_in iface) rs)" using T1(2) by simp
  from ensure_effect [OF o'(1-3) this o'(4)] obtain T2 where T2: "ensureTablesRule iptables ''iptables'' ro T1 = Some (True, T2)"
    "\<forall>b t d. chain b t d T2 = (if b = ''iptables'' \<and> t = ''filter'' \<and> d = ''FORWARD''
      then Some (with_rule (gw_out iface) (with_rule (gw_in iface) rs)) else chain b t d T1)" by blast
  have "seqA (map (ensureIPTablesRule iptables) (gatewayForwardRules iface)) T = Some (True, T2)"
    unfolding rules ensureIPTablesRule_eq using T1(1) T2(1) by (simp add: thenA_def okA_simp)
  then show ?thesis using T1(2) T2(2) by auto
qed

lemma applyGatewayRoutes_effect:
  assumes "documented_host H" "chain ''iptables'' ''filter'' ''FORWARD'' T = Some rs" "routes \<noteq> []"
  shows "\<exists>T'. applyGatewayRoutes H iface routes (T, e) = Some (True, (T', True)) \<and>
    (\<forall>b t d. chain b t d T' = (if b = ''iptables'' \<and> t = ''filter'' \<and> d = ''FORWARD''
      then Some (with_rule (gw_out iface) (with_rule (gw_in iface) rs)) else chain b t d T))"
proof -
  have exec: "h_exec H = iptables" using assms(1) by (simp add: documented_host_def)
  obtain T' where T': "seqA (map (ensureIPTablesRule iptables) (gatewayForwardRules iface)) T = Some (True, T')"
    "\<forall>b t d. chain b t d T' = (if b = ''iptables'' \<and> t = ''filter'' \<and> d = ''FORWARD''
      then Some (with_rule (gw_out iface) (with_rule (gw_in iface) rs)) else chain b t d T)"
    using gateway_forward_installed [OF assms(2)] by blast
  have "seqA ([tryA (ensureForwarding H ip_forward)] @
      (if gatewayNeedsIPv6 routes then [tryA (ensureForwarding H ip6_forward)] else []) @
      map (ensureIPTablesRule (h_exec H)) (gatewayForwardRules iface)) T = Some (True, T')"
    unfolding exec seqA_append using T'(1)
    by (simp add: thenA_def okA_simp ensureForwarding_tables [OF assms(1)])
  then have "applyGatewayRoutes H iface routes (T, e) = Some (True, (T', True))"
    using assms(3) by (simp add: applyGatewayRoutes_def onHost_def setFlag_def thenA_def)
  then show ?thesis using T'(2) by blast
qed

text \<open>
  C37: A gateway opens its forward path to everyone. When the control plane pins a routed
  peer to an agent whose default-deny chains are in place, the agent puts its two accept rules
  in front of FORWARD: every packet that arrives from the overlay is then forwarded, also one
  that the policy's own chain drops.
\<close>

theorem gateway_overrides_policy:
  assumes "documented_host H" "acl_installed ''iptables'' iface rules False T"
    and "chain ''iptables'' ''filter'' ''FORWARD'' T = Some rs" "gw_in iface \<notin> set rs" "gw_out iface \<notin> set rs"
    and "routes \<noteq> []" "pk_in p = iface" "\<not> pk_tracked p" "\<not> list_ex (\<lambda>r. words_permit r False p) rules"
  shows "\<exists>T'. applyGatewayRoutes H iface routes (T, e) = Some (True, (T', True)) \<and>
    acl_installed ''iptables'' iface rules False T' \<and>
    filter_verdict ''iptables'' aclFwdChain T' p = Some Drop \<and>
    filter_verdict ''iptables'' ''FORWARD'' T' p = Some Accept"
proof -
  obtain T' where T': "applyGatewayRoutes H iface routes (T, e) = Some (True, (T', True))"
    "\<forall>b t d. chain b t d T' = (if b = ''iptables'' \<and> t = ''filter'' \<and> d = ''FORWARD''
      then Some (with_rule (gw_out iface) (with_rule (gw_in iface) rs)) else chain b t d T)"
    using applyGatewayRoutes_effect [OF assms(1,3,6)] by blast
  have fwd: "chain ''iptables'' ''filter'' ''FORWARD'' T' = Some (gw_out iface # gw_in iface # rs)"
    using T'(2) assms(4,5) by (auto simp: with_rule_def gw_in_def gw_out_def gatewayForwardRules_def)
  have "rule_matches (gw_in iface) p" "target (gw_in iface) = ''ACCEPT''" "target (gw_out iface) = ''ACCEPT''"
    using assms(7) by (simp_all add: gw_in_def gw_out_def gatewayForwardRules_def field_matches_def)
  then have "filter_verdict ''iptables'' ''FORWARD'' T' p = Some Accept" using fwd by (simp add: filter_verdict_def)
  moreover have inst: "acl_installed ''iptables'' iface rules False T'"
    using assms(2,3) T'(2) unfolding acl_installed_def acl_jumps_def acl_chains_def acl_names by auto
  moreover have "filter_verdict ''iptables'' aclFwdChain T' p = Some Drop"
    using filter_verdict_installed [OF inst _ assms(8)] assms(9) by (simp add: acl_chains_def list_ex_iff)
  ultimately show ?thesis using T'(1) by blast
qed

subsection \<open>The exit chain comes first\<close>

definition exit_jump :: rule where
  "exit_jump = [''-j'', exitChain]"

lemma split_lines:
  "\<forall>l \<in> set ls. byte 10 \<notin> set l \<Longrightarrow> split_on (byte 10) (concat (map (\<lambda>l. l @ [byte 10]) ls)) = ls @ [[]]"
  by (induction ls) (simp_all add: split_on_word)

definition policy_line :: string where
  "policy_line = ''-P FORWARD ACCEPT''"

lemma first_forward_list:
  assumes "\<forall>r \<in> set rs. byte 10 \<notin> set (rule_text ''FORWARD'' r)"
  shows "first_forward (concat (map (\<lambda>l. l @ [byte 10]) (policy_line # map (rule_text ''FORWARD'') rs))) =
    (case rs of [] \<Rightarrow> [] | r # _ \<Rightarrow> rule_text ''FORWARD'' r)"
proof -
  have p: "byte 10 \<notin> set policy_line" "\<not> HasPrefix policy_line ''-A FORWARD''" "\<not> HasPrefix [] ''-A FORWARD''" by code_simp+
  have lines: "split_on (byte 10) (concat (map (\<lambda>l. l @ [byte 10]) (policy_line # map (rule_text ''FORWARD'') rs))) =
      (policy_line # map (rule_text ''FORWARD'') rs) @ [[]]"
    using assms p(1) by (intro split_lines) auto
  have "HasPrefix (rule_text ''FORWARD'' r) ''-A FORWARD''" for r
    by (simp add: HasPrefix_def rule_text_def)
  then show ?thesis unfolding first_forward_def lines using p(2,3) by (cases rs) simp_all
qed

lemma jump_first:
  assumes "documented_host H" "chain bin ''filter'' ''FORWARD'' T = Some rs" "chain bin ''filter'' exitChain T \<noteq> None"
    and "\<forall>r \<in> set rs. byte 10 \<notin> set (rule_text ''FORWARD'' r)"
    and "\<forall>r \<in> set rs. StrContains (rule_text ''FORWARD'' r) exitChain \<longrightarrow> r = exit_jump"
  shows "\<exists>T' rs'. ensureExitJumpFirst H bin T = Some (True, T') \<and> removeAll exit_jump rs' = removeAll exit_jump rs \<and>
    (\<forall>b t d. chain b t d T' = (if b = bin \<and> t = ''filter'' \<and> d = ''FORWARD'' then Some (exit_jump # rs') else chain b t d T))"
proof -
  have H: "h_exec H = iptables" "h_list H = iptables_list" using assms(1) by (simp_all add: documented_host_def)
  let ?out = "concat (map (\<lambda>l. l @ [byte 10]) (policy_line # map (rule_text ''FORWARD'') rs))"
  have out: "h_list H bin [''-S'', ''FORWARD''] T = Some ?out"
    using assms(2) by (simp add: H iptables_list_def policy_line_def)
  note first = first_forward_list [OF assms(4)]
  show ?thesis
  proof (cases "StrContains (first_forward ?out) exitChain")
    case True
    have "\<not> StrContains [] exitChain" by code_simp
    with True first obtain r rs0 where rs: "rs = r # rs0" "StrContains (rule_text ''FORWARD'' r) exitChain"
      by (cases rs) auto
    then have "rs = exit_jump # rs0" using assms(5) by simp
    moreover have "ensureExitJumpFirst H bin T = Some (True, T)" unfolding ensureExitJumpFirst_def out using True by simp
    ultimately show ?thesis using assms(2) by (intro exI [of _ T] exI [of _ rs0]) auto
  next
    case False
    have ok: "rule_ok [''FORWARD'', ''-j'', exitChain]"
      "rule_place [''FORWARD'', ''-j'', exitChain] = (''filter'', ''FORWARD'', exit_jump)"
      by (simp_all add: rule_ok_def rule_place_def exit_jump_def)
    obtain T1 where T1: "deleteTablesRule iptables bin [''FORWARD'', ''-j'', exitChain] T = Some (True, T1)"
      "\<forall>b t d. chain b t d T1 = (if b = bin \<and> t = ''filter'' \<and> d = ''FORWARD'' then map_option (removeAll exit_jump) (chain b t d T)
         else chain b t d T)" using delete_effect [OF ok] by blast
    have "known_target bin ''filter'' T1 exit_jump"
      using assms(3) T1(2) by (simp add: known_target_def exit_jump_def exitChain_def)
    then have "cmdA iptables bin [''-I'', ''FORWARD'', ''1'', ''-j'', exitChain] T1 =
        Some (True, set_chain bin ''filter'' ''FORWARD'' (exit_jump # removeAll exit_jump rs) T1)"
      using ipt_I1 [of bin "''FORWARD''" exit_jump T1] T1(2) assms(2) by (simp add: cmdA_def exit_jump_def)
    then have "ensureExitJumpFirst H bin T = Some (True, set_chain bin ''filter'' ''FORWARD'' (exit_jump # removeAll exit_jump rs) T1)"
      unfolding ensureExitJumpFirst_def out using False T1(1) by (simp add: H thenA_def)
    then show ?thesis
      using T1(2) by (intro exI [of _ "set_chain bin ''filter'' ''FORWARD'' (exit_jump # removeAll exit_jump rs) T1"]
          exI [of _ "removeAll exit_jump rs"]) auto
  qed
qed

definition exit_out :: "string \<Rightarrow> string \<Rightarrow> rule" where
  "exit_out iface cidr = tl (exitChainRules iface cidr ! 0)"

definition exit_back :: "string \<Rightarrow> string \<Rightarrow> rule" where
  "exit_back iface cidr = tl (exitChainRules iface cidr ! 1)"

definition exit_nat :: "string \<Rightarrow> string \<Rightarrow> rule" where
  "exit_nat iface cidr = drop 3 (exitNATRule iface cidr)"

definition exit_rules :: "string \<Rightarrow> tables \<Rightarrow> rule list" where
  "exit_rules bin T = (case chain bin ''filter'' exitChain T of None \<Rightarrow> [] | Some xs \<Rightarrow> xs)"

lemma exit_places:
  "exitChainRules iface cidr = [exitChain # exit_out iface cidr, exitChain # exit_back iface cidr]"
  "rule_ok (exitChain # r)" "rule_place (exitChain # r) = (''filter'', exitChain, r)"
  "rule_ok (exitNATRule iface cidr)" "rule_place (exitNATRule iface cidr) = (''nat'', ''POSTROUTING'', exit_nat iface cidr)"
  "take 1 (exit_out iface cidr) \<noteq> [''1'']" "take 1 (exit_back iface cidr) \<noteq> [''1'']" "take 1 (exit_nat iface cidr) \<noteq> [''1'']"
  "target (exit_out iface cidr) = ''ACCEPT''" "target (exit_back iface cidr) = ''ACCEPT''" "target (exit_nat iface cidr) = ''MASQUERADE''"
  by (simp_all add: exitChainRules_def exit_out_def exit_back_def rule_ok_def rule_place_def exitChain_def exitNATRule_def exit_nat_def)

lemma exit_family:
  assumes "documented_host H" "prefix_IsValid overlay" "chain bin ''filter'' ''FORWARD'' T = Some rs"
    and "\<forall>r \<in> set rs. byte 10 \<notin> set (rule_text ''FORWARD'' r)"
    and "\<forall>r \<in> set rs. StrContains (rule_text ''FORWARD'' r) exitChain \<longrightarrow> r = exit_jump"
    and "chain bin ''nat'' ''POSTROUTING'' T = Some ns"
  shows "\<exists>T' rs'. ensureExitNATFamily H bin iface overlay T = Some (True, T') \<and>
    removeAll exit_jump rs' = removeAll exit_jump rs \<and>
    (\<forall>b t d. chain b t d T' =
      (if b = bin \<and> t = ''filter'' \<and> d = ''FORWARD'' then Some (exit_jump # rs')
       else if b = bin \<and> t = ''filter'' \<and> d = exitChain then
         Some (with_rule (exit_back iface (prefix_String (Masked overlay)))
           (with_rule (exit_out iface (prefix_String (Masked overlay))) (exit_rules bin T)))
       else if b = bin \<and> t = ''nat'' \<and> d = ''POSTROUTING'' then Some (with_rule (exit_nat iface (prefix_String (Masked overlay))) ns)
       else chain b t d T))"
proof -
  define cidr where "cidr = prefix_String (Masked overlay)"
  have exec: "h_exec H = iptables" using assms(1) by (simp add: documented_host_def)
  have ne: "exitChain \<noteq> ''FORWARD''" by (simp add: exitChain_def)
  define T0 where "T0 = snd (iptables bin [''-N'', exitChain] T)"
  have c0: "chain b t d T0 = (if b = bin \<and> t = ''filter'' \<and> d = exitChain then Some (exit_rules bin T) else chain b t d T)" for b t d
    by (auto simp: T0_def ipt exit_rules_def split: option.splits)
  have ex0: "chain bin ''filter'' exitChain T0 = Some (exit_rules bin T)" by (simp add: c0)
  have acc: "builtin_target (target (exit_out iface cidr))" "builtin_target (target (exit_back iface cidr))"
    "builtin_target (target (exit_nat iface cidr))" by (simp_all add: exit_places builtin_target_def)
  obtain T1 where T1: "ensureTablesRule iptables bin (exitChain # exit_out iface cidr) T0 = Some (True, T1)"
    "\<forall>b t d. chain b t d T1 = (if b = bin \<and> t = ''filter'' \<and> d = exitChain then Some (with_rule (exit_out iface cidr) (exit_rules bin T)) else chain b t d T0)"
    using ensure_effect [OF exit_places(2,3,6) ex0 acc(1)] by blast
  then have ex1: "chain bin ''filter'' exitChain T1 = Some (with_rule (exit_out iface cidr) (exit_rules bin T))" by simp
  obtain T2 where T2: "ensureTablesRule iptables bin (exitChain # exit_back iface cidr) T1 = Some (True, T2)"
    "\<forall>b t d. chain b t d T2 = (if b = bin \<and> t = ''filter'' \<and> d = exitChain
       then Some (with_rule (exit_back iface cidr) (with_rule (exit_out iface cidr) (exit_rules bin T))) else chain b t d T1)"
    using ensure_effect [OF exit_places(2,3,7) ex1 acc(2)] by blast
  have f2: "chain bin ''filter'' ''FORWARD'' T2 = Some rs" "chain bin ''filter'' exitChain T2 \<noteq> None"
    using T1(2) T2(2) c0 assms(3) ne by auto
  obtain T3 rs' where T3: "ensureExitJumpFirst H bin T2 = Some (True, T3)" "removeAll exit_jump rs' = removeAll exit_jump rs"
    "\<forall>b t d. chain b t d T3 = (if b = bin \<and> t = ''filter'' \<and> d = ''FORWARD'' then Some (exit_jump # rs') else chain b t d T2)"
    using jump_first [OF assms(1) f2 assms(4,5)] by blast
  have n3: "chain bin ''nat'' ''POSTROUTING'' T3 = Some ns" using T3(3) T2(2) T1(2) c0 assms(6) by simp
  obtain T4 where T4: "ensureTablesRule iptables bin (exitNATRule iface cidr) T3 = Some (True, T4)"
    "\<forall>b t d. chain b t d T4 = (if b = bin \<and> t = ''nat'' \<and> d = ''POSTROUTING'' then Some (with_rule (exit_nat iface cidr) ns) else chain b t d T3)"
    using ensure_effect [OF exit_places(4,5,8) n3 acc(3)] by blast
  have "ensureExitNATFamily H bin iface overlay T = Some (True, T4)"
    using assms(2) T1(1) T2(1) T3(1) T4(1)
    by (simp add: ensureExitNATFamily_def exec exit_places(1) cidr_def [symmetric] thenA_def tryA_cmdA T0_def [symmetric] okA_simp)
  then show ?thesis
    using T3(2) T4(2) T3(3) T2(2) T1(2) c0 ne unfolding cidr_def by (intro exI [of _ T4] exI [of _ rs']) simp
qed

definition exit_ready :: "string \<Rightarrow> tables \<Rightarrow> bool" where
  "exit_ready bin T \<longleftrightarrow> chain bin ''nat'' ''POSTROUTING'' T \<noteq> None \<and>
     (case chain bin ''filter'' ''FORWARD'' T of
        None \<Rightarrow> False
      | Some rs \<Rightarrow> list_all (\<lambda>r. byte 10 \<notin> set (rule_text ''FORWARD'' r) \<and>
          (StrContains (rule_text ''FORWARD'' r) exitChain \<longrightarrow> r = exit_jump)) rs)"

lemma exit_rule_matches:
  "rule_matches (exit_out iface cidr) p \<longleftrightarrow> pk_in p = iface \<and> pk_out p \<noteq> iface \<and> in_net cidr (pk_src p)"
  "rule_matches (exit_back iface cidr) p \<longleftrightarrow> pk_in p \<noteq> iface \<and> pk_out p = iface \<and> in_net cidr (pk_dst p) \<and> pk_tracked p"
  by (auto simp: exit_out_def exit_back_def exitChainRules_def field_matches_def)

lemma verdict_jump:
  assumes "C exitChain = Some xs"
  shows "verdict (Suc n) C (exit_jump # rs) p = (case verdict n C xs p of Some v \<Rightarrow> Some v | None \<Rightarrow> verdict (Suc n) C rs p)"
  using assms by (simp add: exit_jump_def exitChain_def)

lemma verdict_skip:
  assumes "C exitChain = Some xs" "verdict n C xs p = None"
  shows "verdict (Suc n) C rs p = verdict (Suc n) C (removeAll exit_jump rs) p"
proof (induction rs)
  case (Cons r rs)
  show ?case
  proof (cases "r = exit_jump")
    case True
    with Cons verdict_jump [where C = C, OF assms(1), of n rs p] assms(2) show ?thesis by simp
  next
    case False
    with Cons show ?thesis by (simp split: option.splits)
  qed
qed simp

lemma applyExitNodeNAT_effect:
  assumes "documented_host H" "exit_ready ''iptables'' T" "exit_ready ''ip6tables'' T" "prefix_IsValid net4"
    and "chain ''iptables'' ''filter'' ''FORWARD'' T = Some rs"
  shows "\<exists>T' rs'. applyExitNodeNAT H iface True net4 net6 (T, e) = Some (True, (T', True)) \<and>
    removeAll exit_jump rs' = removeAll exit_jump rs \<and>
    chain ''iptables'' ''filter'' ''FORWARD'' T' = Some (exit_jump # rs') \<and>
    chain ''iptables'' ''filter'' exitChain T' = Some (with_rule (exit_back iface (prefix_String (Masked net4)))
       (with_rule (exit_out iface (prefix_String (Masked net4))) (exit_rules ''iptables'' T)))"
proof -
  let ?cidr = "prefix_String (Masked net4)"
  note fwd = ensureForwarding_tables [OF assms(1)]
  obtain T1 rs' where T1: "ensureExitNATFamily H ''iptables'' iface net4 T = Some (True, T1)"
    "removeAll exit_jump rs' = removeAll exit_jump rs"
    "chain ''iptables'' ''filter'' ''FORWARD'' T1 = Some (exit_jump # rs')"
    "chain ''iptables'' ''filter'' exitChain T1 = Some (with_rule (exit_back iface ?cidr) (with_rule (exit_out iface ?cidr) (exit_rules ''iptables'' T)))"
    "\<forall>t d. chain ''ip6tables'' t d T1 = chain ''ip6tables'' t d T"
    using exit_family [OF assms(1,4,5), of _ iface] assms(2,5)
    by (fastforce simp: exit_ready_def list_all_iff exitChain_def)
  show ?thesis
  proof (cases "prefix_IsValid net6")
    case False
    then have "applyExitNodeNAT H iface True net4 net6 (T, e) = Some (True, (T1, True))"
      using T1(1) fwd by (simp add: applyExitNodeNAT_def onHost_def setFlag_def thenA_def okA_simp)
    then show ?thesis using T1(2-4) by blast
  next
    case True
    have "exit_ready ''ip6tables'' T1" using assms(3) T1(5) by (simp add: exit_ready_def)
    then obtain T2 where T2: "ensureExitNATFamily H ''ip6tables'' iface net6 T1 = Some (True, T2)"
      "\<forall>t d. chain ''iptables'' t d T2 = chain ''iptables'' t d T1"
      using exit_family [OF assms(1) True, of "''ip6tables''" T1 _ _ iface]
      by (fastforce simp: exit_ready_def list_all_iff split: option.splits)
    have "applyExitNodeNAT H iface True net4 net6 (T, e) = Some (True, (T2, True))"
      using T1(1) T2(1) True fwd by (simp add: applyExitNodeNAT_def onHost_def setFlag_def thenA_def okA_simp)
    then show ?thesis using T1(2-4) T2(2) by auto
  qed
qed

text \<open>
  C38: An exit node forwards for its clients and keeps the policy otherwise. Once the exit
  role is installed, on a host whose FORWARD chain may hold anything and whose default-deny
  chains may be in place, a packet that comes from the overlay with an overlay source and
  leaves by another interface is accepted; a packet that stays in the overlay gets the verdict
  the rest of the chain gives it.
\<close>

theorem exit_node_forwards:
  assumes "documented_host H" "exit_ready ''iptables'' T" "exit_ready ''ip6tables'' T" "plain_prefix (Masked net4)"
    and "prefix_IsValid net4" "chain ''iptables'' ''filter'' ''FORWARD'' T = Some rs"
    and "\<And>r. r \<in> set (exit_rules ''iptables'' T) \<Longrightarrow> \<exists>cidr. r = exit_out iface cidr \<or> r = exit_back iface cidr"
    and "pk_in p = iface" "Contains (Masked net4) (pk_src p)"
  shows "\<exists>T'. applyExitNodeNAT H iface True net4 net6 (T, e) = Some (True, (T', True)) \<and>
    filter_verdict ''iptables'' ''FORWARD'' T' p =
      (if pk_out p \<noteq> iface then Some Accept
       else verdict 1 (\<lambda>c. chain ''iptables'' ''filter'' c T') (removeAll exit_jump rs) p)"
proof -
  let ?cidr = "prefix_String (Masked net4)"
  define xs where "xs = with_rule (exit_back iface ?cidr) (with_rule (exit_out iface ?cidr) (exit_rules ''iptables'' T))"
  obtain T' rs' where T': "applyExitNodeNAT H iface True net4 net6 (T, e) = Some (True, (T', True))"
    "removeAll exit_jump rs' = removeAll exit_jump rs" "chain ''iptables'' ''filter'' ''FORWARD'' T' = Some (exit_jump # rs')"
    "chain ''iptables'' ''filter'' exitChain T' = Some xs"
    unfolding xs_def using applyExitNodeNAT_effect [OF assms(1-3,5,6)] by blast
  let ?C = "\<lambda>c. chain ''iptables'' ''filter'' c T'"
  have xs: "\<exists>cidr. r = exit_out iface cidr \<or> r = exit_back iface cidr" if "r \<in> set xs" for r
    using that assms(7) by (auto simp: xs_def)
  have "target r = ''ACCEPT''" if "r \<in> set xs" for r using xs [OF that] exit_places by auto
  from verdict_accepts [OF this] have v: "verdict 0 ?C xs p = (if \<exists>r \<in> set xs. rule_matches r p then Some Accept else None)"
    by blast
  have "in_net ?cidr (pk_src p)" using ParsePrefix_String [OF assms(4)] assms(9) by (simp add: in_net_def)
  then have hit: "\<exists>r \<in> set xs. rule_matches r p" if "pk_out p \<noteq> iface"
    using that assms(8) by (intro bexI [of _ "exit_out iface ?cidr"]) (simp_all add: exit_rule_matches xs_def)
  have miss: "\<not> (\<exists>r \<in> set xs. rule_matches r p)" if "pk_out p = iface"
    using that assms(8) xs exit_rule_matches by metis
  have fv: "filter_verdict ''iptables'' ''FORWARD'' T' p = verdict (Suc 0) ?C (exit_jump # rs') p"
    by (simp add: filter_verdict_def T'(3))
  show ?thesis
  proof (cases "pk_out p = iface")
    case True
    with v miss have "verdict 0 ?C xs p = None" by simp
    from verdict_skip [where C = ?C, OF T'(4) this, of "exit_jump # rs'"] show ?thesis
      using T'(1,2) fv True by simp
  next
    case False
    then show ?thesis using T'(1) fv v hit verdict_jump [where C = ?C, OF T'(4), of 0 rs' p] by simp
  qed
qed

definition demo_host :: "tables host" where
  "demo_host = \<lparr>h_exec = iptables, h_list = iptables_list, h_read = (\<lambda>_ _. None), h_write = (\<lambda>_ _ T. (True, T)),
     h_link = (\<lambda>_ _. Some 1), h_routeReplace = (\<lambda>_ T. (True, T)), h_ruleAdd = (\<lambda>_ T. (NlOk, T)),
     h_ruleDel = (\<lambda>_ T. (NlNotExist, T)), h_routes = (\<lambda>_ _ _. Some []), h_routeDel = (\<lambda>_ T. (True, T))\<rparr>"

lemma demo_host_documented: "documented_host demo_host"
  by (simp add: documented_host_def demo_host_def)

text \<open>A host with a forward chain that drops everything.\<close>

definition demo_router :: tables where
  "demo_router = demo_tables @ [((b, ''nat'', ''POSTROUTING''), []). b \<leftarrow> [''iptables'', ''ip6tables'']]"

definition demo_closed :: tables where
  "demo_closed = set_chain ''iptables'' ''filter'' ''FORWARD'' [drop_rule] demo_router"

theorem exit_node_forwards_witness:
  "\<exists>T'. applyExitNodeNAT demo_host ''wg-int'' True (Prefix (V4 1681915904) 10) PrefixZero (demo_closed, False) = Some (True, (T', True)) \<and>
     filter_verdict ''iptables'' ''FORWARD'' T' (demo_packet\<lparr>pk_out := ''eth0''\<rparr>) = Some Accept"
proof -
  have h: "exit_ready ''iptables'' demo_closed" "exit_ready ''ip6tables'' demo_closed" "plain_prefix (Masked (Prefix (V4 1681915904) 10))"
    "prefix_IsValid (Prefix (V4 1681915904) 10)" "chain ''iptables'' ''filter'' ''FORWARD'' demo_closed = Some [drop_rule]"
    "exit_rules ''iptables'' demo_closed = []" "Contains (Masked (Prefix (V4 1681915904) 10)) (pk_src demo_packet)"
    "pk_in demo_packet = ''wg-int''" by code_simp+
  from exit_node_forwards [OF demo_host_documented h(1-5), of "''wg-int''" "demo_packet\<lparr>pk_out := ''eth0''\<rparr>" PrefixZero False] h(6-8)
  show ?thesis by simp
qed

theorem deleteTablesRule_returns_witness:
  "\<exists>T'. deleteTablesRule iptables ''iptables'' [''FORWARD'', ''-j'', ''DROP'']
      (set_chain ''iptables'' ''filter'' ''FORWARD'' [drop_rule, gw_in ''wg-int'', drop_rule] demo_router) = Some (True, T') \<and>
     chain ''iptables'' ''filter'' ''FORWARD'' T' = Some [gw_in ''wg-int'']"
proof -
  let ?T = "set_chain ''iptables'' ''filter'' ''FORWARD'' [drop_rule, gw_in ''wg-int'', drop_rule] demo_router"
  have h: "rule_ok [''FORWARD'', ''-j'', ''DROP'']" "rule_place [''FORWARD'', ''-j'', ''DROP''] = (''filter'', ''FORWARD'', drop_rule)"
    by code_simp+
  have "drop_rule \<noteq> gw_in ''wg-int''" by code_simp
  then have "removeAll drop_rule [drop_rule, gw_in ''wg-int'', drop_rule] = [gw_in ''wg-int'']" by simp
  with deleteTablesRule_returns [of iptables, OF refl h, of "''iptables''" ?T] show ?thesis by auto
qed

definition demo_denied :: tables where
  "demo_denied = snd (the (applyOverlayACLFamily iptables ''iptables'' ''wg-int'' [] False demo_router))"

theorem gateway_overrides_policy_witness:
  "\<exists>T'. applyGatewayRoutes demo_host ''wg-int'' [''100.64.0.9/32''] (demo_denied, False) = Some (True, (T', True)) \<and>
     filter_verdict ''iptables'' aclFwdChain T' demo_packet = Some Drop \<and>
     filter_verdict ''iptables'' ''FORWARD'' T' demo_packet = Some Accept"
proof -
  have h: "acl_installed ''iptables'' ''wg-int'' [] False demo_denied"
    "chain ''iptables'' ''filter'' ''FORWARD'' demo_denied = Some [jump_rule ''-o'' ''wg-int'' aclFwdChain, jump_rule ''-i'' ''wg-int'' aclFwdChain]"
    "gw_in ''wg-int'' \<notin> set [jump_rule ''-o'' ''wg-int'' aclFwdChain, jump_rule ''-i'' ''wg-int'' aclFwdChain]"
    "gw_out ''wg-int'' \<notin> set [jump_rule ''-o'' ''wg-int'' aclFwdChain, jump_rule ''-i'' ''wg-int'' aclFwdChain]"
    "[''100.64.0.9/32''] \<noteq> []" "pk_in demo_packet = ''wg-int''" "\<not> pk_tracked demo_packet"
    "\<not> list_ex (\<lambda>r. words_permit r False demo_packet) []" by (code_simp, code_simp, code_simp, code_simp, simp, code_simp, code_simp, simp)
  from gateway_overrides_policy [OF demo_host_documented h, of False] show ?thesis by blast
qed

end
