(* ===== verification/AgentSync.thy ===== *)
theory AgentSync
  imports AgentTelemetry Gateway
begin

text \<open>
  One sync of the agent (\<open>cmd/agent/telemetry.go\<close>): the response to a report is applied to
  the interface address, the DNS settings, the WireGuard device, the packet filter and the
  forwarding state. The platform calls that are not modelled elsewhere (netlink addresses, the
  system resolver configuration) are fields of the environment.
\<close>

datatype dns_result = DnsOk | DnsUnsupported | DnsError

record 'h agent_env =
  ae_iface :: string
  ae_gatewayNATCIDRs :: string
  ae_parseKey :: "string \<Rightarrow> wg_key option"
  ae_resolve :: "string \<Rightarrow> addr_port option"
  ae_configure :: "PeerConfig list \<Rightarrow> device \<Rightarrow> agent_error + device"
  ae_paths :: path_env
  ae_host :: "'h host"
  ae_parseAddr :: "string \<Rightarrow> bool"
  ae_addrAdd :: "string \<Rightarrow> 'h \<Rightarrow> bool \<times> 'h"
  ae_addrDel :: "string \<Rightarrow> 'h \<Rightarrow> bool \<times> 'h"
  ae_applyDNS :: "DNSConfig \<Rightarrow> 'h \<Rightarrow> dns_result \<times> 'h"
  ae_marshalDNS :: "DNSConfig \<Rightarrow> string"

record 'h agent =
  ag_reporter :: reporter
  ag_selfAddr :: string
  ag_selfAddr6 :: string
  ag_stunServers :: "string list"
  ag_lastDNS :: string
  ag_dnsApplied :: bool
  ag_dnsWarned :: bool
  ag_hostnames :: "wg_key \<Rightarrow> string"
  ag_gatewayForwardOn :: bool
  ag_exitRoutesOn :: bool
  ag_exitNATOn :: bool
  ag_device :: device
  ag_host :: 'h

subsection \<open>The interface address\<close>

fun prefix_Bits :: "prefix \<Rightarrow> int" where
  "prefix_Bits PrefixZero = -1"
| "prefix_Bits (Prefix a b) = int b"

definition overlayAddress :: "string \<Rightarrow> prefix \<Rightarrow> agent_error + string" where
  "overlayAddress addr network =
     (case ParseAddr addr of
        None \<Rightarrow> Inl (AgentErr ''parse overlay address'')
      | Some ip \<Rightarrow> Inr (addr_String ip @ ''/'' @ Itoa (prefix_Bits network)))"

definition replaceIPAddress :: "'h agent_env \<Rightarrow> string \<Rightarrow> string \<Rightarrow> 'h act" where
  "replaceIPAddress E oldCIDR newCIDR h =
     (if oldCIDR = newCIDR then Some (True, h)
      else if h_link (ae_host E) (ae_iface E) h = None then Some (False, h)
      else seqA ((if newCIDR \<noteq> [] then [\<lambda>h. Some (ae_parseAddr E newCIDR, h), \<lambda>h. Some (ae_addrAdd E newCIDR h)] else []) @
                 (if oldCIDR \<noteq> [] then [\<lambda>h. Some (ae_parseAddr E oldCIDR, h), \<lambda>h. Some (ae_addrDel E oldCIDR h)] else [])) h)"

definition next_addrs :: "SyncResponse \<Rightarrow> agent_error + prefix \<times> string \<times> prefix \<times> string" where
  "next_addrs sync =
     (case ParsePrefix (sr_NetworkCIDR sync) of
        None \<Rightarrow> Inl (AgentErr ''parse synced network CIDR'')
      | Some net4 \<Rightarrow>
          bindE (overlayAddress (sr_AssignedIP sync) net4) (\<lambda>nextAddr.
            if sr_NetworkCIDR6 sync = [] then Inr (net4, nextAddr, PrefixZero, [])
            else case ParsePrefix (sr_NetworkCIDR6 sync) of
                   None \<Rightarrow> Inl (AgentErr ''parse synced IPv6 network CIDR'')
                 | Some net6 \<Rightarrow>
                     if sr_AssignedIP6 sync = [] then Inr (net4, nextAddr, net6, [])
                     else bindE (overlayAddress (sr_AssignedIP6 sync) net6) (\<lambda>nextAddr6.
                       Inr (net4, nextAddr, net6, nextAddr6))))"

text \<open>\<open>replaceIPAddress\<close> always returns, so the helper is not an option.\<close>

definition set_addr :: "'h agent_env \<Rightarrow> string \<Rightarrow> string \<Rightarrow> 'h \<Rightarrow> bool \<times> 'h" where
  "set_addr E old new h = the (replaceIPAddress E old new h)"

definition applySelfAssignment :: "'h agent_env \<Rightarrow> SyncResponse \<Rightarrow> 'h agent \<Rightarrow> bool \<times> 'h agent" where
  "applySelfAssignment E sync a =
     (if sr_AssignedIP sync = [] \<or> sr_NetworkCIDR sync = [] then (True, a)
      else case next_addrs sync of
             Inl _ \<Rightarrow> (False, a)
           | Inr (net4, nextAddr, net6, nextAddr6) \<Rightarrow>
               (case set_addr E (ag_selfAddr a) nextAddr (ag_host a) of
                  (False, h) \<Rightarrow> (False, a\<lparr>ag_host := h\<rparr>)
                | (True, h) \<Rightarrow>
                    let a = a\<lparr>ag_host := h, ag_selfAddr := nextAddr\<rparr>
                    in case set_addr E (ag_selfAddr6 a) nextAddr6 (ag_host a) of
                         (False, h) \<Rightarrow> (False, a\<lparr>ag_host := h\<rparr>)
                       | (True, h) \<Rightarrow>
                           (True, a\<lparr>ag_host := h, ag_selfAddr6 := nextAddr6,
                              ag_reporter := (ag_reporter a)\<lparr>rp_network := net4, rp_network6 := net6\<rparr>\<rparr>)))"

subsection \<open>DNS\<close>

definition applyDNS :: "'h agent_env \<Rightarrow> DNSConfig \<Rightarrow> 'h agent \<Rightarrow> bool \<times> 'h agent" where
  "applyDNS E cfg a =
     (if \<not> dc_Enabled cfg \<and> \<not> ag_dnsApplied a then (True, a)
      else let digest = ae_marshalDNS E cfg
      in if digest = ag_lastDNS a then (True, a)
         else case ae_applyDNS E cfg (ag_host a) of
                (DnsError, h) \<Rightarrow> (False, a\<lparr>ag_host := h\<rparr>)
              | (DnsUnsupported, h) \<Rightarrow> (True, a\<lparr>ag_host := h, ag_lastDNS := digest, ag_dnsApplied := False, ag_dnsWarned := True\<rparr>)
              | (DnsOk, h) \<Rightarrow> (True, a\<lparr>ag_host := h, ag_lastDNS := digest, ag_dnsApplied := dc_Enabled cfg\<rparr>))"

subsection \<open>The peer list\<close>

definition add_resolved :: "(string \<Rightarrow> addr_port option) \<Rightarrow> EndpointCandidate \<Rightarrow> addr_port list \<Rightarrow> addr_port list" where
  "add_resolved resolve c out =
     (case resolve (ec_Endpoint c) of
        None \<Rightarrow> out
      | Some udp \<Rightarrow> if addr_port_String udp \<in> set (map addr_port_String out) then out else out @ [udp])"

definition endpointCandidatesFromProto ::
  "(string \<Rightarrow> addr_port option) \<Rightarrow> PeerConfigResponse \<Rightarrow> addr_port option \<Rightarrow> addr_port list" where
  "endpointCandidatesFromProto resolve p fallback =
     (let out = fold (add_resolved resolve) (pc_EndpointCandidates p) []
      in case fallback of
           None \<Rightarrow> out
         | Some f \<Rightarrow> if addr_port_String f \<in> set (map addr_port_String out) then out else out @ [f])"

text \<open>
  A probe that an entry starts points the peer at a candidate; that write is in the record
  \<open>pt_written\<close> of the paths, and \<open>syncPeers\<close>, which runs after it, sets the device.
\<close>

definition take_entry :: "'h agent_env \<Rightarrow> time \<Rightarrow> PeerConfigResponse \<Rightarrow> PeerConfig \<Rightarrow> 'h agent \<Rightarrow> 'h agent" where
  "take_entry E now e cfg a =
     (let k = cf_PublicKey cfg;
          a = (if pc_Hostname e \<noteq> [] then a\<lparr>ag_hostnames := (ag_hostnames a)(k := pc_Hostname e)\<rparr> else a);
          r = ag_reporter a
      in a\<lparr>ag_reporter := r\<lparr>rp_paths := maybeRetryDirect (ae_paths E) k
             (endpointCandidatesFromProto (ae_resolve E) e (cf_Endpoint cfg)) (pc_PunchEpoch e) now (rp_paths r)\<rparr>\<rparr>)"

fun take_entries ::
  "'h agent_env \<Rightarrow> time \<Rightarrow> PeerConfigResponse list \<Rightarrow> PeerConfig list \<Rightarrow> 'h agent \<Rightarrow> 'h agent \<times> PeerConfig list option" where
  "take_entries E now [] desired a = (a, Some desired)"
| "take_entries E now (e # es) desired a =
     (case peerConfigFromProto (ae_parseKey E) (ae_resolve E) e of
        Inl _ \<Rightarrow> (a, None)
      | Inr cfg \<Rightarrow> take_entries E now es (desired @ [cfg]) (take_entry E now e cfg a))"

subsection \<open>Applying a sync response\<close>

text \<open>An error of these steps is logged and the next step runs.\<close>

definition on_host :: "('h \<Rightarrow> (bool \<times> 'h) option) \<Rightarrow> 'h agent \<Rightarrow> 'h agent option" where
  "on_host f a = map_option (\<lambda>(_, h). a\<lparr>ag_host := h\<rparr>) (f (ag_host a))"

definition apply_peers :: "'h agent_env \<Rightarrow> PeerConfig list \<Rightarrow> 'h agent \<Rightarrow> 'h agent" where
  "apply_peers E desired a =
     (case syncPeers (ae_configure E) desired (ag_device a) of
        Inl _ \<Rightarrow> a
      | Inr dev \<Rightarrow> a\<lparr>ag_device := dev\<rparr>)"

definition apply_gateway :: "'h agent_env \<Rightarrow> string list \<Rightarrow> 'h agent \<Rightarrow> 'h agent option" where
  "apply_gateway E routes a =
     map_option (\<lambda>(_, (h, on)). a\<lparr>ag_host := h, ag_gatewayForwardOn := on\<rparr>)
       (applyGatewayRoutes (ae_host E) (ae_iface E) routes (ag_host a, ag_gatewayForwardOn a))"

definition apply_exit_routes :: "'h agent_env \<Rightarrow> bool \<Rightarrow> 'h agent \<Rightarrow> 'h agent option" where
  "apply_exit_routes E exitPeer a =
     map_option (\<lambda>(_, (h, on)). a\<lparr>ag_host := h, ag_exitRoutesOn := on\<rparr>)
       (applyExitRoutes (ae_host E) (ae_iface E) exitPeer (ag_selfAddr6 a \<noteq> []) (ag_host a, ag_exitRoutesOn a))"

definition apply_exit_nat :: "'h agent_env \<Rightarrow> bool \<Rightarrow> 'h agent \<Rightarrow> 'h agent option" where
  "apply_exit_nat E active a =
     map_option (\<lambda>(_, (h, on)). a\<lparr>ag_host := h, ag_exitNATOn := on\<rparr>)
       (applyExitNodeNAT (ae_host E) (ae_iface E) active (rp_network (ag_reporter a)) (rp_network6 (ag_reporter a))
          (ag_host a, ag_exitNATOn a))"

definition apply_host :: "'h agent_env \<Rightarrow> SyncResponse \<Rightarrow> 'h agent \<Rightarrow> 'h agent option" where
  "apply_host E sync a =
     Option.bind (on_host (applyOverlayACL (h_exec (ae_host E)) (ae_iface E) (Some (sr_ACL sync))) a) (\<lambda>a.
     Option.bind (on_host (refreshGatewayNAT (h_exec (ae_host E)) (ae_iface E) (ae_gatewayNATCIDRs E)) a) (\<lambda>a.
     Option.bind (apply_gateway E (sr_GatewayRoutes sync) a) (\<lambda>a.
     Option.bind (apply_exit_routes E (list_ex pc_ExitNode (sr_Peers sync)) a) (\<lambda>a.
       apply_exit_nat E (sr_ExitNodeActive sync) a))))"

definition adopt :: "'h agent_env \<Rightarrow> SyncResponse \<Rightarrow> 'h agent \<Rightarrow> bool \<times> 'h agent" where
  "adopt E sync a =
     (case applySelfAssignment E sync
        (if sr_STUNServers sync \<noteq> [] then a\<lparr>ag_stunServers := sr_STUNServers sync\<rparr> else a) of
        (False, a) \<Rightarrow> (False, a)
      | (True, a) \<Rightarrow> (True, snd (applyDNS E (sr_DNS sync) a)))"

definition applySync :: "'h agent_env \<Rightarrow> time \<Rightarrow> SyncResponse \<Rightarrow> 'h agent \<Rightarrow> 'h agent option" where
  "applySync E now sync a =
     (case adopt E sync a of
        (False, a) \<Rightarrow> Some a
      | (True, a) \<Rightarrow>
          (case take_entries E now (sr_Peers sync) [] a of
             (a, None) \<Rightarrow> Some a
           | (a, Some desired) \<Rightarrow> apply_host E sync (apply_peers E desired a)))"

subsection \<open>What the steps leave alone\<close>

text \<open>The part of the agent that only \<open>apply_peers\<close> and \<open>apply_host\<close> change.\<close>

definition enforced :: "'h agent \<Rightarrow> device \<times> bool \<times> bool \<times> bool" where
  "enforced a = (ag_device a, ag_gatewayForwardOn a, ag_exitRoutesOn a, ag_exitNATOn a)"

lemma applySelfAssignment_enforced: "enforced (snd (applySelfAssignment E sync a)) = enforced a"
  by (simp add: applySelfAssignment_def enforced_def Let_def split: sum.splits prod.splits bool.splits)

lemma applyDNS_enforced: "enforced (snd (applyDNS E cfg a)) = enforced a"
  by (simp add: applyDNS_def enforced_def Let_def split: prod.splits dns_result.splits)

lemma adopt_enforced: "enforced (snd (adopt E sync a)) = enforced a"
proof -
  let ?a = "if sr_STUNServers sync \<noteq> [] then a\<lparr>ag_stunServers := sr_STUNServers sync\<rparr> else a"
  obtain ok b where b: "applySelfAssignment E sync ?a = (ok, b)" by fastforce
  have "enforced ?a = enforced a" by (simp add: enforced_def)
  then have "enforced b = enforced a" using applySelfAssignment_enforced [of E sync ?a] b by simp
  then show ?thesis unfolding adopt_def b using applyDNS_enforced [of E "sr_DNS sync" b] by (cases ok) simp_all
qed

lemma take_entry_keeps:
  "enforced (take_entry E now e cfg a) = enforced a" "ag_host (take_entry E now e cfg a) = ag_host a"
  "ag_selfAddr6 (take_entry E now e cfg a) = ag_selfAddr6 a"
  by (simp_all add: take_entry_def enforced_def Let_def)

lemma take_entries_keeps:
  "enforced (fst (take_entries E now es desired a)) = enforced a" "ag_host (fst (take_entries E now es desired a)) = ag_host a"
  by (induction es arbitrary: desired a) (simp_all add: take_entry_keeps split: sum.splits)

lemma take_entries_result:
  "snd (take_entries E now es desired a) =
     (case foldE (\<lambda>e cfgs. bindE (peerConfigFromProto (ae_parseKey E) (ae_resolve E) e) (\<lambda>cfg. Inr (cfgs @ [cfg]))) es desired of
        Inl _ \<Rightarrow> None | Inr cfgs \<Rightarrow> Some cfgs)"
  by (induction es arbitrary: desired a) (simp_all split: sum.splits)

lemma take_entries_refused:
  assumes "e \<in> set es" "isl (peerConfigFromProto (ae_parseKey E) (ae_resolve E) e)"
  shows "snd (take_entries E now es desired a) = None"
  using assms by (induction es arbitrary: desired a) (auto split: sum.splits)

lemma applySync_refused:
  assumes "e \<in> set (sr_Peers sync)" "isl (peerConfigFromProto (ae_parseKey E) (ae_resolve E) e)"
  shows "\<exists>a'. applySync E now sync a = Some a' \<and> enforced a' = enforced a \<and> ag_host a' = ag_host (snd (adopt E sync a))"
proof -
  obtain ok b where b: "adopt E sync a = (ok, b)" by (cases "adopt E sync a")
  obtain c r where c: "take_entries E now (sr_Peers sync) [] b = (c, r)" by fastforce
  have "enforced b = enforced a" using adopt_enforced [of E sync a] b by simp
  moreover have "r = None" "enforced c = enforced b" "ag_host c = ag_host b"
    using take_entries_refused [OF assms, of now "[]" b] take_entries_keeps [of E now "sr_Peers sync" "[]" b] c by simp_all
  ultimately show ?thesis using b c by (cases ok) (simp_all add: applySync_def)
qed

subsection \<open>One endpoint that does not resolve\<close>

lemma public_endpoint_first:
  assumes "CandidatesJSON x = []" "PublicEndpoint x \<noteq> []" "\<not> sameNAT self x"
  obtains rest where "endpointCandidates self x = \<lparr>ec_Endpoint = PublicEndpoint x, ec_Type = ''stun'', ec_Priority = 90\<rparr> # rest"
proof (cases "lanEndpoint x")
  case None
  then show thesis
    using assms that by (simp add: endpointCandidates_def cross_nat_proposals_def agentCandidates_def of_type_def lan_proposal_def
        sortCandidates_def maxEndpointCandidates_def)
next
  case (Some lan)
  then show thesis
    using assms that by (cases "lan = [] \<or> lan = PublicEndpoint x") (simp_all add: endpointCandidates_def
        cross_nat_proposals_def agentCandidates_def of_type_def lan_proposal_def sortCandidates_def maxEndpointCandidates_def)
qed

text \<open>
  C40: One peer can stop every other from being configured. The server keeps the public
  endpoint an agent reports as it is and gives it out as the first candidate; an agent that
  cannot resolve it refuses the whole response, so that neither its peers, nor its firewall,
  nor its forwarding state follow the control plane any more: revocations included.
\<close>

theorem one_endpoint_blocks_sync:
  assumes "x \<in> set others" "direct_peer self x" "\<not> is_static x" "CandidatesJSON x = []" "PublicEndpoint x \<noteq> []"
    and "\<not> sameNAT self x" "observed_pair env self x sv = None"
    and "ae_resolve E (PublicEndpoint x) = None" "sr_Peers sync = buildPeerEntries env sv self others"
  shows "\<exists>a'. applySync E now sync a = Some a' \<and> enforced a' = enforced a \<and> ag_host a' = ag_host (snd (adopt E sync a))"
proof -
  let ?e = "peer_entry env sv self others x"
  obtain rest where "endpointCandidates self x = \<lparr>ec_Endpoint = PublicEndpoint x, ec_Type = ''stun'', ec_Priority = 90\<rparr> # rest"
    by (rule public_endpoint_first [OF assms(4-6)])
  then have "entry_endpoint ?e = PublicEndpoint x"
    using assms(3,7) by (simp add: entry_endpoint_def peer_entry_def pairCandidates_def Let_def)
  then have "isl (peerConfigFromProto (ae_parseKey E) (ae_resolve E) ?e)"
    using assms(5,8) by (simp add: peerConfigFromProto_def resolve_entry_def split: option.splits)
  moreover have "?e \<in> set (sr_Peers sync)" using assms(1,2,9) by (simp add: buildPeerEntries_def)
  ultimately show ?thesis by (intro applySync_refused)
qed

text \<open>The second peer of the demo mesh reports a host name nobody knows.\<close>

definition demo_stray :: PeerRow where
  "demo_stray = (scan_peer demo_peer2)\<lparr>PublicEndpoint := ''nowhere.invalid:1'', CandidatesJSON := []\<rparr>"

theorem one_endpoint_blocks_sync_witness:
  "\<forall>(E :: unit agent_env) env now (sync :: SyncResponse) a.
     \<exists>a'. applySync (E\<lparr>ae_resolve := \<lambda>_. None\<rparr>) now
            (sync\<lparr>sr_Peers := buildPeerEntries env demo_server (scan_peer demo_peer) [demo_stray]\<rparr>) a = Some a' \<and>
          enforced a' = enforced a"
proof (intro allI)
  fix E :: "unit agent_env" and env now a and sync :: SyncResponse
  let ?E = "E\<lparr>ae_resolve := \<lambda>_. None\<rparr>"
  let ?sync = "sync\<lparr>sr_Peers := buildPeerEntries env demo_server (scan_peer demo_peer) [demo_stray]\<rparr>"
  have "direct_peer (scan_peer demo_peer) demo_stray" "\<not> is_static demo_stray" "PublicEndpoint demo_stray \<noteq> []"
    "CandidatesJSON demo_stray = []" "\<not> sameNAT (scan_peer demo_peer) demo_stray"
    by code_simp+
  moreover have "observed_pair env (scan_peer demo_peer) demo_stray demo_server = None"
    by (simp add: observed_pair_def demo_server_def)
  ultimately show "\<exists>a'. applySync ?E now ?sync a = Some a' \<and> enforced a' = enforced a"
    using one_endpoint_blocks_sync [of demo_stray "[demo_stray]" "scan_peer demo_peer" env demo_server ?E ?sync now a] by auto
qed

subsection \<open>Every step returns\<close>

definition returns :: "'h act \<Rightarrow> bool" where
  "returns f \<longleftrightarrow> (\<forall>h. f h \<noteq> None)"

named_theorems ret

lemma returns_basic [ret]:
  "returns okA" "returns (cmdA exec tool args)" "returns (\<lambda>h. Some (g h))" "returns (setFlag b)"
  by (simp_all add: returns_def okA_def cmdA_def setFlag_def)

lemma returns_thenA [ret]: "returns f \<Longrightarrow> returns g \<Longrightarrow> returns (thenA f g)"
  by (simp add: returns_def thenA_def split: option.splits)

lemma returns_orA [ret]: "returns f \<Longrightarrow> returns g \<Longrightarrow> returns (orA f g)"
  by (simp add: returns_def orA_def split: option.splits)

lemma returns_tryA [ret]: "returns f \<Longrightarrow> returns (tryA f)"
  by (simp add: returns_def tryA_def)

lemma returns_onHost [ret]: "returns f \<Longrightarrow> returns (onHost f)"
  by (simp add: returns_def onHost_def)

lemma returns_seqA [ret]: "(\<And>f. f \<in> set fs \<Longrightarrow> returns f) \<Longrightarrow> returns (seqA fs)"
  by (induction fs) (auto intro: ret)

lemma returns_delete [ret]: "rule_ok rule \<Longrightarrow> returns (deleteTablesRule iptables bin rule)"
  unfolding returns_def by (metis delete_effect option.distinct(1) prod_cases3)

lemma returns_at: "returns f \<Longrightarrow> \<exists>ok h'. f h = Some (ok, h')"
  unfolding returns_def by (metis option.exhaust surj_pair)

lemma returns_if [ret]: "returns f \<Longrightarrow> returns g \<Longrightarrow> returns (\<lambda>h. if c h then f h else g h)"
  by (simp add: returns_def)

lemma returns_option [ret]: "returns f \<Longrightarrow> (\<And>x. returns (g x)) \<Longrightarrow> returns (\<lambda>h. case v h of None \<Rightarrow> f h | Some x \<Rightarrow> g x h)"
  by (simp add: returns_def split: option.split)

lemma returns_sum [ret]: "(\<And>e. returns (f e)) \<Longrightarrow> (\<And>x. returns (g x)) \<Longrightarrow> returns (\<lambda>h. case v h of Inl e \<Rightarrow> f e h | Inr x \<Rightarrow> g x h)"
  by (simp add: returns_def split: sum.split)

lemma returns_forwarding [ret]: "returns (ensureForwarding H path)"
  unfolding ensureForwarding_def [abs_def] by (intro ret)

lemma returns_ensure [ret]: "returns (ensureTablesRule exec bin rule)" "returns (ensureIPTablesRule exec rule)"
  by (simp_all add: ensureTablesRule_def ensureIPTablesRule_def ret)

lemma returns_acl: "returns (applyOverlayACL exec iface policy)"
  by (auto simp: applyOverlayACL_def applyOverlayACLFamily_def disableOverlayACL_def acl_prepare_def ensureJump_def append_cmd_def
      split: option.splits intro!: ret)

lemma returns_gateway_nat: "returns (refreshGatewayNAT exec iface raw)"
  unfolding refreshGatewayNAT_def [abs_def] ensureGatewayNATRules_def by (intro ret) (auto intro: ret)

lemma returns_gateway:
  assumes "h_exec H = iptables"
  shows "returns (applyGatewayRoutes H iface routes)"
proof -
  have "rule_ok r" if "r \<in> set (gatewayForwardRules iface)" for r
    using that by (auto simp: gatewayForwardRules_def rule_ok_def)
  then show ?thesis
    unfolding applyGatewayRoutes_def [abs_def] assms deleteIPTablesRule_def [abs_def]
    by (intro ret) (auto intro: ret split: if_splits)
qed

lemma returns_exit_routes: "returns (applyExitRoutes H iface active v6)"
proof -
  have rules: "returns (del_rule H r)" "returns (add_rule H r)" for r
    by (simp_all add: returns_def del_rule_def add_rule_def split: prod.split)
  have "returns (del_routes H f)" for f
    unfolding del_routes_def [abs_def] by (intro ret) (auto intro: ret)
  with rules have "returns (teardownExitRoutes H)" "returns (install_family H l f)" for l f
    by (auto simp: teardownExitRoutes_def install_family_def intro!: ret)
  then show ?thesis unfolding applyExitRoutes_def [abs_def] by (intro ret) (auto intro: ret)
qed

lemma returns_exit_nat:
  assumes "h_exec H = iptables"
  shows "returns (applyExitNodeNAT H iface active net4 net6)"
proof -
  have jump: "rule_ok [''FORWARD'', ''-j'', exitChain]" by (simp add: rule_ok_def)
  have "returns (delete_line H bin line)" for bin line by (auto simp: delete_line_def Let_def intro!: ret)
  then have "returns (delete_marked H bin)" for bin
    unfolding delete_marked_def [abs_def] by (intro ret) auto
  then have teardown: "returns (teardownExitNAT H)" using jump by (auto simp: teardownExitNAT_def assms intro!: ret)
  have "returns (ensureExitJumpFirst H bin)" for bin
    unfolding ensureExitJumpFirst_def [abs_def] assms using jump by (intro ret)
  then have "returns (ensureExitNATFamily H bin iface net)" for bin net
    by (auto simp: ensureExitNATFamily_def Let_def intro!: ret)
  with teardown show ?thesis
    unfolding applyExitNodeNAT_def [abs_def] by (intro ret) (auto intro: ret split: if_splits)
qed

lemma apply_host_returns:
  assumes "h_exec (ae_host E) = iptables"
  shows "\<exists>a'. apply_host E sync a = Some a' \<and> ag_device a' = ag_device a"
proof -
  have step: "\<exists>a'. on_host f a = Some a' \<and> ag_device a' = ag_device a" if "returns f" for f and a :: "tables agent"
    using returns_at [OF that, of "ag_host a"] by (auto simp: on_host_def)
  have gw: "\<exists>a'. apply_gateway E r a = Some a' \<and> ag_device a' = ag_device a" for r a
    using returns_at [OF returns_gateway [OF assms], of "ae_iface E" r "(ag_host a, ag_gatewayForwardOn a)"] by (auto simp: apply_gateway_def)
  have ex: "\<exists>a'. apply_exit_routes E x a = Some a' \<and> ag_device a' = ag_device a" for x a
    using returns_at [OF returns_exit_routes, of "ae_host E" "ae_iface E" x "ag_selfAddr6 a \<noteq> []" "(ag_host a, ag_exitRoutesOn a)"]
    by (auto simp: apply_exit_routes_def)
  have nat: "\<exists>a'. apply_exit_nat E x a = Some a' \<and> ag_device a' = ag_device a" for x a
    using returns_at [OF returns_exit_nat [OF assms], of "ae_iface E" x "rp_network (ag_reporter a)" "rp_network6 (ag_reporter a)"
      "(ag_host a, ag_exitNATOn a)"] by (auto simp: apply_exit_nat_def)
  obtain a1 where a1: "on_host (applyOverlayACL (h_exec (ae_host E)) (ae_iface E) (Some (sr_ACL sync))) a = Some a1"
    "ag_device a1 = ag_device a" using step [OF returns_acl] by blast
  obtain a2 where a2: "on_host (refreshGatewayNAT (h_exec (ae_host E)) (ae_iface E) (ae_gatewayNATCIDRs E)) a1 = Some a2"
    "ag_device a2 = ag_device a1" using step [OF returns_gateway_nat] by blast
  obtain a3 where a3: "apply_gateway E (sr_GatewayRoutes sync) a2 = Some a3" "ag_device a3 = ag_device a2" using gw by blast
  obtain a4 where a4: "apply_exit_routes E (list_ex pc_ExitNode (sr_Peers sync)) a3 = Some a4" "ag_device a4 = ag_device a3"
    using ex by blast
  show ?thesis using nat [of "sr_ExitNodeActive sync" a4] a1 a2 a3 a4 by (simp add: apply_host_def)
qed

subsection \<open>From the rows of the server to the device\<close>

text \<open>The texts of routes the server writes: networks without host bits, printed as such.\<close>

definition route_text :: "string \<Rightarrow> bool" where
  "route_text t \<longleftrightarrow> (case ParseCIDR t of None \<Rightarrow> False | Some p \<Rightarrow> plain_prefix p \<and> prefix_String p = t)"

lemma no_slash:
  assumes "addr_IsValid a" "addr_Zone a = []"
  shows "CHR ''/'' \<notin> set (addr_String a)"
proof -
  have "list_all addr_char (addr_String a)"
    using assms addr_char_print4 addr_char_print6 by (cases a) (auto simp: print6_def)
  then show ?thesis by (auto simp: list_all_iff addr_char_def is_hex_def hex_val1_def)
qed

lemma ParseCIDR_String:
  assumes "plain_prefix p" "Masked p = p"
  shows "ParseCIDR (prefix_String p) = Some p"
proof -
  obtain a b where p: "p = Prefix a b" "addr_IsValid a" "b \<le> BitLen a" "addr_Zone a = []"
    using assms(1) by (cases p) (auto simp: plain_prefix_def)
  have "Cut CHR ''/'' (addr_String a @ CHR ''/'' # dec b) = Some (addr_String a, dec b)"
    by (rule Cut_append [OF no_slash [OF p(2,4)]])
  moreover have "list_all is_digit (dec b)" using dec_digits by (simp add: list_all_iff)
  ultimately show ?thesis
    using p assms(2) ParseAddr_String [OF p(2)] by (simp add: ParseCIDR_def dec_val_dec dec_ne)
qed

lemma route_textI: "plain_prefix p \<Longrightarrow> Masked p = p \<Longrightarrow> route_text (prefix_String p)"
  by (simp add: route_text_def ParseCIDR_String)

lemma host_route4:
  assumes "host_text n t" "Is4 (prefix_Addr n)"
  shows "route_text (t @ ''/32'')"
proof -
  obtain h where h: "addr_String h = t" "Contains n h" using assms(1) by (auto simp: host_text_def split: option.splits)
  then obtain w where w: "h = V4 w" using assms(2) by (cases n; cases h) (auto elim!: Is4.elims)
  have "dec 32 = ''32''" by code_simp
  then have "prefix_String (Prefix (V4 w) 32) = t @ ''/32''" using h(1) w by simp
  moreover have "route_text (prefix_String (Prefix (V4 w) 32))"
    by (rule route_textI) (simp_all add: plain_prefix_def clear_low_def)
  ultimately show ?thesis by simp
qed

lemma host_route6:
  assumes "host_text n t" "overlay_net n" "Is6 (prefix_Addr n)"
  shows "route_text (t @ ''/128'')"
proof -
  obtain h where h: "addr_String h = t" "Contains n h" using assms(1) by (auto simp: host_text_def split: option.splits)
  obtain w where w: "h = V6 w []" using assms(2,3) h(2) by (cases n rule: overlay_netE; cases h) auto
  have "dec 128 = ''128''" by code_simp
  then have "prefix_String (Prefix (V6 w []) 128) = t @ ''/128''" using h(1) w by simp
  moreover have "route_text (prefix_String (Prefix (V6 w []) 128))"
    by (rule route_textI) (simp_all add: plain_prefix_def clear_low_def)
  ultimately show ?thesis by simp
qed

lemma default_route_text: "list_all route_text default_routes"
proof -
  have "prefix_String (Prefix (V4 0) 0) = ''0.0.0.0/0''" "prefix_String (Prefix (V6 0 []) 0) = ''::/0''" by code_simp+
  moreover have "route_text (prefix_String (Prefix (V4 0) 0))" "route_text (prefix_String (Prefix (V6 0 []) 0))"
    by (rule route_textI; simp add: plain_prefix_def clear_low_def)+
  ultimately show ?thesis by (simp add: default_routes_def)
qed

lemma row_routes:
  assumes "store_inv s" "PeersForID i s = Inr (self, others)" "x \<in> set others"
  shows "list_all route_text (allowedIPsForPeer x)"
proof -
  obtain q where q: "q \<in> set (peers (st_db s))" "x = scan_peer q"
    using assms(2,3) by (auto simp: PeersForID_def listVisible_mem split: option.splits)
  have n: "Is4 (prefix_Addr (st_network s))" "Network6 s = PrefixZero \<or> overlay_net (Network6 s) \<and> Is6 (prefix_Addr (Network6 s))"
    and h: "host_text (st_network s) (p_assigned_ip q)" "\<And>t. p_assigned_ip6 q = Some t \<Longrightarrow> host_text (Network6 s) t"
    using assms(1) q(1) by (auto simp: store_inv_def nets_ok_def addrs_inv_def list_all_iff split: option.splits)
  have "route_text (t @ ''/128'')" if "p_assigned_ip6 q = Some t" for t
    using host_route6 [OF h(2) [OF that]] n(2) h(2) [OF that] by (auto simp: host_text_def split: option.splits)
  then show ?thesis
    using host_route4 [OF h(1) n(1)] q(2) by (cases "p_assigned_ip6 q") (simp_all add: allowedIPsForPeer_def scan_peer_def)
qed

lemma entry_route_texts:
  assumes "store_inv s" "PeersForID i s = Inr (self, others)" "x \<in> set others"
  shows "list_all route_text (pc_AllowedIPs (peer_entry env sv self others x))"
  using row_routes [OF assms(1,2)] assms(3) default_route_text
  by (auto simp: peer_entry_AllowedIPs list_all_iff carried_def mobiles_mem split: if_splits)

subsection \<open>The peers a sync leaves on the device\<close>

definition route_of :: "string \<Rightarrow> prefix" where
  "route_of t = the (ParseCIDR t)"

lemma route_of_text: "route_text t \<Longrightarrow> ParseCIDR t = Some (route_of t) \<and> plain_prefix (route_of t) \<and> prefix_String (route_of t) = t"
  by (auto simp: route_text_def route_of_def split: option.splits)

lemma parse_allowed_all: "list_all route_text ts \<Longrightarrow> foldE parse_allowed ts acc = Inr (acc @ map route_of ts)"
  by (induction ts arbitrary: acc) (auto simp: parse_allowed_def route_of_text)

text \<open>What the agent needs of the entry of a row: a key, and an endpoint it can resolve or none.\<close>

definition usable :: "'h agent_env \<Rightarrow> PeerConfigResponse \<Rightarrow> bool" where
  "usable E e \<longleftrightarrow> ae_parseKey E (pc_PublicKey e) \<noteq> None \<and> (entry_endpoint e = [] \<or> ae_resolve E (entry_endpoint e) \<noteq> None)"

definition cfg_of :: "'h agent_env \<Rightarrow> PeerConfigResponse \<Rightarrow> PeerConfig" where
  "cfg_of E e = projr (peerConfigFromProto (ae_parseKey E) (ae_resolve E) e)"

lemma usable_cfg:
  assumes "usable E e" "list_all route_text (pc_AllowedIPs e)" "pc_PresharedKey e = Some t" "ae_parseKey E t = Some psk"
  shows "peerConfigFromProto (ae_parseKey E) (ae_resolve E) e = Inr (cfg_of E e)"
    "Some (cf_PublicKey (cfg_of E e)) = ae_parseKey E (pc_PublicKey e)" "cf_PresharedKey (cfg_of E e) = Some psk"
    "cf_Keepalive (cfg_of E e) = map_option (\<lambda>n. n * second) (pc_PersistentKeepaliveInterval e)"
    "cf_AllowedIPs (cfg_of E e) = map route_of (pc_AllowedIPs e)" "\<not> cf_Remove (cfg_of E e)" "\<not> cf_UpdateOnly (cfg_of E e)"
proof -
  obtain k where k: "ae_parseKey E (pc_PublicKey e) = Some k" using assms(1) by (auto simp: usable_def)
  have "\<not> isl (resolve_entry (ae_resolve E) (entry_endpoint e))"
    using assms(1) by (auto simp: usable_def resolve_entry_def)
  then obtain u where u: "resolve_entry (ae_resolve E) (entry_endpoint e) = Inr u" by (metis isl_def sum.exhaust)
  note eq = peerConfigFromProto_def k u parse_allowed_all [OF assms(2), of "[]"] parse_psk_def assms(3,4)
  show "peerConfigFromProto (ae_parseKey E) (ae_resolve E) e = Inr (cfg_of E e)"
    "Some (cf_PublicKey (cfg_of E e)) = ae_parseKey E (pc_PublicKey e)" "cf_PresharedKey (cfg_of E e) = Some psk"
    "cf_Keepalive (cfg_of E e) = map_option (\<lambda>n. n * second) (pc_PersistentKeepaliveInterval e)"
    "cf_AllowedIPs (cfg_of E e) = map route_of (pc_AllowedIPs e)" "\<not> cf_Remove (cfg_of E e)" "\<not> cf_UpdateOnly (cfg_of E e)"
    by (simp_all add: cfg_of_def eq)
qed

lemma take_entries_all:
  assumes "\<And>e. e \<in> set es \<Longrightarrow> peerConfigFromProto (ae_parseKey E) (ae_resolve E) e = Inr (cfg_of E e)"
  shows "snd (take_entries E now es desired a) = Some (desired @ map (cfg_of E) es)"
  using assms by (induction es arbitrary: desired a) auto

lemma desired_find_row:
  assumes "\<And>x. x \<in> set xs \<Longrightarrow> Some (cf_PublicKey (c x)) = pk x"
  shows "List.find (\<lambda>d. cf_PublicKey d = k) (map c xs) = map_option c (List.find (\<lambda>x. pk x = Some k) xs)"
  using assms by (induction xs) (auto, metis option.inject)

text \<open>What one row of the database means on the device.\<close>

definition row_settings :: "env \<Rightarrow> server \<Rightarrow> PeerRow \<Rightarrow> PeerRow list \<Rightarrow> PeerRow \<Rightarrow> settings" where
  "row_settings env sv self others x =
     (DerivePairKey (e_sha256 env) (sv_pskMaster sv) (PublicKey self) (PublicKey x), keepaliveOrDefault sv * second,
      set (map route_of (pc_AllowedIPs (peer_entry env sv self others x))))"

lemma entry_cfg:
  assumes "store_inv s" "PeersForID i s = Inr (self, others)" "x \<in> set others" "usable E (peer_entry env sv self others x)"
    and "\<And>k. ae_parseKey E (KeyString (e_wg env) k) = Some k"
  defines "e \<equiv> peer_entry env sv self others x"
  shows "peerConfigFromProto (ae_parseKey E) (ae_resolve E) e = Inr (cfg_of E e)"
    "Some (cf_PublicKey (cfg_of E e)) = ae_parseKey E (PublicKey x)"
    "cf_AllowedIPs (cfg_of E e) = map route_of (pc_AllowedIPs e)" "cf_PresharedKey (cfg_of E e) \<noteq> None"
    "cf_Keepalive (cfg_of E e) \<noteq> None" "\<not> cf_Remove (cfg_of E e)" "\<not> cf_UpdateOnly (cfg_of E e)"
    "(the (cf_PresharedKey (cfg_of E e)), the (cf_Keepalive (cfg_of E e)), set (cf_AllowedIPs (cfg_of E e))) =
       row_settings env sv self others x"
proof -
  have ent: "pc_PublicKey e = PublicKey x"
    "pc_PresharedKey e = Some (KeyString (e_wg env) (DerivePairKey (e_sha256 env) (sv_pskMaster sv) (PublicKey self) (PublicKey x)))"
    "pc_PersistentKeepaliveInterval e = Some (keepaliveOrDefault sv)"
    by (simp_all add: e_def peer_entry_def Let_def)
  note cfg = usable_cfg [OF assms(4) entry_route_texts [OF assms(1-3)], folded e_def, OF ent(2) assms(5)]
  from cfg ent show "peerConfigFromProto (ae_parseKey E) (ae_resolve E) e = Inr (cfg_of E e)"
    "Some (cf_PublicKey (cfg_of E e)) = ae_parseKey E (PublicKey x)"
    "cf_AllowedIPs (cfg_of E e) = map route_of (pc_AllowedIPs e)" "cf_PresharedKey (cfg_of E e) \<noteq> None"
    "cf_Keepalive (cfg_of E e) \<noteq> None" "\<not> cf_Remove (cfg_of E e)" "\<not> cf_UpdateOnly (cfg_of E e)"
    "(the (cf_PresharedKey (cfg_of E e)), the (cf_Keepalive (cfg_of E e)), set (cf_AllowedIPs (cfg_of E e))) =
       row_settings env sv self others x"
    by (simp_all add: row_settings_def e_def)
qed

lemma entries_desired:
  assumes "store_inv s" "PeersForID i s = Inr (self, others)"
    and "\<And>k. ae_parseKey E (KeyString (e_wg env) k) = Some k" "inj_on (ae_parseKey E) (PublicKey ` set others)"
    and "list_all (usable E) (buildPeerEntries env sv self others)"
  defines "desired \<equiv> map (cfg_of E) (buildPeerEntries env sv self others)"
  shows "desired_ok desired"
    and "desired_settings desired = (\<lambda>k. map_option (row_settings env sv self others)
      (List.find (\<lambda>x. ae_parseKey E (PublicKey x) = Some k) (filter (direct_peer self) others)))"
proof -
  define xs where "xs = filter (direct_peer self) others"
  define ent where "ent = peer_entry env sv self others"
  define c where "c x = cfg_of E (ent x)" for x
  have es: "buildPeerEntries env sv self others = map ent xs" by (simp add: buildPeerEntries_def ent_def xs_def)
  have desired: "desired = map c xs" by (simp add: desired_def es c_def comp_def)
  note rows = PeersForID_rows [OF assms(1,2)]
  have xs: "x \<in> set others" if "x \<in> set xs" for x using that by (simp add: xs_def)
  have u: "usable E (ent x)" if "x \<in> set xs" for x using assms(5) that by (auto simp: es list_all_iff)
  note cfg = entry_cfg [OF assms(1,2) xs u [unfolded ent_def] assms(3), folded ent_def, folded c_def]
  have texts: "list_all route_text (pc_AllowedIPs (ent x))" if "x \<in> set xs" for x
    unfolding ent_def by (rule entry_route_texts [OF assms(1,2) xs [OF that]])
  have "inj_on (\<lambda>x. cf_PublicKey (c x)) (set xs)"
  proof (rule inj_onI)
    fix x y assume xy: "x \<in> set xs" "y \<in> set xs" "cf_PublicKey (c x) = cf_PublicKey (c y)"
    then have "ae_parseKey E (PublicKey x) = ae_parseKey E (PublicKey y)" using cfg(2) by metis
    then have "PublicKey x = PublicKey y" using inj_onD [OF assms(4)] xs xy(1,2) by blast
    then show "x = y" using rows xs xy(1,2) by (auto simp: rows_ok_def dest: inj_onD)
  qed
  moreover have "distinct xs" using rows by (auto simp: rows_ok_def xs_def distinct_map)
  ultimately have keys: "distinct (map cf_PublicKey desired)" by (simp add: desired distinct_map comp_def)
  have "concat (map cf_AllowedIPs desired) = map route_of (concat (map (\<lambda>x. pc_AllowedIPs (ent x)) xs))"
    by (simp add: desired map_concat comp_def cfg(3) cong: map_cong)
  moreover have "inj_on route_of (set (concat (map (\<lambda>x. pc_AllowedIPs (ent x)) xs)))"
    using texts by (auto simp: list_all_iff intro!: inj_onI) (metis route_of_text)
  moreover have "distinct (concat (map (\<lambda>x. pc_AllowedIPs (ent x)) xs))"
    using entries_routes(1) [OF rows, of env sv] by (simp add: es comp_def)
  ultimately have "distinct (concat (map cf_AllowedIPs desired))" by (simp add: distinct_map)
  with keys show "desired_ok desired"
    using cfg(3-7) texts by (auto simp: desired_ok_def desired list_all_iff route_of_text)
  have "desired_settings desired k = map_option (row_settings env sv self others)
      (List.find (\<lambda>x. ae_parseKey E (PublicKey x) = Some k) xs)" for k
    using cfg(8) desired_find_row [of xs c "\<lambda>x. ae_parseKey E (PublicKey x)" k] cfg(2)
    by (auto simp: desired_settings_def desired option.map_comp comp_def dest: find_Some_mem intro!: option.map_cong)
  then show "desired_settings desired = (\<lambda>k. map_option (row_settings env sv self others)
      (List.find (\<lambda>x. ae_parseKey E (PublicKey x) = Some k) (filter (direct_peer self) others)))"
    unfolding xs_def by (rule ext)
qed

text \<open>
  C5: The control plane's rows reach the device. An agent that takes the response built for it,
  on a host and a device that do what is documented, and with keys and endpoints it can read,
  finishes the sync; whatever its device held before, afterwards the device has exactly the
  peers the database lets the agent see directly, each with the preshared key of the pair, the
  keepalive of the mesh and the routes of the row and of the peers behind it.
\<close>

theorem sync_reaches_device:
  assumes "store_inv (sv_store sv)" "PeersForID i (sv_store sv) = Inr (self, others)"
    and "sr_Peers sync = buildPeerEntries env sv self others" "list_all (usable E) (sr_Peers sync)"
    and "\<And>k. ae_parseKey E (KeyString (e_wg env) k) = Some k" "inj_on (ae_parseKey E) (PublicKey ` set others)"
    and "\<And>cs dev. ae_configure E cs dev = Inr (fold wg_apply cs dev)" "h_exec (ae_host E) = iptables"
    and "device_ok (ag_device a)" "fst (adopt E sync a)"
  shows "\<exists>a'. applySync E now sync a = Some a' \<and>
    device_settings (ag_device a') = (\<lambda>k. map_option (row_settings env sv self others)
      (List.find (\<lambda>x. ae_parseKey E (PublicKey x) = Some k) (filter (direct_peer self) others)))"
proof -
  let ?es = "buildPeerEntries env sv self others"
  let ?desired = "map (cfg_of E) ?es"
  note d = entries_desired [OF assms(1,2,5,6) assms(4) [unfolded assms(3)]]
  obtain b where b: "adopt E sync a = (True, b)" "ag_device b = ag_device a"
    using adopt_enforced [of E sync a] assms(10) by (cases "adopt E sync a") (simp add: enforced_def)
  obtain c where c: "take_entries E now ?es [] b = (c, Some ?desired)" "ag_device c = ag_device b"
  proof -
    have "peerConfigFromProto (ae_parseKey E) (ae_resolve E) e = Inr (cfg_of E e)" if "e \<in> set ?es" for e
      using that entry_cfg(1) [OF assms(1,2) _ _ assms(5)] assms(3,4) by (auto simp: buildPeerEntries_def list_all_iff)
    from take_entries_all [of ?es, OF this, of now "[]" b] take_entries_keeps(1) [of E now ?es "[]" b] that show thesis
      by (cases "take_entries E now ?es [] b") (simp add: enforced_def)
  qed
  let ?cs = "sync_changes (ag_device a) ?desired"
  have "ag_device (apply_peers E ?desired c) = fold wg_apply ?cs (ag_device a)"
    using b(2) c(2) assms(7) by (simp add: apply_peers_def syncPeers_def Let_def)
  moreover obtain a' where "apply_host E sync (apply_peers E ?desired c) = Some a'"
    "ag_device a' = ag_device (apply_peers E ?desired c)" using apply_host_returns [OF assms(8)] by blast
  ultimately show ?thesis
    using b(1) c(1) sync_settings [OF assms(9) d(1) refl] d(2) assms(3) by (simp add: applySync_def)
qed

theorem sync_reaches_device_witness:
  "\<exists>self others. PeersForID 1 (sv_store demo_server) = Inr (self, others) \<and>
     (\<forall>(E :: tables agent_env) env now (sync :: SyncResponse) a.
        \<exists>a'. applySync (E\<lparr>ae_parseKey := Some, ae_resolve := \<lambda>_. Some (V4 0, 1), ae_host := demo_host,
                ae_configure := \<lambda>cs dev. Inr (fold wg_apply cs dev)\<rparr>) now
              (sync\<lparr>sr_AssignedIP := [],
                sr_Peers := buildPeerEntries (env\<lparr>e_wg := (e_wg env)\<lparr>KeyString := \<lambda>k. k\<rparr>\<rparr>) demo_server self others\<rparr>)
              (a\<lparr>ag_device := []\<rparr>) = Some a' \<and>
          device_settings (ag_device a') ''pkB'' \<noteq> None)"
proof -
  define self where "self = (scan_peer demo_peer)\<lparr>Hostname := []\<rparr>"
  define others where "others = [scan_peer demo_peer2]"
  have inv: "store_inv (sv_store demo_server)" and p: "PeersForID 1 (sv_store demo_server) = Inr (self, others)"
    using demo_store2_inv unfolding demo_server_def self_def others_def by (simp, code_simp)
  have found: "List.find (\<lambda>x. Some (PublicKey x) = Some ''pkB'') (filter (direct_peer self) others) = Some (scan_peer demo_peer2)"
    unfolding self_def others_def by code_simp
  have run1: "\<exists>a'. applySync E now sync b = Some a' \<and> device_settings (ag_device a') ''pkB'' \<noteq> None"
    if "ae_parseKey E = Some" "ae_resolve E = (\<lambda>_. Some (V4 0, 1))" "ae_host E = demo_host"
      "ae_configure E = (\<lambda>cs dev. Inr (fold wg_apply cs dev))" "sr_AssignedIP sync = []"
      "sr_Peers sync = buildPeerEntries env demo_server self others" "KeyString (e_wg env) = (\<lambda>k. k)" "ag_device b = []"
    for E :: "tables agent_env" and env now and sync :: SyncResponse and b
  proof -
    have "list_all (usable E) (sr_Peers sync)" using that(1,2) by (simp add: usable_def list_all_iff)
    moreover have "fst (adopt E sync b)" using that(5) by (simp add: adopt_def applySelfAssignment_def)
    moreover have "device_ok (ag_device b)" "h_exec (ae_host E) = iptables"
      using that(3,8) demo_host_documented by (simp_all add: device_ok_def documented_host_def)
    ultimately show ?thesis
      using sync_reaches_device [OF inv p that(6), of E b now] that(1,4,7) found by (auto simp del: not_None_eq)
  qed
  show ?thesis by (rule exI [of _ self], rule exI [of _ others], rule conjI [OF p], intro allI, rule run1, simp_all) simp
qed

end
