(* ===== verification/Spec2Isabelle.thy ===== *)
theory Spec2Isabelle
  imports StoreRuns AdminRuns WsHub AgentSync
begin

text \<open>
  \<^bold>\<open>wgmesh\<close> is a WireGuard mesh in Go. The control plane (\<open>cmd/server\<close> over \<open>internal/store\<close>)
  enrolls agents with setup keys, gives them overlay addresses, keeps the access rules and tells
  every agent in the response to its reports which peers to configure. The agent (\<open>cmd/agent\<close>)
  applies these responses to its WireGuard device, its packet filter and its routes, measures
  traffic, and moves each peer between a direct path and a relay. The relay
  (\<open>internal/relay\<close>, \<open>cmd/relay\<close>) forwards WireGuard datagrams between the two ends of a pair.
  This library models the three programs and proves what makes them correct together.

  \<^bold>\<open>Conventions.\<close> A Go string is a byte string. A function returning \<open>(T, error)\<close> is a sum, \<open>Inl\<close>
  the error (\<open>bindE\<close>, \<open>ensureE\<close>, \<open>foldE\<close> in \<open>Prelude\<close>). A SQL table is the list of its rows in
  rowid order with the constraints of the schema checked on every write (\<open>Schema\<close>). The clock,
  drawn bytes, SHA-256, argon2, key functions, the resolver, sockets, the WireGuard device and
  the commands run on the host are arguments. Where a theorem needs their documented behaviour
  it is a named hypothesis, and the witness of the theorem instantiates it. Word-sized counters
  are words where they wrap; every other number is an integer: byte counters, ids and times do not
  reach the ends of \<open>int64\<close>. A parsed WireGuard key is its bytes, of whatever length the parameter
  \<open>ParseKey\<close> gives. Deriving a pair key cannot fail, since HKDF-SHA256 refuses only more than 255 blocks and
  a key is one; the error paths behind it are left out.

  \<^bold>\<open>Foundations.\<close>
  \<^item> \<open>Prelude\<close>: results, SQL statements, rowids, lemmas on lists; \<open>Runs\<close>: runs of a labelled step
    relation and the locale \<open>preserved\<close>, interpreted for the store, the relay, the hub, the punch
    coordinator and the agent's paths.
  \<^item> \<open>GoStrings\<close>, \<open>GoParse\<close>, \<open>GoTime\<close>, \<open>Json\<close>, \<open>Encoding\<close>: what the program uses of Go's
    library; the codecs share the locale \<open>text_codec\<close>.
  \<^item> \<open>Netip\<close>, \<open>NetipText\<close>: addresses as 32 and 128 bit words, prefixes, their texts and parsers,
    with round trips.

  \<^bold>\<open>The store\<close> (\<open>internal/store\<close>).
  \<^item> \<open>Schema\<close>, \<open>StoreInv\<close>: the tables and the invariant \<open>store_inv\<close>; \<open>Alloc\<close>: address allocation
    (the walks end because an address has a finite rest, \<open>addr_room\<close>).
  \<^item> \<open>Enrollment\<close> (store.go), \<open>PeerAdmin\<close> (admin.go), \<open>StaticPeers\<close> (static.go), \<open>ExitNode\<close>
    (exit.go), \<open>NetworkMigration\<close> (network.go), \<open>Acl\<close> (acl.go), \<open>Dns\<close> (dns.go), \<open>Users\<close> (users.go),
    \<open>Telemetry\<close> and \<open>Tokens\<close> (telemetry.go), \<open>Logs\<close> (audit.go, connections.go, proxy.go, retention;
    locale \<open>retention_log\<close>): one definition per operation, its effect on every branch, and that it
    keeps \<open>store_inv\<close>.
  \<^item> \<open>StoreRuns\<close>: all state-changing operations as one step relation. Every history since the first
    start leaves a well-formed database (\<open>mesh_well_formed\<close>), and no history brings a revoked peer
    back (\<open>revocation_final\<close>).

  \<^bold>\<open>The server\<close> (\<open>cmd/server\<close>).
  \<^item> \<open>Sessions\<close> (ui.go): signed cookies; \<open>Server\<close>: shared state, trusted proxies, secrets, accounts,
    signalling; \<open>Endpoints\<close>: which addresses a peer is offered for another; \<open>Punch\<close>: pair identity,
    pair keys and the coordination of hole punching.
  \<^item> \<open>Observability\<close> (observability.go, views of report.go, connections.go, proxy.go): the ring of request
    lines refines the list of all lines, and the access log is independent of the secrets of a request.
  \<^item> \<open>AdminApi\<close> (admin.go, acl.go, relay.go): the admin handlers and the relay pair handler;
    \<open>DeviceConfig\<close> (mobile.go, \<open>internal/keyseal\<close>): devices without an agent; \<open>AdminRuns\<close>: the admin routes
    of main.go as one dispatcher. The locale \<open>store_change\<close> is what a handler needs of a store operation; it
    is interpreted for each of them, and gives that a request is audited and, with one exception, all or nothing.
  \<^item> \<open>ConfigSync\<close>: the enrollment and report handlers and their responses; \<open>Routes\<close>: the peer list
    assigns every overlay address to one peer, and both ends of a pair are told the same.

  \<^bold>\<open>The relay\<close> (\<open>internal/relay\<close>).
  \<^item> \<open>Relay\<close> (relay.go; locale \<open>relayAllocator\<close>): ports, latching of source addresses, expiry;
    \<open>WsHub\<close> (wshub.go): frames stay inside a pair.

  \<^bold>\<open>The agent\<close> (\<open>cmd/agent\<close>).
  \<^item> \<open>WgDevice\<close> (sync.go, part of main.go): entries to device configurations, and the
    reconciliation of the device, which refines the assignment of the desired settings.
  \<^item> \<open>AgentPaths\<close> (relay.go): the state machine of direct and relayed paths, with a bound on how
    long a probe may stay undecided and what it may be decided on. The endpoints that the path logic writes to
    the device are recorded in \<open>pt_written\<close>; the settings of the device itself are changed by \<open>AgentSync\<close>.
  \<^item> \<open>AgentTelemetry\<close> (telemetry.go, measuring half; locale \<open>link_direction\<close>, interpreted for both
    directions): nothing counted is lost between interface, report and database.
  \<^item> \<open>HostTables\<close>: actions on the host, and the documented behaviour of iptables with a packet
    semantics; \<open>AclFilter\<close> (acl_linux.go): the installed chains decide exactly as the rule table;
    \<open>Gateway\<close> (gateway_linux.go, exitnode_linux.go, mss_linux.go): forwarding, exit node, clamp. The
    loop \<open>deleteTablesRule\<close> has no bound in the code: it is a \<open>partial_function\<close>, whose value None is
    not returning, and is proved to return.
  \<^item> \<open>AgentSync\<close> (telemetry.go, applying half): a whole sync. \<open>sync_reaches_device\<close> composes the chain
    from the rows of the database through the response to the settings of the device.

  \<^bold>\<open>Bounds.\<close> No definition uses fuel. Recursion that is not structural ends by a measure (walks over
  addresses, scanners over text); runs are finite but of any length.

  \<^bold>\<open>Shown to differ from intent.\<close> A rule for any protocol loses its ports
  (\<open>any_protocol_ignores_ports\<close>); a failing firewall run leaves the mesh open (\<open>policy_fails_open\<close>); a
  gateway forwards what the policy drops (\<open>gateway_overrides_policy\<close>); one unresolvable endpoint stops
  the sync of other agents (\<open>one_endpoint_blocks_sync\<close>); a session cookie outlives its deleted user
  (\<open>session_outlives_deleted_user\<close>); a cookie reply moves a latched relay leg
  (\<open>cookie_reply_moves_latch\<close>); the DNS domain flag has no effect on a fresh database
  (\<open>LoadOrInitDNSConfig_ignores_default_domain\<close>); a device registration that cannot read the DNS
  settings answers with an error and keeps the device (\<open>admin_request_recorded\<close>).

  \<^bold>\<open>Not modelled.\<close>
  \<^item> Processes and transport: flag parsing and start-up, the HTTP router, TLS and ACME, the WebSocket and
    QUIC sessions, the HTTP client of a standalone relay, goroutine scheduling, process logging, the web
    page. They are I/O around the operations modelled here.
  \<^item> Platform back ends: the Windows service and its graphical interface, netlink and the
    resolver configuration of the host, packet capture, the userspace device back end.
  \<^item> Protocols implemented by packages outside the repository: STUN messages, UPnP and NAT-PMP,
    JSON decoding of requests, AES-GCM, the token buckets of the rate limiter.
\<close>

end
